(* ===== verification/Prelude.thy ===== *)
theory Prelude
  imports Main "HOL-Library.Word" "HOL-Library.Char_ord" "HOL-Library.List_Lexorder"
begin

text \<open>
  The shared base of the library: names for the machine types, the two result monads the
  components are written in (a plain result \<open>'e + 'a\<close> for pure fallible code, and a state
  passing one for code that mutates a state and may fail), Hoare-style rules for the second,
  and generic facts on lists and words.

  A Rust \<^verbatim>\<open>String\<close> is the list of its UTF-8 bytes, so \<open>length\<close> is \<^verbatim>\<open>len()\<close>, the
  list order is the byte order of \<^verbatim>\<open>BTreeMap<String, _>\<close>, and \<^verbatim>\<open>split\<close>, \<^verbatim>\<open>find\<close> and
  slices at byte offsets are list operations. A \<^verbatim>\<open>usize\<close> is a \<open>nat\<close>; a \<^verbatim>\<open>u32\<close> stays a word.
\<close>

section \<open>Machine types\<close>

type_synonym u8 = "8 word"
type_synonym u16 = "16 word"
type_synonym u32 = "32 word"

named_theorems result_simps "unfolding the result and state-result monads"
named_theorems triple_intro "introduction rules for triples"
named_theorems wf_intro "operations keep well-formedness invariants"

section \<open>Results\<close>

text \<open>The \<^verbatim>\<open>?\<close> operator of Rust on \<^verbatim>\<open>Result\<close>.\<close>

definition rbind :: "'e + 'a \<Rightarrow> ('a \<Rightarrow> 'e + 'b) \<Rightarrow> 'e + 'b" where
  "rbind r f = (case r of Inl e \<Rightarrow> Inl e | Inr x \<Rightarrow> f x)"

text \<open>\<^verbatim>\<open>ok_or_else\<close>: an option read as a result.\<close>

definition ok_or :: "'e \<Rightarrow> 'a option \<Rightarrow> 'e + 'a" where
  "ok_or e x = (case x of None \<Rightarrow> Inl e | Some y \<Rightarrow> Inr y)"

text \<open>\<^verbatim>\<open>map(f).collect::<Result<Vec<_>, _>>()\<close>: the first error stops the iteration.\<close>

fun rmap :: "('a \<Rightarrow> 'e + 'b) \<Rightarrow> 'a list \<Rightarrow> 'e + 'b list" where
  "rmap f [] = Inr []"
| "rmap f (x # xs) = rbind (f x) (\<lambda>y. rbind (rmap f xs) (\<lambda>ys. Inr (y # ys)))"

lemma rbind_simps [simp, result_simps]:
  "rbind (Inl e) f = Inl e" "rbind (Inr x) f = f x"
  by (simp_all add: rbind_def)

lemma rbind_eq_Inr: "rbind r f = Inr y \<longleftrightarrow> (\<exists>x. r = Inr x \<and> f x = Inr y)"
  by (cases r) auto

lemma rbind_eq_Inl: "rbind r f = Inl e \<longleftrightarrow> r = Inl e \<or> (\<exists>x. r = Inr x \<and> f x = Inl e)"
  by (cases r) auto

lemma rbind_eq_sym:
  "Inr y = rbind r f \<longleftrightarrow> (\<exists>x. r = Inr x \<and> f x = Inr y)"
  "Inl e = rbind r f \<longleftrightarrow> r = Inl e \<or> (\<exists>x. r = Inr x \<and> f x = Inl e)"
  by (cases r; auto)+

lemma rbind_cong [fundef_cong]:
  "r = r' \<Longrightarrow> (\<And>x. r' = Inr x \<Longrightarrow> f x = g x) \<Longrightarrow> rbind r f = rbind r' g"
  by (cases r') auto

lemma ok_or_simps [simp, result_simps]: "ok_or e None = Inl e" "ok_or e (Some x) = Inr x"
  by (simp_all add: ok_or_def)

lemma ok_or_eq_Inr [simp]: "ok_or e x = Inr y \<longleftrightarrow> x = Some y"
  by (cases x) auto

lemma ok_or_eq_Inl [simp]: "ok_or e x = Inl d \<longleftrightarrow> x = None \<and> e = d"
  by (cases x) auto

lemma rmap_cong [fundef_cong]:
  assumes "xs = ys" and "\<And>x. x \<in> set ys \<Longrightarrow> f x = g x"
  shows "rmap f xs = rmap g ys"
proof -
  have "rmap f ys = rmap g ys"
    using assms(2) by (induction ys) auto
  with assms(1) show ?thesis by simp
qed

lemma rmap_all_Inr: "(\<And>x. x \<in> set xs \<Longrightarrow> f x = Inr (g x)) \<Longrightarrow> rmap f xs = Inr (map g xs)"
  by (induction xs) auto

lemma rmap_Inr: "rmap f xs = Inr ys \<longleftrightarrow> list_all2 (\<lambda>x y. f x = Inr y) xs ys"
  by (induction xs arbitrary: ys) (auto simp: rbind_eq_Inr list_all2_Cons1)

lemma rmap_Inl: "rmap f xs = Inl e \<Longrightarrow> \<exists>x\<in>set xs. f x = Inl e"
  by (induction xs) (auto simp: rbind_eq_Inl)

section \<open>State and errors\<close>

text \<open>
  A method that takes \<^verbatim>\<open>&mut self\<close> and returns a \<^verbatim>\<open>Result\<close>: the state comes back on every
  path, on the error path too, since what the code did before the error stays done.
\<close>

type_synonym ('s, 'e, 'a) sem = "'s \<Rightarrow> 's \<times> ('e + 'a)"

definition sret :: "'a \<Rightarrow> ('s, 'e, 'a) sem" where
  "sret x s = (s, Inr x)"

definition sfail :: "'e \<Rightarrow> ('s, 'e, 'a) sem" where
  "sfail e s = (s, Inl e)"

definition slift :: "'e + 'a \<Rightarrow> ('s, 'e, 'a) sem" where
  "slift r s = (s, r)"

definition sbind :: "('s, 'e, 'a) sem \<Rightarrow> ('a \<Rightarrow> ('s, 'e, 'b) sem) \<Rightarrow> ('s, 'e, 'b) sem" where
  "sbind m f s = (case m s of (t, Inl e) \<Rightarrow> (t, Inl e) | (t, Inr x) \<Rightarrow> f x t)"

lemma sem_simps [result_simps]:
  "sret x s = (s, Inr x)" "sfail e s = (s, Inl e)" "slift r s = (s, r)"
  "sbind (sret x) f = f x" "sbind (sfail e) g = sfail e"
  "sbind (slift (Inl e)) g = sfail e" "sbind (slift (Inr x)) f = f x"
  by (simp_all add: sret_def sfail_def slift_def sbind_def fun_eq_iff)

text \<open>
  \<open>triple P m Q E\<close>: from a state in \<open>P\<close>, a normal return is in \<open>Q\<close> and an error in \<open>E\<close>.
\<close>

definition triple ::
  "('s \<Rightarrow> bool) \<Rightarrow> ('s, 'e, 'a) sem \<Rightarrow> ('a \<Rightarrow> 's \<Rightarrow> bool) \<Rightarrow> ('e \<Rightarrow> 's \<Rightarrow> bool) \<Rightarrow> bool" where
  "triple P m Q E \<longleftrightarrow> (\<forall>s. P s \<longrightarrow> (case m s of (t, Inl e) \<Rightarrow> E e t | (t, Inr x) \<Rightarrow> Q x t))"

lemma triple_ret [triple_intro]: "(\<And>s. P s \<Longrightarrow> Q x s) \<Longrightarrow> triple P (sret x) Q E"
  by (simp add: triple_def sret_def)

lemma triple_fail [triple_intro]: "(\<And>s. P s \<Longrightarrow> E e s) \<Longrightarrow> triple P (sfail e) Q E"
  by (simp add: triple_def sfail_def)

lemma triple_lift [triple_intro]:
  "(\<And>s x. P s \<Longrightarrow> r = Inr x \<Longrightarrow> Q x s) \<Longrightarrow> (\<And>s e. P s \<Longrightarrow> r = Inl e \<Longrightarrow> E e s) \<Longrightarrow>
   triple P (slift r) Q E"
  by (cases r) (auto simp: triple_def slift_def)

lemma triple_bind:
  assumes "triple P m R E" and "\<And>x. triple (R x) (f x) Q E"
  shows "triple P (sbind m f) Q E"
proof -
  have "case sbind m f s of (t, Inl e) \<Rightarrow> E e t | (t, Inr x) \<Rightarrow> Q x t" if "P s" for s
  proof -
    obtain t r where m: "m s = (t, r)" by (cases "m s")
    from assms(1) \<open>P s\<close> m have "case r of Inl e \<Rightarrow> E e t | Inr x \<Rightarrow> R x t"
      by (fastforce simp: triple_def)
    with assms(2) m show ?thesis
      by (cases r) (fastforce simp: sbind_def triple_def)+
  qed
  then show ?thesis by (simp add: triple_def)
qed

lemma triple_weaken:
  assumes "triple P m Q E" and "\<And>s. P' s \<Longrightarrow> P s"
    and "\<And>x s. Q x s \<Longrightarrow> Q' x s" and "\<And>e s. E e s \<Longrightarrow> E' e s"
  shows "triple P' m Q' E'"
  using assms unfolding triple_def by (fastforce split: prod.splits sum.splits)

lemma triple_pure: "(R \<Longrightarrow> triple P m Q E) \<Longrightarrow> triple (\<lambda>s. R \<and> P s) m Q E"
  by (auto simp: triple_def)

lemma triple_Inr: "triple P m Q E \<Longrightarrow> P s \<Longrightarrow> m s = (t, Inr x) \<Longrightarrow> Q x t"
  by (fastforce simp: triple_def)

lemma triple_Inl: "triple P m Q E \<Longrightarrow> P s \<Longrightarrow> m s = (t, Inl e) \<Longrightarrow> E e t"
  by (fastforce simp: triple_def)

section \<open>Lists and words\<close>

text \<open>\<^verbatim>\<open>slice.get(i)\<close>: \<open>None\<close> out of range.\<close>

definition nth_opt :: "'a list \<Rightarrow> nat \<Rightarrow> 'a option" where
  "nth_opt xs i = (if i < length xs then Some (xs ! i) else None)"

lemma nth_opt_Some [simp]: "nth_opt xs i = Some x \<longleftrightarrow> i < length xs \<and> xs ! i = x"
  by (auto simp: nth_opt_def)

lemma nth_opt_None [simp]: "nth_opt xs i = None \<longleftrightarrow> length xs \<le> i"
  by (auto simp: nth_opt_def)

lemma nth_opt_list [simp]:
  "nth_opt [] i = None" "nth_opt (x # xs) 0 = Some x" "nth_opt (x # xs) (Suc n) = nth_opt xs n"
  by (auto simp: nth_opt_def)

lemma nth_opt_in: "i < length xs \<Longrightarrow> nth_opt xs i = Some (xs ! i)"
  by simp

lemma nth_opt_set: "nth_opt xs i = Some x \<Longrightarrow> x \<in> set xs"
  by auto

lemma unat_of_nat_le: "unat (word_of_nat n :: 'a::len word) \<le> n"
  by (simp add: unat_of_nat)

lemma unat_of_nat_32 [simp]: "n < 2 ^ 32 \<Longrightarrow> unat (word_of_nat n :: u32) = n"
  by (simp add: unat_of_nat)

lemma of_nat_32_inj: "i < 2 ^ 32 \<Longrightarrow> j < 2 ^ 32 \<Longrightarrow> (word_of_nat i :: u32) = word_of_nat j \<longleftrightarrow> i = j"
  by (metis unat_of_nat_32)

lemma unat_32_bound [simp]: "unat (w :: u32) < 4294967296"
  using unsigned_less [of w, where ?'a = nat] by simp

lemma filter_card_nth: "length (filter P xs) = card {i. i < length xs \<and> P (xs ! i)}"
  by (simp add: length_filter_conv_card)

end
