(* ===== verification/Rust_Text.thy ===== *)
theory Rust_Text
  imports Prelude
begin

text \<open>
  The text functions of Rust's standard library that the program relies on: UTF-8 validation
  (\<^verbatim>\<open>std::str::from_utf8\<close>) with the position it reports, decimal printing of unsigned
  integers, and the string methods \<^verbatim>\<open>starts_with\<close>, \<^verbatim>\<open>ends_with\<close>, \<^verbatim>\<open>split\<close>, \<^verbatim>\<open>join\<close>, \<^verbatim>\<open>find\<close>.
  A string is the list of its UTF-8 bytes.
\<close>

section \<open>UTF-8\<close>

definition byte :: "char \<Rightarrow> nat" where
  "byte c = of_char c"

definition utf8_char_width :: "nat \<Rightarrow> nat" where
  "utf8_char_width b =
     (if b < 128 then 1
      else if 194 \<le> b \<and> b \<le> 223 then 2
      else if 224 \<le> b \<and> b \<le> 239 then 3
      else if 240 \<le> b \<and> b \<le> 244 then 4
      else 0)"

definition utf8_cont :: "nat \<Rightarrow> bool" where
  "utf8_cont b \<longleftrightarrow> 128 \<le> b \<and> b \<le> 191"

text \<open>The second byte's range depends on the first: no overlong forms, no surrogates.\<close>

definition utf8_second :: "nat \<Rightarrow> nat \<Rightarrow> bool" where
  "utf8_second b c \<longleftrightarrow>
     (if b = 224 then 160 \<le> c \<and> c \<le> 191
      else if b = 237 then 128 \<le> c \<and> c \<le> 159
      else if b = 240 then 144 \<le> c \<and> c \<le> 191
      else if b = 244 then 128 \<le> c \<and> c \<le> 143
      else utf8_cont c)"

text \<open>The first character of a non-empty byte string: its width, or the error length.\<close>

datatype utf8_step = Utf8_Char nat | Utf8_Error "nat option"

fun utf8_tail :: "nat \<Rightarrow> nat \<Rightarrow> nat list \<Rightarrow> utf8_step" where
  "utf8_tail seen 0 bs = Utf8_Char seen"
| "utf8_tail seen (Suc n) [] = Utf8_Error None"
| "utf8_tail seen (Suc n) (b # bs) =
     (if utf8_cont b then utf8_tail (Suc seen) n bs else Utf8_Error (Some seen))"

fun utf8_first :: "nat list \<Rightarrow> utf8_step" where
  "utf8_first [] = Utf8_Error None"
| "utf8_first (b # bs) =
     (case utf8_char_width b of
        0 \<Rightarrow> Utf8_Error (Some 1)
      | Suc 0 \<Rightarrow> Utf8_Char 1
      | Suc (Suc n) \<Rightarrow>
          (case bs of
             [] \<Rightarrow> Utf8_Error None
           | c # cs \<Rightarrow> if utf8_second b c then utf8_tail 2 n cs else Utf8_Error (Some 1)))"

lemma utf8_tail_ge: "utf8_tail seen n bs = Utf8_Char k \<Longrightarrow> k = seen + n \<and> n \<le> length bs"
  by (induction seen n bs rule: utf8_tail.induct) (auto split: if_splits)

lemma utf8_first_pos:
  "utf8_first bs = Utf8_Char n \<Longrightarrow> 0 < n \<and> n \<le> length bs \<and> n = utf8_char_width (hd bs)"
  by (cases bs) (auto split: nat.splits list.splits if_splits dest!: utf8_tail_ge)

function utf8_check :: "nat \<Rightarrow> nat list \<Rightarrow> (nat \<times> nat option) option" where
  "utf8_check i bs =
     (if bs = [] then None
      else case utf8_first bs of
             Utf8_Error e \<Rightarrow> Some (i, e)
           | Utf8_Char n \<Rightarrow> utf8_check (i + n) (drop n bs))"
  by pat_completeness auto
termination
  by (relation "measure (\<lambda>(i, bs). length bs)") (auto dest: utf8_first_pos)

declare utf8_check.simps [simp del]

definition utf8_valid :: "string \<Rightarrow> bool" where
  "utf8_valid s \<longleftrightarrow> utf8_check 0 (map byte s) = None"

lemma byte_less [simp]: "byte c < 256"
  by (simp add: byte_def)

lemma utf8_first_ascii: "byte c < 128 \<Longrightarrow> utf8_first (byte c # bs) = Utf8_Char 1"
  by (simp add: utf8_char_width_def)

lemma utf8_check_ascii: "\<forall>b\<in>set bs. b < 128 \<Longrightarrow> utf8_check i bs = None"
proof (induction bs arbitrary: i)
  case (Cons b bs)
  then show ?case by (subst utf8_check.simps) (auto simp: utf8_char_width_def)
qed (simp add: utf8_check.simps)

lemma utf8_valid_ascii: "\<forall>c\<in>set s. byte c < 128 \<Longrightarrow> utf8_valid s"
  by (simp add: utf8_valid_def utf8_check_ascii)

lemma utf8_valid_Nil [simp]: "utf8_valid []"
  by (simp add: utf8_valid_def utf8_check.simps)

section \<open>Printing\<close>

definition digit_char :: "nat \<Rightarrow> char" where
  "digit_char d = char_of (48 + d)"

fun show_nat :: "nat \<Rightarrow> string" where
  "show_nat n = (if n < 10 then [digit_char n] else show_nat (n div 10) @ [digit_char (n mod 10)])"

declare show_nat.simps [simp del]

definition utf8_error_message :: "nat \<times> nat option \<Rightarrow> string" where
  "utf8_error_message e =
     (case e of
        (i, Some n) \<Rightarrow> ''invalid utf-8 sequence of '' @ show_nat n @ '' bytes from index '' @ show_nat i
      | (i, None) \<Rightarrow> ''incomplete utf-8 byte sequence from index '' @ show_nat i)"

section \<open>String methods\<close>

fun starts_with :: "string \<Rightarrow> string \<Rightarrow> bool" where
  "starts_with s [] = True"
| "starts_with [] (p # ps) = False"
| "starts_with (c # s) (p # ps) = (c = p \<and> starts_with s ps)"

definition ends_with :: "string \<Rightarrow> string \<Rightarrow> bool" where
  "ends_with s p = starts_with (rev s) (rev p)"

definition strip_prefix :: "string \<Rightarrow> string \<Rightarrow> string option" where
  "strip_prefix s p = (if starts_with s p then Some (drop (length p) s) else None)"

text \<open>\<^verbatim>\<open>find\<close>: the byte offset of the first occurrence.\<close>

fun find_str :: "string \<Rightarrow> string \<Rightarrow> nat option" where
  "find_str [] p = (if p = [] then Some 0 else None)"
| "find_str (c # s) p =
     (if starts_with (c # s) p then Some 0 else map_option Suc (find_str s p))"

text \<open>\<^verbatim>\<open>split(c)\<close> for one separator character: always at least one part.\<close>

fun split_on :: "char \<Rightarrow> string \<Rightarrow> string list" where
  "split_on c [] = [[]]"
| "split_on c (x # xs) =
     (if x = c then [] # split_on c xs
      else case split_on c xs of [] \<Rightarrow> [[x]] | p # ps \<Rightarrow> (x # p) # ps)"

fun join_with :: "string \<Rightarrow> string list \<Rightarrow> string" where
  "join_with sep [] = []"
| "join_with sep [p] = p"
| "join_with sep (p # q # ps) = p @ sep @ join_with sep (q # ps)"

lemma starts_with_iff: "starts_with s p \<longleftrightarrow> (\<exists>t. s = p @ t)"
  by (induction s p rule: starts_with.induct) auto

lemma starts_with_length: "starts_with s p \<Longrightarrow> length p \<le> length s"
  by (induction s p rule: starts_with.induct) auto

lemma starts_with_append [simp]: "starts_with (p @ t) p"
  by (auto simp: starts_with_iff)

lemma ends_with_iff: "ends_with s p \<longleftrightarrow> (\<exists>t. s = t @ p)"
proof
  assume "ends_with s p"
  then obtain t where "rev s = rev p @ t" by (auto simp: ends_with_def starts_with_iff)
  then have "s = rev t @ p" by (metis rev_append rev_rev_ident)
  then show "\<exists>t. s = t @ p" ..
qed (auto simp: ends_with_def starts_with_iff)

lemma strip_prefix_Some: "strip_prefix s p = Some t \<longleftrightarrow> s = p @ t"
  by (auto simp: strip_prefix_def starts_with_iff)

lemma find_str_Some:
  "find_str s p = Some i \<Longrightarrow> i + length p \<le> length s \<and> starts_with (drop i s) p"
  by (induction s p arbitrary: i rule: find_str.induct)
    (auto split: if_splits dest: starts_with_length)

lemma split_on_nonempty [simp]: "split_on c s \<noteq> []"
  by (induction s) (auto split: list.splits)

lemma split_on_no_sep: "p \<in> set (split_on c s) \<Longrightarrow> c \<notin> set p"
  by (induction s arbitrary: p) (auto split: list.splits if_splits)

lemma split_on_join: "(\<forall>p\<in>set ps. c \<notin> set p) \<Longrightarrow> ps \<noteq> [] \<Longrightarrow> split_on c (join_with [c] ps) = ps"
proof (induction "[c]" ps rule: join_with.induct)
  case (2 p)
  then show ?case by (induction p) auto
next
  case (3 p q ps)
  then have "split_on c (join_with [c] (q # ps)) = q # ps" by auto
  with 3(2) show ?case by (induction p) auto
qed simp

lemma split_on_prefix: "c \<notin> set p \<Longrightarrow> split_on c (p @ c # s) = p # split_on c s"
  by (induction p) auto

end
