(* ===== verification/Bytecode.thy ===== *)
theory Bytecode
  imports Prelude
begin

text \<open>
  The data model of \<^verbatim>\<open>runtime/bytecode\<close>: modules, functions, blocks, instructions and the
  constant pool, as the compiler emits them, the codec transports them, the verifier checks
  them and the interpreter runs them.
\<close>

type_synonym magic = "u8 \<times> u8 \<times> u8 \<times> u8"

definition BYTECODE_MAGIC :: magic where
  "BYTECODE_MAGIC = (84, 83, 86, 77)"

definition BYTECODE_VERSION :: u16 where
  "BYTECODE_VERSION = 1"

record bytecode_header =
  hdr_magic :: magic
  hdr_version :: u16

datatype const_entry =
  Const_Number string
| Const_String string
| Const_Boolean bool
| Const_Null
| Const_Undefined
| Const_Symbol string

datatype opcode =
  LoadConst | BuildObject | BuildArray | LoadLocal | StoreLocal | LoadMember | StoreMember
| Binary | Call | Branch | Jump | Return

datatype type_tag =
  Tag_Number | Tag_String | Tag_Boolean | Tag_Null | Tag_Undefined | Tag_Object | Tag_Array
| Tag_Named | Tag_Unknown

record source_ref =
  start_byte :: u32
  end_byte :: u32
  start_line :: u32
  start_column :: u32
  end_line :: u32
  end_column :: u32

record instruction =
  ins_opcode :: opcode
  ins_operands :: "u32 list"
  ins_type_tag :: type_tag
  ins_source_ref :: u32

record bytecode_block =
  blk_id :: u32
  blk_instructions :: "instruction list"

record exception_entry =
  start_block :: u32
  end_block :: u32
  handler_block :: u32

record bytecode_function =
  fn_name :: string
  fn_params :: "type_tag list"
  fn_return_type :: type_tag
  fn_blocks :: "bytecode_block list"
  fn_exception_table :: "exception_entry list"

record bytecode_module =
  mod_header :: bytecode_header
  mod_constants :: "const_entry list"
  mod_functions :: "bytecode_function list"
  mod_source_map :: "source_ref list"

definition is_terminator :: "opcode \<Rightarrow> bool" where
  "is_terminator op \<longleftrightarrow> op = Return \<or> op = Jump \<or> op = Branch"

text \<open>The opcodes whose execution pushes a value.\<close>

definition defines_value :: "opcode \<Rightarrow> bool" where
  "defines_value op \<longleftrightarrow>
     (case op of
        LoadConst \<Rightarrow> True | BuildObject \<Rightarrow> True | BuildArray \<Rightarrow> True | LoadLocal \<Rightarrow> True
      | LoadMember \<Rightarrow> True | Binary \<Rightarrow> True | Call \<Rightarrow> True | _ \<Rightarrow> False)"

definition instruction_result_value :: "instruction \<Rightarrow> u32 \<Rightarrow> u32 option" where
  "instruction_result_value i next_value =
     (if defines_value (ins_opcode i) then Some next_value else None)"

end
