(* ===== verification/Codec.thy ===== *)
theory Codec
  imports Rust_Text Bytecode
begin

unbundle bit_operations_syntax

text \<open>
  The binary form of a module: \<^verbatim>\<open>encode_module\<close>, the bounds-checked \<^verbatim>\<open>Reader\<close> and
  \<^verbatim>\<open>decode_module\<close>. The locale \<open>decoder\<close> states what every read function of the reader
  promises (it leaves the buffer alone, moves the cursor forwards and stays inside the buffer,
  and does not depend on bytes it has not reached); \<open>codec\<close> adds that it inverts a writer. Both
  are interpreted for each part of the format, and the round trip, the rejection of truncated
  input and of trailing bytes for whole modules follow from the interpreted facts.
\<close>

section \<open>Writers\<close>

definition byte_of_char :: "char \<Rightarrow> u8" where
  "byte_of_char c = word_of_nat (byte c)"

definition char_of_byte :: "u8 \<Rightarrow> char" where
  "char_of_byte b = char_of (unat b)"

text \<open>\<^verbatim>\<open>to_le_bytes\<close> and \<^verbatim>\<open>from_le_bytes\<close>.\<close>

definition write_u16 :: "u16 \<Rightarrow> u8 list" where
  "write_u16 w = [ucast w, ucast (drop_bit 8 w)]"

definition write_u32 :: "u32 \<Rightarrow> u8 list" where
  "write_u32 w = [ucast w, ucast (drop_bit 8 w), ucast (drop_bit 16 w), ucast (drop_bit 24 w)]"

definition u16_from_le :: "u8 \<Rightarrow> u8 \<Rightarrow> u16" where
  "u16_from_le a b = ucast a OR push_bit 8 (ucast b)"

definition u32_from_le :: "u8 \<Rightarrow> u8 \<Rightarrow> u8 \<Rightarrow> u8 \<Rightarrow> u32" where
  "u32_from_le a b c d =
     ucast a OR push_bit 8 (ucast b) OR push_bit 16 (ucast c) OR push_bit 24 (ucast d)"

text \<open>\<^verbatim>\<open>len() as u32\<close>: truncates.\<close>

definition write_len :: "'a list \<Rightarrow> u8 list" where
  "write_len xs = write_u32 (word_of_nat (length xs))"

definition write_string :: "string \<Rightarrow> u8 list" where
  "write_string s = write_len s @ map byte_of_char s"

fun opcode_to_u8 :: "opcode \<Rightarrow> u8" where
  "opcode_to_u8 LoadConst = 0" | "opcode_to_u8 BuildObject = 1" | "opcode_to_u8 BuildArray = 2"
| "opcode_to_u8 LoadLocal = 3" | "opcode_to_u8 StoreLocal = 4" | "opcode_to_u8 LoadMember = 5"
| "opcode_to_u8 StoreMember = 6" | "opcode_to_u8 Binary = 7" | "opcode_to_u8 Call = 8"
| "opcode_to_u8 Branch = 9" | "opcode_to_u8 Jump = 10" | "opcode_to_u8 Return = 11"

definition opcode_from_u8 :: "u8 \<Rightarrow> opcode option" where
  "opcode_from_u8 v =
     (if v = 0 then Some LoadConst else if v = 1 then Some BuildObject
      else if v = 2 then Some BuildArray else if v = 3 then Some LoadLocal
      else if v = 4 then Some StoreLocal else if v = 5 then Some LoadMember
      else if v = 6 then Some StoreMember else if v = 7 then Some Binary
      else if v = 8 then Some Call else if v = 9 then Some Branch
      else if v = 10 then Some Jump else if v = 11 then Some Return else None)"

fun type_tag_to_u8 :: "type_tag \<Rightarrow> u8" where
  "type_tag_to_u8 Tag_Number = 0" | "type_tag_to_u8 Tag_String = 1"
| "type_tag_to_u8 Tag_Boolean = 2" | "type_tag_to_u8 Tag_Null = 3"
| "type_tag_to_u8 Tag_Undefined = 4" | "type_tag_to_u8 Tag_Object = 5"
| "type_tag_to_u8 Tag_Array = 6" | "type_tag_to_u8 Tag_Named = 7"
| "type_tag_to_u8 Tag_Unknown = 8"

definition type_tag_from_u8 :: "u8 \<Rightarrow> type_tag option" where
  "type_tag_from_u8 v =
     (if v = 0 then Some Tag_Number else if v = 1 then Some Tag_String
      else if v = 2 then Some Tag_Boolean else if v = 3 then Some Tag_Null
      else if v = 4 then Some Tag_Undefined else if v = 5 then Some Tag_Object
      else if v = 6 then Some Tag_Array else if v = 7 then Some Tag_Named
      else if v = 8 then Some Tag_Unknown else None)"

fun write_constant :: "const_entry \<Rightarrow> u8 list" where
  "write_constant (Const_Number v) = 0 # write_string v"
| "write_constant (Const_String v) = 1 # write_string v"
| "write_constant (Const_Boolean b) = [2, if b then 1 else 0]"
| "write_constant Const_Null = [3]"
| "write_constant Const_Undefined = [4]"
| "write_constant (Const_Symbol v) = 5 # write_string v"

definition write_source_ref :: "source_ref \<Rightarrow> u8 list" where
  "write_source_ref s =
     write_u32 (start_byte s) @ write_u32 (end_byte s) @ write_u32 (start_line s) @
     write_u32 (start_column s) @ write_u32 (end_line s) @ write_u32 (end_column s)"

definition write_type_tag :: "type_tag \<Rightarrow> u8 list" where
  "write_type_tag t = [type_tag_to_u8 t]"

definition write_opcode :: "opcode \<Rightarrow> u8 list" where
  "write_opcode op = [opcode_to_u8 op]"

definition write_instruction :: "instruction \<Rightarrow> u8 list" where
  "write_instruction i =
     write_opcode (ins_opcode i) @ write_type_tag (ins_type_tag i) @
     write_u32 (ins_source_ref i) @
     write_len (ins_operands i) @ concat (map write_u32 (ins_operands i))"

definition write_block :: "bytecode_block \<Rightarrow> u8 list" where
  "write_block b =
     write_u32 (blk_id b) @
     write_len (blk_instructions b) @ concat (map write_instruction (blk_instructions b))"

definition write_exception_entry :: "exception_entry \<Rightarrow> u8 list" where
  "write_exception_entry e =
     write_u32 (start_block e) @ write_u32 (end_block e) @ write_u32 (handler_block e)"

definition write_function :: "bytecode_function \<Rightarrow> u8 list" where
  "write_function f =
     write_string (fn_name f) @
     write_len (fn_params f) @ concat (map write_type_tag (fn_params f)) @
     write_type_tag (fn_return_type f) @
     write_len (fn_blocks f) @ concat (map write_block (fn_blocks f)) @
     write_len (fn_exception_table f) @ concat (map write_exception_entry (fn_exception_table f))"

definition write_magic :: "magic \<Rightarrow> u8 list" where
  "write_magic m = (case m of (a, b, c, d) \<Rightarrow> [a, b, c, d])"

definition encode_module :: "bytecode_module \<Rightarrow> u8 list" where
  "encode_module m =
     write_magic (hdr_magic (mod_header m)) @ write_u16 (hdr_version (mod_header m)) @
     write_len (mod_constants m) @ write_len (mod_source_map m) @ write_len (mod_functions m) @
     concat (map write_constant (mod_constants m)) @
     concat (map write_source_ref (mod_source_map m)) @
     concat (map write_function (mod_functions m))"

section \<open>The reader\<close>

record reader =
  rd_bytes :: "u8 list"
  rd_cursor :: nat

record decode_error =
  decode_message :: string

type_synonym 'a decode = "(reader, decode_error, 'a) sem"

definition decode_error :: "string \<Rightarrow> decode_error" where
  "decode_error m = \<lparr>decode_message = m\<rparr>"

definition reader_new :: "u8 list \<Rightarrow> reader" where
  "reader_new bytes = \<lparr>rd_bytes = bytes, rd_cursor = 0\<rparr>"

text \<open>\<^verbatim>\<open>checked_add\<close> on a 64-bit \<^verbatim>\<open>usize\<close>, then the checked slice.\<close>

definition read_exact :: "nat \<Rightarrow> u8 list decode" where
  "read_exact len r =
     (let stop = rd_cursor r + len in
      if 2 ^ 64 \<le> stop then (r, Inl (decode_error ''bytecode length overflow''))
      else if length (rd_bytes r) < stop then (r, Inl (decode_error ''unexpected end of bytecode''))
      else (r\<lparr>rd_cursor := stop\<rparr>, Inr (take len (drop (rd_cursor r) (rd_bytes r)))))"

definition read_magic :: "magic decode" where
  "read_magic = sbind (read_exact 4) (\<lambda>b. sret (b ! 0, b ! 1, b ! 2, b ! 3))"

definition read_u8 :: "u8 decode" where
  "read_u8 = sbind (read_exact 1) (\<lambda>b. sret (b ! 0))"

definition read_u16 :: "u16 decode" where
  "read_u16 = sbind (read_exact 2) (\<lambda>b. sret (u16_from_le (b ! 0) (b ! 1)))"

definition read_u32 :: "u32 decode" where
  "read_u32 = sbind (read_exact 4) (\<lambda>b. sret (u32_from_le (b ! 0) (b ! 1) (b ! 2) (b ! 3)))"

definition read_string :: "string decode" where
  "read_string =
     sbind read_u32 (\<lambda>len. sbind (read_exact (unat len)) (\<lambda>bytes.
       case utf8_check 0 (map unat bytes) of
         None \<Rightarrow> sret (map char_of_byte bytes)
       | Some err \<Rightarrow> sfail (decode_error (''invalid UTF-8 string: '' @ utf8_error_message err))))"

definition read_constant :: "const_entry decode" where
  "read_constant =
     sbind read_u8 (\<lambda>tag.
       if tag = 0 then sbind read_string (\<lambda>v. sret (Const_Number v))
       else if tag = 1 then sbind read_string (\<lambda>v. sret (Const_String v))
       else if tag = 2 then sbind read_u8 (\<lambda>v. sret (Const_Boolean (v \<noteq> 0)))
       else if tag = 3 then sret Const_Null
       else if tag = 4 then sret Const_Undefined
       else if tag = 5 then sbind read_string (\<lambda>v. sret (Const_Symbol v))
       else sfail (decode_error (''invalid constant tag '' @ show_nat (unat tag))))"

definition read_opcode :: "opcode decode" where
  "read_opcode =
     sbind read_u8 (\<lambda>v. slift (ok_or (decode_error (''invalid opcode '' @ show_nat (unat v)))
       (opcode_from_u8 v)))"

definition read_type_tag :: "type_tag decode" where
  "read_type_tag =
     sbind read_u8 (\<lambda>v. slift (ok_or (decode_error (''invalid type tag '' @ show_nat (unat v)))
       (type_tag_from_u8 v)))"

definition finish :: "unit decode" where
  "finish r =
     (if rd_cursor r = length (rd_bytes r) then (r, Inr ())
      else (r, Inl (decode_error ''trailing bytes after bytecode module'')))"

text \<open>\<^verbatim>\<open>for _ in 0..count\<close> with a push of what was read.\<close>

fun read_many :: "nat \<Rightarrow> 'a decode \<Rightarrow> 'a list decode" where
  "read_many 0 d = sret []"
| "read_many (Suc n) d = sbind d (\<lambda>x. sbind (read_many n d) (\<lambda>xs. sret (x # xs)))"

definition read_counted :: "'a decode \<Rightarrow> 'a list decode" where
  "read_counted d = sbind read_u32 (\<lambda>count. read_many (unat count) d)"

definition read_source_ref :: "source_ref decode" where
  "read_source_ref =
     sbind read_u32 (\<lambda>sb. sbind read_u32 (\<lambda>eb. sbind read_u32 (\<lambda>sl. sbind read_u32 (\<lambda>sc.
     sbind read_u32 (\<lambda>el. sbind read_u32 (\<lambda>ec.
       sret \<lparr>start_byte = sb, end_byte = eb, start_line = sl, start_column = sc,
             end_line = el, end_column = ec\<rparr>))))))"

definition read_instruction :: "instruction decode" where
  "read_instruction =
     sbind read_opcode (\<lambda>op. sbind read_type_tag (\<lambda>tag. sbind read_u32 (\<lambda>src.
     sbind (read_counted read_u32) (\<lambda>operands.
       sret \<lparr>ins_opcode = op, ins_operands = operands, ins_type_tag = tag, ins_source_ref = src\<rparr>))))"

definition read_block :: "bytecode_block decode" where
  "read_block =
     sbind read_u32 (\<lambda>id. sbind (read_counted read_instruction) (\<lambda>instructions.
       sret \<lparr>blk_id = id, blk_instructions = instructions\<rparr>))"

definition read_exception_entry :: "exception_entry decode" where
  "read_exception_entry =
     sbind read_u32 (\<lambda>s. sbind read_u32 (\<lambda>e. sbind read_u32 (\<lambda>h.
       sret \<lparr>start_block = s, end_block = e, handler_block = h\<rparr>)))"

definition read_function :: "bytecode_function decode" where
  "read_function =
     sbind read_string (\<lambda>name. sbind (read_counted read_type_tag) (\<lambda>params.
     sbind read_type_tag (\<lambda>return_type. sbind (read_counted read_block) (\<lambda>blocks.
     sbind (read_counted read_exception_entry) (\<lambda>exception_table.
       sret \<lparr>fn_name = name, fn_params = params, fn_return_type = return_type,
             fn_blocks = blocks, fn_exception_table = exception_table\<rparr>)))))"

definition read_module :: "bytecode_module decode" where
  "read_module =
     sbind read_magic (\<lambda>magic.
       if magic \<noteq> BYTECODE_MAGIC then sfail (decode_error ''invalid bytecode magic'')
       else sbind read_u16 (\<lambda>version.
       if version \<noteq> BYTECODE_VERSION then sfail (decode_error ''unsupported bytecode version'')
       else sbind read_u32 (\<lambda>constant_count. sbind read_u32 (\<lambda>source_count.
       sbind read_u32 (\<lambda>function_count.
       sbind (read_many (unat constant_count) read_constant) (\<lambda>constants.
       sbind (read_many (unat source_count) read_source_ref) (\<lambda>source_map.
       sbind (read_many (unat function_count) read_function) (\<lambda>functions.
         sret \<lparr>mod_header = \<lparr>hdr_magic = magic, hdr_version = version\<rparr>,
               mod_constants = constants, mod_functions = functions,
               mod_source_map = source_map\<rparr>))))))))"

definition decode_module :: "u8 list \<Rightarrow> decode_error + bytecode_module" where
  "decode_module bytes =
     snd (sbind read_module (\<lambda>m. sbind finish (\<lambda>_. sret m)) (reader_new bytes))"

section \<open>What every read function promises\<close>

definition extend_reader :: "u8 list \<Rightarrow> reader \<Rightarrow> reader" where
  "extend_reader ys r = r\<lparr>rd_bytes := rd_bytes r @ ys\<rparr>"

locale decoder =
  fixes dec :: "'a decode"
  assumes dec_frame: "dec r = (r', res) \<Longrightarrow> rd_bytes r' = rd_bytes r"
    and dec_bounds: "dec r = (r', res) \<Longrightarrow> rd_cursor r \<le> length (rd_bytes r) \<Longrightarrow>
      rd_cursor r \<le> rd_cursor r' \<and> rd_cursor r' \<le> length (rd_bytes r)"
    and dec_extend: "dec r = (r', Inr x) \<Longrightarrow> dec (extend_reader ys r) = (extend_reader ys r', Inr x)"
begin

text \<open>Reading the buffer to its end leaves no room for a longer buffer to be read to its end.\<close>

lemma dec_prefix_unique:
  assumes "dec r = (r', Inr x)" and "rd_cursor r' = length (rd_bytes r)" and "ys \<noteq> []"
  shows "rd_cursor (fst (dec (extend_reader ys r))) < length (rd_bytes r @ ys)"
  using dec_extend [OF assms(1), of ys] assms(2,3) by (simp add: extend_reader_def)

end

named_theorems decoder_intro "the parts of the reader are decoders"

lemma decoder_ret [decoder_intro]: "decoder (sret x)"
  by unfold_locales (auto simp: sret_def)

lemma decoder_fail [decoder_intro]: "decoder (sfail e)"
  by unfold_locales (auto simp: sfail_def)

lemma decoder_lift [decoder_intro]: "decoder (slift r)"
  by unfold_locales (auto simp: slift_def)

lemma sbind_cases:
  assumes "sbind m f s = (u, res)"
  obtains (err) e where "m s = (u, Inl e)" "res = Inl e"
  | (ok) x t where "m s = (t, Inr x)" "f x t = (u, res)"
  using assms by (auto simp: sbind_def split: prod.splits sum.splits)

lemma decoder_bind [decoder_intro]:
  assumes d: "decoder d" and f: "\<And>x. decoder (f x)"
  shows "decoder (sbind d f)"
proof
  fix r r' res
  assume b: "sbind d f r = (r', res)"
  then show "rd_bytes r' = rd_bytes r"
    by (rule sbind_cases) (use decoder.dec_frame [OF d] decoder.dec_frame [OF f] in fastforce)+
  assume c: "rd_cursor r \<le> length (rd_bytes r)"
  from b show "rd_cursor r \<le> rd_cursor r' \<and> rd_cursor r' \<le> length (rd_bytes r)"
  proof (cases rule: sbind_cases)
    case (err e)
    then show ?thesis using decoder.dec_bounds [OF d] c by blast
  next
    case (ok x t)
    then show ?thesis
      using decoder.dec_bounds [OF d ok(1) c] decoder.dec_frame [OF d ok(1)]
        decoder.dec_bounds [OF f ok(2)] by auto
  qed
next
  fix r r' x ys
  assume "sbind d f r = (r', Inr x)"
  then show "sbind d f (extend_reader ys r) = (extend_reader ys r', Inr x)"
  proof (cases rule: sbind_cases)
    case (ok y t)
    then show ?thesis
      using decoder.dec_extend [OF d ok(1)] decoder.dec_extend [OF f ok(2)] by (simp add: sbind_def)
  qed simp
qed

lemma decoder_exact [decoder_intro]: "decoder (read_exact n)"
  by unfold_locales (auto simp: read_exact_def extend_reader_def Let_def split: if_splits)

lemma decoder_many [decoder_intro]: "decoder d \<Longrightarrow> decoder (read_many n d)"
  by (induction n) (auto intro!: decoder_intro)

lemma decoder_if [decoder_intro]: "decoder d \<Longrightarrow> decoder e \<Longrightarrow> decoder (if b then d else e)"
  by simp

lemma decoder_option [decoder_intro]:
  "decoder d \<Longrightarrow> (\<And>x. decoder (f x)) \<Longrightarrow> decoder (case z of None \<Rightarrow> d | Some x \<Rightarrow> f x)"
  by (cases z) auto

lemma decoder_basic [decoder_intro]:
  "decoder read_u8" "decoder read_u16" "decoder read_u32" "decoder read_magic"
  by (auto simp: read_u8_def read_u16_def read_u32_def read_magic_def intro!: decoder_intro)

lemma decoder_counted [decoder_intro]: "decoder d \<Longrightarrow> decoder (read_counted d)"
  by (auto simp: read_counted_def intro!: decoder_intro)

lemma decoder_parts [decoder_intro]:
  "decoder read_string" "decoder read_opcode" "decoder read_type_tag" "decoder read_source_ref"
  "decoder read_exception_entry"
  by (auto simp: read_string_def read_opcode_def read_type_tag_def read_source_ref_def
      read_exception_entry_def intro!: decoder_intro)

lemma decoder_constant [decoder_intro]: "decoder read_constant"
  unfolding read_constant_def by (intro decoder_intro)

lemma decoder_instruction [decoder_intro]: "decoder read_instruction"
  unfolding read_instruction_def by (intro decoder_intro)

lemma decoder_block [decoder_intro]: "decoder read_block"
  unfolding read_block_def by (intro decoder_intro)

lemma decoder_function [decoder_intro]: "decoder read_function"
  unfolding read_function_def by (intro decoder_intro)

interpretation module_reader: decoder read_module
  unfolding read_module_def by (intro decoder_intro)

section \<open>Readers that invert writers\<close>

definition rd_at :: "u8 list \<Rightarrow> u8 list \<Rightarrow> reader" where
  "rd_at pre rest = \<lparr>rd_bytes = pre @ rest, rd_cursor = length pre\<rparr>"

locale codec = decoder dec for dec :: "'a decode" +
  fixes enc :: "'a \<Rightarrow> u8 list" and valid :: "'a \<Rightarrow> bool"
  assumes roundtrip: "valid x \<Longrightarrow> length (pre @ enc x @ post) < 2 ^ 64 \<Longrightarrow>
    dec (rd_at pre (enc x @ post)) = (rd_at (pre @ enc x) post, Inr x)"
begin

lemma bind_roundtrip:
  "valid x \<Longrightarrow> length (pre @ enc x @ post) < 2 ^ 64 \<Longrightarrow>
   sbind dec f (rd_at pre (enc x @ post)) = f x (rd_at (pre @ enc x) post)"
  by (simp add: sbind_def roundtrip)

lemma many_roundtrip:
  "\<forall>x\<in>set xs. valid x \<Longrightarrow> length (pre @ concat (map enc xs) @ post) < 2 ^ 64 \<Longrightarrow>
   read_many (length xs) dec (rd_at pre (concat (map enc xs) @ post)) =
     (rd_at (pre @ concat (map enc xs)) post, Inr xs)"
proof (induction xs arbitrary: pre)
  case Nil
  then show ?case by (simp add: sret_def)
next
  case (Cons x xs)
  let ?rest = "concat (map enc xs)"
  have "read_many (length xs) dec (rd_at (pre @ enc x) (?rest @ post)) =
      (rd_at ((pre @ enc x) @ ?rest) post, Inr xs)"
    using Cons.prems by (intro Cons.IH) auto
  moreover have "dec (rd_at pre (enc x @ ?rest @ post)) = (rd_at (pre @ enc x) (?rest @ post), Inr x)"
    using Cons.prems by (intro roundtrip) auto
  ultimately show ?case by (simp add: sbind_def sret_def)
qed

lemma bind_many_roundtrip:
  "\<forall>x\<in>set xs. valid x \<Longrightarrow> n = length xs \<Longrightarrow> length (pre @ concat (map enc xs) @ post) < 2 ^ 64 \<Longrightarrow>
   sbind (read_many n dec) f (rd_at pre (concat (map enc xs) @ post)) =
     f xs (rd_at (pre @ concat (map enc xs)) post)"
  by (simp add: sbind_def many_roundtrip)

end

text \<open>Fixed-width parts.\<close>

lemma read_exact_at:
  "length (pre @ bs @ post) < 2 ^ 64 \<Longrightarrow> n = length bs \<Longrightarrow>
   read_exact n (rd_at pre (bs @ post)) = (rd_at (pre @ bs) post, Inr bs)"
  by (simp add: read_exact_def rd_at_def Let_def)

lemma bind_exact_at:
  "length (pre @ bs @ post) < 2 ^ 64 \<Longrightarrow> n = length bs \<Longrightarrow>
   sbind (read_exact n) f (rd_at pre (bs @ post)) = f bs (rd_at (pre @ bs) post)"
  by (simp add: sbind_def read_exact_at)

lemma u16_le_inverse: "u16_from_le (ucast w) (ucast (drop_bit 8 w)) = w"
  by (rule bit_word_eqI) (auto simp: u16_from_le_def bit_simps)

lemma u32_le_inverse:
  "u32_from_le (ucast w) (ucast (drop_bit 8 w)) (ucast (drop_bit 16 w)) (ucast (drop_bit 24 w)) = w"
proof (rule bit_word_eqI)
  fix n assume "n < LENGTH(32)"
  then consider "n < 8" | "8 \<le> n" "n < 16" | "16 \<le> n" "n < 24" | "24 \<le> n" "n < 32"
    by fastforce
  then show "bit (u32_from_le (ucast w) (ucast (drop_bit 8 w)) (ucast (drop_bit 16 w))
      (ucast (drop_bit 24 w))) n = bit w n"
    by cases (auto simp: u32_from_le_def bit_simps)
qed

lemma length_write_u32 [simp]: "length (write_u32 w) = 4"
  by (simp add: write_u32_def)

interpretation u8_codec: codec read_u8 "\<lambda>b. [b]" "\<lambda>_. True"
proof (intro codec.intro codec_axioms.intro decoder_intro)
  fix x :: u8 and pre post
  assume "length (pre @ [x] @ post) < 2 ^ 64"
  then show "read_u8 (rd_at pre ([x] @ post)) = (rd_at (pre @ [x]) post, Inr x)"
    unfolding read_u8_def by (subst bind_exact_at) (simp_all add: sret_def)
qed

interpretation u16_codec: codec read_u16 write_u16 "\<lambda>_. True"
proof (intro codec.intro codec_axioms.intro decoder_intro)
  fix x :: u16 and pre post
  assume "length (pre @ write_u16 x @ post) < 2 ^ 64"
  then show "read_u16 (rd_at pre (write_u16 x @ post)) = (rd_at (pre @ write_u16 x) post, Inr x)"
    unfolding read_u16_def by (subst bind_exact_at) (simp_all add: sret_def write_u16_def u16_le_inverse)
qed

interpretation u32_codec: codec read_u32 write_u32 "\<lambda>_. True"
proof (intro codec.intro codec_axioms.intro decoder_intro)
  fix x :: u32 and pre post
  assume "length (pre @ write_u32 x @ post) < 2 ^ 64"
  then show "read_u32 (rd_at pre (write_u32 x @ post)) = (rd_at (pre @ write_u32 x) post, Inr x)"
    unfolding read_u32_def by (subst bind_exact_at) (simp_all add: sret_def write_u32_def u32_le_inverse)
qed

interpretation magic_codec: codec read_magic write_magic "\<lambda>_. True"
proof (intro codec.intro codec_axioms.intro decoder_intro)
  fix x :: magic and pre post
  assume a: "length (pre @ write_magic x @ post) < 2 ^ 64"
  obtain a b c d where x: "x = (a, b, c, d)" by (cases x)
  from a show "read_magic (rd_at pre (write_magic x @ post)) = (rd_at (pre @ write_magic x) post, Inr x)"
    unfolding read_magic_def by (subst bind_exact_at) (simp_all add: sret_def write_magic_def x)
qed

context codec
begin

lemma bind_counted_roundtrip:
  assumes "\<forall>x\<in>set xs. valid x" and "length xs < 2 ^ 32"
    and "length (pre @ write_len xs @ concat (map enc xs) @ post) < 2 ^ 64"
  shows "sbind (read_counted dec) f (rd_at pre (write_len xs @ concat (map enc xs) @ post)) =
    f xs (rd_at (pre @ write_len xs @ concat (map enc xs)) post)"
proof -
  have "read_u32 (rd_at pre (write_len xs @ concat (map enc xs) @ post)) =
      (rd_at (pre @ write_len xs) (concat (map enc xs) @ post), Inr (word_of_nat (length xs)))"
    using assms(3) by (simp add: write_len_def u32_codec.roundtrip)
  moreover have "read_many (length xs) dec (rd_at (pre @ write_len xs) (concat (map enc xs) @ post)) =
      (rd_at ((pre @ write_len xs) @ concat (map enc xs)) post, Inr xs)"
    using assms by (intro many_roundtrip) auto
  ultimately show ?thesis using assms(2) by (simp add: sbind_def read_counted_def)
qed

end

text \<open>
  The valid parts: what a \<^verbatim>\<open>String\<close> and a \<^verbatim>\<open>Vec\<close> that the format can carry satisfy, valid UTF-8
  and a length that fits the 32-bit count.
\<close>

definition valid_string :: "string \<Rightarrow> bool" where
  "valid_string s \<longleftrightarrow> utf8_valid s \<and> length s < 2 ^ 32"

fun valid_constant :: "const_entry \<Rightarrow> bool" where
  "valid_constant (Const_Number v) = valid_string v"
| "valid_constant (Const_String v) = valid_string v"
| "valid_constant (Const_Symbol v) = valid_string v"
| "valid_constant _ = True"

definition valid_instruction :: "instruction \<Rightarrow> bool" where
  "valid_instruction i \<longleftrightarrow> length (ins_operands i) < 2 ^ 32"

definition valid_block :: "bytecode_block \<Rightarrow> bool" where
  "valid_block b \<longleftrightarrow>
     length (blk_instructions b) < 2 ^ 32 \<and> (\<forall>i\<in>set (blk_instructions b). valid_instruction i)"

definition valid_function :: "bytecode_function \<Rightarrow> bool" where
  "valid_function f \<longleftrightarrow>
     valid_string (fn_name f) \<and> length (fn_params f) < 2 ^ 32 \<and>
     length (fn_blocks f) < 2 ^ 32 \<and> (\<forall>b\<in>set (fn_blocks f). valid_block b) \<and>
     length (fn_exception_table f) < 2 ^ 32"

definition valid_module :: "bytecode_module \<Rightarrow> bool" where
  "valid_module m \<longleftrightarrow>
     mod_header m = \<lparr>hdr_magic = BYTECODE_MAGIC, hdr_version = BYTECODE_VERSION\<rparr> \<and>
     length (mod_constants m) < 2 ^ 32 \<and> (\<forall>c\<in>set (mod_constants m). valid_constant c) \<and>
     length (mod_source_map m) < 2 ^ 32 \<and>
     length (mod_functions m) < 2 ^ 32 \<and> (\<forall>f\<in>set (mod_functions m). valid_function f)"

lemma char_byte_inverse [simp]: "char_of_byte (byte_of_char c) = c"
proof -
  have "unat (byte_of_char c) = of_char c"
    by (simp add: byte_of_char_def byte_def unat_of_nat)
  then show ?thesis by (simp add: char_of_byte_def)
qed

lemma unat_byte_of_char: "unat (byte_of_char c) = byte c"
  by (simp add: byte_of_char_def unat_of_nat)

lemma opcode_roundtrip: "opcode_from_u8 (opcode_to_u8 op) = Some op"
  by (cases op) (simp_all add: opcode_from_u8_def)

lemma type_tag_roundtrip: "type_tag_from_u8 (type_tag_to_u8 t) = Some t"
  by (cases t) (simp_all add: type_tag_from_u8_def)

interpretation opcode_codec: codec read_opcode write_opcode "\<lambda>_. True"
proof (intro codec.intro codec_axioms.intro decoder_intro)
  fix x pre post
  assume "length (pre @ write_opcode x @ post) < 2 ^ 64"
  then show "read_opcode (rd_at pre (write_opcode x @ post)) = (rd_at (pre @ write_opcode x) post, Inr x)"
    unfolding read_opcode_def write_opcode_def
    by (subst u8_codec.bind_roundtrip) (simp_all add: slift_def opcode_roundtrip)
qed

interpretation tag_codec: codec read_type_tag write_type_tag "\<lambda>_. True"
proof (intro codec.intro codec_axioms.intro decoder_intro)
  fix x pre post
  assume "length (pre @ write_type_tag x @ post) < 2 ^ 64"
  then show "read_type_tag (rd_at pre (write_type_tag x @ post)) = (rd_at (pre @ write_type_tag x) post, Inr x)"
    unfolding read_type_tag_def write_type_tag_def
    by (subst u8_codec.bind_roundtrip) (simp_all add: slift_def type_tag_roundtrip)
qed

interpretation string_codec: codec read_string write_string valid_string
proof (intro codec.intro codec_axioms.intro decoder_intro)
  fix x pre post
  assume v: "valid_string x" and a: "length (pre @ write_string x @ post) < 2 ^ 64"
  have u: "utf8_check 0 (map unat (map byte_of_char x)) = None" "length x < 2 ^ 32"
    using v by (simp_all add: valid_string_def utf8_valid_def unat_byte_of_char comp_def)
  from a have "read_string (rd_at pre (write_len x @ map byte_of_char x @ post)) =
      (rd_at ((pre @ write_len x) @ map byte_of_char x) post, Inr x)"
    unfolding read_string_def write_string_def write_len_def
    by (subst u32_codec.bind_roundtrip, simp, simp, subst bind_exact_at)
      (use u in \<open>simp_all add: sret_def comp_def\<close>)
  then show "read_string (rd_at pre (write_string x @ post)) = (rd_at (pre @ write_string x) post, Inr x)"
    by (simp add: write_string_def)
qed

lemmas codec_bind_simps =
  u8_codec.bind_roundtrip u16_codec.bind_roundtrip u32_codec.bind_roundtrip
  opcode_codec.bind_roundtrip tag_codec.bind_roundtrip string_codec.bind_roundtrip
  magic_codec.bind_roundtrip
  tag_codec.bind_counted_roundtrip u32_codec.bind_counted_roundtrip

lemma u8_bind_Cons:
  "length (pre @ b # post) < 2 ^ 64 \<Longrightarrow>
   sbind read_u8 f (rd_at pre (b # post)) = f b (rd_at (pre @ [b]) post)"
  using u8_codec.bind_roundtrip [where x = b and pre = pre and post = post and f = f] by simp

interpretation constant_codec: codec read_constant write_constant valid_constant
proof (intro codec.intro codec_axioms.intro decoder_intro)
  fix x pre post
  assume "valid_constant x" and "length (pre @ write_constant x @ post) < 2 ^ 64"
  then show "read_constant (rd_at pre (write_constant x @ post)) = (rd_at (pre @ write_constant x) post, Inr x)"
    unfolding read_constant_def
    by (cases x) (simp_all add: u8_bind_Cons string_codec.bind_roundtrip sret_def)
qed

interpretation source_ref_codec: codec read_source_ref write_source_ref "\<lambda>_. True"
proof (intro codec.intro codec_axioms.intro decoder_intro)
  fix x pre post
  assume "length (pre @ write_source_ref x @ post) < 2 ^ 64"
  then show "read_source_ref (rd_at pre (write_source_ref x @ post)) = (rd_at (pre @ write_source_ref x) post, Inr x)"
    unfolding read_source_ref_def write_source_ref_def
    by (simp add: u32_codec.bind_roundtrip sret_def)
qed

interpretation exception_codec: codec read_exception_entry write_exception_entry "\<lambda>_. True"
proof (intro codec.intro codec_axioms.intro decoder_intro)
  fix x pre post
  assume "length (pre @ write_exception_entry x @ post) < 2 ^ 64"
  then show "read_exception_entry (rd_at pre (write_exception_entry x @ post)) =
      (rd_at (pre @ write_exception_entry x) post, Inr x)"
    unfolding read_exception_entry_def write_exception_entry_def
    by (simp add: u32_codec.bind_roundtrip sret_def)
qed

interpretation instruction_codec: codec read_instruction write_instruction valid_instruction
proof (intro codec.intro codec_axioms.intro decoder_intro)
  fix x pre post
  assume "valid_instruction x" and "length (pre @ write_instruction x @ post) < 2 ^ 64"
  then show "read_instruction (rd_at pre (write_instruction x @ post)) =
      (rd_at (pre @ write_instruction x) post, Inr x)"
    unfolding read_instruction_def write_instruction_def valid_instruction_def
    by (simp add: codec_bind_simps sret_def)
qed

interpretation block_codec: codec read_block write_block valid_block
proof (intro codec.intro codec_axioms.intro decoder_intro)
  fix x pre post
  assume "valid_block x" and "length (pre @ write_block x @ post) < 2 ^ 64"
  then show "read_block (rd_at pre (write_block x @ post)) = (rd_at (pre @ write_block x) post, Inr x)"
    unfolding read_block_def write_block_def valid_block_def
    by (simp add: codec_bind_simps instruction_codec.bind_counted_roundtrip sret_def)
qed

interpretation function_codec: codec read_function write_function valid_function
proof (intro codec.intro codec_axioms.intro decoder_intro)
  fix x pre post
  assume "valid_function x" and "length (pre @ write_function x @ post) < 2 ^ 64"
  then show "read_function (rd_at pre (write_function x @ post)) = (rd_at (pre @ write_function x) post, Inr x)"
    unfolding read_function_def write_function_def valid_function_def
    by (simp add: codec_bind_simps block_codec.bind_counted_roundtrip
        exception_codec.bind_counted_roundtrip sret_def)
qed

interpretation module_codec: codec read_module encode_module valid_module
proof (intro codec.intro codec_axioms.intro module_reader.decoder_axioms)
  fix x pre post
  assume "valid_module x" and "length (pre @ encode_module x @ post) < 2 ^ 64"
  then show "read_module (rd_at pre (encode_module x @ post)) = (rd_at (pre @ encode_module x) post, Inr x)"
    unfolding read_module_def encode_module_def valid_module_def write_len_def
    by (simp add: codec_bind_simps constant_codec.bind_many_roundtrip
        source_ref_codec.bind_many_roundtrip function_codec.bind_many_roundtrip sret_def)
qed

section \<open>Whole modules\<close>

lemma reader_new_at: "reader_new bs = rd_at [] bs"
  by (simp add: reader_new_def rd_at_def)

lemma decode_encode:
  assumes "valid_module m" and "length (encode_module m) < 2 ^ 64"
  shows "decode_module (encode_module m) = Inr m"
proof -
  have "read_module (rd_at [] (encode_module m @ [])) = (rd_at ([] @ encode_module m) [], Inr m)"
    using assms by (intro module_codec.roundtrip) auto
  then show ?thesis
    by (simp add: decode_module_def reader_new_at sbind_def sret_def finish_def rd_at_def)
qed

lemma decode_module_Inr:
  "decode_module bs = Inr m \<longleftrightarrow>
   (\<exists>r. read_module (reader_new bs) = (r, Inr m) \<and> rd_cursor r = length bs)"
  by (auto simp: decode_module_def sbind_def sret_def finish_def
      dest: module_reader.dec_frame split: prod.splits sum.splits if_splits)
    (auto simp: reader_new_def dest: module_reader.dec_frame)

text \<open>No module's bytes are a proper prefix of another's: nothing truncated is accepted.\<close>

lemma decode_prefix:
  assumes "decode_module bs = Inr m" and "ys \<noteq> []"
  shows "decode_module (bs @ ys) = Inl (decode_error ''trailing bytes after bytecode module'')"
proof -
  obtain r where r: "read_module (reader_new bs) = (r, Inr m)" "rd_cursor r = length bs"
    using assms(1) by (auto simp: decode_module_Inr)
  have "read_module (reader_new (bs @ ys)) = (extend_reader ys r, Inr m)"
    using module_reader.dec_extend [OF r(1), of ys] by (simp add: extend_reader_def reader_new_def)
  then show ?thesis
    using r module_reader.dec_frame [OF r(1)] assms(2)
    by (simp add: decode_module_def sbind_def finish_def extend_reader_def reader_new_def)
qed

section \<open>The contract of the format\<close>

definition sample_bytecode :: bytecode_module where
  "sample_bytecode =
     \<lparr>mod_header = \<lparr>hdr_magic = BYTECODE_MAGIC, hdr_version = BYTECODE_VERSION\<rparr>,
      mod_constants = [Const_String ''hi'', Const_Boolean True],
      mod_functions = [\<lparr>fn_name = ''__entry'', fn_params = [], fn_return_type = Tag_String,
        fn_blocks = [\<lparr>blk_id = 0, blk_instructions =
          [\<lparr>ins_opcode = LoadConst, ins_operands = [0], ins_type_tag = Tag_String, ins_source_ref = 0\<rparr>,
           \<lparr>ins_opcode = Return, ins_operands = [0], ins_type_tag = Tag_String, ins_source_ref = 0\<rparr>]\<rparr>],
        fn_exception_table = []\<rparr>],
      mod_source_map = [\<lparr>start_byte = 0, end_byte = 2, start_line = 1, start_column = 1,
        end_line = 1, end_column = 3\<rparr>]\<rparr>"

lemma sample_bytecode_valid:
  "valid_module sample_bytecode" "length (encode_module sample_bytecode) < 2 ^ 64"
  "20 < length (encode_module sample_bytecode)"
proof -
  have "utf8_valid ''hi''" "utf8_valid ''__entry''" by code_simp+
  then show "valid_module sample_bytecode"
    by (simp add: valid_module_def valid_function_def valid_block_def valid_instruction_def
        valid_string_def sample_bytecode_def)
  have "length (encode_module sample_bytecode) < 1000 \<and> 20 < length (encode_module sample_bytecode)" by code_simp
  then show "length (encode_module sample_bytecode) < 2 ^ 64"
    "20 < length (encode_module sample_bytecode)" by simp_all
qed

text \<open>
  C8: Encoding and decoding are inverse: a module whose strings are UTF-8 and whose tables have
  32-bit lengths is read back from its own bytes, exactly, header and source map included.
\<close>

theorem encode_decode_roundtrip:
  assumes "valid_module m" and "length (encode_module m) < 2 ^ 64"
  shows "decode_module (encode_module m) = Inr m"
  using decode_encode [OF assms] .

theorem encode_decode_roundtrip_witness:
  "decode_module (encode_module sample_bytecode) = Inr sample_bytecode"
  by (rule encode_decode_roundtrip [OF sample_bytecode_valid(1,2)])

text \<open>
  C21: Decoding is exact about length: bytes that decode to a module are rejected as soon as
  anything follows them, with that error, and nothing shorter than them is a module.
\<close>

theorem decode_exact_length:
  assumes "decode_module bs = Inr m"
  shows "(\<forall>ys. ys \<noteq> [] \<longrightarrow>
      decode_module (bs @ ys) = Inl (decode_error ''trailing bytes after bytecode module'')) \<and>
    (\<forall>k<length bs. \<exists>e. decode_module (take k bs) = Inl e)"
proof (intro conjI allI impI)
  fix ys :: "u8 list" assume "ys \<noteq> []"
  with decode_prefix [OF assms]
  show "decode_module (bs @ ys) = Inl (decode_error ''trailing bytes after bytecode module'')" .
next
  fix k assume k: "k < length bs"
  show "\<exists>e. decode_module (take k bs) = Inl e"
  proof (cases "decode_module (take k bs)")
    case (Inr m')
    from decode_prefix [OF this, of "drop k bs"] k assms show ?thesis by simp
  qed simp
qed

theorem decode_exact_length_witness:
  "\<exists>e. decode_module (take 20 (encode_module sample_bytecode)) = Inl e"
proof -
  have "decode_module (encode_module sample_bytecode) = Inr sample_bytecode"
    by (rule decode_encode [OF sample_bytecode_valid(1,2)])
  with sample_bytecode_valid(3) show ?thesis using decode_exact_length by blast
qed

end
