(* ===== verification/Heap.thy ===== *)
theory Heap
  imports Prelude "HOL-Library.While_Combinator"
begin

text \<open>
  \<^verbatim>\<open>runtime/heap\<close>: non-moving slots addressed by generation-checked handles, and a tracing
  collector. The first half of the theory is the code; the second half proves that allocation
  hands out fresh handles, that the marking loop ends and marks exactly the slots reachable
  from the roots, that the sweep frees the other occupied ones and nothing else, and how long a
  handle to a freed slot is sure to stay dead.

  The collector only sees the heap's values through \<^verbatim>\<open>Trace\<close>. The locale \<open>tracing\<close> states what
  an implementation of that trait can do: call \<^verbatim>\<open>Tracer::mark\<close>, the only operation a tracer
  has, on a list of handles.
\<close>

section \<open>State\<close>

record heap_handle =
  handle_index :: u32
  handle_generation :: u32

record collection_report =
  marked :: nat
  collected :: nat
  live_after :: nat

record 'a slot =
  slot_generation :: u32
  slot_value :: "'a option"

record slot_marker =
  marker_generation :: u32
  marker_occupied :: bool

record tracer =
  tr_marks :: "bool list"
  tr_pending :: "nat list"
  tr_slots :: "slot_marker list"

record 'a gc_heap =
  heap_slots :: "'a slot list"
  heap_free :: "nat list"
  heap_live :: nat

section \<open>Operations\<close>

definition mark :: "heap_handle \<Rightarrow> tracer \<Rightarrow> tracer" where
  "mark h t =
     (let index = unat (handle_index h) in
      case nth_opt (tr_slots t) index of
        None \<Rightarrow> t
      | Some slot \<Rightarrow>
          if marker_generation slot \<noteq> handle_generation h \<or> \<not> marker_occupied slot
             \<or> tr_marks t ! index
          then t
          else t\<lparr>tr_marks := (tr_marks t)[index := True], tr_pending := tr_pending t @ [index]\<rparr>)"

definition heap_new :: "'a gc_heap" where
  "heap_new = \<lparr>heap_slots = [], heap_free = [], heap_live = 0\<rparr>"

definition allocate :: "'a \<Rightarrow> 'a gc_heap \<Rightarrow> heap_handle \<times> 'a gc_heap" where
  "allocate v h =
     (let index = (if heap_free h = [] then length (heap_slots h) else last (heap_free h));
          slots = (if index = length (heap_slots h)
                   then heap_slots h @ [\<lparr>slot_generation = 0, slot_value = Some v\<rparr>]
                   else (heap_slots h)[index := (heap_slots h ! index)\<lparr>slot_value := Some v\<rparr>])
      in (\<lparr>handle_index = word_of_nat index, handle_generation = slot_generation (slots ! index)\<rparr>,
          \<lparr>heap_slots = slots, heap_free = butlast (heap_free h), heap_live = Suc (heap_live h)\<rparr>))"

definition heap_get :: "'a gc_heap \<Rightarrow> heap_handle \<Rightarrow> 'a option" where
  "heap_get h hdl =
     (case nth_opt (heap_slots h) (unat (handle_index hdl)) of
        None \<Rightarrow> None
      | Some slot \<Rightarrow>
          if slot_generation slot = handle_generation hdl then slot_value slot else None)"

text \<open>\<^verbatim>\<open>get_mut\<close> followed by a write \<open>f\<close> through the reference it returns.\<close>

definition heap_get_mut :: "heap_handle \<Rightarrow> ('a \<Rightarrow> 'a) \<Rightarrow> 'a gc_heap \<Rightarrow> 'a gc_heap" where
  "heap_get_mut hdl f h =
     (let index = unat (handle_index hdl) in
      case nth_opt (heap_slots h) index of
        None \<Rightarrow> h
      | Some slot \<Rightarrow>
          if slot_generation slot = handle_generation hdl
          then h\<lparr>heap_slots := (heap_slots h)[index := slot\<lparr>slot_value := map_option f (slot_value slot)\<rparr>]\<rparr>
          else h)"

definition heap_contains :: "'a gc_heap \<Rightarrow> heap_handle \<Rightarrow> bool" where
  "heap_contains h hdl \<longleftrightarrow> heap_get h hdl \<noteq> None"

definition live_len :: "'a gc_heap \<Rightarrow> nat" where
  "live_len h = heap_live h"

definition capacity :: "'a gc_heap \<Rightarrow> nat" where
  "capacity h = length (heap_slots h)"

text \<open>
  \<^verbatim>\<open>collect\<close>: the marker snapshot, the marking loop over the queue of pending slots, and the
  sweep. The marking loop is kept as a loop: for an arbitrary \<open>trace\<close> it may not end, and then
  \<open>mark_phase\<close> is \<open>None\<close>; \<open>mark_phase_marks\<close> below shows that a real \<^verbatim>\<open>Trace\<close> always ends.
\<close>

definition markers :: "'a gc_heap \<Rightarrow> slot_marker list" where
  "markers h = map (\<lambda>s. \<lparr>marker_generation = slot_generation s,
                         marker_occupied = slot_value s \<noteq> None\<rparr>) (heap_slots h)"

definition start_tracer :: "'a gc_heap \<Rightarrow> tracer" where
  "start_tracer h = \<lparr>tr_marks = replicate (length (heap_slots h)) False, tr_pending = [],
                     tr_slots = markers h\<rparr>"

definition mark_step :: "('a \<Rightarrow> tracer \<Rightarrow> tracer) \<Rightarrow> 'a slot list \<Rightarrow> tracer \<Rightarrow> tracer" where
  "mark_step trace slots t =
     (case tr_pending t of
        [] \<Rightarrow> t
      | index # rest \<Rightarrow>
          (case slot_value (slots ! index) of
             Some v \<Rightarrow> trace v (t\<lparr>tr_pending := rest\<rparr>)
           | None \<Rightarrow> t\<lparr>tr_pending := rest\<rparr>))"

definition mark_phase ::
  "('a \<Rightarrow> tracer \<Rightarrow> tracer) \<Rightarrow> 'a gc_heap \<Rightarrow> heap_handle list \<Rightarrow> tracer option" where
  "mark_phase trace h roots =
     while_option (\<lambda>t. tr_pending t \<noteq> []) (mark_step trace (heap_slots h))
       (fold mark roots (start_tracer h))"

fun sweep :: "nat \<Rightarrow> bool list \<Rightarrow> 'a slot list \<Rightarrow> 'a slot list \<times> nat list" where
  "sweep index marks [] = ([], [])"
| "sweep index marks (slot # slots) =
     (case sweep (Suc index) marks slots of (slots', freed) \<Rightarrow>
        if slot_value slot \<noteq> None \<and> \<not> marks ! index
        then (slot\<lparr>slot_value := None, slot_generation := slot_generation slot + 1\<rparr> # slots',
              index # freed)
        else (slot # slots', freed))"

definition collect ::
  "('a \<Rightarrow> tracer \<Rightarrow> tracer) \<Rightarrow> heap_handle list \<Rightarrow> 'a gc_heap \<Rightarrow> ('a gc_heap \<times> collection_report) option" where
  "collect trace roots h =
     (case mark_phase trace h roots of
        None \<Rightarrow> None
      | Some t \<Rightarrow>
          (case sweep 0 (tr_marks t) (heap_slots h) of (slots, freed) \<Rightarrow>
             let live = heap_live h - length freed in
             Some (\<lparr>heap_slots = slots, heap_free = heap_free h @ freed, heap_live = live\<rparr>,
                   \<lparr>marked = length (filter id (tr_marks t)), collected = length freed,
                    live_after = live\<rparr>)))"

section \<open>Well-formed heaps\<close>

text \<open>
  The free list holds exactly the vacant slots, once each, and the live count is the number of
  occupied slots; so a pop of the free list is in range and \<^verbatim>\<open>live_len -= collected\<close> does not
  underflow.
\<close>

definition occupied :: "'a gc_heap \<Rightarrow> nat \<Rightarrow> bool" where
  "occupied h i \<longleftrightarrow> i < length (heap_slots h) \<and> slot_value (heap_slots h ! i) \<noteq> None"

definition heap_wf :: "'a gc_heap \<Rightarrow> bool" where
  "heap_wf h \<longleftrightarrow>
     distinct (heap_free h) \<and>
     set (heap_free h) = {i. i < length (heap_slots h) \<and> slot_value (heap_slots h ! i) = None} \<and>
     heap_live h = card {i. occupied h i}"

text \<open>A handle resolves to the slot it indexes when the generations agree and it is occupied.\<close>

definition resolves :: "'a gc_heap \<Rightarrow> heap_handle \<Rightarrow> nat \<Rightarrow> bool" where
  "resolves h hdl i \<longleftrightarrow>
     i = unat (handle_index hdl) \<and> occupied h i \<and>
     slot_generation (heap_slots h ! i) = handle_generation hdl"

text \<open>The abstract meaning of tracing: the slots reachable from the roots.\<close>

inductive reach :: "('a \<Rightarrow> heap_handle list) \<Rightarrow> 'a gc_heap \<Rightarrow> heap_handle list \<Rightarrow> nat \<Rightarrow> bool"
  for refs :: "'a \<Rightarrow> heap_handle list" and h :: "'a gc_heap" and roots :: "heap_handle list"
  where
  reach_root: "hdl \<in> set roots \<Longrightarrow> resolves h hdl i \<Longrightarrow> reach refs h roots i"
| reach_step: "reach refs h roots i \<Longrightarrow> slot_value (heap_slots h ! i) = Some v \<Longrightarrow>
     hdl \<in> set (refs v) \<Longrightarrow> resolves h hdl j \<Longrightarrow> reach refs h roots j"

lemma heap_get_Some:
  "heap_get h hdl = Some v \<longleftrightarrow>
   resolves h hdl (unat (handle_index hdl)) \<and>
   slot_value (heap_slots h ! unat (handle_index hdl)) = Some v"
  by (auto simp: heap_get_def resolves_def occupied_def nth_opt_def)

lemma heap_contains_iff: "heap_contains h hdl \<longleftrightarrow> resolves h hdl (unat (handle_index hdl))"
  by (auto simp: heap_contains_def heap_get_def resolves_def occupied_def nth_opt_def)

lemma resolves_index: "resolves h hdl i \<Longrightarrow> i = unat (handle_index hdl)"
  by (simp add: resolves_def)

lemma reach_occupied: "reach refs h roots i \<Longrightarrow> occupied h i"
  by (induction rule: reach.induct) (simp_all add: resolves_def)

lemma occupied_finite: "finite {i. occupied h i}"
  by (rule finite_subset [of _ "{..<length (heap_slots h)}"]) (auto simp: occupied_def)

section \<open>Allocation and access\<close>

lemma heap_new_wf [wf_intro]: "heap_wf heap_new"
  by (simp add: heap_wf_def heap_new_def occupied_def)

text \<open>Under \<open>heap_wf\<close> allocation fills a vacant slot or appends one; nothing else changes.\<close>

lemma allocate_cases:
  assumes "heap_wf h" and "allocate v h = (hdl, h')"
  obtains (reuse) i where
      "heap_free h \<noteq> []" "i = last (heap_free h)" "i < length (heap_slots h)"
      "slot_value (heap_slots h ! i) = None"
      "heap_slots h' = (heap_slots h)[i := (heap_slots h ! i)\<lparr>slot_value := Some v\<rparr>]"
      "heap_free h' = butlast (heap_free h)" "heap_live h' = Suc (heap_live h)"
      "hdl = \<lparr>handle_index = word_of_nat i, handle_generation = slot_generation (heap_slots h ! i)\<rparr>"
  | (append) "heap_free h = []"
      "heap_slots h' = heap_slots h @ [\<lparr>slot_generation = 0, slot_value = Some v\<rparr>]"
      "heap_free h' = []" "heap_live h' = Suc (heap_live h)"
      "hdl = \<lparr>handle_index = word_of_nat (length (heap_slots h)), handle_generation = 0\<rparr>"
proof (cases "heap_free h = []")
  case True
  with assms(2) show thesis by (intro append) (auto simp: allocate_def Let_def)
next
  case False
  define i where "i = last (heap_free h)"
  from False have "i \<in> set (heap_free h)" by (simp add: i_def)
  with assms(1) have i: "i < length (heap_slots h)" "slot_value (heap_slots h ! i) = None"
    by (auto simp: heap_wf_def)
  from False i assms(2) show thesis
    by (intro reuse [of i]) (auto simp: allocate_def Let_def i_def)
qed

lemma set_butlast_distinct: "distinct xs \<Longrightarrow> xs \<noteq> [] \<Longrightarrow> set (butlast xs) = set xs - {last xs}"
  by (cases xs rule: rev_cases) auto

lemma allocate_wf [wf_intro]:
  assumes wf: "heap_wf h" and al: "allocate v h = (hdl, h')"
  shows "heap_wf h'"
proof (cases rule: allocate_cases [OF wf al])
  case (1 i)
  have "{j. occupied h' j} = insert i {j. occupied h j}"
    using 1 by (auto simp: occupied_def nth_list_update split: if_splits)
  moreover have "\<not> occupied h i" using 1 by (simp add: occupied_def)
  moreover have "set (heap_free h') = {j. j < length (heap_slots h') \<and> slot_value (heap_slots h' ! j) = None}"
    using 1 wf by (auto simp: heap_wf_def set_butlast_distinct nth_list_update split: if_splits)
  ultimately show ?thesis
    using 1 wf by (simp add: heap_wf_def occupied_finite distinct_butlast)
next
  case 2
  have "{j. occupied h' j} = insert (length (heap_slots h)) {j. occupied h j}"
    using 2 by (auto simp: occupied_def nth_append split: if_splits)
  moreover have "\<not> occupied h (length (heap_slots h))" by (simp add: occupied_def)
  moreover have "{j. j < length (heap_slots h') \<and> slot_value (heap_slots h' ! j) = None} = {}"
    using 2 wf by (auto simp: heap_wf_def nth_append less_Suc_eq)
  ultimately show ?thesis
    using 2 wf by (simp add: heap_wf_def occupied_finite)
qed

lemma allocate_capacity:
  "heap_wf h \<Longrightarrow> allocate v h = (hdl, h') \<Longrightarrow>
   capacity h' = (if heap_free h = [] then Suc (capacity h) else capacity h)"
  by (erule (1) allocate_cases) (auto simp: capacity_def)

lemma allocate_live: "allocate v h = (hdl, h') \<Longrightarrow> live_len h' = Suc (live_len h)"
  by (auto simp: allocate_def live_len_def Let_def)

text \<open>
  The handle of an allocation resolves to the value, did not resolve before, and every handle
  that resolved before still resolves to the same value. The slot index is stored in 32 bits,
  so this needs the table to stay within them.
\<close>

lemma allocate_get:
  assumes wf: "heap_wf h" and al: "allocate v h = (hdl, h')" and cap: "capacity h' \<le> 2 ^ 32"
  shows "heap_get h' hdl = Some v" and "heap_get h hdl = None"
    and "heap_get h k = Some w \<Longrightarrow> heap_get h' k = Some w"
proof -
  show "heap_get h' hdl = Some v"
  proof (cases rule: allocate_cases [OF wf al])
    case (1 i)
    then have "i < 2 ^ 32" using cap by (simp add: capacity_def)
    with 1 show ?thesis by (simp add: heap_get_def nth_opt_def)
  next
    case 2
    then have "length (heap_slots h) < 2 ^ 32" using cap by (simp add: capacity_def)
    with 2 show ?thesis by (simp add: heap_get_def nth_opt_def nth_append)
  qed
  show "heap_get h hdl = None"
  proof (cases rule: allocate_cases [OF wf al])
    case (1 i)
    then have "i < 2 ^ 32" using cap by (simp add: capacity_def)
    with 1 show ?thesis by (simp add: heap_get_def nth_opt_def)
  next
    case 2
    then have "length (heap_slots h) < 2 ^ 32" using cap by (simp add: capacity_def)
    with 2 show ?thesis by (simp add: heap_get_def nth_opt_def)
  qed
  show "heap_get h k = Some w \<Longrightarrow> heap_get h' k = Some w"
    by (cases rule: allocate_cases [OF wf al])
      (auto simp: heap_get_def nth_opt_def nth_append nth_list_update split: if_splits)
qed

lemma heap_get_mut_same:
  "heap_get h hdl = Some v \<Longrightarrow> heap_get (heap_get_mut hdl f h) hdl = Some (f v)"
  by (auto simp: heap_get_def heap_get_mut_def nth_opt_def Let_def split: if_splits)

lemma heap_get_mut_other:
  "handle_index k \<noteq> handle_index hdl \<or> handle_generation k \<noteq> handle_generation hdl \<Longrightarrow>
   heap_get (heap_get_mut hdl f h) k = heap_get h k"
  by (auto simp: heap_get_def heap_get_mut_def nth_opt_def Let_def nth_list_update
      split: if_splits dest: unsigned_word_eqI)

lemma occupied_get_mut [simp]: "occupied (heap_get_mut hdl f h) = occupied h"
  by (auto simp: occupied_def heap_get_mut_def nth_opt_def Let_def fun_eq_iff nth_list_update
      split: if_splits)

lemma heap_get_mut_frame [simp]:
  "heap_free (heap_get_mut hdl f h) = heap_free h" "heap_live (heap_get_mut hdl f h) = heap_live h"
  "length (heap_slots (heap_get_mut hdl f h)) = length (heap_slots h)"
  "capacity (heap_get_mut hdl f h) = capacity h"
  by (auto simp: heap_get_mut_def nth_opt_def Let_def capacity_def)

lemma heap_wf_alt:
  "heap_wf h \<longleftrightarrow> distinct (heap_free h) \<and>
     set (heap_free h) = {i. i < length (heap_slots h) \<and> \<not> occupied h i} \<and>
     heap_live h = card {i. occupied h i}"
proof -
  have "{i. i < length (heap_slots h) \<and> slot_value (heap_slots h ! i) = None} =
        {i. i < length (heap_slots h) \<and> \<not> occupied h i}"
    by (auto simp: occupied_def)
  then show ?thesis by (simp add: heap_wf_def)
qed

lemma heap_get_mut_wf [wf_intro]: "heap_wf h \<Longrightarrow> heap_wf (heap_get_mut hdl f h)"
  by (simp add: heap_wf_alt)

section \<open>Marking\<close>

definition tr_work :: "tracer \<Rightarrow> nat" where
  "tr_work t = length (filter Not (tr_marks t)) + length (tr_pending t)"

definition tr_ok :: "'a gc_heap \<Rightarrow> (nat \<Rightarrow> bool) \<Rightarrow> tracer \<Rightarrow> bool" where
  "tr_ok h R t \<longleftrightarrow>
     tr_slots t = markers h \<and> length (tr_marks t) = length (heap_slots h) \<and>
     (\<forall>i\<in>set (tr_pending t). i < length (heap_slots h) \<and> tr_marks t ! i) \<and>
     (\<forall>i<length (heap_slots h). tr_marks t ! i \<longrightarrow> R i)"

definition tr_ext :: "tracer \<Rightarrow> tracer \<Rightarrow> bool" where
  "tr_ext t u \<longleftrightarrow>
     length (tr_marks u) = length (tr_marks t) \<and> tr_work u = tr_work t \<and>
     set (tr_pending t) \<subseteq> set (tr_pending u) \<and>
     (\<forall>i<length (tr_marks t). (tr_marks t ! i \<longrightarrow> tr_marks u ! i) \<and>
        (tr_marks u ! i \<longrightarrow> tr_marks t ! i \<or> i \<in> set (tr_pending u)))"

lemma tr_ext_refl: "tr_ext t t"
  by (simp add: tr_ext_def)

lemma tr_ext_trans: "tr_ext t u \<Longrightarrow> tr_ext u w \<Longrightarrow> tr_ext t w"
  unfolding tr_ext_def by fastforce

lemma filter_Not_update:
  "i < length ms \<Longrightarrow> \<not> ms ! i \<Longrightarrow> Suc (length (filter Not (ms[i := True]))) = length (filter Not ms)"
proof (induction ms arbitrary: i)
  case (Cons m ms)
  then show ?case by (cases i) auto
qed simp

lemma markers_nth: "i < length (heap_slots h) \<Longrightarrow>
    markers h ! i = \<lparr>marker_generation = slot_generation (heap_slots h ! i),
                     marker_occupied = slot_value (heap_slots h ! i) \<noteq> None\<rparr>"
  and length_markers [simp]: "length (markers h) = length (heap_slots h)"
  by (simp_all add: markers_def)

text \<open>What one \<^verbatim>\<open>mark\<close> does to a tracer of \<open>h\<close>: nothing, or one slot is marked and queued.\<close>

lemma mark_cases:
  assumes "tr_slots t = markers h"
  shows "mark hdl t =
    (let i = unat (handle_index hdl) in
     if resolves h hdl i \<and> \<not> tr_marks t ! i
     then t\<lparr>tr_marks := (tr_marks t)[i := True], tr_pending := tr_pending t @ [i]\<rparr> else t)"
  using assms
  by (auto simp: mark_def Let_def resolves_def occupied_def nth_opt_def markers_nth)

lemma mark_step_ok:
  assumes ok: "tr_ok h R t" and R: "\<And>j. resolves h hdl j \<Longrightarrow> R j"
  shows "tr_ok h R (mark hdl t)" and "tr_ext t (mark hdl t)"
    and "resolves h hdl j \<Longrightarrow> tr_marks (mark hdl t) ! j"
proof -
  let ?i = "unat (handle_index hdl)"
  have sl: "tr_slots t = markers h" and len: "length (tr_marks t) = length (heap_slots h)"
    using ok by (simp_all add: tr_ok_def)
  note m = mark_cases [OF sl, of hdl]
  have lt: "resolves h hdl ?i \<Longrightarrow> ?i < length (heap_slots h)"
    by (simp add: resolves_def occupied_def)
  show "tr_ok h R (mark hdl t)"
    using ok R lt by (auto simp: m Let_def tr_ok_def nth_list_update)
  show "tr_ext t (mark hdl t)"
  proof (cases "resolves h hdl ?i \<and> \<not> tr_marks t ! ?i")
    case True
    then have "Suc (length (filter Not ((tr_marks t)[?i := True]))) = length (filter Not (tr_marks t))"
      using lt len by (intro filter_Not_update) auto
    with True lt len show ?thesis
      by (auto simp: m Let_def tr_ext_def tr_work_def nth_list_update)
  next
    case False
    then show ?thesis by (auto simp: m Let_def tr_ext_refl)
  qed
  show "tr_marks (mark hdl t) ! j" if "resolves h hdl j"
    using that lt len resolves_index [OF that] by (auto simp: m Let_def)
qed

lemma mark_list_ok:
  assumes "tr_ok h R t" and "\<And>hdl j. hdl \<in> set hs \<Longrightarrow> resolves h hdl j \<Longrightarrow> R j"
  shows "tr_ok h R (fold mark hs t) \<and> tr_ext t (fold mark hs t) \<and>
    (\<forall>hdl j. hdl \<in> set hs \<longrightarrow> resolves h hdl j \<longrightarrow> tr_marks (fold mark hs t) ! j)"
  using assms
proof (induction hs arbitrary: t)
  case Nil
  then show ?case by (simp add: tr_ext_refl)
next
  case (Cons k hs)
  let ?t = "mark k t" let ?u = "fold mark hs ?t"
  have 1: "tr_ok h R ?t" "tr_ext t ?t" "\<And>j. resolves h k j \<Longrightarrow> tr_marks ?t ! j"
    using mark_step_ok [OF Cons.prems(1), of k] Cons.prems(2) [of k] by auto
  have 2: "tr_ok h R ?u \<and> tr_ext ?t ?u \<and>
      (\<forall>hdl j. hdl \<in> set hs \<longrightarrow> resolves h hdl j \<longrightarrow> tr_marks ?u ! j)"
    using Cons.IH [OF 1(1)] Cons.prems(2) by auto
  have len: "length (tr_marks ?t) = length (heap_slots h)"
    using 1(1) by (simp add: tr_ok_def)
  have "tr_marks ?u ! j" if r: "resolves h k j" for j
  proof -
    have "j < length (tr_marks ?t)" using r len by (simp add: resolves_def occupied_def)
    with 1(3) [OF r] 2 show ?thesis unfolding tr_ext_def by blast
  qed
  with 1 2 tr_ext_trans [of t ?t ?u] show ?case by auto
qed

section \<open>The collector of a traced heap\<close>

locale tracing =
  fixes trace :: "'a \<Rightarrow> tracer \<Rightarrow> tracer" and refs :: "'a \<Rightarrow> heap_handle list"
  assumes trace_marks: "trace v t = fold mark (refs v) t"
begin

text \<open>
  The loop invariant: only reachable slots are marked, and every marked slot that is no longer
  pending has all its references marked.
\<close>

definition mark_inv :: "'a gc_heap \<Rightarrow> heap_handle list \<Rightarrow> tracer \<Rightarrow> bool" where
  "mark_inv h roots t \<longleftrightarrow>
     tr_ok h (reach refs h roots) t \<and>
     (\<forall>k\<in>set roots. \<forall>j. resolves h k j \<longrightarrow> tr_marks t ! j) \<and>
     (\<forall>i<length (heap_slots h). tr_marks t ! i \<longrightarrow> i \<notin> set (tr_pending t) \<longrightarrow>
        (\<forall>v k j. slot_value (heap_slots h ! i) = Some v \<longrightarrow> k \<in> set (refs v) \<longrightarrow>
           resolves h k j \<longrightarrow> tr_marks t ! j))"

lemma mark_inv_start: "mark_inv h roots (fold mark roots (start_tracer h))"
proof -
  let ?s = "start_tracer h" let ?t = "fold mark roots ?s"
  have "tr_ok h (reach refs h roots) ?s"
    by (simp add: tr_ok_def start_tracer_def)
  then have t: "tr_ok h (reach refs h roots) ?t" "tr_ext ?s ?t"
    "\<forall>k j. k \<in> set roots \<longrightarrow> resolves h k j \<longrightarrow> tr_marks ?t ! j"
    using mark_list_ok [of h "reach refs h roots" ?s roots] by (auto intro: reach_root)
  have "i \<in> set (tr_pending ?t)" if "i < length (heap_slots h)" "tr_marks ?t ! i" for i
    using t(2) that by (auto simp: tr_ext_def start_tracer_def)
  with t show ?thesis by (auto simp: mark_inv_def)
qed

lemma mark_inv_step:
  assumes inv: "mark_inv h roots t" and pend: "tr_pending t \<noteq> []"
  shows "mark_inv h roots (mark_step trace (heap_slots h) t)"
    and "tr_work (mark_step trace (heap_slots h) t) < tr_work t"
proof -
  obtain i rest where p: "tr_pending t = i # rest" using pend by (cases "tr_pending t") auto
  let ?t = "t\<lparr>tr_pending := rest\<rparr>"
  have ok: "tr_ok h (reach refs h roots) ?t" and i: "i < length (heap_slots h)" "tr_marks t ! i"
    and ri: "reach refs h roots i"
    using inv p by (auto simp: mark_inv_def tr_ok_def)
  then obtain v where v: "slot_value (heap_slots h ! i) = Some v"
    using reach_occupied [OF ri] by (auto simp: occupied_def)
  let ?u = "fold mark (refs v) ?t"
  have step: "mark_step trace (heap_slots h) t = ?u"
    by (simp add: mark_step_def p v trace_marks)
  have u: "tr_ok h (reach refs h roots) ?u" "tr_ext ?t ?u"
    "\<And>k j. k \<in> set (refs v) \<Longrightarrow> resolves h k j \<Longrightarrow> tr_marks ?u ! j"
    using mark_list_ok [OF ok, of "refs v"] reach_step [OF ri v] by auto
  have len: "length (tr_marks t) = length (heap_slots h)"
    using ok by (simp add: tr_ok_def)
  have mono: "tr_marks ?u ! j" if "j < length (heap_slots h)" "tr_marks t ! j" for j
    using u(2) that len by (auto simp: tr_ext_def)
  have res_lt: "resolves h k j \<Longrightarrow> j < length (heap_slots h)" for k j
    by (simp add: resolves_def occupied_def)
  have "tr_marks ?u ! j" if "i' < length (heap_slots h)" "tr_marks ?u ! i'" "i' \<notin> set (tr_pending ?u)"
    "slot_value (heap_slots h ! i') = Some w" "k \<in> set (refs w)" "resolves h k j" for i' w k j
  proof (cases "i' = i")
    case True
    with that v u(3) show ?thesis by auto
  next
    case False
    have "tr_marks t ! i'" "i' \<notin> set rest"
      using u(2) that(1,2,3) len by (auto simp: tr_ext_def)
    with False that inv p have "tr_marks t ! j" by (auto simp: mark_inv_def)
    with mono res_lt that(6) show ?thesis by blast
  qed
  moreover have "\<forall>k\<in>set roots. \<forall>j. resolves h k j \<longrightarrow> tr_marks ?u ! j"
    using inv mono res_lt by (auto simp: mark_inv_def)
  ultimately show "mark_inv h roots (mark_step trace (heap_slots h) t)"
    using u(1) by (auto simp: mark_inv_def step)
  have "tr_work ?u = tr_work ?t" using u(2) by (simp add: tr_ext_def)
  then show "tr_work (mark_step trace (heap_slots h) t) < tr_work t"
    by (simp add: step tr_work_def p)
qed

lemma mark_inv_done:
  assumes "mark_inv h roots t" and "tr_pending t = []" and "i < length (heap_slots h)"
  shows "tr_marks t ! i \<longleftrightarrow> reach refs h roots i"
proof
  assume "reach refs h roots i"
  then show "tr_marks t ! i"
  proof (induction rule: reach.induct)
    case (reach_root k j)
    then show ?case using assms(1) by (auto simp: mark_inv_def)
  next
    case (reach_step j v k l)
    then show ?case using assms(1,2) by (auto simp: mark_inv_def resolves_def occupied_def
        dest!: reach_occupied)
  qed
qed (use assms in \<open>auto simp: mark_inv_def tr_ok_def\<close>)

text \<open>The marking loop ends, with the marks on exactly the reachable slots.\<close>

lemma mark_phase_marks:
  obtains t where "mark_phase trace h roots = Some t"
    "length (tr_marks t) = length (heap_slots h)"
    "\<And>i. i < length (heap_slots h) \<Longrightarrow> tr_marks t ! i \<longleftrightarrow> reach refs h roots i"
proof -
  let ?b = "\<lambda>t. tr_pending t \<noteq> []" and ?c = "mark_step trace (heap_slots h)"
  let ?s = "fold mark roots (start_tracer h)"
  have "\<exists>t. while_option ?b ?c ?s = Some t"
    by (rule measure_while_option_Some [of "mark_inv h roots" _ _ tr_work])
      (auto simp: mark_inv_step mark_inv_start)
  then obtain t where t: "while_option ?b ?c ?s = Some t" by blast
  have inv: "mark_inv h roots t"
    by (rule while_option_rule [of "mark_inv h roots", OF _ t mark_inv_start])
      (rule mark_inv_step)
  have "tr_pending t = []" using while_option_stop [OF t] by simp
  with mark_inv_done [OF inv] inv t show thesis
    by (intro that [of t]) (auto simp: mark_phase_def mark_inv_def tr_ok_def)
qed

end

section \<open>Sweeping\<close>

definition dead_slot :: "bool list \<Rightarrow> nat \<Rightarrow> 'a slot \<Rightarrow> bool" where
  "dead_slot marks i s \<longleftrightarrow> slot_value s \<noteq> None \<and> \<not> marks ! i"

definition retire :: "'a slot \<Rightarrow> 'a slot" where
  "retire s = s\<lparr>slot_value := None, slot_generation := slot_generation s + 1\<rparr>"

lemma sweep_spec:
  "sweep k marks ss =
     (map (\<lambda>(i, s). if dead_slot marks i s then retire s else s) (enumerate k ss),
      map fst (filter (\<lambda>(i, s). dead_slot marks i s) (enumerate k ss)))"
  by (induction ss arbitrary: k) (auto simp: dead_slot_def retire_def)

lemma sweep_nth:
  assumes "sweep 0 marks ss = (ss', freed)"
  shows "length ss' = length ss"
    and "i < length ss \<Longrightarrow> ss' ! i = (if dead_slot marks i (ss ! i) then retire (ss ! i) else ss ! i)"
    and "set freed = {i. i < length ss \<and> dead_slot marks i (ss ! i)}"
    and "distinct freed"
proof -
  have sp: "ss' = map (\<lambda>(i, s). if dead_slot marks i s then retire s else s) (enumerate 0 ss)"
    "freed = map fst (filter (\<lambda>(i, s). dead_slot marks i s) (enumerate 0 ss))"
    using assms by (simp_all add: sweep_spec)
  show "length ss' = length ss" by (simp add: sp(1))
  show "i < length ss \<Longrightarrow> ss' ! i = (if dead_slot marks i (ss ! i) then retire (ss ! i) else ss ! i)"
    by (simp add: sp(1) nth_enumerate_eq)
  show "set freed = {i. i < length ss \<and> dead_slot marks i (ss ! i)}"
    by (force simp: sp(2) in_set_enumerate_eq)
  have "distinct (map fst (enumerate 0 ss))" by simp
  then show "distinct freed" unfolding sp(2) by (rule distinct_map_filter)
qed

section \<open>Collection\<close>

context tracing
begin

text \<open>
  Collection always returns. Reachable slots are untouched, the other occupied ones lose their
  value and move to the next generation, and the report counts both.
\<close>

lemma collect_total: "\<exists>h' rep. collect trace roots h = Some (h', rep)"
proof -
  obtain t where "mark_phase trace h roots = Some t"
    using mark_phase_marks by blast
  then show ?thesis by (simp add: collect_def Let_def split: prod.split)
qed

lemma collect_facts:
  assumes c: "collect trace roots h = Some (h', rep)"
  shows "length (heap_slots h') = length (heap_slots h)"
    and "i < length (heap_slots h) \<Longrightarrow> heap_slots h' ! i =
       (if occupied h i \<and> \<not> reach refs h roots i then retire (heap_slots h ! i) else heap_slots h ! i)"
    and "heap_free h' = heap_free h @ drop (length (heap_free h)) (heap_free h')"
    and "set (drop (length (heap_free h)) (heap_free h')) = {i. occupied h i \<and> \<not> reach refs h roots i}"
    and "distinct (drop (length (heap_free h)) (heap_free h'))"
    and "heap_live h' = heap_live h - collected rep" and "live_after rep = live_len h'"
    and "marked rep = card {i. reach refs h roots i}"
    and "collected rep = card {i. occupied h i \<and> \<not> reach refs h roots i}"
proof -
  obtain t where t: "mark_phase trace h roots = Some t"
    "length (tr_marks t) = length (heap_slots h)"
    "\<And>i. i < length (heap_slots h) \<Longrightarrow> tr_marks t ! i \<longleftrightarrow> reach refs h roots i"
    using mark_phase_marks by blast
  obtain ss fr where sw: "sweep 0 (tr_marks t) (heap_slots h) = (ss, fr)" by fastforce
  note sn = sweep_nth [OF sw]
  have h': "heap_slots h' = ss" "heap_free h' = heap_free h @ fr" "heap_live h' = heap_live h - length fr"
    and rep: "marked rep = length (filter id (tr_marks t))" "collected rep = length fr"
    "live_after rep = heap_live h - length fr"
    using c by (auto simp: collect_def t(1) sw Let_def)
  have lt: "reach refs h roots i \<Longrightarrow> i < length (heap_slots h)" for i
    using reach_occupied [of refs h roots i] by (simp add: occupied_def)
  have setfr: "set fr = {i. occupied h i \<and> \<not> reach refs h roots i}"
    using sn(3) t(3) by (auto simp: dead_slot_def occupied_def)
  have "{i. i < length (tr_marks t) \<and> id (tr_marks t ! i)} = {i. reach refs h roots i}"
    using t(2,3) lt by auto
  then show "marked rep = card {i. reach refs h roots i}"
    by (simp add: rep length_filter_conv_card)
  show "collected rep = card {i. occupied h i \<and> \<not> reach refs h roots i}"
    using distinct_card [OF sn(4)] setfr rep by simp
  show "length (heap_slots h') = length (heap_slots h)" by (simp add: h' sn(1))
  show "i < length (heap_slots h) \<Longrightarrow> heap_slots h' ! i =
     (if occupied h i \<and> \<not> reach refs h roots i then retire (heap_slots h ! i) else heap_slots h ! i)"
    using sn(2) [of i] t(3) [of i] by (auto simp: h' dead_slot_def occupied_def)
  show "heap_free h' = heap_free h @ drop (length (heap_free h)) (heap_free h')"
    "set (drop (length (heap_free h)) (heap_free h')) = {i. occupied h i \<and> \<not> reach refs h roots i}"
    "distinct (drop (length (heap_free h)) (heap_free h'))"
    using sn(4) setfr by (simp_all add: h')
  show "heap_live h' = heap_live h - collected rep" "live_after rep = live_len h'"
    by (simp_all add: h' rep live_len_def)
qed

lemma reach_subset_occupied:
  "card {i. occupied h i \<and> \<not> reach refs h roots i} + card {i. reach refs h roots i} = card {i. occupied h i}"
proof -
  have "{i. occupied h i} = {i. occupied h i \<and> \<not> reach refs h roots i} \<union> {i. reach refs h roots i}"
    using reach_occupied by auto
  moreover have "finite {i. occupied h i \<and> \<not> reach refs h roots i}" "finite {i. reach refs h roots i}"
    by (rule finite_subset [OF _ occupied_finite [of h]], auto dest: reach_occupied)+
  ultimately show ?thesis by (subst card_Un_disjoint [symmetric]) auto
qed

lemma collect_occupied:
  assumes c: "collect trace roots h = Some (h', rep)"
  shows "occupied h' i \<longleftrightarrow> reach refs h roots i"
  using collect_facts(1,2) [OF c] reach_occupied [of refs h roots i]
  by (auto simp: occupied_def retire_def split: if_splits)

lemma collect_wf:
  assumes wf: "heap_wf h" and c: "collect trace roots h = Some (h', rep)"
  shows "heap_wf h'" and "live_len h' = marked rep" and "live_len h = marked rep + collected rep"
proof -
  note f = collect_facts [OF c]
  have occ: "{i. occupied h' i} = {i. reach refs h roots i}"
    using collect_occupied [OF c] by simp
  have hl: "heap_live h = card {i. occupied h i}" using wf by (simp add: heap_wf_alt)
  with f(6,9) reach_subset_occupied [of h roots]
  have lv: "heap_live h' = card {i. reach refs h roots i}" by simp
  have dj: "set (heap_free h) \<inter> {i. occupied h i \<and> \<not> reach refs h roots i} = {}"
    using wf by (auto simp: heap_wf_alt)
  have "distinct (heap_free h')"
    by (subst f(3), subst distinct_append) (use wf f(4,5) dj in \<open>auto simp: heap_wf_alt\<close>)
  moreover have "set (heap_free h') = {i. i < length (heap_slots h') \<and> \<not> occupied h' i}"
  proof -
    have "set (heap_free h') = set (heap_free h) \<union> {i. occupied h i \<and> \<not> reach refs h roots i}"
      by (subst f(3), subst set_append) (simp only: f(4))
    also have "set (heap_free h) = {i. i < length (heap_slots h) \<and> \<not> occupied h i}"
      using wf by (simp add: heap_wf_alt)
    also have "\<dots> \<union> {i. occupied h i \<and> \<not> reach refs h roots i} =
        {i. i < length (heap_slots h) \<and> \<not> reach refs h roots i}"
      by (auto simp: occupied_def dest!: reach_occupied)
    finally show ?thesis using f(1) collect_occupied [OF c] by simp
  qed
  ultimately show "heap_wf h'" using lv occ by (simp add: heap_wf_alt)
  show "live_len h' = marked rep" using lv f(8) by (simp add: live_len_def)
  show "live_len h = marked rep + collected rep"
    using hl f(8,9) reach_subset_occupied [of h roots] by (simp add: live_len_def)
qed

text \<open>The client's view: a handle survives exactly when its slot is reachable.\<close>

lemma collect_get:
  assumes c: "collect trace roots h = Some (h', rep)"
  shows "heap_get h' k =
    (if reach refs h roots (unat (handle_index k)) then heap_get h k else None)"
proof -
  let ?i = "unat (handle_index k)"
  have "reach refs h roots ?i \<Longrightarrow> ?i < length (heap_slots h)"
    using reach_occupied [of refs h roots ?i] by (simp add: occupied_def)
  with collect_facts(1,2) [OF c] show ?thesis
    by (auto simp: heap_get_def nth_opt_def occupied_def retire_def)
qed

lemma collect_capacity:
  "collect trace roots h = Some (h', rep) \<Longrightarrow> capacity h' = capacity h"
  using collect_facts(1) [of roots h h' rep] by (simp add: capacity_def)

lemma collect_generation:
  "collect trace roots h = Some (h', rep) \<Longrightarrow> i < length (heap_slots h) \<Longrightarrow>
   slot_generation (heap_slots h' ! i) =
     slot_generation (heap_slots h ! i) + (if occupied h i \<and> \<not> reach refs h roots i then 1 else 0)"
  using collect_facts(2) [of roots h h' rep i] by (simp add: retire_def)

end

section \<open>How long a stale handle stays stale\<close>

text \<open>\<open>heap_run trace h n h'\<close>: some operations, \<open>n\<close> of them collections, lead from \<open>h\<close> to \<open>h'\<close>.\<close>

inductive heap_run :: "('a \<Rightarrow> tracer \<Rightarrow> tracer) \<Rightarrow> 'a gc_heap \<Rightarrow> nat \<Rightarrow> 'a gc_heap \<Rightarrow> bool"
  for trace :: "'a \<Rightarrow> tracer \<Rightarrow> tracer" and h :: "'a gc_heap" where
  run_start: "heap_run trace h 0 h"
| run_allocate: "heap_run trace h n h1 \<Longrightarrow> allocate v h1 = (hdl, h2) \<Longrightarrow> heap_run trace h n h2"
| run_write: "heap_run trace h n h1 \<Longrightarrow> heap_run trace h n (heap_get_mut hdl f h1)"
| run_collect: "heap_run trace h n h1 \<Longrightarrow> collect trace roots h1 = Some (h2, rep) \<Longrightarrow>
     heap_run trace h (Suc n) h2"

lemma allocate_generation:
  "heap_wf h \<Longrightarrow> allocate v h = (hdl, h') \<Longrightarrow> i < length (heap_slots h) \<Longrightarrow>
   i < length (heap_slots h') \<and>
   slot_generation (heap_slots h' ! i) = slot_generation (heap_slots h ! i)"
  by (erule (1) allocate_cases) (auto simp: nth_append nth_list_update)

lemma get_mut_generation:
  "slot_generation (heap_slots (heap_get_mut hdl f h) ! i) = slot_generation (heap_slots h ! i)"
  by (cases "unat (handle_index hdl) = i")
    (auto simp: heap_get_mut_def nth_opt_def Let_def)

context tracing
begin

lemma heap_run_generation:
  assumes "heap_run trace h n h'" and "heap_wf h" and "i < length (heap_slots h)"
  shows "heap_wf h' \<and> i < length (heap_slots h') \<and>
    (\<exists>m\<le>n. slot_generation (heap_slots h' ! i) = slot_generation (heap_slots h ! i) + word_of_nat m)"
  using assms
proof (induction rule: heap_run.induct)
  case run_start
  then show ?case by auto
next
  case (run_allocate n h1 v hdl h2)
  then show ?case using allocate_generation [of h1 v hdl h2 i] allocate_wf [of h1 v hdl h2] by auto
next
  case (run_write n h1 hdl f)
  then show ?case by (auto simp: get_mut_generation intro: wf_intro)
next
  case (run_collect n h1 roots h2 rep)
  then obtain m where m: "m \<le> n"
    "slot_generation (heap_slots h1 ! i) = slot_generation (heap_slots h ! i) + word_of_nat m"
    and wf: "heap_wf h1" and i: "i < length (heap_slots h1)"
    by blast
  have "slot_generation (heap_slots h2 ! i) = slot_generation (heap_slots h ! i) + word_of_nat m \<or>
        slot_generation (heap_slots h2 ! i) = slot_generation (heap_slots h ! i) + word_of_nat (Suc m)"
    using collect_generation [OF run_collect.hyps(2) i] m(2) by (simp split: if_splits)
  moreover have "i < length (heap_slots h2)"
    using collect_capacity [OF run_collect.hyps(2)] i by (simp add: capacity_def)
  ultimately show ?case
    using m(1) collect_wf(1) [OF wf run_collect.hyps(2)] by (meson Suc_le_mono le_SucI)
qed

text \<open>
  A handle whose slot was freed does not resolve again before the slot's 32-bit generation has
  gone all the way round.
\<close>

lemma stale_handle_dead:
  assumes wf: "heap_wf h" and live: "heap_get h k = Some v"
    and c: "collect trace roots h = Some (h1, rep)"
    and dead: "\<not> reach refs h roots (unat (handle_index k))"
    and run: "heap_run trace h1 n h'" and n: "n < 2 ^ 32 - 1"
  shows "heap_get h' k = None"
proof -
  let ?i = "unat (handle_index k)"
  have i: "?i < length (heap_slots h)" and occ: "occupied h ?i"
    and gen: "slot_generation (heap_slots h ! ?i) = handle_generation k"
    using live by (auto simp: heap_get_Some resolves_def occupied_def)
  have i1: "?i < length (heap_slots h1)"
    using collect_capacity [OF c] i by (simp add: capacity_def)
  have g1: "slot_generation (heap_slots h1 ! ?i) = handle_generation k + 1"
    using collect_generation [OF c i] occ dead gen by simp
  obtain m where m: "m \<le> n"
    "slot_generation (heap_slots h' ! ?i) = handle_generation k + 1 + word_of_nat m"
    using heap_run_generation [OF run collect_wf(1) [OF wf c] i1] g1 by auto
  have "(word_of_nat (Suc m) :: u32) \<noteq> 0"
    using m(1) n of_nat_32_inj [of "Suc m" 0] by simp
  then have "slot_generation (heap_slots h' ! ?i) \<noteq> handle_generation k"
    using m(2) by (simp add: add.assoc)
  then show ?thesis by (auto simp: heap_get_def nth_opt_def)
qed

end

text \<open>\<^verbatim>\<open>impl Trace for ()\<close>: a value without references.\<close>

definition trace_unit :: "unit \<Rightarrow> tracer \<Rightarrow> tracer" where
  "trace_unit v t = t"

interpretation unit_heap: tracing trace_unit "\<lambda>_. []"
  by unfold_locales (simp add: trace_unit_def)

end
