(* ===== verification/Verifier.thy ===== *)
theory Verifier
  imports Bytecode
begin

text \<open>
  The mandatory bytecode verifier (\<^verbatim>\<open>Verifier\<close> in \<^verbatim>\<open>runtime/bytecode/src/lib.rs\<close>): a pass over
  every instruction of every block that collects errors, with the set of values defined so far
  in the block and the number of locals it may read. The second half states what an accepted
  module satisfies without any pass over it (\<open>module_ok\<close>) and proves that the verifier accepts
  exactly those modules.
\<close>

section \<open>Errors and checks\<close>

datatype verify_error_code =
  InvalidHeader | EmptyFunctionTable | InvalidConstantReference | InvalidLocalReference
| InvalidValueReference | InvalidJumpTarget | InvalidSourceReference | InvalidExceptionEntry
| MissingTerminator | InvalidTypeState

record verify_error =
  verr_code :: verify_error_code
  verr_message :: string

text \<open>
  The verifier's error list with the per-block state: \<^verbatim>\<open>defined_values: HashSet<u32>\<close> and
  \<^verbatim>\<open>local_count: u32\<close>, whose increment wraps as in a release build.
\<close>

record verifier =
  vs_errors :: "verify_error list"
  vs_defined :: "u32 set"
  vs_locals :: u32

definition report :: "verify_error_code \<Rightarrow> string \<Rightarrow> verifier \<Rightarrow> verifier" where
  "report code message v =
     v\<lparr>vs_errors := vs_errors v @ [\<lparr>verr_code = code, verr_message = message\<rparr>]\<rparr>"

definition expect_operands :: "instruction \<Rightarrow> nat \<Rightarrow> verifier \<Rightarrow> verifier" where
  "expect_operands i count v =
     (if length (ins_operands i) \<noteq> count
      then report InvalidValueReference ''invalid operand count'' v else v)"

text \<open>\<^verbatim>\<open>index.is_none_or(bad)\<close>.\<close>

definition none_or :: "('a \<Rightarrow> bool) \<Rightarrow> 'a option \<Rightarrow> bool" where
  "none_or bad x = (case x of None \<Rightarrow> True | Some y \<Rightarrow> bad y)"

definition check_constant :: "bytecode_module \<Rightarrow> u32 option \<Rightarrow> verifier \<Rightarrow> verifier" where
  "check_constant m index v =
     (if none_or (\<lambda>index. length (mod_constants m) \<le> unat index) index
      then report InvalidConstantReference ''invalid constant pool reference'' v else v)"

definition check_local :: "u32 option \<Rightarrow> verifier \<Rightarrow> verifier" where
  "check_local index v =
     (if none_or (\<lambda>index. vs_locals v \<le> index) index
      then report InvalidLocalReference ''invalid local reference'' v else v)"

definition check_value :: "u32 option \<Rightarrow> verifier \<Rightarrow> verifier" where
  "check_value index v =
     (if none_or (\<lambda>index. index \<notin> vs_defined v) index
      then report InvalidValueReference ''invalid value reference'' v else v)"

definition check_block :: "u32 set \<Rightarrow> u32 option \<Rightarrow> verifier \<Rightarrow> verifier" where
  "check_block block_ids index v =
     (if none_or (\<lambda>index. index \<notin> block_ids) index
      then report InvalidJumpTarget ''invalid jump target'' v else v)"

definition define_value :: "instruction \<Rightarrow> verifier \<Rightarrow> verifier" where
  "define_value i v =
     (case instruction_result_value i (word_of_nat (card (vs_defined v))) of
        None \<Rightarrow> v
      | Some w \<Rightarrow> v\<lparr>vs_defined := insert w (vs_defined v)\<rparr>)"

text \<open>\<^verbatim>\<open>chunks(2)\<close>: the last chunk may be short.\<close>

fun chunks2 :: "'a list \<Rightarrow> 'a list list" where
  "chunks2 [] = []"
| "chunks2 [x] = [[x]]"
| "chunks2 (x # y # zs) = [x, y] # chunks2 zs"

section \<open>The pass\<close>

definition verify_operands :: "bytecode_module \<Rightarrow> u32 set \<Rightarrow> instruction \<Rightarrow> verifier \<Rightarrow> verifier" where
  "verify_operands m block_ids i v =
     (let ops = ins_operands i in
      case ins_opcode i of
        LoadConst \<Rightarrow>
          define_value i (check_constant m (nth_opt ops 0) (expect_operands i 1 v))
      | BuildObject \<Rightarrow>
          define_value i
            (case nth_opt ops 0 of
               Some count \<Rightarrow>
                 (let v1 = (if length ops \<noteq> 1 + unat count * 2
                            then report InvalidValueReference
                              ''object operand count does not match property count'' v
                            else v)
                  in fold (\<lambda>pair v. check_value (nth_opt pair 1) (check_constant m (nth_opt pair 0) v))
                       (chunks2 (drop 1 ops)) v1)
             | None \<Rightarrow>
                 report InvalidValueReference ''object instruction missing property count'' v)
      | BuildArray \<Rightarrow>
          define_value i
            (case nth_opt ops 0 of
               Some count \<Rightarrow>
                 (let v1 = (if length ops \<noteq> unat count + 1
                            then report InvalidValueReference
                              ''array operand count does not match element count'' v
                            else v)
                  in fold (\<lambda>operand. check_value (Some operand)) (drop 1 ops) v1)
             | None \<Rightarrow>
                 report InvalidValueReference ''array instruction missing element count'' v)
      | LoadLocal \<Rightarrow>
          define_value i (check_local (nth_opt ops 0) (expect_operands i 1 v))
      | StoreLocal \<Rightarrow>
          (let v1 = expect_operands i 2 v;
               v2 = (case nth_opt ops 0 of
                       None \<Rightarrow> v1
                     | Some local \<Rightarrow>
                         (let v2 = (if vs_locals v1 < local
                                    then report InvalidLocalReference ''store skips local index'' v1
                                    else v1)
                          in if local = vs_locals v2 then v2\<lparr>vs_locals := vs_locals v2 + 1\<rparr> else v2))
           in check_value (nth_opt ops 1) v2)
      | LoadMember \<Rightarrow>
          define_value i
            (check_constant m (nth_opt ops 1) (check_value (nth_opt ops 0) (expect_operands i 2 v)))
      | StoreMember \<Rightarrow>
          check_value (nth_opt ops 2)
            (check_constant m (nth_opt ops 1) (check_value (nth_opt ops 0) (expect_operands i 3 v)))
      | Binary \<Rightarrow>
          (let v1 = check_value (nth_opt ops 2) (check_value (nth_opt ops 1) (expect_operands i 3 v));
               v2 = (if ins_type_tag i = Tag_Unknown
                     then report InvalidTypeState ''binary instruction must have verifier-visible type'' v1
                     else v1)
           in define_value i v2)
      | Call \<Rightarrow>
          (if length ops < 2 then report InvalidValueReference ''call operands missing'' v
           else
             let v1 = check_constant m (nth_opt ops 0) v;
                 argc = unat (ops ! 1);
                 v2 = (if length ops \<noteq> argc + 2
                       then report InvalidValueReference ''call argument count does not match operands'' v1
                       else v1)
             in define_value i (fold (\<lambda>operand. check_value (Some operand)) (drop 2 ops) v2))
      | Branch \<Rightarrow>
          check_block block_ids (nth_opt ops 2) (check_block block_ids (nth_opt ops 1)
            (check_value (nth_opt ops 0) (expect_operands i 3 v)))
      | Jump \<Rightarrow> check_block block_ids (nth_opt ops 0) (expect_operands i 1 v)
      | Return \<Rightarrow>
          (let v1 = (if 1 < length ops
                     then report InvalidValueReference ''return accepts zero or one value'' v else v)
           in case nth_opt ops 0 of None \<Rightarrow> v1 | Some w \<Rightarrow> check_value (Some w) v1))"

definition verify_instruction :: "bytecode_module \<Rightarrow> u32 set \<Rightarrow> instruction \<Rightarrow> verifier \<Rightarrow> verifier" where
  "verify_instruction m block_ids i v =
     verify_operands m block_ids i
       (if length (mod_source_map m) \<le> unat (ins_source_ref i)
        then report InvalidSourceReference ''invalid source map reference'' v else v)"

definition verify_exception_entry :: "u32 set \<Rightarrow> exception_entry \<Rightarrow> verifier \<Rightarrow> verifier" where
  "verify_exception_entry block_ids e v =
     (if start_block e \<notin> block_ids \<or> end_block e \<notin> block_ids \<or> handler_block e \<notin> block_ids
         \<or> end_block e < start_block e
      then report InvalidExceptionEntry ''invalid exception table entry'' v else v)"

definition verify_block :: "bytecode_module \<Rightarrow> u32 set \<Rightarrow> bytecode_function \<Rightarrow> bytecode_block \<Rightarrow> verifier \<Rightarrow> verifier" where
  "verify_block m block_ids f b v =
     fold (verify_instruction m block_ids) (blk_instructions b)
       (v\<lparr>vs_defined := {}, vs_locals := word_of_nat (length (fn_params f))\<rparr>)"

definition has_terminator :: "bytecode_function \<Rightarrow> bool" where
  "has_terminator f \<longleftrightarrow>
     (\<exists>b\<in>set (fn_blocks f). \<exists>i\<in>set (blk_instructions b). is_terminator (ins_opcode i))"

definition verify_function :: "bytecode_module \<Rightarrow> bytecode_function \<Rightarrow> verifier \<Rightarrow> verifier" where
  "verify_function m f v =
     (let block_ids = set (map blk_id (fn_blocks f));
          v1 = fold (verify_exception_entry block_ids) (fn_exception_table f) v;
          v2 = fold (verify_block m block_ids f) (fn_blocks f) v1
      in if \<not> has_terminator f
         then report MissingTerminator ''function has no return, jump, or branch'' v2 else v2)"

definition verify :: "bytecode_module \<Rightarrow> verifier \<Rightarrow> verifier" where
  "verify m v =
     (let v1 = (if hdr_magic (mod_header m) \<noteq> BYTECODE_MAGIC
                   \<or> hdr_version (mod_header m) \<noteq> BYTECODE_VERSION
                then report InvalidHeader ''invalid bytecode header'' v else v);
          v2 = (if mod_functions m = []
                then report EmptyFunctionTable ''function table is empty'' v1 else v1)
      in fold (verify_function m) (mod_functions m) v2)"

definition verify_module :: "bytecode_module \<Rightarrow> verify_error list + unit" where
  "verify_module m =
     (let errors = vs_errors (verify m \<lparr>vs_errors = [], vs_defined = {}, vs_locals = 0\<rparr>)
      in if errors = [] then Inr () else Inl errors)"

section \<open>What an accepted module satisfies\<close>

definition constant_ok :: "bytecode_module \<Rightarrow> u32 \<Rightarrow> bool" where
  "constant_ok m w \<longleftrightarrow> unat w < length (mod_constants m)"

definition operands_ok :: "bytecode_module \<Rightarrow> u32 set \<Rightarrow> u32 set \<Rightarrow> u32 \<Rightarrow> instruction \<Rightarrow> bool" where
  "operands_ok m block_ids defined locals i \<longleftrightarrow>
     (let ops = ins_operands i in
      case ins_opcode i of
        LoadConst \<Rightarrow> (\<exists>c. ops = [c] \<and> constant_ok m c)
      | BuildObject \<Rightarrow>
          (\<exists>n fs. ops = n # fs \<and> length fs = unat n * 2 \<and>
             (\<forall>k<unat n. constant_ok m (fs ! (2 * k)) \<and> fs ! (2 * k + 1) \<in> defined))
      | BuildArray \<Rightarrow> (\<exists>n vs. ops = n # vs \<and> length vs = unat n \<and> set vs \<subseteq> defined)
      | LoadLocal \<Rightarrow> (\<exists>l. ops = [l] \<and> l < locals)
      | StoreLocal \<Rightarrow> (\<exists>l w. ops = [l, w] \<and> l \<le> locals \<and> w \<in> defined)
      | LoadMember \<Rightarrow> (\<exists>w c. ops = [w, c] \<and> w \<in> defined \<and> constant_ok m c)
      | StoreMember \<Rightarrow>
          (\<exists>w c x. ops = [w, c, x] \<and> w \<in> defined \<and> constant_ok m c \<and> x \<in> defined)
      | Binary \<Rightarrow>
          (\<exists>op x y. ops = [op, x, y] \<and> x \<in> defined \<and> y \<in> defined) \<and> ins_type_tag i \<noteq> Tag_Unknown
      | Call \<Rightarrow>
          (\<exists>c n args. ops = c # n # args \<and> constant_ok m c \<and> length args = unat n \<and> set args \<subseteq> defined)
      | Branch \<Rightarrow> (\<exists>w s t. ops = [w, s, t] \<and> w \<in> defined \<and> s \<in> block_ids \<and> t \<in> block_ids)
      | Jump \<Rightarrow> (\<exists>t. ops = [t] \<and> t \<in> block_ids)
      | Return \<Rightarrow> ops = [] \<or> (\<exists>w. ops = [w] \<and> w \<in> defined))"

definition instruction_ok :: "bytecode_module \<Rightarrow> u32 set \<Rightarrow> u32 set \<Rightarrow> u32 \<Rightarrow> instruction \<Rightarrow> bool" where
  "instruction_ok m block_ids defined locals i \<longleftrightarrow>
     unat (ins_source_ref i) < length (mod_source_map m) \<and> operands_ok m block_ids defined locals i"

text \<open>
  The values and locals known before an instruction only depend on the instructions before it:
  values are numbered in order, and a store to the first unused local makes it readable.
\<close>

definition locals_after :: "instruction \<Rightarrow> u32 \<Rightarrow> u32" where
  "locals_after i locals =
     (if ins_opcode i = StoreLocal \<and> nth_opt (ins_operands i) 0 = Some locals then locals + 1 else locals)"

definition values_before :: "instruction list \<Rightarrow> nat" where
  "values_before is = length (filter (\<lambda>i. defines_value (ins_opcode i)) is)"

definition value_ids :: "nat \<Rightarrow> u32 set" where
  "value_ids n = word_of_nat ` {..<n}"

definition block_ok :: "bytecode_module \<Rightarrow> u32 set \<Rightarrow> bytecode_function \<Rightarrow> bytecode_block \<Rightarrow> bool" where
  "block_ok m block_ids f b \<longleftrightarrow>
     (\<forall>pre i post. blk_instructions b = pre @ i # post \<longrightarrow>
        instruction_ok m block_ids (value_ids (values_before pre))
          (fold locals_after pre (word_of_nat (length (fn_params f)))) i)"

definition function_ok :: "bytecode_module \<Rightarrow> bytecode_function \<Rightarrow> bool" where
  "function_ok m f \<longleftrightarrow>
     (let block_ids = set (map blk_id (fn_blocks f)) in
      (\<forall>e\<in>set (fn_exception_table f). start_block e \<in> block_ids \<and> end_block e \<in> block_ids \<and>
         handler_block e \<in> block_ids \<and> start_block e \<le> end_block e) \<and>
      (\<forall>b\<in>set (fn_blocks f). block_ok m block_ids f b) \<and> has_terminator f)"

definition module_ok :: "bytecode_module \<Rightarrow> bool" where
  "module_ok m \<longleftrightarrow>
     mod_header m = \<lparr>hdr_magic = BYTECODE_MAGIC, hdr_version = BYTECODE_VERSION\<rparr> \<and>
     mod_functions m \<noteq> [] \<and> (\<forall>f\<in>set (mod_functions m). function_ok m f)"

section \<open>The pass accepts exactly the well-formed modules\<close>

lemma report_simps [simp]:
  "vs_errors (report c s v) \<noteq> []" "vs_defined (report c s v) = vs_defined v"
  "vs_locals (report c s v) = vs_locals v"
  by (simp_all add: report_def)

lemma none_or_simps [simp]: "none_or P None" "none_or P (Some x) = P x"
  by (simp_all add: none_or_def)

lemma check_frame [simp]:
  "vs_defined (expect_operands i n v) = vs_defined v" "vs_locals (expect_operands i n v) = vs_locals v"
  "vs_defined (check_constant m x v) = vs_defined v" "vs_locals (check_constant m x v) = vs_locals v"
  "vs_defined (check_local y v) = vs_defined v" "vs_locals (check_local y v) = vs_locals v"
  "vs_defined (check_value z v) = vs_defined v" "vs_locals (check_value z v) = vs_locals v"
  "vs_defined (check_block bs t v) = vs_defined v" "vs_locals (check_block bs t v) = vs_locals v"
  by (simp_all add: expect_operands_def check_constant_def check_local_def check_value_def check_block_def)

lemma check_errors [simp]:
  "vs_errors (expect_operands i n v) = [] \<longleftrightarrow> vs_errors v = [] \<and> length (ins_operands i) = n"
  "vs_errors (check_constant m x v) = [] \<longleftrightarrow> vs_errors v = [] \<and> (\<exists>c. x = Some c \<and> constant_ok m c)"
  "vs_errors (check_local y v) = [] \<longleftrightarrow> vs_errors v = [] \<and> (\<exists>l. y = Some l \<and> l < vs_locals v)"
  "vs_errors (check_value y v) = [] \<longleftrightarrow> vs_errors v = [] \<and> (\<exists>w. y = Some w \<and> w \<in> vs_defined v)"
  "vs_errors (check_block bs y v) = [] \<longleftrightarrow> vs_errors v = [] \<and> (\<exists>t. y = Some t \<and> t \<in> bs)"
  by (auto simp: expect_operands_def check_constant_def check_local_def check_value_def
      check_block_def constant_ok_def none_or_def split: option.splits)

lemma define_value_simps [simp]:
  "vs_errors (define_value i v) = vs_errors v" "vs_locals (define_value i v) = vs_locals v"
  by (simp_all add: define_value_def split: option.split)

lemma fold_check_values:
  "vs_errors (fold (\<lambda>w. check_value (Some w)) ws v) = [] \<longleftrightarrow> vs_errors v = [] \<and> set ws \<subseteq> vs_defined v"
  "vs_defined (fold (\<lambda>w. check_value (Some w)) ws v) = vs_defined v"
  "vs_locals (fold (\<lambda>w. check_value (Some w)) ws v) = vs_locals v"
  by (induction ws arbitrary: v) auto

lemma fold_check_pairs:
  "vs_errors (fold (\<lambda>p v. check_value (nth_opt p 1) (check_constant m (nth_opt p 0) v)) ps v) = [] \<longleftrightarrow>
     vs_errors v = [] \<and> (\<forall>p\<in>set ps. \<exists>c w ws. p = c # w # ws \<and> constant_ok m c \<and> w \<in> vs_defined v)"
  "vs_defined (fold (\<lambda>p v. check_value (nth_opt p 1) (check_constant m (nth_opt p 0) v)) ps v) = vs_defined v"
  "vs_locals (fold (\<lambda>p v. check_value (nth_opt p 1) (check_constant m (nth_opt p 0) v)) ps v) = vs_locals v"
proof (induction ps arbitrary: v)
  case (Cons p ps)
  {
    case 1
    show ?case using Cons by (cases p; cases "tl p") (auto simp: nth_opt_def)
  next
    case 2
    then show ?case using Cons by simp
  next
    case 3
    then show ?case using Cons by simp
  }
qed simp_all

lemma chunks2_pairs:
  "length fs = 2 * n \<Longrightarrow>
   (\<forall>p\<in>set (chunks2 fs). \<exists>c w ws. p = c # w # ws \<and> P c \<and> Q w) \<longleftrightarrow>
   (\<forall>k<n. P (fs ! (2 * k)) \<and> Q (fs ! (2 * k + 1)))"
proof (induction fs arbitrary: n rule: chunks2.induct)
  case (3 x y zs)
  then obtain k where n: "n = Suc k" and k: "length zs = 2 * k" by (cases n) auto
  show ?case
    using "3.IH" [OF k] by (auto simp: n All_less_Suc2)
qed auto

lemma define_value_defined:
  "vs_defined (define_value i v) =
     (if defines_value (ins_opcode i) then insert (word_of_nat (card (vs_defined v))) (vs_defined v)
      else vs_defined v)"
  by (simp add: define_value_def instruction_result_value_def)

lemma verify_operands_errors:
  "vs_errors (verify_operands m bs i v) = [] \<longleftrightarrow>
   vs_errors v = [] \<and> operands_ok m bs (vs_defined v) (vs_locals v) i"
proof (cases "ins_opcode i")
  case BuildObject
  show ?thesis
  proof (cases "ins_operands i")
    case (Cons n fs)
    have "length fs = unat n * 2 \<Longrightarrow>
      (\<forall>p\<in>set (chunks2 fs). \<exists>c w ws. p = c # w # ws \<and> constant_ok m c \<and> w \<in> vs_defined v) \<longleftrightarrow>
      (\<forall>k<unat n. constant_ok m (fs ! (2 * k)) \<and> fs ! (2 * k + 1) \<in> vs_defined v)"
      by (rule chunks2_pairs) simp
    with BuildObject Cons show ?thesis
      by (simp add: verify_operands_def operands_ok_def Let_def fold_check_pairs [unfolded One_nat_def])
  qed (simp add: BuildObject verify_operands_def operands_ok_def)
next
  case BuildArray
  then show ?thesis
    by (cases "ins_operands i")
      (simp_all add: verify_operands_def operands_ok_def Let_def fold_check_values)
next
  case Call
  show ?thesis
  proof (cases "length (ins_operands i) < 2")
    case True
    then show ?thesis using Call by (auto simp: verify_operands_def operands_ok_def Let_def)
  next
    case False
    then obtain c n args where "ins_operands i = c # n # args"
      by (cases "ins_operands i"; cases "tl (ins_operands i)") auto
    then show ?thesis using Call
      by (auto simp: verify_operands_def operands_ok_def Let_def fold_check_values)
  qed
next
  case Return
  then show ?thesis
    by (cases "ins_operands i"; cases "tl (ins_operands i)")
      (auto simp: verify_operands_def operands_ok_def Let_def)
qed (auto simp: verify_operands_def operands_ok_def Let_def length_Suc_conv less_Suc_eq
    numeral_3_eq_3 numeral_2_eq_2 nth_opt_def not_less split: option.splits if_splits)

lemma verify_operands_state:
  assumes "vs_errors (verify_operands m bs i v) = []"
  shows "vs_defined (verify_operands m bs i v) =
      (if defines_value (ins_opcode i) then insert (word_of_nat (card (vs_defined v))) (vs_defined v)
       else vs_defined v)"
    and "vs_locals (verify_operands m bs i v) = locals_after i (vs_locals v)"
  using assms
  by (cases "ins_opcode i"; force simp: verify_operands_def Let_def define_value_defined
      defines_value_def locals_after_def fold_check_values fold_check_pairs [unfolded One_nat_def]
      split: option.splits if_splits)+

lemma value_ids_0 [simp]: "value_ids 0 = {}"
  by (simp add: value_ids_def)

lemma value_ids_all:
  assumes "2 ^ 32 \<le> n"
  shows "value_ids n = UNIV"
proof -
  have "w \<in> value_ids n" for w :: u32
  proof -
    have "unat w \<in> {..<n}" using less_le_trans [OF unat_32_bound [of w]] assms by simp
    then have "word_of_nat (unat w) \<in> value_ids n" unfolding value_ids_def by (rule imageI)
    then show ?thesis by simp
  qed
  then show ?thesis by blast
qed

lemma value_ids_Suc: "insert (word_of_nat (card (value_ids n))) (value_ids n) = value_ids (Suc n)"
proof (cases "n < 2 ^ 32")
  case True
  have "inj_on (word_of_nat :: nat \<Rightarrow> u32) {..<n}"
    using True of_nat_32_inj by (auto simp: inj_on_def)
  then have "card (value_ids n) = n" by (simp add: value_ids_def card_image)
  then show ?thesis by (auto simp: value_ids_def lessThan_Suc)
next
  case False
  then show ?thesis by (simp add: value_ids_all)
qed

lemma verify_instruction_errors:
  "vs_errors (verify_instruction m bs i v) = [] \<longleftrightarrow>
   vs_errors v = [] \<and> instruction_ok m bs (vs_defined v) (vs_locals v) i"
  by (auto simp: verify_instruction_def instruction_ok_def verify_operands_errors)

lemma verify_instruction_state:
  assumes "vs_errors (verify_instruction m bs i v) = []" and "vs_defined v = value_ids n"
  shows "vs_defined (verify_instruction m bs i v) =
      value_ids (n + (if defines_value (ins_opcode i) then 1 else 0))"
    and "vs_locals (verify_instruction m bs i v) = locals_after i (vs_locals v)"
proof -
  let ?v = "if length (mod_source_map m) \<le> unat (ins_source_ref i)
    then report InvalidSourceReference ''invalid source map reference'' v else v"
  note st = verify_operands_state [of m bs i ?v]
  show "vs_defined (verify_instruction m bs i v) =
      value_ids (n + (if defines_value (ins_opcode i) then 1 else 0))"
    using assms st(1) value_ids_Suc [of n] by (simp add: verify_instruction_def split: if_splits)
  show "vs_locals (verify_instruction m bs i v) = locals_after i (vs_locals v)"
    using assms st(2) by (simp add: verify_instruction_def split: if_splits)
qed

lemma verify_instructions_mono:
  "vs_errors v \<noteq> [] \<Longrightarrow> vs_errors (fold (verify_instruction m bs) is v) \<noteq> []"
  by (induction "is" arbitrary: v) (simp_all add: verify_instruction_errors)

lemma all_splits_Cons:
  "(\<forall>pre j post. x # xs = pre @ j # post \<longrightarrow> Q pre j) \<longleftrightarrow>
   Q [] x \<and> (\<forall>pre j post. xs = pre @ j # post \<longrightarrow> Q (x # pre) j)"
  by (auto simp: Cons_eq_append_conv)

lemma verify_instructions_errors:
  "vs_defined v = value_ids n \<Longrightarrow>
   vs_errors (fold (verify_instruction m bs) is v) = [] \<longleftrightarrow>
   vs_errors v = [] \<and>
   (\<forall>pre i post. is = pre @ i # post \<longrightarrow>
      instruction_ok m bs (value_ids (n + values_before pre)) (fold locals_after pre (vs_locals v)) i)"
proof (induction "is" arbitrary: v n)
  case (Cons i "is")
  let ?v = "verify_instruction m bs i v"
  let ?n = "n + (if defines_value (ins_opcode i) then 1 else 0)"
  let ?Q = "\<lambda>pre j. instruction_ok m bs (value_ids (n + values_before pre))
    (fold locals_after pre (vs_locals v)) j"
  have split: "(\<forall>pre j post. i # is = pre @ j # post \<longrightarrow> ?Q pre j) \<longleftrightarrow>
      ?Q [] i \<and> (\<forall>pre j post. is = pre @ j # post \<longrightarrow> ?Q (i # pre) j)"
    by (rule all_splits_Cons)
  have first: "vs_errors ?v = [] \<longleftrightarrow> vs_errors v = [] \<and> ?Q [] i"
    using Cons.prems by (simp add: verify_instruction_errors values_before_def)
  show ?case
  proof (cases "vs_errors ?v = []")
    case True
    note st = verify_instruction_state [OF True Cons.prems]
    have n: "?n + values_before pre = n + values_before (i # pre)" for pre
      by (simp add: values_before_def)
    have "vs_errors (fold (verify_instruction m bs) is ?v) = [] \<longleftrightarrow>
        (\<forall>pre j post. is = pre @ j # post \<longrightarrow> ?Q (i # pre) j)"
      using Cons.IH [OF st(1)] True unfolding n st(2) by simp
    with True first show ?thesis unfolding split by simp
  next
    case False
    then have "vs_errors (fold (verify_instruction m bs) is ?v) \<noteq> []"
      by (rule verify_instructions_mono)
    with False first show ?thesis unfolding split by simp blast
  qed
qed simp

lemma verify_block_errors:
  "vs_errors (verify_block m bs f b v) = [] \<longleftrightarrow> vs_errors v = [] \<and> block_ok m bs f b"
  unfolding verify_block_def block_ok_def
  by (subst verify_instructions_errors [where n = 0]) simp_all

lemma fold_errors:
  assumes "\<And>x v. vs_errors (g x v) = [] \<longleftrightarrow> vs_errors v = [] \<and> P x"
  shows "vs_errors (fold g xs v) = [] \<longleftrightarrow> vs_errors v = [] \<and> (\<forall>x\<in>set xs. P x)"
  by (induction xs arbitrary: v) (auto simp: assms)

lemma verify_exception_errors:
  "vs_errors (verify_exception_entry bs e v) = [] \<longleftrightarrow> vs_errors v = [] \<and>
     start_block e \<in> bs \<and> end_block e \<in> bs \<and> handler_block e \<in> bs \<and> start_block e \<le> end_block e"
  by (auto simp: verify_exception_entry_def)

lemma verify_function_errors:
  "vs_errors (verify_function m f v) = [] \<longleftrightarrow> vs_errors v = [] \<and> function_ok m f"
  by (auto simp: verify_function_def function_ok_def Let_def fold_errors [OF verify_block_errors]
      fold_errors [OF verify_exception_errors])

lemma verify_module_iff: "verify_module m = Inr () \<longleftrightarrow> module_ok m"
  by (auto simp: verify_module_def verify_def module_ok_def Let_def
      fold_errors [OF verify_function_errors])

lemma verify_module_Inl: "verify_module m = Inl es \<Longrightarrow> es \<noteq> []"
  by (auto simp: verify_module_def Let_def split: if_splits)

text \<open>The facts an execution needs, read off an accepted function.\<close>

lemma function_ok_instruction:
  assumes "function_ok m f" and "b \<in> set (fn_blocks f)" and "blk_instructions b = pre @ i # post"
  shows "instruction_ok m (set (map blk_id (fn_blocks f))) (value_ids (values_before pre))
      (fold locals_after pre (word_of_nat (length (fn_params f)))) i"
  using assms unfolding function_ok_def Let_def block_ok_def by blast

lemma value_ids_bound: "w \<in> value_ids n \<Longrightarrow> unat w < n"
  unfolding value_ids_def
  by (auto intro: le_less_trans [OF unat_of_nat_le])

section \<open>The contract of the verifier\<close>

text \<open>
  C3: The verifier is exact: it accepts a module if and only if the header is right, there is a
  function, and every function has a terminator, exception entries over its own blocks in order,
  and only instructions whose operands have the right number and refer to constants, locals,
  values and blocks that exist at that point. A rejection always names an error.
\<close>

theorem verifier_exact:
  "(verify_module m = Inr () \<longleftrightarrow> module_ok m) \<and> verify_module m \<noteq> Inl []"
  using verify_module_iff verify_module_Inl by blast

end
