(* ===== verification/Btree_Map.thy ===== *)
theory Btree_Map
  imports Prelude
begin

text \<open>
  \<^verbatim>\<open>std::collections::BTreeMap\<close> as the program uses it: an association list in strictly
  ascending key order, so iteration order is the code's. The locale \<open>map_ops\<close> states what a
  map promises its clients; the interpretation at the end of the theory discharges it for the
  ordered list, and the clients (object literals, the host registry, the document, the module
  cache) use its derived facts.
\<close>

section \<open>The interface of a map\<close>

locale map_ops =
  fixes lookup :: "'m \<Rightarrow> 'k \<Rightarrow> 'v option"
    and insert :: "'k \<Rightarrow> 'v \<Rightarrow> 'm \<Rightarrow> 'm"
    and remove :: "'k \<Rightarrow> 'm \<Rightarrow> 'm"
    and empty :: "'m"
    and invar :: "'m \<Rightarrow> bool"
  assumes lookup_empty: "lookup empty k = None"
    and lookup_insert: "invar m \<Longrightarrow> lookup (insert k v m) j = (if j = k then Some v else lookup m j)"
    and lookup_remove: "invar m \<Longrightarrow> lookup (remove k m) j = (if j = k then None else lookup m j)"
    and invar_empty: "invar empty"
    and invar_insert: "invar m \<Longrightarrow> invar (insert k v m)"
    and invar_remove: "invar m \<Longrightarrow> invar (remove k m)"
begin

text \<open>A sequence of insertions, later ones overwriting earlier ones.\<close>

lemma invar_insert_all: "invar m \<Longrightarrow> invar (fold (\<lambda>(k, v). insert k v) kvs m)"
  by (induction kvs arbitrary: m) (auto simp: invar_insert)

lemma lookup_insert_all:
  "invar m \<Longrightarrow>
   lookup (fold (\<lambda>(k, v). insert k v) kvs m) j =
     (case map_of (rev kvs) j of Some v \<Rightarrow> Some v | None \<Rightarrow> lookup m j)"
proof (induction kvs arbitrary: m)
  case Nil
  then show ?case by simp
next
  case (Cons kv kvs)
  obtain k v where kv: "kv = (k, v)" by (cases kv)
  from Cons show ?case
    by (auto simp: kv invar_insert lookup_insert map_add_def split: option.splits)
qed

lemma lookup_remove_insert:
  "invar m \<Longrightarrow> j \<noteq> k \<Longrightarrow> lookup (insert k v (remove k m)) j = lookup m j"
  by (simp add: lookup_insert lookup_remove invar_remove)

end

section \<open>The ordered association list\<close>

type_synonym ('k, 'v) btree_map = "('k \<times> 'v) list"

fun bt_get :: "('k, 'v) btree_map \<Rightarrow> 'k \<Rightarrow> 'v option" where
  "bt_get [] k = None"
| "bt_get ((j, v) # m) k = (if j = k then Some v else bt_get m k)"

fun bt_insert :: "'k::linorder \<Rightarrow> 'v \<Rightarrow> ('k, 'v) btree_map \<Rightarrow> ('k, 'v) btree_map" where
  "bt_insert k v [] = [(k, v)]"
| "bt_insert k v ((j, w) # m) =
     (if k < j then (k, v) # (j, w) # m
      else if k = j then (k, v) # m
      else (j, w) # bt_insert k v m)"

fun bt_remove :: "'k \<Rightarrow> ('k, 'v) btree_map \<Rightarrow> ('k, 'v) btree_map" where
  "bt_remove k [] = []"
| "bt_remove k ((j, w) # m) = (if j = k then m else (j, w) # bt_remove k m)"

definition bt_wf :: "('k::linorder, 'v) btree_map \<Rightarrow> bool" where
  "bt_wf m \<longleftrightarrow> sorted_wrt (<) (map fst m)"

text \<open>\<^verbatim>\<open>contains_key\<close>, \<^verbatim>\<open>from\<close> an array of pairs, and \<^verbatim>\<open>values\<close>.\<close>

definition bt_contains :: "('k, 'v) btree_map \<Rightarrow> 'k \<Rightarrow> bool" where
  "bt_contains m k \<longleftrightarrow> bt_get m k \<noteq> None"

definition bt_of_list :: "('k::linorder \<times> 'v) list \<Rightarrow> ('k, 'v) btree_map" where
  "bt_of_list kvs = fold (\<lambda>(k, v). bt_insert k v) kvs []"

lemma bt_get_map_of: "bt_get m = map_of m"
proof
  fix k show "bt_get m k = map_of m k"
    by (induction m) auto
qed

lemma bt_get_in: "bt_get m k = Some v \<Longrightarrow> (k, v) \<in> set m"
  by (induction m) (auto split: if_splits)

lemma bt_get_None: "bt_get m k = None \<longleftrightarrow> k \<notin> fst ` set m"
  by (induction m) force+

lemma set_bt_insert: "set (bt_insert k v m) \<subseteq> insert (k, v) (set m)"
  by (induction m) (auto split: if_splits)

lemma snd_bt_insert: "snd ` set (bt_insert k v m) \<subseteq> insert v (snd ` set m)"
  using set_bt_insert [of k v m] by force

lemma fst_bt_insert: "fst ` set (bt_insert k v m) = insert k (fst ` set m)"
  by (induction k v m rule: bt_insert.induct) (simp_all add: insert_commute)

lemma fst_bt_remove: "bt_wf m \<Longrightarrow> fst ` set (bt_remove k m) = fst ` set m - {k}"
  by (induction m) (force simp: bt_wf_def)+

lemma set_bt_remove: "set (bt_remove k m) \<subseteq> set m"
  by (induction m) (auto split: if_splits)

lemma bt_wf_Nil [simp, wf_intro]: "bt_wf []"
  by (simp add: bt_wf_def)

lemma bt_wf_insert [wf_intro]: "bt_wf m \<Longrightarrow> bt_wf (bt_insert k v m)"
  unfolding bt_wf_def
proof (induction m)
  case (Cons jw m)
  obtain j w where jw: "jw = (j, w)" by (cases jw)
  have "fst ` set (bt_insert k v m) = insert k (fst ` set m)" by (rule fst_bt_insert)
  with Cons show ?case by (auto simp: jw)
qed simp

lemma bt_wf_remove [wf_intro]: "bt_wf m \<Longrightarrow> bt_wf (bt_remove k m)"
  unfolding bt_wf_def
proof (induction m)
  case (Cons jw m)
  then show ?case using set_bt_remove [of k m] by (cases jw) force
qed simp

lemma bt_get_insert: "bt_wf m \<Longrightarrow> bt_get (bt_insert k v m) j = (if j = k then Some v else bt_get m j)"
  unfolding bt_wf_def by (induction m) auto

lemma bt_get_below: "\<forall>x\<in>set m. (k::'k::linorder) < fst x \<Longrightarrow> bt_get m k = None"
  by (induction m) auto

lemma bt_get_remove: "bt_wf m \<Longrightarrow> bt_get (bt_remove k m) j = (if j = k then None else bt_get m j)"
  unfolding bt_wf_def by (induction m) (auto simp: bt_get_below)

lemma bt_wf_distinct: "bt_wf m \<Longrightarrow> distinct (map fst m)"
  unfolding bt_wf_def by (induction m) auto

lemma bt_wf_get_iff: "bt_wf m \<Longrightarrow> bt_get m k = Some v \<longleftrightarrow> (k, v) \<in> set m"
  by (simp add: bt_get_map_of bt_wf_distinct)

interpretation bt: map_ops bt_get bt_insert bt_remove "[]" bt_wf
  by unfold_locales (auto simp: bt_get_insert bt_get_remove intro: wf_intro)

lemma bt_wf_of_list [wf_intro]: "bt_wf (bt_of_list kvs)"
  unfolding bt_of_list_def by (rule bt.invar_insert_all) simp

lemma bt_get_of_list: "bt_get (bt_of_list kvs) k = map_of (rev kvs) k"
  unfolding bt_of_list_def by (subst bt.lookup_insert_all) (auto split: option.splits)

lemma length_bt_insert_new: "bt_get m k = None \<Longrightarrow> length (bt_insert k v m) = Suc (length m)"
  by (induction m) (auto split: if_splits)

lemma length_bt_remove: "bt_get m k \<noteq> None \<Longrightarrow> Suc (length (bt_remove k m)) = length m"
  by (induction m) (auto split: if_splits)

lemma bt_map_values_wf: "bt_wf (map (\<lambda>(k, v). (k, f k v)) m) \<longleftrightarrow> bt_wf m"
  by (simp add: bt_wf_def comp_def case_prod_beta)

lemma bt_get_map_values:
  "bt_get (map (\<lambda>(k, v). (k, f v)) m) k = map_option f (bt_get m k)"
  by (induction m) auto

end
