(* ===== verification/Float64.thy ===== *)
theory Float64
  imports Rust_Text
begin

text \<open>
  Rust's \<^verbatim>\<open>f64\<close>: IEEE 754 binary64 with round to nearest, ties to even. A finite number is its
  sign, its significand and the exponent of the significand's last bit, so all arithmetic is
  exact integer arithmetic followed by one rounding. Also \<^verbatim>\<open>str::parse::<f64>\<close> and
  \<^verbatim>\<open>f64::to_string\<close> (the shortest decimal that reads back as the same number, never in
  scientific notation).
\<close>

section \<open>Numbers\<close>

datatype f64 =
  F64_NaN
| F64_Inf bool
| F64_Fin bool nat int

text \<open>
  Canonical numbers: a 53-bit significand, normalised unless the exponent is the least one.
\<close>

fun f64_wf :: "f64 \<Rightarrow> bool" where
  "f64_wf F64_NaN = True"
| "f64_wf (F64_Inf s) = True"
| "f64_wf (F64_Fin s m e) \<longleftrightarrow>
     m < 2 ^ 53 \<and> -1074 \<le> e \<and> e \<le> 971 \<and> (2 ^ 52 \<le> m \<or> e = -1074)"

definition f64_zero :: "bool \<Rightarrow> f64" where
  "f64_zero s = F64_Fin s 0 (-1074)"

fun log2_floor :: "nat \<Rightarrow> nat" where
  "log2_floor n = (if n < 2 then 0 else Suc (log2_floor (n div 2)))"

declare log2_floor.simps [simp del]

text \<open>The exponent at which the quotient \<open>n / d\<close> has a 53-bit integer part.\<close>

definition round_exponent :: "nat \<Rightarrow> nat \<Rightarrow> int" where
  "round_exponent n d =
     (let e = int (log2_floor n) - int (log2_floor d) - 52;
          big = (if 0 \<le> e then d * 2 ^ nat e * 2 ^ 52 \<le> n else d * 2 ^ 52 \<le> n * 2 ^ nat (- e))
      in max (-1074) (if big then e else e - 1))"

text \<open>The number nearest to \<open>n / d\<close> with sign \<open>s\<close>, ties to an even significand.\<close>

definition f64_round :: "bool \<Rightarrow> nat \<Rightarrow> nat \<Rightarrow> f64" where
  "f64_round s n d =
     (if n = 0 then f64_zero s
      else
        let e = round_exponent n d;
            num = n * 2 ^ nat (- e);
            den = d * 2 ^ nat e;
            q = num div den;
            r = num mod den;
            m = (if den < 2 * r \<or> (2 * r = den \<and> odd q) then q + 1 else q);
            (m', e') = (if m = 2 ^ 53 then (2 ^ 52, e + 1) else (m, e))
        in if 971 < e' then F64_Inf s else F64_Fin s m' e')"

section \<open>Arithmetic\<close>

fun f64_neg :: "f64 \<Rightarrow> f64" where
  "f64_neg F64_NaN = F64_NaN"
| "f64_neg (F64_Inf s) = F64_Inf (\<not> s)"
| "f64_neg (F64_Fin s m e) = F64_Fin (\<not> s) m e"

text \<open>A finite number as a signed integer at a given exponent not above its own.\<close>

definition scaled :: "int \<Rightarrow> bool \<Rightarrow> nat \<Rightarrow> int \<Rightarrow> int" where
  "scaled e s m f = (if s then - 1 else 1) * int m * 2 ^ nat (f - e)"

definition f64_of_scaled :: "bool \<Rightarrow> int \<Rightarrow> int \<Rightarrow> f64" where
  "f64_of_scaled zero_sign i e =
     (if i = 0 then f64_zero zero_sign
      else f64_round (i < 0) (nat \<bar>i\<bar> * 2 ^ nat e) (2 ^ nat (- e)))"

fun f64_add :: "f64 \<Rightarrow> f64 \<Rightarrow> f64" where
  "f64_add F64_NaN y = F64_NaN"
| "f64_add x F64_NaN = F64_NaN"
| "f64_add (F64_Inf s) (F64_Inf t) = (if s = t then F64_Inf s else F64_NaN)"
| "f64_add (F64_Inf s) (F64_Fin t n f) = F64_Inf s"
| "f64_add (F64_Fin s m e) (F64_Inf t) = F64_Inf t"
| "f64_add (F64_Fin s m e) (F64_Fin t n f) =
     (let g = min e f in f64_of_scaled (s \<and> t) (scaled g s m e + scaled g t n f) g)"

definition f64_sub :: "f64 \<Rightarrow> f64 \<Rightarrow> f64" where
  "f64_sub x y = f64_add x (f64_neg y)"

fun f64_mul :: "f64 \<Rightarrow> f64 \<Rightarrow> f64" where
  "f64_mul F64_NaN y = F64_NaN"
| "f64_mul x F64_NaN = F64_NaN"
| "f64_mul (F64_Inf s) (F64_Inf t) = F64_Inf (s \<noteq> t)"
| "f64_mul (F64_Inf s) (F64_Fin t n f) = (if n = 0 then F64_NaN else F64_Inf (s \<noteq> t))"
| "f64_mul (F64_Fin s m e) (F64_Inf t) = (if m = 0 then F64_NaN else F64_Inf (s \<noteq> t))"
| "f64_mul (F64_Fin s m e) (F64_Fin t n f) =
     f64_round (s \<noteq> t) (m * n * 2 ^ nat (e + f)) (2 ^ nat (- (e + f)))"

fun f64_div :: "f64 \<Rightarrow> f64 \<Rightarrow> f64" where
  "f64_div F64_NaN y = F64_NaN"
| "f64_div x F64_NaN = F64_NaN"
| "f64_div (F64_Inf s) (F64_Inf t) = F64_NaN"
| "f64_div (F64_Inf s) (F64_Fin t n f) = F64_Inf (s \<noteq> t)"
| "f64_div (F64_Fin s m e) (F64_Inf t) = f64_zero (s \<noteq> t)"
| "f64_div (F64_Fin s m e) (F64_Fin t n f) =
     (if n = 0 then if m = 0 then F64_NaN else F64_Inf (s \<noteq> t)
      else f64_round (s \<noteq> t) (m * 2 ^ nat (e - f)) (n * 2 ^ nat (f - e)))"

text \<open>\<^verbatim>\<open>%\<close>: the exact remainder of truncated division, with the dividend's sign.\<close>

fun f64_rem :: "f64 \<Rightarrow> f64 \<Rightarrow> f64" where
  "f64_rem F64_NaN y = F64_NaN"
| "f64_rem x F64_NaN = F64_NaN"
| "f64_rem (F64_Inf s) y = F64_NaN"
| "f64_rem (F64_Fin s m e) (F64_Inf t) = F64_Fin s m e"
| "f64_rem (F64_Fin s m e) (F64_Fin t n f) =
     (if n = 0 then F64_NaN
      else let g = min e f;
               r = (m * 2 ^ nat (e - g)) mod (n * 2 ^ nat (f - g))
           in f64_round s (r * 2 ^ nat g) (2 ^ nat (- g)))"

section \<open>Comparison\<close>

fun f64_lt :: "f64 \<Rightarrow> f64 \<Rightarrow> bool" where
  "f64_lt F64_NaN y = False"
| "f64_lt x F64_NaN = False"
| "f64_lt (F64_Inf s) (F64_Inf t) = (s \<and> \<not> t)"
| "f64_lt (F64_Inf s) (F64_Fin t n f) = s"
| "f64_lt (F64_Fin s m e) (F64_Inf t) = (\<not> t)"
| "f64_lt (F64_Fin s m e) (F64_Fin t n f) =
     (let g = min e f in scaled g s m e < scaled g t n f)"

fun f64_eq :: "f64 \<Rightarrow> f64 \<Rightarrow> bool" where
  "f64_eq F64_NaN y = False"
| "f64_eq x F64_NaN = False"
| "f64_eq (F64_Inf s) (F64_Inf t) = (s = t)"
| "f64_eq (F64_Inf s) (F64_Fin t n f) = False"
| "f64_eq (F64_Fin s m e) (F64_Inf t) = False"
| "f64_eq (F64_Fin s m e) (F64_Fin t n f) =
     (let g = min e f in scaled g s m e = scaled g t n f)"

definition f64_le :: "f64 \<Rightarrow> f64 \<Rightarrow> bool" where
  "f64_le x y \<longleftrightarrow> f64_lt x y \<or> f64_eq x y"

fun f64_is_finite :: "f64 \<Rightarrow> bool" where
  "f64_is_finite (F64_Fin s m e) = True"
| "f64_is_finite x = False"

definition f64_of_nat :: "nat \<Rightarrow> f64" where
  "f64_of_nat n = f64_round False n 1"

section \<open>Reading\<close>

definition is_digit :: "char \<Rightarrow> bool" where
  "is_digit c \<longleftrightarrow> 48 \<le> byte c \<and> byte c \<le> 57"

text \<open>The digits at the front: the number read so far, how many, and the rest.\<close>

fun read_digits :: "nat \<Rightarrow> nat \<Rightarrow> string \<Rightarrow> nat \<times> nat \<times> string" where
  "read_digits n k [] = (n, k, [])"
| "read_digits n k (c # cs) =
     (if is_digit c then read_digits (10 * n + (byte c - 48)) (Suc k) cs else (n, k, c # cs))"

definition read_sign :: "string \<Rightarrow> bool \<times> string" where
  "read_sign s =
     (case s of [] \<Rightarrow> (False, [])
      | c # cs \<Rightarrow> if c = CHR ''-'' then (True, cs) else if c = CHR ''+'' then (False, cs) else (False, s))"

definition lower_char :: "char \<Rightarrow> char" where
  "lower_char c = (if 65 \<le> byte c \<and> byte c \<le> 90 then char_of (byte c + 32) else c)"

definition read_exponent :: "string \<Rightarrow> int option" where
  "read_exponent s =
     (case s of
        [] \<Rightarrow> Some 0
      | c # cs \<Rightarrow>
          if lower_char c = CHR ''e''
          then (case read_sign cs of (neg, ds) \<Rightarrow>
                  (case read_digits 0 0 ds of (n, k, rest) \<Rightarrow>
                     if k = 0 \<or> rest \<noteq> [] then None else Some (if neg then - int n else int n)))
          else None)"

definition f64_of_decimal :: "bool \<Rightarrow> nat \<Rightarrow> int \<Rightarrow> f64" where
  "f64_of_decimal neg n e = f64_round neg (n * 10 ^ nat e) (10 ^ nat (- e))"

definition f64_parse :: "string \<Rightarrow> string + f64" where
  "f64_parse s =
     (if s = [] then Inl ''cannot parse float from empty string''
      else case read_sign s of (neg, t) \<Rightarrow>
        let word = map lower_char t in
        if word = ''inf'' \<or> word = ''infinity'' then Inr (F64_Inf neg)
        else if word = ''nan'' then Inr F64_NaN
        else case read_digits 0 0 t of (n, k, r) \<Rightarrow>
          (case (case r of c # cs \<Rightarrow> if c = CHR ''.'' then read_digits n 0 cs else (n, 0, r)
                 | [] \<Rightarrow> (n, 0, r)) of (n', j, r') \<Rightarrow>
             if k = 0 \<and> j = 0 then Inl ''invalid float literal''
             else case read_exponent r' of
                    None \<Rightarrow> Inl ''invalid float literal''
                  | Some e \<Rightarrow> Inr (f64_of_decimal neg n' (e - int j))))"

section \<open>Printing\<close>

fun decimal_length :: "nat \<Rightarrow> nat" where
  "decimal_length n = (if n < 10 then 1 else Suc (decimal_length (n div 10)))"

declare decimal_length.simps [simp del]

text \<open>The least \<open>j\<close> with \<open>b \<le> a * 10 ^ j\<close>, counted from \<open>k\<close>.\<close>

function leading_zeros :: "nat \<Rightarrow> nat \<Rightarrow> nat \<Rightarrow> nat" where
  "leading_zeros k a b = (if a = 0 \<or> b \<le> a then k else leading_zeros (Suc k) (10 * a) b)"
  by pat_completeness auto
termination
  by (relation "measure (\<lambda>(k, a, b). b - a)") auto

declare leading_zeros.simps [simp del]

text \<open>The \<open>k\<close> with \<open>10 ^ (k - 1) \<le> a / b < 10 ^ k\<close>.\<close>

definition decimal_point :: "nat \<Rightarrow> nat \<Rightarrow> int" where
  "decimal_point a b =
     (if b \<le> a then int (decimal_length (a div b)) else 1 - int (leading_zeros 0 a b))"

text \<open>
  The shortest digits within half a unit in the last place of \<open>m * 2 ^ e\<close> (the bounds count
  when the significand is even, and the lower one is nearer at a power of two), the nearest to
  the number among the two candidates of that length.
\<close>

definition digit_candidate :: "nat \<Rightarrow> nat \<Rightarrow> int \<Rightarrow> int \<Rightarrow> nat option" where
  "digit_candidate n m e k =
     (let snum = 2 ^ nat (e - 2); sden = 2 ^ nat (2 - e);
          unum = 10 ^ nat (k - int n); uden = 10 ^ nat (int n - k);
          low = (if m = 2 ^ 52 \<and> -1074 < e then 4 * m - 1 else 4 * m - 2);
          high = 4 * m + 2;
          scale = unum * sden;
          v = 4 * m * snum * uden; l = low * snum * uden; h = high * snum * uden;
          c = v div scale;
          within = (\<lambda>x. if even m then l \<le> x * scale \<and> x * scale \<le> h
                        else l < x * scale \<and> x * scale < h);
          down = within c; up = within (c + 1)
      in if down \<and> (\<not> up \<or> 2 * (v mod scale) < scale) then Some c
         else if up then Some (c + 1) else None)"

fun shortest_digits :: "nat \<Rightarrow> nat \<Rightarrow> nat \<Rightarrow> int \<Rightarrow> int \<Rightarrow> nat \<times> nat" where
  "shortest_digits 0 n m e k = (m, n)"
| "shortest_digits (Suc fuel) n m e k =
     (case digit_candidate n m e k of
        Some d \<Rightarrow> (d, n)
      | None \<Rightarrow> shortest_digits fuel (Suc n) m e k)"

text \<open>\<open>digits * 10 ^ (k - n)\<close> written out without an exponent.\<close>

definition place_point :: "string \<Rightarrow> int \<Rightarrow> string" where
  "place_point ds k =
     (if k \<le> 0 then ''0.'' @ replicate (nat (- k)) (CHR ''0'') @ ds
      else if int (length ds) \<le> k then ds @ replicate (nat k - length ds) (CHR ''0'')
      else take (nat k) ds @ ''.'' @ drop (nat k) ds)"

fun f64_to_string :: "f64 \<Rightarrow> string" where
  "f64_to_string F64_NaN = ''NaN''"
| "f64_to_string (F64_Inf s) = (if s then ''-inf'' else ''inf'')"
| "f64_to_string (F64_Fin s m e) =
     (if s then ''-'' else '''') @
     (if m = 0 then ''0''
      else
        let k = decimal_point (m * 2 ^ nat e) (2 ^ nat (- e));
            (d, n) = shortest_digits 17 1 m e k;
            k' = (if d = 10 ^ n then k + 1 else k);
            ds = (if d = 10 ^ n then ''1'' else show_nat d)
        in place_point ds k')"

end
