(* ===== verification/Interop.thy ===== *)
theory Interop
  imports Btree_Map Float64
begin

text \<open>
  \<^verbatim>\<open>runtime/interop\<close>: the values that cross the host boundary and the registry of host
  functions. A host function may change state the host owns (a document, for instance), so it
  is a step on a world of type \<open>'w\<close> that returns a value or an error.
\<close>

datatype interop_value =
  IV_Number f64
| IV_String string
| IV_Boolean bool
| IV_Null
| IV_Undefined
| IV_Object "(string \<times> interop_value) list"
| IV_Array "interop_value list"

record interop_error =
  ie_message :: string

definition interop_error_new :: "string \<Rightarrow> interop_error" where
  "interop_error_new message = \<lparr>ie_message = message\<rparr>"

type_synonym 'w host_function = "interop_value list \<Rightarrow> ('w, interop_error, interop_value) sem"

record 'w host_environment =
  he_functions :: "(string, 'w host_function) btree_map"

definition host_new :: "'w host_environment" where
  "host_new = \<lparr>he_functions = []\<rparr>"

definition with_function ::
  "string \<Rightarrow> 'w host_function \<Rightarrow> 'w host_environment \<Rightarrow> 'w host_environment" where
  "with_function name f host = host\<lparr>he_functions := bt_insert name f (he_functions host)\<rparr>"

definition insert_function ::
  "string \<Rightarrow> 'w host_function \<Rightarrow> 'w host_environment \<Rightarrow> 'w host_environment" where
  "insert_function name f host = host\<lparr>he_functions := bt_insert name f (he_functions host)\<rparr>"

text \<open>\<^verbatim>\<open>HostEnvironment::call\<close>: \<open>None\<close> when no function of that name is registered.\<close>

definition host_call ::
  "'w host_environment \<Rightarrow> string \<Rightarrow> interop_value list \<Rightarrow>
   ('w, interop_error, interop_value) sem option" where
  "host_call host name args = map_option (\<lambda>f. f args) (bt_get (he_functions host) name)"

definition contains_function :: "'w host_environment \<Rightarrow> string \<Rightarrow> bool" where
  "contains_function host name = bt_contains (he_functions host) name"

definition host_wf :: "'w host_environment \<Rightarrow> bool" where
  "host_wf host \<longleftrightarrow> bt_wf (he_functions host)"

lemma host_wf_new [wf_intro]: "host_wf host_new"
  by (simp add: host_wf_def host_new_def)

lemma host_wf_with [wf_intro]: "host_wf host \<Longrightarrow> host_wf (with_function name f host)"
  by (simp add: host_wf_def with_function_def bt_wf_insert)

lemma host_call_new [simp]: "host_call host_new name args = None"
  by (simp add: host_call_def host_new_def)

lemma host_call_with:
  "host_wf host \<Longrightarrow> host_call (with_function n f host) name args =
     (if name = n then Some (f args) else host_call host name args)"
  by (simp add: host_wf_def host_call_def with_function_def bt.lookup_insert)

lemma contains_function_iff: "contains_function host name \<longleftrightarrow> host_call host name args \<noteq> None"
  by (simp add: contains_function_def bt_contains_def host_call_def)

end
