(* ===== verification/Tokens.thy ===== *)
theory Tokens
  imports Prelude
begin

text \<open>
  The data of \<^verbatim>\<open>runtime/lexer\<close>: source positions, spans, tokens and lexical errors. The
  datatype of token kinds is large, so only the code generator's plugin is asked to process it.
\<close>

section \<open>Positions\<close>

record position =
  pos_byte :: nat
  pos_line :: nat
  pos_column :: nat

record span =
  span_start :: position
  span_end :: position

section \<open>Tokens\<close>

datatype (plugins only: code) token_kind =
  T_Identifier string
| T_NumberLiteral string
| T_StringLiteral string
| T_BooleanLiteral bool
| T_Let | T_Const | T_Var | T_Function | T_Interface | T_Type | T_Class | T_Import | T_Export
| T_From | T_If | T_Else | T_Switch | T_Case | T_Default | T_For | T_While | T_Do | T_Try
| T_Catch | T_Finally | T_Throw | T_Return | T_New | T_As | T_Extends | T_Implements
| T_NumberType | T_StringType | T_BooleanType | T_Null | T_Undefined
| T_Plus | T_Minus | T_Star | T_Slash | T_Percent | T_Equals | T_PlusEquals | T_MinusEquals
| T_StarEquals | T_SlashEquals | T_PercentEquals | T_EqualsEquals | T_StrictEquals
| T_BangEquals | T_StrictBangEquals | T_Bang | T_Less | T_LessEquals | T_Greater
| T_GreaterEquals | T_AndAnd | T_PipePipe | T_QuestionQuestion | T_Arrow | T_Colon
| T_Semicolon | T_Comma | T_Dot | T_Question | T_LeftParen | T_RightParen | T_LeftBrace
| T_RightBrace | T_LeftBracket | T_RightBracket

record token =
  tok_kind :: token_kind
  tok_span :: span

datatype lex_error_kind =
  UnexpectedCharacter string
| UnterminatedString
| UnterminatedBlockComment

record lex_error =
  le_kind :: lex_error_kind
  le_span :: span

end
