(* ===== verification/Diagnostics.thy ===== *)
theory Diagnostics
  imports Tokens
begin

text \<open>
  The diagnostics that the stages report: parse errors, semantic diagnostics and module-graph
  diagnostics. A message is its text, except where the code prints a token with its derived
  \<^verbatim>\<open>Debug\<close>: there the message keeps the token itself.
\<close>

datatype message =
  Text string
| Found string token_kind

record parse_diagnostic =
  pd_message :: message
  pd_span :: span

datatype diagnostic_code =
  UnknownIdentifier | UnknownType | DuplicateSymbol | TypeMismatch | MissingProperty
| WrongArgumentCount | InvalidCallTarget | InvalidMemberAccess | ReturnTypeMismatch

record semantic_diagnostic =
  sd_code :: diagnostic_code
  sd_message :: message
  sd_span :: span

datatype module_diagnostic_code = MissingModule | UnsupportedSpecifier | Cycle | Parse

record module_diagnostic =
  md_code :: module_diagnostic_code
  md_message :: message
  md_module :: string
  md_modules :: "string list"

end
