(* ===== verification/Interpreter.thy ===== *)
theory Interpreter
  imports Heap Verifier Interop Diagnostics
begin

text \<open>
  \<^verbatim>\<open>runtime/interpreter\<close>: the execution of verified bytecode. Methods of \<^verbatim>\<open>Interpreter\<close> are
  state-passing computations over \<open>'w interp\<close> (heap, console and the host's world); the frame
  is passed along. An out-of-bounds operand access, a Rust panic, is the result \<open>Panic\<close>.

  Bytecode may loop, calls may recurse and values may be cyclic, so the functions that do take
  fuel: the depth of calls, block transfers and value traversals that are still allowed.
  \<open>Out_of_fuel\<close> is not a result of the program; \<open>Interpreter_Fuel\<close> proves that more fuel never
  changes any other result.
\<close>

section \<open>Values and errors\<close>

datatype js_value =
  V_Number f64
| V_String string
| V_Boolean bool
| V_Null
| V_Undefined
| V_Object "(string \<times> js_value) list"
| V_Array "js_value list"

datatype runtime_value =
  R_Number f64
| R_String string
| R_Boolean bool
| R_Null
| R_Undefined
| R_Object heap_handle
| R_Array heap_handle

datatype heap_value =
  H_Object "(string, runtime_value) btree_map"
| H_Array "runtime_value list"

text \<open>The messages of \<^verbatim>\<open>ExecuteError::Runtime\<close>, by the \<^verbatim>\<open>format!\<close> that builds them.\<close>

datatype runtime_error =
  Unknown_Function string
| Constant_Missing u32
| Local_Missing u32
| Value_Missing u32
| Block_Missing u32
| Invalid_Number string string
| Expected_Symbol
| Stale_Object
| Stale_Array
| Cannot_Read string
| Cannot_Write string
| Unknown_Binary_Op u32
| Expected_Number

fun runtime_message :: "runtime_error \<Rightarrow> string" where
  "runtime_message (Unknown_Function f) = ''unknown function `'' @ f @ ''`''"
| "runtime_message (Constant_Missing i) = ''constant '' @ show_nat (unat i) @ '' missing''"
| "runtime_message (Local_Missing i) = ''local '' @ show_nat (unat i) @ '' missing''"
| "runtime_message (Value_Missing i) = ''value '' @ show_nat (unat i) @ '' missing''"
| "runtime_message (Block_Missing i) = ''block '' @ show_nat (unat i) @ '' missing''"
| "runtime_message (Invalid_Number v e) = ''invalid number constant `'' @ v @ ''`: '' @ e"
| "runtime_message Expected_Symbol = ''expected symbol constant''"
| "runtime_message Stale_Object = ''stale object handle''"
| "runtime_message Stale_Array = ''stale array handle''"
| "runtime_message (Cannot_Read p) = ''cannot read property `'' @ p @ ''` from non-object''"
| "runtime_message (Cannot_Write p) = ''cannot write property `'' @ p @ ''` on non-object''"
| "runtime_message (Unknown_Binary_Op op) = ''unknown binary op '' @ show_nat (unat op)"
| "runtime_message Expected_Number = ''expected number''"

datatype execute_error =
  E_Module "module_diagnostic list"
| E_Compile "semantic_diagnostic list"
| E_Verify "verify_error list"
| E_Interop interop_error
| E_Runtime runtime_error

datatype abort = Error execute_error | Panic | Out_of_fuel

definition runtime_fail :: "runtime_error \<Rightarrow> abort + 'a" where
  "runtime_fail e = Inl (Error (E_Runtime e))"

section \<open>Tracing runtime values\<close>

fun trace_value :: "runtime_value \<Rightarrow> tracer \<Rightarrow> tracer" where
  "trace_value (R_Object hn) t = mark hn t"
| "trace_value (R_Array hn) t = mark hn t"
| "trace_value _ t = t"

fun trace_heap_value :: "heap_value \<Rightarrow> tracer \<Rightarrow> tracer" where
  "trace_heap_value (H_Object fs) t = fold (\<lambda>(_, v). trace_value v) fs t"
| "trace_heap_value (H_Array vs) t = fold trace_value vs t"

text \<open>\<^verbatim>\<open>extend_roots\<close> and \<^verbatim>\<open>runtime_roots\<close>: the handles a value holds directly.\<close>

fun extend_roots :: "runtime_value \<Rightarrow> heap_handle list \<Rightarrow> heap_handle list" where
  "extend_roots (R_Object hn) roots = roots @ [hn]"
| "extend_roots (R_Array hn) roots = roots @ [hn]"
| "extend_roots _ roots = roots"

definition runtime_roots :: "runtime_value list \<Rightarrow> heap_handle list" where
  "runtime_roots vs = fold extend_roots vs []"

section \<open>Frames and blocks\<close>

record frame =
  fr_locals :: "runtime_value list"
  fr_values :: "runtime_value list"

definition resize :: "nat \<Rightarrow> 'a \<Rightarrow> 'a list \<Rightarrow> 'a list" where
  "resize n x xs = take n xs @ replicate (n - length xs) x"

definition frame_new :: "bytecode_function \<Rightarrow> runtime_value list \<Rightarrow> frame" where
  "frame_new f args =
     \<lparr>fr_locals = resize (length (fn_params f)) R_Undefined args, fr_values = []\<rparr>"

definition frame_local :: "frame \<Rightarrow> u32 \<Rightarrow> abort + runtime_value" where
  "frame_local fr i =
     (case nth_opt (fr_locals fr) (unat i) of
        None \<Rightarrow> runtime_fail (Local_Missing i) | Some v \<Rightarrow> Inr v)"

definition store_local :: "u32 \<Rightarrow> runtime_value \<Rightarrow> frame \<Rightarrow> frame" where
  "store_local i v fr =
     (let index = unat i;
          locals = (if length (fr_locals fr) \<le> index
                    then resize (index + 1) R_Undefined (fr_locals fr) else fr_locals fr)
      in fr\<lparr>fr_locals := locals[index := v]\<rparr>)"

definition frame_value :: "frame \<Rightarrow> u32 \<Rightarrow> abort + runtime_value" where
  "frame_value fr i =
     (case nth_opt (fr_values fr) (unat i) of
        None \<Rightarrow> runtime_fail (Value_Missing i) | Some v \<Rightarrow> Inr v)"

definition push_value :: "runtime_value \<Rightarrow> frame \<Rightarrow> frame" where
  "push_value v fr = fr\<lparr>fr_values := fr_values fr @ [v]\<rparr>"

definition find_block :: "bytecode_function \<Rightarrow> u32 \<Rightarrow> abort + bytecode_block" where
  "find_block f i =
     (case find (\<lambda>b. blk_id b = i) (fn_blocks f) of
        None \<Rightarrow> runtime_fail (Block_Missing i) | Some b \<Rightarrow> Inr b)"

section \<open>Constants\<close>

definition module_constant :: "bytecode_module \<Rightarrow> u32 \<Rightarrow> abort + const_entry" where
  "module_constant m i =
     (case nth_opt (mod_constants m) (unat i) of
        None \<Rightarrow> runtime_fail (Constant_Missing i) | Some c \<Rightarrow> Inr c)"

fun value_from_constant :: "const_entry \<Rightarrow> abort + runtime_value" where
  "value_from_constant (Const_Number v) =
     (case f64_parse v of
        Inl err \<Rightarrow> runtime_fail (Invalid_Number v err) | Inr x \<Rightarrow> Inr (R_Number x))"
| "value_from_constant (Const_String v) = Inr (R_String v)"
| "value_from_constant (Const_Symbol v) = Inr (R_String v)"
| "value_from_constant (Const_Boolean b) = Inr (R_Boolean b)"
| "value_from_constant Const_Null = Inr R_Null"
| "value_from_constant Const_Undefined = Inr R_Undefined"

fun symbol_name :: "const_entry \<Rightarrow> abort + string" where
  "symbol_name (Const_Symbol v) = Inr v"
| "symbol_name (Const_String v) = Inr v"
| "symbol_name _ = runtime_fail Expected_Symbol"

section \<open>Members and operators\<close>

fun load_member :: "heap_value gc_heap \<Rightarrow> runtime_value \<Rightarrow> string \<Rightarrow> abort + runtime_value" where
  "load_member h (R_Object hn) property =
     (case heap_get h hn of
        Some (H_Object fs) \<Rightarrow>
          Inr (case bt_get fs property of Some v \<Rightarrow> v | None \<Rightarrow> R_Undefined)
      | _ \<Rightarrow> runtime_fail Stale_Object)"
| "load_member h _ property = runtime_fail (Cannot_Read property)"

fun insert_field :: "string \<Rightarrow> runtime_value \<Rightarrow> heap_value \<Rightarrow> heap_value" where
  "insert_field property v (H_Object fs) = H_Object (bt_insert property v fs)"
| "insert_field property v (H_Array vs) = H_Array vs"

fun store_member ::
  "heap_value gc_heap \<Rightarrow> runtime_value \<Rightarrow> string \<Rightarrow> runtime_value \<Rightarrow> abort + heap_value gc_heap" where
  "store_member h (R_Object hn) property v =
     (case heap_get h hn of
        Some (H_Object fs) \<Rightarrow> Inr (heap_get_mut hn (insert_field property v) h)
      | _ \<Rightarrow> runtime_fail Stale_Object)"
| "store_member h _ property v = runtime_fail (Cannot_Write property)"

fun number :: "runtime_value \<Rightarrow> abort + f64" where
  "number (R_Number x) = Inr x"
| "number _ = runtime_fail Expected_Number"

fun truthy :: "runtime_value \<Rightarrow> bool" where
  "truthy (R_Boolean b) = b"
| "truthy R_Null = False"
| "truthy R_Undefined = False"
| "truthy (R_Number x) = (\<not> f64_eq x (f64_zero False))"
| "truthy (R_String s) = (s \<noteq> [])"
| "truthy (R_Object hn) = True"
| "truthy (R_Array hn) = True"

text \<open>The derived \<^verbatim>\<open>PartialEq\<close>: numbers compare as \<^verbatim>\<open>f64\<close>, aggregates by handle.\<close>

fun value_eq :: "runtime_value \<Rightarrow> runtime_value \<Rightarrow> bool" where
  "value_eq (R_Number x) (R_Number y) = f64_eq x y"
| "value_eq (R_String s) (R_String t) = (s = t)"
| "value_eq (R_Boolean a) (R_Boolean b) = (a = b)"
| "value_eq R_Null R_Null = True"
| "value_eq R_Undefined R_Undefined = True"
| "value_eq (R_Object h) (R_Object k) = (h = k)"
| "value_eq (R_Array h) (R_Array k) = (h = k)"
| "value_eq _ _ = False"

definition show_bool :: "bool \<Rightarrow> string" where
  "show_bool b = (if b then ''true'' else ''false'')"

fun display :: "nat \<Rightarrow> heap_value gc_heap \<Rightarrow> runtime_value \<Rightarrow> abort + string" where
  "display n h (R_Number x) = Inr (f64_to_string x)"
| "display n h (R_String s) = Inr s"
| "display n h (R_Boolean b) = Inr (show_bool b)"
| "display n h R_Null = Inr ''null''"
| "display n h R_Undefined = Inr ''undefined''"
| "display n h (R_Object hn) = Inr ''[object Object]''"
| "display 0 h (R_Array hn) = Inl Out_of_fuel"
| "display (Suc n) h (R_Array hn) =
     (case heap_get h hn of
        Some (H_Array vs) \<Rightarrow> rbind (rmap (display n h) vs) (\<lambda>ss. Inr (join_with '','' ss))
      | _ \<Rightarrow> runtime_fail Stale_Array)"

definition arith :: "(f64 \<Rightarrow> f64 \<Rightarrow> 'a) \<Rightarrow> ('a \<Rightarrow> runtime_value) \<Rightarrow>
    runtime_value \<Rightarrow> runtime_value \<Rightarrow> abort + runtime_value" where
  "arith f wrap left right =
     rbind (number left) (\<lambda>x. rbind (number right) (\<lambda>y. Inr (wrap (f x y))))"

definition add_values ::
  "nat \<Rightarrow> heap_value gc_heap \<Rightarrow> runtime_value \<Rightarrow> runtime_value \<Rightarrow> abort + runtime_value" where
  "add_values n h left right =
     (case (left, right) of
        (R_String s, _) \<Rightarrow> rbind (display n h right) (\<lambda>t. Inr (R_String (s @ t)))
      | (_, R_String t) \<Rightarrow> rbind (display n h left) (\<lambda>s. Inr (R_String (s @ t)))
      | _ \<Rightarrow> arith f64_add R_Number left right)"

definition binary ::
  "nat \<Rightarrow> u32 \<Rightarrow> heap_value gc_heap \<Rightarrow> runtime_value \<Rightarrow> runtime_value \<Rightarrow> abort + runtime_value" where
  "binary n op h left right =
     (if op = 0 then add_values n h left right
      else if op = 1 then arith f64_sub R_Number left right
      else if op = 2 then arith f64_mul R_Number left right
      else if op = 3 then arith f64_div R_Number left right
      else if op = 4 then arith f64_rem R_Number left right
      else if op = 5 then Inr (R_Boolean (value_eq left right))
      else if op = 6 then Inr (R_Boolean (value_eq left right))
      else if op = 7 then Inr (R_Boolean (\<not> value_eq left right))
      else if op = 8 then Inr (R_Boolean (\<not> value_eq left right))
      else if op = 9 then arith f64_lt R_Boolean left right
      else if op = 10 then arith f64_le R_Boolean left right
      else if op = 11 then arith (\<lambda>x y. f64_lt y x) R_Boolean left right
      else if op = 12 then arith (\<lambda>x y. f64_le y x) R_Boolean left right
      else if op = 13 then Inr (R_Boolean (truthy left \<and> truthy right))
      else if op = 14 then Inr (R_Boolean (truthy left \<or> truthy right))
      else if op = 15 then Inr (if left = R_Null \<or> left = R_Undefined then right else left)
      else runtime_fail (Unknown_Binary_Op op))"

section \<open>Crossing the boundary\<close>

definition collect_fields :: "('a \<Rightarrow> abort + 'b) \<Rightarrow> (string \<times> 'a) list \<Rightarrow> abort + (string \<times> 'b) list" where
  "collect_fields f fs =
     rbind (rmap (\<lambda>kv. rbind (f (snd kv)) (\<lambda>x. Inr (fst kv, x))) fs) (\<lambda>kvs. Inr (bt_of_list kvs))"

fun materialize :: "nat \<Rightarrow> heap_value gc_heap \<Rightarrow> runtime_value \<Rightarrow> abort + js_value" where
  "materialize n h (R_Number x) = Inr (V_Number x)"
| "materialize n h (R_String s) = Inr (V_String s)"
| "materialize n h (R_Boolean b) = Inr (V_Boolean b)"
| "materialize n h R_Null = Inr V_Null"
| "materialize n h R_Undefined = Inr V_Undefined"
| "materialize 0 h _ = Inl Out_of_fuel"
| "materialize (Suc n) h (R_Object hn) =
     (case heap_get h hn of
        Some (H_Object fs) \<Rightarrow> rbind (collect_fields (materialize n h) fs) (\<lambda>kvs. Inr (V_Object kvs))
      | _ \<Rightarrow> runtime_fail Stale_Object)"
| "materialize (Suc n) h (R_Array hn) =
     (case heap_get h hn of
        Some (H_Array vs) \<Rightarrow> rbind (rmap (materialize n h) vs) (\<lambda>xs. Inr (V_Array xs))
      | _ \<Rightarrow> runtime_fail Stale_Array)"

primrec interop_from_value :: "js_value \<Rightarrow> interop_value" where
  "interop_from_value (V_Number x) = IV_Number x"
| "interop_from_value (V_String s) = IV_String s"
| "interop_from_value (V_Boolean b) = IV_Boolean b"
| "interop_from_value V_Null = IV_Null"
| "interop_from_value V_Undefined = IV_Undefined"
| "interop_from_value (V_Object fs) =
     IV_Object (bt_of_list (map (map_prod id interop_from_value) fs))"
| "interop_from_value (V_Array vs) = IV_Array (map interop_from_value vs)"

text \<open>Host values are built on the runtime heap, inner values first; this never fails.\<close>

fun runtime_from_interop ::
    "interop_value \<Rightarrow> heap_value gc_heap \<Rightarrow> runtime_value \<times> heap_value gc_heap"
  and runtime_fields_from_interop ::
    "(string \<times> interop_value) list \<Rightarrow> (string, runtime_value) btree_map \<Rightarrow> heap_value gc_heap \<Rightarrow>
     (string, runtime_value) btree_map \<times> heap_value gc_heap"
  and runtime_values_from_interop ::
    "interop_value list \<Rightarrow> heap_value gc_heap \<Rightarrow> runtime_value list \<times> heap_value gc_heap"
  where
  "runtime_from_interop (IV_Number x) h = (R_Number x, h)"
| "runtime_from_interop (IV_String s) h = (R_String s, h)"
| "runtime_from_interop (IV_Boolean b) h = (R_Boolean b, h)"
| "runtime_from_interop IV_Null h = (R_Null, h)"
| "runtime_from_interop IV_Undefined h = (R_Undefined, h)"
| "runtime_from_interop (IV_Object fs) h =
     (case runtime_fields_from_interop fs [] h of (rfs, h1) \<Rightarrow>
        case allocate (H_Object rfs) h1 of (hn, h2) \<Rightarrow> (R_Object hn, h2))"
| "runtime_from_interop (IV_Array vs) h =
     (case runtime_values_from_interop vs h of (rvs, h1) \<Rightarrow>
        case allocate (H_Array rvs) h1 of (hn, h2) \<Rightarrow> (R_Array hn, h2))"
| "runtime_fields_from_interop [] acc h = (acc, h)"
| "runtime_fields_from_interop ((name, v) # fs) acc h =
     (case runtime_from_interop v h of (rv, h1) \<Rightarrow>
        runtime_fields_from_interop fs (bt_insert name rv acc) h1)"
| "runtime_values_from_interop [] h = ([], h)"
| "runtime_values_from_interop (v # vs) h =
     (case runtime_from_interop v h of (rv, h1) \<Rightarrow>
        case runtime_values_from_interop vs h1 of (rvs, h2) \<Rightarrow> (rv # rvs, h2))"

section \<open>The interpreter\<close>

text \<open>
  The mutable fields of \<^verbatim>\<open>Interpreter\<close> and the world of its host functions; \<open>m\<close> and \<open>host\<close>,
  its two shared references, are arguments.
\<close>

record 'w interp =
  in_heap :: "heap_value gc_heap"
  in_console :: "runtime_value list"
  in_world :: 'w

definition interp_new :: "'w \<Rightarrow> 'w interp" where
  "interp_new w = \<lparr>in_heap = heap_new, in_console = [], in_world = w\<rparr>"

datatype control_flow = Continue | Jump_To u32 | Return_Value runtime_value

type_synonym 'w call =
  "string \<Rightarrow> runtime_value list \<Rightarrow> ('w interp, abort, runtime_value) sem"

text \<open>\<^verbatim>\<open>instruction.operands[k]\<close>, which panics out of bounds.\<close>

definition operand :: "instruction \<Rightarrow> nat \<Rightarrow> abort + u32" where
  "operand i k = ok_or Panic (nth_opt (ins_operands i) k)"

definition operand_value :: "frame \<Rightarrow> instruction \<Rightarrow> nat \<Rightarrow> abort + runtime_value" where
  "operand_value fr i k = rbind (operand i k) (frame_value fr)"

definition operand_symbol :: "bytecode_module \<Rightarrow> instruction \<Rightarrow> nat \<Rightarrow> abort + string" where
  "operand_symbol m i k = rbind (rbind (operand i k) (module_constant m)) symbol_name"

text \<open>The loop of \<^verbatim>\<open>BuildObject\<close>: \<open>n\<close> properties left, from the one numbered \<open>index\<close>.\<close>

primrec object_fields ::
  "bytecode_module \<Rightarrow> frame \<Rightarrow> instruction \<Rightarrow> nat \<Rightarrow> nat \<Rightarrow> (string, runtime_value) btree_map \<Rightarrow>
   abort + (string, runtime_value) btree_map" where
  "object_fields m fr i index 0 acc = Inr acc"
| "object_fields m fr i index (Suc n) acc =
     rbind (rbind (operand i (1 + index * 2)) (module_constant m)) (\<lambda>name_constant.
     rbind (operand i (2 + index * 2)) (\<lambda>value_id.
     rbind (symbol_name name_constant) (\<lambda>name.
     rbind (frame_value fr value_id) (\<lambda>v.
     object_fields m fr i (Suc index) n (bt_insert name v acc)))))"

text \<open>Reads of the heap, allocation and writes, as steps of the interpreter.\<close>

definition on_heap :: "(heap_value gc_heap \<Rightarrow> abort + 'a) \<Rightarrow> ('w interp, abort, 'a) sem" where
  "on_heap f s = (s, f (in_heap s))"

definition allocate_value :: "heap_value \<Rightarrow> ('w interp, abort, heap_handle) sem" where
  "allocate_value v s =
     (case allocate v (in_heap s) of (hn, h) \<Rightarrow> (s\<lparr>in_heap := h\<rparr>, Inr hn))"

definition write_heap :: "(heap_value gc_heap \<Rightarrow> abort + heap_value gc_heap) \<Rightarrow> ('w interp, abort, unit) sem" where
  "write_heap f s =
     (case f (in_heap s) of Inl e \<Rightarrow> (s, Inl e) | Inr h \<Rightarrow> (s\<lparr>in_heap := h\<rparr>, Inr ()))"

definition push_continue :: "frame \<Rightarrow> runtime_value \<Rightarrow> ('w interp, abort, frame \<times> control_flow) sem" where
  "push_continue fr v = sret (push_value v fr, Continue)"

text \<open>
  One instruction. \<open>n\<close> bounds the depth of array printing in string concatenation and \<open>call\<close> is
  \<^verbatim>\<open>self.call_function\<close>.
\<close>

definition execute_instruction ::
  "nat \<Rightarrow> 'w call \<Rightarrow> bytecode_module \<Rightarrow> instruction \<Rightarrow> frame \<Rightarrow>
   ('w interp, abort, frame \<times> control_flow) sem" where
  "execute_instruction n call m i fr =
     (case ins_opcode i of
        LoadConst \<Rightarrow>
          sbind (slift (rbind (rbind (operand i 0) (module_constant m)) value_from_constant))
            (push_continue fr)
      | BuildObject \<Rightarrow>
          sbind (slift (rbind (operand i 0) (\<lambda>count. object_fields m fr i 0 (unat count) []))) (\<lambda>object.
          sbind (allocate_value (H_Object object)) (\<lambda>hn.
          push_continue fr (R_Object hn)))
      | BuildArray \<Rightarrow>
          sbind (slift (rbind (operand i 0) (\<lambda>_. rmap (frame_value fr) (drop 1 (ins_operands i))))) (\<lambda>vs.
          sbind (allocate_value (H_Array vs)) (\<lambda>hn.
          push_continue fr (R_Array hn)))
      | LoadLocal \<Rightarrow>
          sbind (slift (rbind (operand i 0) (frame_local fr))) (push_continue fr)
      | StoreLocal \<Rightarrow>
          sbind (slift (operand_value fr i 1)) (\<lambda>v.
          sbind (slift (operand i 0)) (\<lambda>index.
          sret (store_local index v fr, Continue)))
      | LoadMember \<Rightarrow>
          sbind (slift (operand_value fr i 0)) (\<lambda>object.
          sbind (slift (operand_symbol m i 1)) (\<lambda>property.
          sbind (on_heap (\<lambda>h. load_member h object property)) (push_continue fr)))
      | StoreMember \<Rightarrow>
          sbind (slift (operand_value fr i 0)) (\<lambda>object.
          sbind (slift (operand_symbol m i 1)) (\<lambda>property.
          sbind (slift (operand_value fr i 2)) (\<lambda>v.
          sbind (write_heap (\<lambda>h. store_member h object property v)) (\<lambda>_.
          sret (fr, Continue)))))
      | Binary \<Rightarrow>
          sbind (slift (operand_value fr i 1)) (\<lambda>left.
          sbind (slift (operand_value fr i 2)) (\<lambda>right.
          sbind (slift (operand i 0)) (\<lambda>op.
          sbind (on_heap (\<lambda>h. binary n op h left right)) (push_continue fr))))
      | Call \<Rightarrow>
          sbind (slift (operand_symbol m i 0)) (\<lambda>callee.
          sbind (slift (operand i 1)) (\<lambda>argc.
          sbind (slift (rmap (frame_value fr) (take (unat argc) (drop 2 (ins_operands i))))) (\<lambda>args.
          sbind (call callee args) (push_continue fr))))
      | Branch \<Rightarrow>
          sbind (slift (operand_value fr i 0)) (\<lambda>condition.
          sbind (slift (if truthy condition then operand i 1 else operand i 2)) (\<lambda>target.
          sret (fr, Jump_To target)))
      | Jump \<Rightarrow>
          sbind (slift (operand i 0)) (\<lambda>target. sret (fr, Jump_To target))
      | Return \<Rightarrow>
          sbind (slift (case ins_operands i of
                          [] \<Rightarrow> Inr R_Undefined
                        | w # _ \<Rightarrow> frame_value fr w)) (\<lambda>v.
          sret (fr, Return_Value v)))"

text \<open>
  The instructions of a block up to the first jump or return. A block that runs to its end
  leaves \<open>Continue\<close>, on which \<^verbatim>\<open>execute_frame\<close> returns \<^verbatim>\<open>undefined\<close>.
\<close>

primrec execute_instructions ::
  "nat \<Rightarrow> 'w call \<Rightarrow> bytecode_module \<Rightarrow> instruction list \<Rightarrow> frame \<Rightarrow>
   ('w interp, abort, frame \<times> control_flow) sem" where
  "execute_instructions n call m [] fr = sret (fr, Continue)"
| "execute_instructions n call m (i # is) fr =
     sbind (execute_instruction n call m i fr) (\<lambda>(fr', flow).
       case flow of
         Continue \<Rightarrow> execute_instructions n call m is fr'
       | Jump_To t \<Rightarrow> sret (fr', Jump_To t)
       | Return_Value v \<Rightarrow> sret (fr', Return_Value v))"

text \<open>The block loop: \<open>fuel\<close> blocks at most, the first of them \<open>block_id\<close>.\<close>

primrec execute_blocks ::
  "nat \<Rightarrow> nat \<Rightarrow> 'w call \<Rightarrow> bytecode_module \<Rightarrow> bytecode_function \<Rightarrow> u32 \<Rightarrow> frame \<Rightarrow>
   ('w interp, abort, runtime_value) sem" where
  "execute_blocks 0 n call m f block_id fr = sfail Out_of_fuel"
| "execute_blocks (Suc fuel) n call m f block_id fr =
     sbind (slift (find_block f block_id)) (\<lambda>block.
     sbind (execute_instructions n call m (blk_instructions block) fr) (\<lambda>(fr', flow).
       case flow of
         Continue \<Rightarrow> sret R_Undefined
       | Jump_To next \<Rightarrow> execute_blocks fuel n call m f next fr'
       | Return_Value v \<Rightarrow> sret v))"

definition execute_frame ::
  "nat \<Rightarrow> 'w call \<Rightarrow> bytecode_module \<Rightarrow> bytecode_function \<Rightarrow> frame \<Rightarrow>
   ('w interp, abort, runtime_value) sem" where
  "execute_frame n call m f fr = execute_blocks n n call m f 0 fr"

definition run_host :: "('w, interop_error, interop_value) sem \<Rightarrow> ('w interp, abort, runtime_value) sem" where
  "run_host f s =
     (case f (in_world s) of
        (w, Inl err) \<Rightarrow> (s\<lparr>in_world := w\<rparr>, Inl (Error (E_Interop err)))
      | (w, Inr v) \<Rightarrow>
          (case runtime_from_interop v (in_heap s) of
             (rv, h) \<Rightarrow> (s\<lparr>in_heap := h, in_world := w\<rparr>, Inr rv)))"

text \<open>\<^verbatim>\<open>call_host\<close> converts the arguments before it looks the name up.\<close>

definition call_host ::
  "nat \<Rightarrow> 'w host_environment \<Rightarrow> string \<Rightarrow> runtime_value list \<Rightarrow>
   ('w interp, abort, runtime_value option) sem" where
  "call_host n host name args =
     sbind (on_heap (\<lambda>h. rmap (\<lambda>v. rbind (materialize n h v) (\<lambda>x. Inr (interop_from_value x))) args)) (\<lambda>iargs.
       case host_call host name iargs of
         None \<Rightarrow> sret None
       | Some f \<Rightarrow> sbind (run_host f) (\<lambda>v. sret (Some v)))"

definition console_log :: "runtime_value list \<Rightarrow> ('w interp, abort, runtime_value) sem" where
  "console_log args s = (s\<lparr>in_console := in_console s @ args\<rparr>, Inr R_Undefined)"

definition find_function :: "bytecode_module \<Rightarrow> string \<Rightarrow> abort + bytecode_function" where
  "find_function m name =
     (case find (\<lambda>f. fn_name f = name) (mod_functions m) of
        None \<Rightarrow> runtime_fail (Unknown_Function name) | Some f \<Rightarrow> Inr f)"

primrec call_function ::
  "nat \<Rightarrow> bytecode_module \<Rightarrow> 'w host_environment \<Rightarrow> 'w call" where
  "call_function 0 m host name args = sfail Out_of_fuel"
| "call_function (Suc n) m host name args =
     (if name = ''console.log'' then console_log args
      else
        sbind (call_host n host name args) (\<lambda>result.
          case result of
            Some v \<Rightarrow> sret v
          | None \<Rightarrow>
              sbind (slift (find_function m name)) (\<lambda>f.
              execute_frame n (call_function n m host) m f (frame_new f args))))"

section \<open>Programs\<close>

record heap_stats =
  live_objects :: nat
  allocated_slots :: nat
  last_collection :: collection_report

record execution_output =
  out_console :: "js_value list"
  out_return_value :: js_value
  out_heap :: heap_stats

text \<open>The collection at the end of a run; a collection that does not return is \<open>Out_of_fuel\<close>.\<close>

definition collect_runtime ::
  "heap_handle list \<Rightarrow> heap_value gc_heap \<Rightarrow> abort + heap_value gc_heap \<times> collection_report" where
  "collect_runtime roots h = ok_or Out_of_fuel (collect trace_heap_value roots h)"

text \<open>\<^verbatim>\<open>Interpreter::execute\<close> after \<^verbatim>\<open>__entry\<close> has returned.\<close>

definition finish_run ::
  "nat \<Rightarrow> heap_value gc_heap \<Rightarrow> runtime_value list \<Rightarrow> runtime_value \<Rightarrow> abort + execution_output" where
  "finish_run n h console return_value =
     rbind (collect_runtime (extend_roots return_value (runtime_roots console)) h) (\<lambda>(h', report).
     rbind (rmap (materialize n h') console) (\<lambda>console_values.
     rbind (materialize n h' return_value) (\<lambda>value.
     Inr \<lparr>out_console = console_values, out_return_value = value,
          out_heap = \<lparr>live_objects = live_len h', allocated_slots = capacity h',
                      last_collection = report\<rparr>\<rparr>)))"

definition execute ::
  "nat \<Rightarrow> bytecode_module \<Rightarrow> 'w host_environment \<Rightarrow> ('w, abort, execution_output) sem" where
  "execute n m host w =
     (case call_function n m host ''__entry'' [] (interp_new w) of
        (s, Inl e) \<Rightarrow> (in_world s, Inl e)
      | (s, Inr v) \<Rightarrow> (in_world s, finish_run n (in_heap s) (in_console s) v))"

text \<open>\<^verbatim>\<open>execute_module_with_host\<close>: nothing runs before the verifier has accepted the module.\<close>

definition execute_module_with_host ::
  "nat \<Rightarrow> bytecode_module \<Rightarrow> 'w host_environment \<Rightarrow> ('w, abort, execution_output) sem" where
  "execute_module_with_host n m host =
     (case verify_module m of
        Inl errors \<Rightarrow> sfail (Error (E_Verify errors))
      | Inr _ \<Rightarrow> execute n m host)"

definition execute_module :: "nat \<Rightarrow> bytecode_module \<Rightarrow> ('w, abort, execution_output) sem" where
  "execute_module n m = execute_module_with_host n m host_new"

text \<open>\<^verbatim>\<open>PreparedModule\<close>: a module that was verified when it was built.\<close>

record prepared_module =
  pm_module :: bytecode_module

definition prepared_execute_with_host ::
  "nat \<Rightarrow> prepared_module \<Rightarrow> 'w host_environment \<Rightarrow> ('w, abort, execution_output) sem" where
  "prepared_execute_with_host n p host = execute n (pm_module p) host"

definition prepared_execute :: "nat \<Rightarrow> prepared_module \<Rightarrow> ('w, abort, execution_output) sem" where
  "prepared_execute n p = prepared_execute_with_host n p host_new"

definition prepared_call_function ::
  "nat \<Rightarrow> prepared_module \<Rightarrow> string \<Rightarrow> interop_value list \<Rightarrow> 'w host_environment \<Rightarrow>
   ('w, abort, interop_value) sem" where
  "prepared_call_function n p name args host w =
     (case runtime_values_from_interop args (in_heap (interp_new w)) of
        (runtime_args, h) \<Rightarrow>
          (case call_function n (pm_module p) host name runtime_args ((interp_new w)\<lparr>in_heap := h\<rparr>) of
             (s, Inl e) \<Rightarrow> (in_world s, Inl e)
           | (s, Inr v) \<Rightarrow>
               (in_world s,
                rbind (collect_runtime (extend_roots v []) (in_heap s)) (\<lambda>(h', report).
                rbind (materialize n h' v) (\<lambda>x. Inr (interop_from_value x))))))"

section \<open>The collector of the runtime heap\<close>

fun value_refs :: "runtime_value \<Rightarrow> heap_handle list" where
  "value_refs (R_Object hn) = [hn]"
| "value_refs (R_Array hn) = [hn]"
| "value_refs _ = []"

fun heap_value_refs :: "heap_value \<Rightarrow> heap_handle list" where
  "heap_value_refs (H_Object fs) = concat (map (\<lambda>kv. value_refs (snd kv)) fs)"
| "heap_value_refs (H_Array vs) = concat (map value_refs vs)"

lemma heap_value_refs_field:
  "kv \<in> set fs \<Longrightarrow> set (value_refs (snd kv)) \<subseteq> set (heap_value_refs (H_Object fs))"
  by auto

lemma heap_value_refs_element:
  "v \<in> set vs \<Longrightarrow> set (value_refs v) \<subseteq> set (heap_value_refs (H_Array vs))"
  by auto

lemma trace_value_refs: "trace_value v t = fold mark (value_refs v) t"
  by (cases v) auto

lemma extend_roots_refs: "extend_roots v roots = roots @ value_refs v"
  by (cases v) auto

lemma runtime_roots_refs: "runtime_roots vs = concat (map value_refs vs)"
proof -
  have "fold extend_roots vs roots = roots @ concat (map value_refs vs)" for roots
    by (induction vs arbitrary: roots) (simp_all add: extend_roots_refs)
  then show ?thesis by (simp add: runtime_roots_def)
qed

lemma trace_heap_value_refs: "trace_heap_value v t = fold mark (heap_value_refs v) t"
proof (cases v)
  case (H_Object fs)
  have "fold (\<lambda>(_, w). trace_value w) fs t = fold mark (concat (map (\<lambda>kv. value_refs (snd kv)) fs)) t"
    by (induction fs arbitrary: t) (auto simp: trace_value_refs)
  then show ?thesis by (simp add: H_Object)
next
  case (H_Array vs)
  have "fold trace_value vs t = fold mark (concat (map value_refs vs)) t"
    by (induction vs arbitrary: t) (auto simp: trace_value_refs)
  then show ?thesis by (simp add: H_Array)
qed

interpretation rt_heap: tracing trace_heap_value heap_value_refs
  by unfold_locales (rule trace_heap_value_refs)

lemma collect_runtime_total: "\<exists>h' rep. collect_runtime roots h = Inr (h', rep)"
  using rt_heap.collect_total [of roots h] by (auto simp: collect_runtime_def)

end
