(* ===== verification/Module_Cache.thy ===== *)
theory Module_Cache
  imports Interpreter
begin

text \<open>
  \<^verbatim>\<open>PreparedModuleCache\<close> of \<^verbatim>\<open>runtime/interpreter\<close>: a bounded cache of prepared modules, keyed
  by source text, that evicts the oldest insertion. Preparing a source is the argument
  \<open>prepare\<close>, so the theory shows that the cache is transparent for any of it. The \<^verbatim>\<open>expect\<close>s of
  the code are \<open>Panic\<close>.
\<close>

section \<open>The cache\<close>

datatype cache_lookup_status = Hit | Miss

record cache_statistics =
  st_hits :: nat
  st_misses :: nat
  st_evictions :: nat
  st_entries :: nat

datatype cache_error = ZeroCapacity

record 'm module_cache =
  pc_capacity :: nat
  pc_modules :: "(string, 'm) btree_map"
  pc_order :: "string list"
  pc_hits :: nat
  pc_misses :: nat
  pc_evictions :: nat

definition cache_new :: "nat \<Rightarrow> cache_error + 'm module_cache" where
  "cache_new cap =
     (if cap = 0 then Inl ZeroCapacity
      else Inr \<lparr>pc_capacity = cap, pc_modules = [], pc_order = [],
                pc_hits = 0, pc_misses = 0, pc_evictions = 0\<rparr>)"

text \<open>
  The eviction of \<^verbatim>\<open>get_or_prepare\<close>: the front of the queue leaves the map. A key that was not
  in the map is the \<^verbatim>\<open>debug_assert!\<close> of a debug build.
\<close>

definition evict_oldest :: "('m module_cache, abort, unit) sem" where
  "evict_oldest c =
     (if length (pc_modules c) = pc_capacity c
      then
        (case pc_order c of
           [] \<Rightarrow> (c, Inl Panic)
         | oldest # rest \<Rightarrow>
             (let removed = bt_get (pc_modules c) oldest;
                  c1 = c\<lparr>pc_order := rest, pc_modules := bt_remove oldest (pc_modules c)\<rparr>
              in if removed = None then (c1, Inl Panic)
                 else (c1\<lparr>pc_evictions := pc_evictions c1 + 1\<rparr>, Inr ())))
      else (c, Inr ()))"

definition insert_prepared ::
  "string \<Rightarrow> 'm \<Rightarrow> ('m module_cache, abort, cache_lookup_status \<times> 'm) sem" where
  "insert_prepared source m c =
     (let c' = c\<lparr>pc_order := pc_order c @ [source], pc_modules := bt_insert source m (pc_modules c)\<rparr>
      in (c', rbind (ok_or Panic (bt_get (pc_modules c') source)) (\<lambda>m. Inr (Miss, m))))"

definition get_or_prepare ::
  "(string \<Rightarrow> abort + 'm) \<Rightarrow> string \<Rightarrow> ('m module_cache, abort, cache_lookup_status \<times> 'm) sem" where
  "get_or_prepare prepare source c =
     (if bt_contains (pc_modules c) source
      then (c\<lparr>pc_hits := pc_hits c + 1\<rparr>,
            rbind (ok_or Panic (bt_get (pc_modules c) source)) (\<lambda>m. Inr (Hit, m)))
      else
        sbind (\<lambda>c. (c\<lparr>pc_misses := pc_misses c + 1\<rparr>, prepare source)) (\<lambda>m.
        sbind evict_oldest (\<lambda>_. insert_prepared source m)) c)"

definition cache_stats :: "'m module_cache \<Rightarrow> cache_statistics" where
  "cache_stats c =
     \<lparr>st_hits = pc_hits c, st_misses = pc_misses c, st_evictions = pc_evictions c,
      st_entries = length (pc_modules c)\<rparr>"

text \<open>A sequence of requests; what each of them returned.\<close>

fun requests ::
  "(string \<Rightarrow> abort + 'm) \<Rightarrow> string list \<Rightarrow> 'm module_cache \<Rightarrow>
   'm module_cache \<times> (abort + cache_lookup_status \<times> 'm) list" where
  "requests prepare [] c = (c, [])"
| "requests prepare (src # srcs) c =
     (case get_or_prepare prepare src c of (c1, r) \<Rightarrow>
        case requests prepare srcs c1 of (c2, rs) \<Rightarrow> (c2, r # rs))"

section \<open>The invariant\<close>

text \<open>The queue holds the keys of the map, once each, and the map caches \<open>prepare\<close>.\<close>

definition cache_ok :: "(string \<Rightarrow> abort + 'm) \<Rightarrow> 'm module_cache \<Rightarrow> bool" where
  "cache_ok prepare c \<longleftrightarrow>
     0 < pc_capacity c \<and> bt_wf (pc_modules c) \<and> distinct (pc_order c) \<and>
     set (pc_order c) = fst ` set (pc_modules c) \<and> length (pc_order c) \<le> pc_capacity c \<and>
     (\<forall>k m. bt_get (pc_modules c) k = Some m \<longrightarrow> prepare k = Inr m)"

lemma cache_ok_length: "cache_ok prepare c \<Longrightarrow> length (pc_modules c) = length (pc_order c)"
  unfolding cache_ok_def
  by (metis bt_wf_distinct distinct_card length_map list.set_map)

lemma cache_ok_contains:
  "cache_ok prepare c \<Longrightarrow> bt_contains (pc_modules c) k \<longleftrightarrow> k \<in> set (pc_order c)"
  by (simp add: cache_ok_def bt_contains_def bt_get_None)

lemma cache_new_ok: "cache_new cap = Inr c \<Longrightarrow> cache_ok prepare c"
  by (auto simp: cache_new_def cache_ok_def split: if_splits)

lemma evict_oldest_ok:
  assumes ok: "cache_ok prepare c"
  obtains c' where "evict_oldest c = (c', Inr ())" "cache_ok prepare c'"
    "length (pc_order c') < pc_capacity c'" "pc_capacity c' = pc_capacity c"
    "set (pc_order c') \<subseteq> set (pc_order c)"
    "pc_order c' = (if length (pc_order c) = pc_capacity c then tl (pc_order c) else pc_order c)"
    "pc_evictions c' = pc_evictions c + (if length (pc_order c) = pc_capacity c then 1 else 0)"
    "pc_hits c' = pc_hits c" "pc_misses c' = pc_misses c"
proof (cases "length (pc_modules c) = pc_capacity c")
  case True
  with ok cache_ok_length [OF ok] obtain oldest rest where o: "pc_order c = oldest # rest"
    by (cases "pc_order c") (auto simp: cache_ok_def)
  let ?c = "c\<lparr>pc_order := rest, pc_modules := bt_remove oldest (pc_modules c),
    pc_evictions := pc_evictions c + 1\<rparr>"
  have "fst ` set (bt_remove oldest (pc_modules c)) = fst ` set (pc_modules c) - {oldest}"
    using ok by (simp add: cache_ok_def fst_bt_remove)
  then have "set rest = fst ` set (bt_remove oldest (pc_modules c))"
    using ok o by (auto simp: cache_ok_def)
  then have "cache_ok prepare ?c"
    using ok o by (auto simp: cache_ok_def bt_wf_remove bt.lookup_remove split: if_splits)
  moreover have "bt_get (pc_modules c) oldest \<noteq> None"
    using ok o cache_ok_contains [OF ok, of oldest] by (simp add: bt_contains_def)
  ultimately show thesis
    using True o cache_ok_length [OF ok]
    by (intro that [of ?c]) (auto simp: evict_oldest_def Let_def)
next
  case False
  with ok cache_ok_length [OF ok] show thesis
    by (intro that [of c]) (auto simp: evict_oldest_def cache_ok_def)
qed

lemma insert_prepared_ok:
  assumes ok: "cache_ok prepare c" and new: "source \<notin> set (pc_order c)"
    and len: "length (pc_order c) < pc_capacity c" and m: "prepare source = Inr m"
  shows "snd (insert_prepared source m c) = Inr (Miss, m)"
    and "cache_ok prepare (fst (insert_prepared source m c))"
  using assms by (auto simp: insert_prepared_def Let_def cache_ok_def bt.lookup_insert bt_wf_insert
      fst_bt_insert split: if_splits)

text \<open>The requests answered from the cache, and those that prepared their source with success.\<close>

definition is_hit :: "abort + cache_lookup_status \<times> 'm \<Rightarrow> bool" where
  "is_hit r \<longleftrightarrow> (case r of Inl _ \<Rightarrow> False | Inr (status, _) \<Rightarrow> status = Hit)"

definition is_miss :: "abort + cache_lookup_status \<times> 'm \<Rightarrow> bool" where
  "is_miss r \<longleftrightarrow> (case r of Inl _ \<Rightarrow> False | Inr (status, _) \<Rightarrow> status = Miss)"

lemma status_simps [simp]:
  "\<not> is_hit (Inl e)" "\<not> is_miss (Inl e)" "is_hit (Inr (st, m)) \<longleftrightarrow> st = Hit" "is_miss (Inr (st, m)) \<longleftrightarrow> st = Miss"
  by (simp_all add: is_hit_def is_miss_def)

text \<open>One request: what it returns, and how it changes the queue and the counters.\<close>

lemma get_or_prepare_spec:
  assumes ok: "cache_ok prepare c" and g: "get_or_prepare prepare source c = (c', r)"
  shows "cache_ok prepare c'" and "pc_capacity c' = pc_capacity c"
    and "r = rbind (prepare source) (\<lambda>m. Inr (if source \<in> set (pc_order c) then Hit else Miss, m))"
    and "pc_hits c' = pc_hits c + (if is_hit r then 1 else 0) \<and>
      pc_misses c' = pc_misses c + (if is_hit r then 0 else 1)"
    and "pc_order c' =
       (if source \<in> set (pc_order c) then pc_order c
        else case prepare source of
          Inl _ \<Rightarrow> pc_order c
        | Inr _ \<Rightarrow> (if length (pc_order c) = pc_capacity c then tl (pc_order c) else pc_order c) @ [source])"
    and "length (pc_order c') + pc_evictions c' =
       length (pc_order c) + pc_evictions c + (if is_miss r then 1 else 0)"
proof -
  have "cache_ok prepare c' \<and> pc_capacity c' = pc_capacity c \<and>
    r = rbind (prepare source) (\<lambda>m. Inr (if source \<in> set (pc_order c) then Hit else Miss, m)) \<and>
    (pc_hits c' = pc_hits c + (if is_hit r then 1 else 0) \<and>
      pc_misses c' = pc_misses c + (if is_hit r then 0 else 1)) \<and>
    pc_order c' =
       (if source \<in> set (pc_order c) then pc_order c
        else case prepare source of
          Inl _ \<Rightarrow> pc_order c
        | Inr _ \<Rightarrow> (if length (pc_order c) = pc_capacity c then tl (pc_order c) else pc_order c) @ [source]) \<and>
    length (pc_order c') + pc_evictions c' =
       length (pc_order c) + pc_evictions c + (if is_miss r then 1 else 0)"
  proof (cases "source \<in> set (pc_order c)")
    case True
    then obtain m where m: "bt_get (pc_modules c) source = Some m"
      using cache_ok_contains [OF ok, of source] by (auto simp: bt_contains_def)
    then have "prepare source = Inr m" using ok by (simp add: cache_ok_def)
    moreover have "cache_ok prepare (c\<lparr>pc_hits := pc_hits c + 1\<rparr>)"
      using ok by (simp add: cache_ok_def)
    ultimately show ?thesis
      using True m g by (auto simp: get_or_prepare_def bt_contains_def)
  next
    case False
    let ?c = "c\<lparr>pc_misses := pc_misses c + 1\<rparr>"
    have okc: "cache_ok prepare ?c" using ok by (simp add: cache_ok_def)
    have nc: "\<not> bt_contains (pc_modules c) source" using False cache_ok_contains [OF ok] by simp
    show ?thesis
    proof (cases "prepare source")
      case (Inl e)
      with nc g okc False show ?thesis by (auto simp: get_or_prepare_def sbind_def)
    next
      case (Inr m)
      obtain c1 where c1: "evict_oldest ?c = (c1, Inr ())" "cache_ok prepare c1"
        "length (pc_order c1) < pc_capacity c1" "pc_capacity c1 = pc_capacity c"
        "set (pc_order c1) \<subseteq> set (pc_order c)"
        "pc_order c1 = (if length (pc_order c) = pc_capacity c then tl (pc_order c) else pc_order c)"
        "pc_evictions c1 = pc_evictions c + (if length (pc_order c) = pc_capacity c then 1 else 0)"
        "pc_hits c1 = pc_hits c" "pc_misses c1 = pc_misses c + 1"
        by (rule evict_oldest_ok [OF okc], erule that; simp)
      have "source \<notin> set (pc_order c1)" using c1(5) False by blast
      note ins = insert_prepared_ok [OF c1(2) this c1(3) Inr]
      have cr: "(c', r) = insert_prepared source m c1"
        using g nc Inr c1(1) by (simp add: get_or_prepare_def sbind_def)
      have len: "0 < length (pc_order c)" if "length (pc_order c) = pc_capacity c"
        using that ok by (simp add: cache_ok_def)
      have fld: "pc_order c' = pc_order c1 @ [source]" "pc_capacity c' = pc_capacity c1"
        "pc_hits c' = pc_hits c1" "pc_misses c' = pc_misses c1" "pc_evictions c' = pc_evictions c1"
        using cr by (auto simp: insert_prepared_def Let_def)
      show ?thesis
        using cr ins c1(4,6-9) fld False Inr len by (cases "insert_prepared source m c1") auto
    qed
  qed
  then show "cache_ok prepare c'" and "pc_capacity c' = pc_capacity c"
    and "r = rbind (prepare source) (\<lambda>m. Inr (if source \<in> set (pc_order c) then Hit else Miss, m))"
    and "pc_hits c' = pc_hits c + (if is_hit r then 1 else 0) \<and>
      pc_misses c' = pc_misses c + (if is_hit r then 0 else 1)"
    and "pc_order c' =
       (if source \<in> set (pc_order c) then pc_order c
        else case prepare source of
          Inl _ \<Rightarrow> pc_order c
        | Inr _ \<Rightarrow> (if length (pc_order c) = pc_capacity c then tl (pc_order c) else pc_order c) @ [source])"
    and "length (pc_order c') + pc_evictions c' =
       length (pc_order c) + pc_evictions c + (if is_miss r then 1 else 0)"
    by blast+
qed

lemma requests_ok:
  "cache_ok prepare c \<Longrightarrow> requests prepare srcs c = (c', rs) \<Longrightarrow>
   cache_ok prepare c' \<and> pc_capacity c' = pc_capacity c \<and>
   map (\<lambda>r. rbind r (\<lambda>x. Inr (snd x))) rs = map prepare srcs \<and>
   pc_hits c' = pc_hits c + length (filter is_hit rs) \<and>
   pc_misses c' = pc_misses c + length (filter (Not \<circ> is_hit) rs) \<and>
   length (pc_order c') + pc_evictions c' = length (pc_order c) + pc_evictions c +
     length (filter is_miss rs)"
proof (induction srcs arbitrary: c c' rs)
  case (Cons src srcs)
  obtain c1 r where g: "get_or_prepare prepare src c = (c1, r)" by fastforce
  obtain rs' where rs: "requests prepare srcs c1 = (c', rs')" "rs = r # rs'"
    using Cons.prems(2) g by (auto split: prod.splits)
  note sp = get_or_prepare_spec [OF Cons.prems(1) g]
  have "rbind r (\<lambda>x. Inr (snd x)) = prepare src"
    by (cases "prepare src") (simp_all add: sp(3))
  then show ?case
    using Cons.IH [OF sp(1) rs(1)] sp(2,4,6) rs(2) by auto
qed simp

section \<open>The contract\<close>

text \<open>
  C16: The cache is transparent and bounded, and its statistics are exact. From a new cache of
  any positive capacity, any sequence of requests returns for each source exactly what preparing
  it returns, error or module, and the code's \<^verbatim>\<open>expect\<close>s never fail; the hits counted are the
  requests answered with \<^verbatim>\<open>Hit\<close>, the misses all others, failed ones included; the entries never
  exceed the capacity, and entries plus evictions are the successful misses.
\<close>

theorem cache_transparent:
  assumes "cache_new cap = Inr c" and "requests prepare srcs c = (c', rs)"
  shows "map (\<lambda>r. rbind r (\<lambda>x. Inr (snd x))) rs = map prepare srcs \<and>
    st_hits (cache_stats c') = length (filter is_hit rs) \<and>
    st_misses (cache_stats c') = length (filter (Not \<circ> is_hit) rs) \<and>
    st_entries (cache_stats c') \<le> cap \<and>
    st_entries (cache_stats c') + st_evictions (cache_stats c') = length (filter is_miss rs)"
proof -
  have ok: "cache_ok prepare c" by (rule cache_new_ok [OF assms(1)])
  have c: "pc_capacity c = cap" "pc_order c = []" "pc_hits c = 0" "pc_misses c = 0" "pc_evictions c = 0"
    using assms(1) by (auto simp: cache_new_def split: if_splits)
  note r = requests_ok [OF ok assms(2)]
  then have "length (pc_order c') \<le> cap" using c(1) by (simp add: cache_ok_def)
  with r c cache_ok_length [of prepare c'] show ?thesis by (simp add: cache_stats_def)
qed

text \<open>One slot and three requests: a miss, a hit, and a miss that evicts.\<close>

theorem cache_transparent_witness:
  "\<exists>(c :: string module_cache) c' rs. cache_new 1 = Inr c \<and> requests Inr [''a'', ''a'', ''b''] c = (c', rs) \<and>
     map (\<lambda>r. rbind r (\<lambda>x. Inr (snd x))) rs = map Inr [''a'', ''a'', ''b''] \<and>
     st_hits (cache_stats c') = length (filter is_hit rs) \<and> st_entries (cache_stats c') \<le> 1"
proof -
  obtain c :: "string module_cache" where c: "cache_new 1 = Inr c" by (simp add: cache_new_def)
  obtain c' rs where r: "requests Inr [''a'', ''a'', ''b''] c = (c', rs)" by fastforce
  from cache_transparent [OF c r] c r show ?thesis by blast
qed

text \<open>
  C25: Eviction is first-in first-out: a hit leaves the queue as it is, a source that cannot be
  prepared too, and a successful miss appends the source after dropping the oldest one, if and
  only if the cache was full. The status tells hits from misses.
\<close>

theorem cache_fifo:
  assumes "cache_ok prepare c" and "get_or_prepare prepare source c = (c', r)"
  shows "cache_ok prepare c' \<and>
    r = rbind (prepare source) (\<lambda>m. Inr (if source \<in> set (pc_order c) then Hit else Miss, m)) \<and>
    pc_order c' =
      (if source \<in> set (pc_order c) then pc_order c
       else case prepare source of
         Inl _ \<Rightarrow> pc_order c
       | Inr _ \<Rightarrow> (if length (pc_order c) = pc_capacity c then tl (pc_order c) else pc_order c) @ [source])"
  using get_or_prepare_spec [OF assms] by blast

theorem cache_fifo_witness:
  "\<exists>c c' r. cache_new 1 = Inr c \<and> get_or_prepare Inr ''a'' c = (c', r) \<and> pc_order c' = [''a'']"
proof -
  obtain c :: "string module_cache" where c: "cache_new 1 = Inr c" "pc_order c = []" "pc_capacity c = 1"
    by (simp add: cache_new_def)
  obtain c' r where g: "get_or_prepare Inr ''a'' c = (c', r)" by fastforce
  have "cache_ok Inr c" by (rule cache_new_ok [OF c(1)])
  from cache_fifo [OF this g] c g show ?thesis by auto
qed

end
