(* ===== verification/Runtime_Heap.thy ===== *)
theory Runtime_Heap
  imports Interpreter
begin

text \<open>
  The contract of the heap as the interpreter uses it: allocation, collection and the life of a
  handle, on the heap of runtime values.
\<close>

section \<open>A small heap\<close>

definition sample_handle :: "u32 \<Rightarrow> heap_handle" where
  "sample_handle i = \<lparr>handle_index = i, handle_generation = 0\<rparr>"

text \<open>Slot 1 is an object with slot 0, an array, in its field; slot 2 is unreachable from it.\<close>

definition sample_heap :: "heap_value gc_heap" where
  "sample_heap =
     snd (allocate (H_Array [])
       (snd (allocate (H_Object [(''p'', R_Array (sample_handle 0))])
         (snd (allocate (H_Array []) heap_new)))))"

lemma sample_heap_eq:
  "sample_heap = \<lparr>heap_slots =
     [\<lparr>slot_generation = 0, slot_value = Some (H_Array [])\<rparr>,
      \<lparr>slot_generation = 0, slot_value = Some (H_Object [(''p'', R_Array (sample_handle 0))])\<rparr>,
      \<lparr>slot_generation = 0, slot_value = Some (H_Array [])\<rparr>],
     heap_free = [], heap_live = 3\<rparr>"
  by (simp add: sample_heap_def heap_new_def allocate_def Let_def)

lemma sample_heap_wf: "heap_wf sample_heap"
  unfolding sample_heap_def
  by (metis allocate_wf heap_new_wf prod.collapse)

lemma sample_unreachable:
  assumes "reach heap_value_refs sample_heap [sample_handle 1] i"
  shows "i \<noteq> 2"
  using assms
proof (induction rule: reach.induct)
  case (reach_root hdl i)
  then show ?case by (simp add: resolves_def sample_handle_def)
next
  case (reach_step i v hdl j)
  have "i < 3" using reach_occupied [OF reach_step.hyps(1)] by (simp add: occupied_def sample_heap_eq)
  then have "i = 0 \<or> i = 1 \<or> i = 2" by auto
  with reach_step show ?case
    by (auto simp: resolves_def sample_handle_def sample_heap_eq)
qed

section \<open>Generations wrap around\<close>

text \<open>One vacant slot at generation \<open>g\<close>: an allocation and a collection lead to \<open>g + 1\<close>.\<close>

definition vacant_heap :: "u32 \<Rightarrow> heap_value gc_heap" where
  "vacant_heap g = \<lparr>heap_slots = [\<lparr>slot_generation = g, slot_value = None\<rparr>], heap_free = [0], heap_live = 0\<rparr>"

definition single_heap :: "u32 \<Rightarrow> heap_value gc_heap" where
  "single_heap g =
     \<lparr>heap_slots = [\<lparr>slot_generation = g, slot_value = Some (H_Array [])\<rparr>], heap_free = [], heap_live = 1\<rparr>"

lemma vacant_allocate:
  "allocate (H_Array []) (vacant_heap g) = (\<lparr>handle_index = 0, handle_generation = g\<rparr>, single_heap g)"
  by (simp add: allocate_def vacant_heap_def single_heap_def Let_def)

lemma no_roots: "\<not> reach refs h [] i"
proof
  assume "reach refs h [] i"
  then show False by (induction rule: reach.induct) auto
qed

lemma single_collect:
  "\<exists>rep. collect trace_heap_value [] (single_heap g) = Some (vacant_heap (g + 1), rep)"
proof -
  obtain h' rep where c: "collect trace_heap_value [] (single_heap g) = Some (h', rep)"
    using rt_heap.collect_total by blast
  have one: "occupied (single_heap g) i \<longleftrightarrow> i = 0" for i
    by (auto simp: occupied_def single_heap_def)
  note f = rt_heap.collect_facts [OF c, unfolded one]
  have "heap_slots h' ! 0 = \<lparr>slot_generation = g + 1, slot_value = None\<rparr>" "length (heap_slots h') = 1"
    using f(1) f(2) [of 0] no_roots by (auto simp: single_heap_def retire_def)
  then have s: "heap_slots h' = [\<lparr>slot_generation = g + 1, slot_value = None\<rparr>]"
    by (cases "heap_slots h'") auto
  have fr: "set (heap_free h') = {0}" "distinct (heap_free h')"
    using f(4,5) no_roots by (auto simp: single_heap_def)
  then have "heap_free h' = [0]"
    by (cases "heap_free h'"; cases "tl (heap_free h')") auto
  moreover have "heap_live h' = 0" using f(6,9) by (simp add: no_roots single_heap_def)
  ultimately have "h' = vacant_heap (g + 1)" using s by (simp add: vacant_heap_def)
  with c show ?thesis by blast
qed

lemma vacant_run:
  "heap_run trace_heap_value (vacant_heap g) n (vacant_heap (g + word_of_nat n))"
proof (induction n)
  case 0
  show ?case by (simp add: run_start)
next
  case (Suc n)
  obtain rep where c: "collect trace_heap_value [] (single_heap (g + word_of_nat n)) =
      Some (vacant_heap (g + word_of_nat n + 1), rep)"
    using single_collect by blast
  have "heap_run trace_heap_value (vacant_heap g) n (single_heap (g + word_of_nat n))"
    by (rule run_allocate [OF Suc vacant_allocate])
  from run_collect [OF this c] show ?case by (simp add: algebra_simps)
qed

section \<open>The contract\<close>

text \<open>
  C4: A collection always returns. Afterwards a handle resolves exactly if its slot was reachable
  from the roots, and then to the same value; the heap is well formed again, keeps its capacity,
  and the report counts the reachable slots and the freed ones.
\<close>

theorem collect_exact:
  assumes "heap_wf h"
  shows "\<exists>h' rep. collect trace_heap_value roots h = Some (h', rep) \<and>
    heap_wf h' \<and> capacity h' = capacity h \<and>
    (\<forall>k. heap_get h' k =
       (if reach heap_value_refs h roots (unat (handle_index k)) then heap_get h k else None)) \<and>
    marked rep = card {i. reach heap_value_refs h roots i} \<and>
    live_len h' = marked rep \<and> live_after rep = marked rep \<and>
    live_len h = marked rep + collected rep"
proof -
  obtain h' rep where c: "collect trace_heap_value roots h = Some (h', rep)"
    using rt_heap.collect_total by blast
  then show ?thesis
    using rt_heap.collect_wf [OF assms c] rt_heap.collect_capacity [OF c] rt_heap.collect_get [OF c]
      rt_heap.collect_facts(7,8) [OF c] by auto
qed

theorem collect_exact_witness:
  "\<exists>h' rep. collect trace_heap_value [sample_handle 1] sample_heap = Some (h', rep) \<and>
     live_len h' = marked rep \<and> heap_get h' (sample_handle 2) = None"
proof -
  have "\<not> reach heap_value_refs sample_heap [sample_handle 1] (unat (handle_index (sample_handle 2)))"
    using sample_unreachable by (fastforce simp: sample_handle_def)
  with collect_exact [OF sample_heap_wf, of "[sample_handle 1]"] show ?thesis by auto
qed

text \<open>
  C20: Allocation on a well-formed heap whose slot table stays within the 32 bits of a handle's
  index returns a handle that resolves to the new value and did not resolve before; every other
  live handle keeps its value, the live count grows by one, and the table only grows when no
  slot was free.
\<close>

theorem allocate_fresh:
  assumes "heap_wf h" and "allocate v h = (hdl, h')" and "capacity h' \<le> 2 ^ 32"
  shows "heap_wf h' \<and> heap_get h' hdl = Some (v :: heap_value) \<and> heap_get h hdl = None \<and>
    (\<forall>k w. heap_get h k = Some w \<longrightarrow> heap_get h' k = Some w) \<and>
    live_len h' = Suc (live_len h) \<and>
    capacity h' = (if heap_free h = [] then Suc (capacity h) else capacity h)"
  using allocate_wf [OF assms(1,2)] allocate_get [OF assms] allocate_live [OF assms(2)]
    allocate_capacity [OF assms(1,2)] by blast

theorem allocate_fresh_witness:
  "heap_get (snd (allocate (H_Array [R_Null]) sample_heap)) (sample_handle 3) = Some (H_Array [R_Null])"
proof -
  have a: "allocate (H_Array [R_Null]) sample_heap =
      (sample_handle 3, snd (allocate (H_Array [R_Null]) sample_heap))"
    by (simp add: sample_heap_eq allocate_def Let_def sample_handle_def)
  moreover have "capacity (snd (allocate (H_Array [R_Null]) sample_heap)) \<le> 2 ^ 32"
    by (simp add: sample_heap_eq allocate_def Let_def capacity_def)
  ultimately show ?thesis using allocate_fresh [OF sample_heap_wf a] by blast
qed

text \<open>
  C24: A handle whose slot was freed by a collection stays dead through any allocations, writes
  and further collections, as long as there are fewer than \<open>2 ^ 32 - 1\<close> of the latter.
\<close>

theorem freed_handle_stays_dead:
  assumes "heap_wf h" and "heap_get h k = Some v"
    and "collect trace_heap_value roots h = Some (h1, rep)"
    and "\<not> reach heap_value_refs h roots (unat (handle_index k))"
    and "heap_run trace_heap_value h1 n h'" and "n < 2 ^ 32 - 1"
  shows "heap_get h' k = None"
  using rt_heap.stale_handle_dead [OF assms] .

theorem freed_handle_stays_dead_witness:
  "\<exists>h1 rep. collect trace_heap_value [sample_handle 1] sample_heap = Some (h1, rep) \<and>
     heap_get (snd (allocate (H_Array [R_Null]) h1)) (sample_handle 2) = None"
proof -
  obtain h1 rep where c: "collect trace_heap_value [sample_handle 1] sample_heap = Some (h1, rep)"
    using rt_heap.collect_total by blast
  have g: "heap_get sample_heap (sample_handle 2) = Some (H_Array [])"
    by (simp add: sample_heap_eq heap_get_def sample_handle_def nth_opt_def)
  have d: "\<not> reach heap_value_refs sample_heap [sample_handle 1] (unat (handle_index (sample_handle 2)))"
    using sample_unreachable by (fastforce simp: sample_handle_def)
  have r: "heap_run trace_heap_value h1 0 (snd (allocate (H_Array [R_Null]) h1))"
    by (rule run_allocate [OF run_start]) (rule prod.collapse [symmetric])
  show ?thesis using c freed_handle_stays_dead [OF sample_heap_wf g c d r] by auto
qed

text \<open>
  C29: The bound of the previous property is exact: generations wrap at 32 bits, and after
  \<open>2 ^ 32 - 1\<close> more collections the freed handle resolves again, to a different allocation.
\<close>

theorem freed_handle_comes_back:
  "allocate (H_Array []) (vacant_heap 0) = (sample_handle 0, single_heap 0) \<and>
   (\<exists>rep. collect trace_heap_value [] (single_heap 0) = Some (vacant_heap 1, rep)) \<and>
   (\<exists>h'. heap_run trace_heap_value (vacant_heap 1) (2 ^ 32 - 1) h' \<and>
      heap_get (snd (allocate (H_Array []) h')) (sample_handle 0) = Some (H_Array []))"
proof -
  have w: "(1 :: u32) + word_of_nat (2 ^ 32 - 1) = 0"
    by simp
  have "heap_run trace_heap_value (vacant_heap 1) (2 ^ 32 - 1) (vacant_heap 0)"
    using vacant_run [of 1 "2 ^ 32 - 1"] unfolding w .
  moreover have "heap_get (snd (allocate (H_Array []) (vacant_heap 0))) (sample_handle 0) = Some (H_Array [])"
    by (simp add: vacant_allocate single_heap_def heap_get_def sample_handle_def nth_opt_def)
  ultimately show ?thesis
    using vacant_allocate [of 0] single_collect [of 0] by (auto simp: sample_handle_def)
qed

end
