(* ===== verification/Interpreter_Safety.thy ===== *)
theory Interpreter_Safety
  imports Interpreter
begin

text \<open>
  What the verifier buys at run time. A module it accepts runs without a panic (every operand
  access is in range), reads only constants, values, locals and blocks that exist, and never
  holds a handle of the wrong kind or a stale one; the run-time errors left are those of the
  values themselves (\<open>benign\<close>). The heap handles store a slot index in 32 bits, so the claims
  are about runs whose slot table stays within them.
\<close>

section \<open>Well-formed runtime states\<close>

fun same_kind :: "heap_value \<Rightarrow> heap_value \<Rightarrow> bool" where
  "same_kind (H_Object _) (H_Object _) = True"
| "same_kind (H_Array _) (H_Array _) = True"
| "same_kind _ _ = False"

fun valid_value :: "heap_value gc_heap \<Rightarrow> runtime_value \<Rightarrow> bool" where
  "valid_value h (R_Object hn) = (case heap_get h hn of Some (H_Object _) \<Rightarrow> True | _ \<Rightarrow> False)"
| "valid_value h (R_Array hn) = (case heap_get h hn of Some (H_Array _) \<Rightarrow> True | _ \<Rightarrow> False)"
| "valid_value h _ = True"

fun valid_contents :: "heap_value gc_heap \<Rightarrow> heap_value \<Rightarrow> bool" where
  "valid_contents h (H_Object fs) = (bt_wf fs \<and> (\<forall>kv\<in>set fs. valid_value h (snd kv)))"
| "valid_contents h (H_Array vs) = (\<forall>v\<in>set vs. valid_value h v)"

definition heap_ok :: "heap_value gc_heap \<Rightarrow> bool" where
  "heap_ok h \<longleftrightarrow> heap_wf h \<and>
     (\<forall>s\<in>set (heap_slots h). case slot_value s of None \<Rightarrow> True | Some v \<Rightarrow> valid_contents h v)"

definition valid_values :: "heap_value gc_heap \<Rightarrow> runtime_value list \<Rightarrow> bool" where
  "valid_values h vs \<longleftrightarrow> (\<forall>v\<in>set vs. valid_value h v)"

definition interp_ok :: "'w interp \<Rightarrow> bool" where
  "interp_ok s \<longleftrightarrow> heap_ok (in_heap s) \<and> valid_values (in_heap s) (in_console s)"

text \<open>Between collections a heap only grows, and no slot changes its kind.\<close>

definition heap_ext :: "heap_value gc_heap \<Rightarrow> heap_value gc_heap \<Rightarrow> bool" where
  "heap_ext h h' \<longleftrightarrow>
     (\<forall>k v. heap_get h k = Some v \<longrightarrow> (\<exists>w. heap_get h' k = Some w \<and> same_kind v w))"

lemma same_kind_refl [simp]: "same_kind v v"
  by (cases v) auto

lemma same_kind_trans: "same_kind u v \<Longrightarrow> same_kind v w \<Longrightarrow> same_kind u w"
  by (cases u; cases v; cases w) auto

lemma same_kind_insert_field [simp]: "same_kind v (insert_field p x v)"
  by (cases v) auto

lemma heap_ext_refl [simp]: "heap_ext h h"
  by (auto simp: heap_ext_def)

lemma heap_ext_trans: "heap_ext h h1 \<Longrightarrow> heap_ext h1 h2 \<Longrightarrow> heap_ext h h2"
  unfolding heap_ext_def by (meson same_kind_trans)

lemma valid_objectD: "valid_value h (R_Object k) \<Longrightarrow> \<exists>fs. heap_get h k = Some (H_Object fs)"
  by (auto split: option.splits heap_value.splits)

lemma valid_arrayD: "valid_value h (R_Array k) \<Longrightarrow> \<exists>vs. heap_get h k = Some (H_Array vs)"
  by (auto split: option.splits heap_value.splits)

lemma valid_value_ext: "heap_ext h h' \<Longrightarrow> valid_value h v \<Longrightarrow> valid_value h' v"
proof (cases v)
  case (R_Object k)
  assume e: "heap_ext h h'" and v: "valid_value h v"
  then obtain fs where "heap_get h k = Some (H_Object fs)"
    using R_Object by (auto split: option.splits heap_value.splits)
  with e obtain w where "heap_get h' k = Some w" "same_kind (H_Object fs) w"
    unfolding heap_ext_def by blast
  then show ?thesis using R_Object by (cases w) auto
next
  case (R_Array k)
  assume e: "heap_ext h h'" and v: "valid_value h v"
  then obtain vs where "heap_get h k = Some (H_Array vs)"
    using R_Array by (auto split: option.splits heap_value.splits)
  with e obtain w where "heap_get h' k = Some w" "same_kind (H_Array vs) w"
    unfolding heap_ext_def by blast
  then show ?thesis using R_Array by (cases w) auto
qed auto

lemma valid_contents_ext: "heap_ext h h' \<Longrightarrow> valid_contents h v \<Longrightarrow> valid_contents h' v"
  by (cases v) (auto intro: valid_value_ext)

lemma valid_values_ext: "heap_ext h h' \<Longrightarrow> valid_values h vs \<Longrightarrow> valid_values h' vs"
  by (auto simp: valid_values_def intro: valid_value_ext)

lemma valid_values_simps [simp]:
  "valid_values h []" "valid_values h (v # vs) \<longleftrightarrow> valid_value h v \<and> valid_values h vs"
  "valid_values h (us @ vs) \<longleftrightarrow> valid_values h us \<and> valid_values h vs"
  by (auto simp: valid_values_def)

lemma heap_ok_get: "heap_ok h \<Longrightarrow> heap_get h k = Some v \<Longrightarrow> valid_contents h v"
  unfolding heap_ok_def heap_get_def
  by (force simp: nth_opt_def split: option.splits if_splits)

lemma heap_ok_new [simp]: "heap_ok heap_new"
  by (simp add: heap_ok_def heap_new_wf) (simp add: heap_new_def)

lemma interp_ok_new [simp]: "interp_ok (interp_new w)"
  by (simp add: interp_ok_def interp_new_def)

lemma capacity_allocate_le: "allocate v h = (hn, h') \<Longrightarrow> capacity h \<le> capacity h'"
  by (auto simp: allocate_def capacity_def Let_def)

lemma allocate_ok:
  assumes ok: "heap_ok h" and v: "valid_contents h v" and al: "allocate v h = (hn, h')"
    and cap: "capacity h' \<le> 2 ^ 32"
  shows "heap_ok h'" and "heap_ext h h'" and "heap_get h' hn = Some v"
proof -
  have wf: "heap_wf h" using ok by (simp add: heap_ok_def)
  note g = allocate_get [OF wf al cap]
  show ext: "heap_ext h h'" unfolding heap_ext_def using g(3) by fastforce
  show "heap_get h' hn = Some v" by (rule g(1))
  have "valid_contents h' w" if "s \<in> set (heap_slots h')" "slot_value s = Some w" for s w
  proof -
    have "w = v \<or> (\<exists>s'\<in>set (heap_slots h). slot_value s' = Some w)"
    proof (cases rule: allocate_cases [OF wf al])
      case (1 i)
      then show ?thesis using that set_update_subset_insert [of "heap_slots h" i] by fastforce
    next
      case 2
      then show ?thesis using that by auto
    qed
    moreover have "\<forall>s'\<in>set (heap_slots h). slot_value s' = Some w \<longrightarrow> valid_contents h w"
      using ok by (force simp: heap_ok_def)
    ultimately show ?thesis using v valid_contents_ext [OF ext] by blast
  qed
  then show "heap_ok h'"
    using allocate_wf [OF wf al] by (auto simp: heap_ok_def split: option.split)
qed

lemma write_ok:
  assumes ok: "heap_ok h" and v: "valid_value h v"
  shows "heap_ok (heap_get_mut hn (insert_field p v) h)"
    and "heap_ext h (heap_get_mut hn (insert_field p v) h)"
proof -
  let ?h = "heap_get_mut hn (insert_field p v) h"
  show ext: "heap_ext h ?h"
    unfolding heap_ext_def
  proof (intro allI impI)
    fix k w assume g: "heap_get h k = Some w"
    show "\<exists>w'. heap_get ?h k = Some w' \<and> same_kind w w'"
    proof (cases "k = hn")
      case True
      then show ?thesis using heap_get_mut_same [of h hn w] g by simp
    next
      case False
      then have "handle_index k \<noteq> handle_index hn \<or> handle_generation k \<noteq> handle_generation hn"
        by (cases k; cases hn) auto
      then show ?thesis using heap_get_mut_other [where h = h and f = "insert_field p v"] g by simp
    qed
  qed
  have "valid_contents ?h w" if "s \<in> set (heap_slots ?h)" "slot_value s = Some w" for s w
  proof -
    have "(\<exists>s'\<in>set (heap_slots h). slot_value s' = Some w) \<or>
          (\<exists>s'\<in>set (heap_slots h). \<exists>u. slot_value s' = Some u \<and> w = insert_field p v u)"
    proof (cases "s \<in> set (heap_slots h)")
      case False
      then have "unat (handle_index hn) < length (heap_slots h)"
        "s = (heap_slots h ! unat (handle_index hn))
           \<lparr>slot_value := map_option (insert_field p v) (slot_value (heap_slots h ! unat (handle_index hn)))\<rparr>"
        using that(1) set_update_subset_insert [of "heap_slots h" "unat (handle_index hn)"]
        by (auto simp: heap_get_mut_def nth_opt_def Let_def split: if_splits)
      then show ?thesis using that(2) by auto
    qed (use that in auto)
    moreover have old: "s' \<in> set (heap_slots h) \<Longrightarrow> slot_value s' = Some u \<Longrightarrow> valid_contents h u" for s' u
      using ok by (force simp: heap_ok_def)
    moreover have "valid_contents h u \<Longrightarrow> valid_contents h (insert_field p v u)" for u
      using v set_bt_insert [of p v] by (cases u) (fastforce intro: bt_wf_insert)+
    ultimately show ?thesis using valid_contents_ext [OF ext] by blast
  qed
  moreover have "heap_wf ?h" using ok by (auto simp: heap_ok_def intro: wf_intro)
  ultimately show "heap_ok ?h" by (auto simp: heap_ok_def split: option.split)
qed

section \<open>Values from the host\<close>

lemma from_interop_capacity:
  "runtime_from_interop v h = (rv, h1) \<Longrightarrow> capacity h \<le> capacity h1"
  "runtime_fields_from_interop fs acc h = (rfs, h2) \<Longrightarrow> capacity h \<le> capacity h2"
  "runtime_values_from_interop vs h = (rvs, h3) \<Longrightarrow> capacity h \<le> capacity h3"
  by (induction v h and fs acc h and vs h arbitrary: rv h1 and rfs h2 and rvs h3
      rule: runtime_from_interop_runtime_fields_from_interop_runtime_values_from_interop.induct)
    (force split: prod.splits dest: capacity_allocate_le)+

lemma from_interop_ok:
  "runtime_from_interop v h = (rv, h1) \<Longrightarrow> heap_ok h \<Longrightarrow> capacity h1 \<le> 2 ^ 32 \<Longrightarrow>
     heap_ok h1 \<and> heap_ext h h1 \<and> valid_value h1 rv"
  "runtime_fields_from_interop fs acc h = (rfs, h2) \<Longrightarrow> heap_ok h \<Longrightarrow> capacity h2 \<le> 2 ^ 32 \<Longrightarrow>
     valid_contents h (H_Object acc) \<Longrightarrow> heap_ok h2 \<and> heap_ext h h2 \<and> valid_contents h2 (H_Object rfs)"
  "runtime_values_from_interop vs h = (rvs, h3) \<Longrightarrow> heap_ok h \<Longrightarrow> capacity h3 \<le> 2 ^ 32 \<Longrightarrow>
     heap_ok h3 \<and> heap_ext h h3 \<and> valid_values h3 rvs"
proof (induction v h and fs acc h and vs h arbitrary: rv h1 and rfs h2 and rvs h3
    rule: runtime_from_interop_runtime_fields_from_interop_runtime_values_from_interop.induct)
  case (6 fs h)
  obtain rfs h' where f: "runtime_fields_from_interop fs [] h = (rfs, h')" by fastforce
  obtain hn where a: "allocate (H_Object rfs) h' = (hn, h1)" "rv = R_Object hn"
    using 6(2) f by (auto split: prod.splits)
  have i: "heap_ok h'" "heap_ext h h'" "valid_contents h' (H_Object rfs)"
    using 6(1) [OF f 6(3)] capacity_allocate_le [OF a(1)] 6(4) by auto
  note al = allocate_ok [OF i(1,3) a(1) 6(4)]
  show ?case using al i(2) a(2) heap_ext_trans by auto
next
  case (7 vs h)
  obtain rvs h' where f: "runtime_values_from_interop vs h = (rvs, h')" by fastforce
  obtain hn where a: "allocate (H_Array rvs) h' = (hn, h1)" "rv = R_Array hn"
    using 7(2) f by (auto split: prod.splits)
  have i: "heap_ok h'" "heap_ext h h'" "valid_contents h' (H_Array rvs)"
    using 7(1) [OF f 7(3)] capacity_allocate_le [OF a(1)] 7(4) by (auto simp: valid_values_def)
  note al = allocate_ok [OF i(1,3) a(1) 7(4)]
  show ?case using al i(2) a(2) heap_ext_trans by auto
next
  case (9 name v fs acc h)
  obtain rv h' where f: "runtime_from_interop v h = (rv, h')" by fastforce
  have g: "runtime_fields_from_interop fs (bt_insert name rv acc) h' = (rfs, h2)"
    using 9(3) f by simp
  have c: "capacity h' \<le> 2 ^ 32" using from_interop_capacity(2) [OF g] 9(5) by simp
  have i: "heap_ok h'" "heap_ext h h'" "valid_value h' rv"
    using 9(1) [OF f 9(4) c] by auto
  have "valid_contents h' (H_Object (bt_insert name rv acc))"
    using valid_contents_ext [OF i(2) 9(6)] i(3) set_bt_insert [of name rv acc]
    by (fastforce intro: bt_wf_insert)
  then show ?case using 9(2) [OF f [symmetric] g i(1) 9(5)] i(2) heap_ext_trans by blast
next
  case (11 v vs h)
  obtain rv h' where f: "runtime_from_interop v h = (rv, h')" by fastforce
  obtain rvs' where g: "runtime_values_from_interop vs h' = (rvs', h3)" "rvs = rv # rvs'"
    using 11(3) f by (auto split: prod.splits)
  have c: "capacity h' \<le> 2 ^ 32" using from_interop_capacity(3) [OF g(1)] 11(5) by simp
  have i: "heap_ok h'" "heap_ext h h'" "valid_value h' rv"
    using 11(1) [OF f 11(4) c] by auto
  show ?case
    using 11(2) [OF f [symmetric] g(1) i(1) 11(5)] i heap_ext_trans valid_value_ext g(2)
    by auto
qed auto

section \<open>Which errors are left\<close>

text \<open>
  \<open>benign all0 e\<close>: an error that an accepted module can still produce; a missing entry block
  only where not every function has a block 0, which the verifier does not ask for.
\<close>

fun benign_runtime :: "bool \<Rightarrow> runtime_error \<Rightarrow> bool" where
  "benign_runtime all0 (Block_Missing b) = (\<not> all0 \<and> b = 0)"
| "benign_runtime all0 (Constant_Missing _) = False"
| "benign_runtime all0 (Local_Missing _) = False"
| "benign_runtime all0 (Value_Missing _) = False"
| "benign_runtime all0 Stale_Object = False"
| "benign_runtime all0 Stale_Array = False"
| "benign_runtime all0 _ = True"

fun benign :: "bool \<Rightarrow> abort \<Rightarrow> bool" where
  "benign all0 Panic = False"
| "benign all0 Out_of_fuel = True"
| "benign all0 (Error (E_Runtime e)) = benign_runtime all0 e"
| "benign all0 (Error (E_Interop _)) = True"
| "benign all0 (Error _) = False"

definition entry_blocks :: "bytecode_module \<Rightarrow> bool" where
  "entry_blocks m \<longleftrightarrow> (\<forall>f\<in>set (mod_functions m). 0 \<in> set (map blk_id (fn_blocks f)))"

lemma benign_fail [simp]:
  "runtime_fail e = Inl x \<longleftrightarrow> x = Error (E_Runtime e)" "runtime_fail e \<noteq> Inr y"
  "rbind (runtime_fail e) f = runtime_fail e"
  by (auto simp: runtime_fail_def)

section \<open>Safe computations\<close>

text \<open>
  \<open>safe B P c Q\<close>: the slot table only grows under \<open>c\<close>; and if it stays within 32 bits, then from
  a good state in \<open>P\<close> the computation ends in a good extension of it, with a result in \<open>Q\<close> or a
  benign error.
\<close>

definition safe ::
  "bool \<Rightarrow> ('w interp \<Rightarrow> bool) \<Rightarrow> ('w interp, abort, 'a) sem \<Rightarrow> ('a \<Rightarrow> 'w interp \<Rightarrow> bool) \<Rightarrow> bool" where
  "safe B P c Q \<longleftrightarrow>
     (\<forall>s t r. c s = (t, r) \<longrightarrow> capacity (in_heap s) \<le> capacity (in_heap t) \<and>
        (capacity (in_heap t) \<le> 2 ^ 32 \<longrightarrow> interp_ok s \<longrightarrow> P s \<longrightarrow>
           interp_ok t \<and> heap_ext (in_heap s) (in_heap t) \<and>
           (case r of Inl e \<Rightarrow> benign B e | Inr x \<Rightarrow> Q x t)))"

definition stable :: "('w interp \<Rightarrow> bool) \<Rightarrow> bool" where
  "stable P \<longleftrightarrow> (\<forall>s t. P s \<longrightarrow> heap_ext (in_heap s) (in_heap t) \<longrightarrow> P t)"

lemma stable_intros [intro]:
  "stable (\<lambda>s. True)" "stable (\<lambda>s. valid_value (in_heap s) v)" "stable (\<lambda>s. valid_values (in_heap s) vs)"
  "stable P \<Longrightarrow> stable Q \<Longrightarrow> stable (\<lambda>s. P s \<and> Q s)" "stable (\<lambda>s. R)"
  "stable (\<lambda>s. valid_contents (in_heap s) c)"
  by (auto simp del: valid_contents.simps simp: stable_def
      intro: valid_value_ext valid_values_ext valid_contents_ext)

lemma safe_bind:
  assumes c: "safe B P c R" and st: "stable P"
    and f: "\<And>x. safe B (\<lambda>s. P s \<and> R x s) (f x) Q"
  shows "safe B P (sbind c f) Q"
  unfolding safe_def
proof (intro allI impI)
  fix s t r assume b: "sbind c f s = (t, r)"
  obtain s1 r1 where s1: "c s = (s1, r1)" by fastforce
  note 1 = c [unfolded safe_def, rule_format, OF s1]
  show "capacity (in_heap s) \<le> capacity (in_heap t) \<and>
      (capacity (in_heap t) \<le> 2 ^ 32 \<longrightarrow> interp_ok s \<longrightarrow> P s \<longrightarrow>
         interp_ok t \<and> heap_ext (in_heap s) (in_heap t) \<and>
         (case r of Inl e \<Rightarrow> benign B e | Inr x \<Rightarrow> Q x t))"
  proof (cases r1)
    case (Inl e)
    with b s1 1 show ?thesis by (auto simp: sbind_def)
  next
    case (Inr x)
    with b s1 have fx: "f x s1 = (t, r)" by (simp add: sbind_def)
    note 2 = f [unfolded safe_def, rule_format, OF fx]
    show ?thesis
      using 1 2 Inr st heap_ext_trans [of "in_heap s" "in_heap s1" "in_heap t"]
      by (auto simp: stable_def)
  qed
qed

lemma safe_lift:
  assumes "\<And>s x. interp_ok s \<Longrightarrow> P s \<Longrightarrow> r = Inr x \<Longrightarrow> Q x s"
    and "\<And>s e. interp_ok s \<Longrightarrow> P s \<Longrightarrow> r = Inl e \<Longrightarrow> benign B e"
  shows "safe B P (slift r) Q"
  using assms by (cases r) (auto simp: safe_def slift_def)

lemma safe_on_heap:
  assumes "\<And>s x. interp_ok s \<Longrightarrow> P s \<Longrightarrow> g (in_heap s) = Inr x \<Longrightarrow> Q x s"
    and "\<And>s e. interp_ok s \<Longrightarrow> P s \<Longrightarrow> g (in_heap s) = Inl e \<Longrightarrow> benign B e"
  shows "safe B P (on_heap g) Q"
  using assms by (auto simp: safe_def on_heap_def split: sum.split)

lemma safe_ret: "(\<And>s. interp_ok s \<Longrightarrow> P s \<Longrightarrow> Q x s) \<Longrightarrow> safe B P (sret x) Q"
  by (auto simp: safe_def sret_def)

lemma safe_fail: "(\<And>s. interp_ok s \<Longrightarrow> P s \<Longrightarrow> benign B e) \<Longrightarrow> safe B P (sfail e) Q"
  by (auto simp: safe_def sfail_def)

lemma safe_weaken:
  assumes "safe B P c Q" and "\<And>s. interp_ok s \<Longrightarrow> P' s \<Longrightarrow> P s" and "\<And>x s. Q x s \<Longrightarrow> Q' x s"
  shows "safe B P' c Q'"
  using assms unfolding safe_def by (fastforce split: sum.splits)

lemma safe_allocate:
  fixes P :: "'w interp \<Rightarrow> bool"
  assumes "\<And>s. P s \<Longrightarrow> valid_contents (in_heap s) v"
    and "\<And>s hn. heap_get (in_heap s) hn = Some v \<Longrightarrow> Q hn s"
  shows "safe B P (allocate_value v) Q"
  unfolding safe_def
proof (intro allI impI)
  fix s t :: "'w interp" and r assume "allocate_value v s = (t, r)"
  then obtain hn where a: "allocate v (in_heap s) = (hn, in_heap t)" "r = Inr hn"
      "in_console t = in_console s"
    by (auto simp: allocate_value_def split: prod.splits)
  show "capacity (in_heap s) \<le> capacity (in_heap t) \<and>
      (capacity (in_heap t) \<le> 2 ^ 32 \<longrightarrow> interp_ok s \<longrightarrow> P s \<longrightarrow>
         interp_ok t \<and> heap_ext (in_heap s) (in_heap t) \<and>
         (case r of Inl e \<Rightarrow> benign B e | Inr x \<Rightarrow> Q x t))"
    using allocate_ok [OF _ assms(1) a(1)] capacity_allocate_le [OF a(1)] assms(2) [of t hn] a(2,3)
    by (auto simp: interp_ok_def intro: valid_values_ext)
qed

lemma safe_write:
  fixes P :: "'w interp \<Rightarrow> bool"
  assumes "\<And>s. interp_ok s \<Longrightarrow> P s \<Longrightarrow> valid_value (in_heap s) obj \<and> valid_value (in_heap s) v"
    and "\<And>s. Q () s"
  shows "safe B P (write_heap (\<lambda>h. store_member h obj p v)) Q"
  unfolding safe_def
proof (intro allI impI)
  fix s t :: "'w interp" and r assume w: "write_heap (\<lambda>h. store_member h obj p v) s = (t, r)"
  show "capacity (in_heap s) \<le> capacity (in_heap t) \<and>
      (capacity (in_heap t) \<le> 2 ^ 32 \<longrightarrow> interp_ok s \<longrightarrow> P s \<longrightarrow>
         interp_ok t \<and> heap_ext (in_heap s) (in_heap t) \<and>
         (case r of Inl e \<Rightarrow> benign B e | Inr x \<Rightarrow> Q x t))"
  proof (cases "store_member (in_heap s) obj p v")
    case (Inl e)
    have "benign B e" if "interp_ok s" "P s"
      using Inl assms(1) [OF that] by (cases obj) (auto split: option.splits heap_value.splits)
    with Inl w show ?thesis by (auto simp: write_heap_def)
  next
    case (Inr h)
    then obtain hn where h: "h = heap_get_mut hn (insert_field p v) (in_heap s)"
      by (cases obj) (auto split: option.splits heap_value.splits)
    from Inr w have t: "in_heap t = h" "in_console t = in_console s" "r = Inr ()"
      by (auto simp: write_heap_def)
    show ?thesis
      using write_ok [of "in_heap s" v hn p] assms(1) [of s] assms(2) t h
      by (auto simp: interp_ok_def intro: valid_values_ext)
  qed
qed

section \<open>Reads, operators and conversions\<close>

lemma value_from_constant_benign:
  "value_from_constant c = Inr v \<Longrightarrow> valid_value h v"
  "value_from_constant c = Inl e \<Longrightarrow> benign B e"
  by (cases c; auto split: sum.splits)+

lemma symbol_name_benign: "symbol_name c = Inl e \<Longrightarrow> benign B e"
  by (cases c) auto

lemma load_member_benign:
  assumes "heap_ok h" and "valid_value h obj"
  shows "load_member h obj p = Inr v \<Longrightarrow> valid_value h v"
    and "load_member h obj p = Inl e \<Longrightarrow> benign B e"
proof -
  show "valid_value h v" if l: "load_member h obj p = Inr v"
  proof (cases obj)
    case (R_Object hn)
    with l obtain fs where fs: "heap_get h hn = Some (H_Object fs)"
      "v = (case bt_get fs p of Some v \<Rightarrow> v | None \<Rightarrow> R_Undefined)"
      by (auto split: option.splits heap_value.splits)
    have "valid_contents h (H_Object fs)" using heap_ok_get [OF assms(1) fs(1)] .
    with fs(2) bt_get_in [of fs p] show ?thesis by (fastforce split: option.splits)
  qed (use l in auto)
  show "benign B e" if "load_member h obj p = Inl e"
    using that assms(2) by (cases obj) (auto split: option.splits heap_value.splits)
qed

lemma display_benign:
  "heap_ok h \<Longrightarrow> valid_value h v \<Longrightarrow> display n h v = Inl e \<Longrightarrow> e = Out_of_fuel"
proof (induction n h v rule: display.induct)
  case (8 n h hn)
  obtain vs where vs: "heap_get h hn = Some (H_Array vs)" using valid_arrayD [OF 8(3)] by blast
  then have "\<forall>v\<in>set vs. valid_value h v" using heap_ok_get [OF 8(2)] by fastforce
  moreover obtain v where "v \<in> set vs" "display n h v = Inl e"
    using 8(4) vs rmap_Inl [of "display n h" vs] by (auto simp: rbind_eq_Inl)
  ultimately show ?case using 8(1) [OF vs refl _ 8(2)] by blast
qed auto

lemma materialize_benign:
  "heap_ok h \<Longrightarrow> valid_value h v \<Longrightarrow> materialize n h v = Inl e \<Longrightarrow> e = Out_of_fuel"
proof (induction n h v rule: materialize.induct)
  case (7 n h hn)
  obtain fs where fs: "heap_get h hn = Some (H_Object fs)" using valid_objectD [OF 7(3)] by blast
  then have "\<forall>kv\<in>set fs. valid_value h (snd kv)" using heap_ok_get [OF 7(2)] by fastforce
  moreover obtain kv where "kv \<in> set fs" "materialize n h (snd kv) = Inl e"
    using 7(4) fs by (fastforce simp: rbind_eq_Inl collect_fields_def dest!: rmap_Inl)
  ultimately show ?case using 7(1) [OF fs refl 7(2)] by blast
next
  case (8 n h hn)
  obtain vs where vs: "heap_get h hn = Some (H_Array vs)" using valid_arrayD [OF 8(3)] by blast
  then have "\<forall>v\<in>set vs. valid_value h v" using heap_ok_get [OF 8(2)] by fastforce
  moreover obtain v where "v \<in> set vs" "materialize n h v = Inl e"
    using 8(4) vs rmap_Inl [of "materialize n h" vs] by (auto simp: rbind_eq_Inl)
  ultimately show ?case using 8(1) [OF vs refl _ 8(2)] by blast
qed auto

lemma arith_benign:
  "arith f w x y = Inl e \<Longrightarrow> benign B e"
  "(\<And>z. valid_value h (w z)) \<Longrightarrow> arith f w x y = Inr v \<Longrightarrow> valid_value h v"
  by (cases x; cases y; auto simp: arith_def)+

lemma add_values_cases:
  "(\<exists>z t. (z = x \<or> z = y) \<and> add_values n h x y = rbind (display n h z) (\<lambda>s. Inr (R_String (t s)))) \<or>
   add_values n h x y = arith f64_add R_Number x y"
proof (cases "\<exists>s. x = R_String s")
  case True
  then obtain s where s: "x = R_String s" by blast
  have "add_values n h x y = rbind (display n h y) (\<lambda>t. Inr (R_String (s @ t)))"
    by (simp add: add_values_def s)
  then show ?thesis by (intro disjI1 exI [of _ y] exI [of _ "append s"]) simp
next
  case False
  show ?thesis
  proof (cases "\<exists>t. y = R_String t")
    case True
    then obtain t where t: "y = R_String t" by blast
    have "add_values n h x y = rbind (display n h x) (\<lambda>s. Inr (R_String (s @ t)))"
      using False by (simp add: add_values_def t split: runtime_value.split)
    then show ?thesis by (intro disjI1 exI [of _ x] exI [of _ "\<lambda>s. s @ t"]) simp
  next
    case nt: False
    have "add_values n h x y = arith f64_add R_Number x y"
      using False nt by (cases x; cases y) (simp_all add: add_values_def)
    then show ?thesis ..
  qed
qed

lemma add_values_benign:
  assumes "heap_ok h" and "valid_value h x" and "valid_value h y"
  shows "add_values n h x y = Inl e \<Longrightarrow> benign B e"
    and "add_values n h x y = Inr v \<Longrightarrow> valid_value h v"
proof -
  have d: "display n h z = Inl e \<Longrightarrow> valid_value h z \<Longrightarrow> benign B e" for z e
    using display_benign [OF assms(1)] by fastforce
  have a: "arith f64_add R_Number x y = Inl e \<Longrightarrow> benign B e"
    "arith f64_add R_Number x y = Inr v \<Longrightarrow> valid_value h v" for e v
    by (auto dest: arith_benign(1) arith_benign(2) [where h = h, rotated])
  have c: "(\<exists>z t. (z = x \<or> z = y) \<and> add_values n h x y = rbind (display n h z) (\<lambda>s. Inr (R_String (t s)))) \<or>
      add_values n h x y = arith f64_add R_Number x y"
    by (rule add_values_cases)
  show "add_values n h x y = Inl e \<Longrightarrow> benign B e"
    using c d a(1) assms(2,3) by (auto simp: rbind_eq_Inl rbind_eq_sym)
  show "add_values n h x y = Inr v \<Longrightarrow> valid_value h v"
    using c a(2) by (auto simp: rbind_eq_Inr rbind_eq_sym)
qed

lemma binary_benign:
  assumes "heap_ok h" and "valid_value h x" and "valid_value h y"
  shows "binary n op h x y = Inl e \<Longrightarrow> benign B e"
    and "binary n op h x y = Inr v \<Longrightarrow> valid_value h v"
  using add_values_benign [OF assms] assms(2,3)
  by (auto simp: binary_def dest: arith_benign(1) arith_benign(2) [where h = h, rotated]
      split: if_splits)

section \<open>Frames\<close>

text \<open>
  \<open>frame_ok p n l h fr\<close>: at least \<open>n\<close> values are numbered, at least \<open>l\<close> locals (and the \<open>p\<close>
  parameters) exist, and all of them are valid.
\<close>

definition frame_ok :: "nat \<Rightarrow> nat \<Rightarrow> u32 \<Rightarrow> heap_value gc_heap \<Rightarrow> frame \<Rightarrow> bool" where
  "frame_ok p n l h fr \<longleftrightarrow>
     n \<le> length (fr_values fr) \<and> p \<le> length (fr_locals fr) \<and> unat l \<le> length (fr_locals fr) \<and>
     valid_values h (fr_values fr) \<and> valid_values h (fr_locals fr)"

lemma stable_frame [intro]: "stable (\<lambda>s. frame_ok p n l (in_heap s) fr)"
  by (auto simp: stable_def frame_ok_def intro: valid_values_ext)

lemma frame_value_ok:
  assumes "frame_ok p n l h fr" and "w \<in> value_ids n"
  shows "\<exists>v. frame_value fr w = Inr v \<and> valid_value h v"
proof -
  have "unat w < length (fr_values fr)"
    using value_ids_bound [OF assms(2)] assms(1) by (simp add: frame_ok_def)
  then show ?thesis using assms(1)
    by (simp add: frame_value_def nth_opt_def frame_ok_def valid_values_def)
qed

lemma frame_local_ok:
  assumes "frame_ok p n l h fr" and "i < l"
  shows "\<exists>v. frame_local fr i = Inr v \<and> valid_value h v"
proof -
  have "unat i < length (fr_locals fr)"
    using assms by (simp add: frame_ok_def word_less_nat_alt)
  then show ?thesis using assms(1)
    by (simp add: frame_local_def nth_opt_def frame_ok_def valid_values_def)
qed

lemma frame_push_ok:
  "frame_ok p n l h fr \<Longrightarrow> valid_value h v \<Longrightarrow> frame_ok p (Suc n) l h (push_value v fr)"
  by (simp add: frame_ok_def push_value_def)

lemma resize_simps [simp]:
  "length (resize n x xs) = n"
  by (simp add: resize_def)

lemma set_resize: "set (resize n x xs) \<subseteq> insert x (set xs)"
  using set_take_subset [of n xs] by (auto simp: resize_def)

lemma valid_resize: "valid_values h vs \<Longrightarrow> valid_value h v \<Longrightarrow> valid_values h (resize n v vs)"
  using set_resize [of n v vs] by (auto simp: valid_values_def)

lemma valid_update: "valid_values h vs \<Longrightarrow> valid_value h v \<Longrightarrow> valid_values h (vs[i := v])"
  using set_update_subset_insert [of vs i v] by (auto simp: valid_values_def)

lemma frame_store_ok:
  assumes "frame_ok p n l h fr" and "valid_value h v"
  shows "frame_ok p n (if i = l then l + 1 else l) h (store_local i v fr)"
proof -
  let ?fr = "store_local i v fr"
  have len: "length (fr_locals fr) \<le> length (fr_locals ?fr)" "unat i < length (fr_locals ?fr)"
    by (auto simp: store_local_def Let_def)
  have "unat (l + 1) \<le> Suc (unat l)"
    by (metis Suc_eq_plus1 unat_1 unat_of_nat_le word_arith_nat_add)
  with len have "unat (if i = l then l + 1 else l) \<le> length (fr_locals ?fr)"
    using assms(1) by (auto simp: frame_ok_def)
  moreover have "valid_values h (fr_locals ?fr)"
    using assms by (auto simp: store_local_def Let_def frame_ok_def intro!: valid_update valid_resize)
  ultimately show ?thesis
    using assms(1) len(1) by (auto simp: frame_ok_def store_local_def Let_def)
qed

lemma frame_new_ok:
  assumes "valid_values h args"
  shows "frame_ok (length (fn_params f)) 0 (word_of_nat (length (fn_params f))) h (frame_new f args)"
  using assms by (simp add: frame_ok_def frame_new_def valid_resize unat_of_nat_le)

section \<open>Instructions\<close>

lemma operand_simps:
  "ins_operands i = x # xs \<Longrightarrow> operand i 0 = Inr x"
  "ins_operands i = x # xs \<Longrightarrow> operand i (Suc k) = ok_or Panic (nth_opt xs k)"
  by (simp_all add: operand_def)

lemma module_constant_ok: "constant_ok m w \<Longrightarrow> \<exists>c. module_constant m w = Inr c"
  by (simp add: constant_ok_def module_constant_def nth_opt_def)

lemma frame_values_ok:
  assumes "frame_ok p n l h fr" and "set ws \<subseteq> value_ids n"
  shows "\<exists>vs. rmap (frame_value fr) ws = Inr vs \<and> valid_values h vs"
  using assms(2)
proof (induction ws)
  case (Cons w ws)
  then show ?case using frame_value_ok [OF assms(1), of w] by auto
qed simp

lemma object_fields_ok:
  assumes fr: "frame_ok p n l h fr"
    and ops: "ins_operands i = c # fs" "length fs = cnt * 2"
    and ok: "\<forall>k<cnt. constant_ok m (fs ! (2 * k)) \<and> fs ! (2 * k + 1) \<in> value_ids n"
    and k: "k + d = cnt" and acc: "valid_contents h (H_Object acc)"
  shows "case object_fields m fr i k d acc of
      Inl e \<Rightarrow> benign B e | Inr flds \<Rightarrow> valid_contents h (H_Object flds)"
  using k acc
proof (induction d arbitrary: k acc)
  case (Suc d)
  then have lt: "k < cnt" by simp
  obtain cst where cst: "module_constant m (fs ! (2 * k)) = Inr cst"
    using ok lt module_constant_ok by blast
  obtain v where v: "frame_value fr (fs ! (2 * k + 1)) = Inr v" "valid_value h v"
    using ok lt frame_value_ok [OF fr] by blast
  have o1: "operand i (1 + k * 2) = Inr (fs ! (2 * k))"
    and o2: "operand i (2 + k * 2) = Inr (fs ! (2 * k + 1))"
    using ops lt by (simp_all add: operand_def nth_opt_def mult.commute)
  show ?case
  proof (cases "symbol_name cst")
    case (Inl e)
    then show ?thesis using o1 o2 cst symbol_name_benign [OF Inl] by simp
  next
    case (Inr name)
    have "valid_contents h (H_Object (bt_insert name v acc))"
      using Suc.prems(2) v(2) set_bt_insert [of name v acc] by (fastforce intro: bt_wf_insert)
    then show ?thesis using Suc.IH [of "Suc k"] Suc.prems(1) o1 o2 cst v(1) Inr by simp
  qed
qed simp

definition flow_ok :: "u32 set \<Rightarrow> heap_value gc_heap \<Rightarrow> control_flow \<Rightarrow> bool" where
  "flow_ok ids h flow \<longleftrightarrow>
     (case flow of Continue \<Rightarrow> True | Jump_To t \<Rightarrow> t \<in> ids | Return_Value v \<Rightarrow> valid_value h v)"

definition call_safe :: "bool \<Rightarrow> 'w call \<Rightarrow> bool" where
  "call_safe B call \<longleftrightarrow>
     (\<forall>name args. safe B (\<lambda>s. valid_values (in_heap s) args) (call name args)
        (\<lambda>v s. valid_value (in_heap s) v))"

text \<open>The state after an instruction, in the terms of the verifier's own bookkeeping.\<close>

definition after ::
  "nat \<Rightarrow> u32 set \<Rightarrow> nat \<Rightarrow> u32 \<Rightarrow> frame \<times> control_flow \<Rightarrow> 'w interp \<Rightarrow> bool" where
  "after p ids n l r s \<longleftrightarrow>
     (case r of (fr, flow) \<Rightarrow> frame_ok p n l (in_heap s) fr \<and> flow_ok ids (in_heap s) flow)"

lemma safe_push:
  assumes "\<And>s. P s \<Longrightarrow> frame_ok p n l (in_heap s) fr \<and> valid_value (in_heap s) v"
  shows "safe B P (push_continue fr v) (after p ids (Suc n) l)"
  unfolding push_continue_def
  by (rule safe_ret) (use assms in \<open>auto simp: after_def flow_ok_def intro: frame_push_ok\<close>)

lemma stable_pure [intro]: "stable (\<lambda>s. frame_ok p n l (in_heap s) fr \<and> R)"
  by (intro stable_intros stable_frame)

lemma rbind_case: "rbind r f = (case r of Inl e \<Rightarrow> Inl e | Inr x \<Rightarrow> f x)"
  by (simp add: rbind_def)

text \<open>A lifted read that the frame makes succeed.\<close>

lemma safe_read:
  assumes "\<And>s. interp_ok s \<Longrightarrow> P s \<Longrightarrow> \<exists>x. r = Inr x \<and> Q x s"
  shows "safe B P (slift r) Q"
  by (rule safe_lift) (use assms in fastforce)+

lemma operand_symbol_benign:
  assumes "operand i k = Inr w" and "constant_ok m w" and "operand_symbol m i k = Inl e"
  shows "benign B e"
  using assms module_constant_ok [OF assms(2)] symbol_name_benign
  by (auto simp: operand_symbol_def)

lemma operand_value_ok:
  assumes "operand i k = Inr w" and "w \<in> value_ids n" and "frame_ok p n l h fr"
  shows "\<exists>v. operand_value fr i k = Inr v \<and> valid_value h v"
  using assms frame_value_ok [OF assms(3,2)] by (simp add: operand_value_def)

lemma stable_frame_and:
  "stable R \<Longrightarrow> stable (\<lambda>s. frame_ok p n l (in_heap s) fr \<and> R s)"
  by (rule stable_intros(4) [OF stable_frame])

text \<open>One lemma per opcode.\<close>

abbreviation safe_at ::
  "bool \<Rightarrow> nat \<Rightarrow> nat \<Rightarrow> u32 \<Rightarrow> u32 set \<Rightarrow> frame \<Rightarrow> instruction \<Rightarrow>
   ('w interp, abort, frame \<times> control_flow) sem \<Rightarrow> bool" where
  "safe_at B p n l ids fr i c \<equiv>
     safe B (\<lambda>s. frame_ok p n l (in_heap s) fr) c
       (after p ids (n + (if defines_value (ins_opcode i) then 1 else 0)) (locals_after i l))"

lemma safe_load_const:
  assumes op: "ins_opcode i = LoadConst" and o: "operands_ok m ids (value_ids n) l i"
  shows "safe_at B p n l ids fr i (execute_instruction d call m i fr)"
proof -
  obtain c where c: "ins_operands i = [c]" "constant_ok m c"
    using o op by (auto simp: operands_ok_def Let_def)
  then obtain cst where cst: "module_constant m c = Inr cst" using module_constant_ok by blast
  show ?thesis
    unfolding execute_instruction_def op
    by (simp add: operand_simps(1) [OF c(1)] cst defines_value_def locals_after_def op)
      (rule safe_bind [where R = "\<lambda>v s. valid_value (in_heap s) v", OF safe_lift stable_frame safe_push];
       auto dest: value_from_constant_benign)
qed

lemma safe_build_object:
  assumes op: "ins_opcode i = BuildObject" and o: "operands_ok m ids (value_ids n) l i"
  shows "safe_at B p n l ids fr i (execute_instruction d call m i fr)"
proof -
  obtain c fs where c: "ins_operands i = c # fs" "length fs = unat c * 2"
    and f: "\<forall>k<unat c. constant_ok m (fs ! (2 * k)) \<and> fs ! (2 * k + 1) \<in> value_ids n"
    using o op by (auto simp: operands_ok_def Let_def)
  show ?thesis
    unfolding execute_instruction_def op
    apply (simp add: operand_simps(1) [OF c(1)] defines_value_def locals_after_def op)
    apply (rule safe_bind [where R = "\<lambda>flds s. valid_contents (in_heap s) (H_Object flds)", OF safe_lift stable_frame])
    subgoal for s x using object_fields_ok [OF _ c f, where k = 0 and acc = "[]" and B = B] by fastforce
    subgoal for s e using object_fields_ok [OF _ c f, where k = 0 and acc = "[]" and B = B] by fastforce
    apply (rule safe_bind [where R = "\<lambda>hn s. valid_value (in_heap s) (R_Object hn)", OF safe_allocate])
    subgoal by simp
    subgoal by simp
    subgoal by (intro stable_frame_and stable_intros)
    by (rule safe_push) simp
qed

lemma safe_build_array:
  assumes op: "ins_opcode i = BuildArray" and o: "operands_ok m ids (value_ids n) l i"
  shows "safe_at B p n l ids fr i (execute_instruction d call m i fr)"
proof -
  obtain c ws where c: "ins_operands i = c # ws" and ws: "set ws \<subseteq> value_ids n"
    using o op by (auto simp: operands_ok_def Let_def)
  show ?thesis
    unfolding execute_instruction_def op
    apply (simp add: operand_simps(1) [OF c] c defines_value_def locals_after_def op)
    apply (rule safe_bind [where R = "\<lambda>vs s. valid_values (in_heap s) vs", OF safe_read stable_frame])
    subgoal for s using frame_values_ok [OF _ ws] by blast
    apply (rule safe_bind [where R = "\<lambda>hn s. valid_value (in_heap s) (R_Array hn)", OF safe_allocate])
    subgoal by (simp add: valid_values_def)
    subgoal by simp
    subgoal by (intro stable_frame_and stable_intros)
    by (rule safe_push) simp
qed

lemma safe_load_local:
  assumes op: "ins_opcode i = LoadLocal" and o: "operands_ok m ids (value_ids n) l i"
  shows "safe_at B p n l ids fr i (execute_instruction d call m i fr)"
proof -
  obtain c where c: "ins_operands i = [c]" "c < l"
    using o op by (auto simp: operands_ok_def Let_def)
  show ?thesis
    unfolding execute_instruction_def op
    apply (simp add: operand_simps(1) [OF c(1)] defines_value_def locals_after_def op)
    apply (rule safe_bind [where R = "\<lambda>v s. valid_value (in_heap s) v", OF safe_read stable_frame safe_push])
    subgoal for s using frame_local_ok [OF _ c(2)] by blast
    by simp
qed

lemma safe_store_local:
  assumes op: "ins_opcode i = StoreLocal" and o: "operands_ok m ids (value_ids n) l i"
  shows "safe_at B p n l ids fr i (execute_instruction d call m i fr)"
proof -
  obtain c w where c: "ins_operands i = [c, w]" "w \<in> value_ids n"
    using o op by (auto simp: operands_ok_def Let_def)
  have o1: "operand i 0 = Inr c" "operand i 1 = Inr w" using c(1) by (simp_all add: operand_def)
  have la: "locals_after i l = (if c = l then l + 1 else l)"
    using c(1) by (simp add: locals_after_def op)
  have eq: "execute_instruction d call m i fr =
      sbind (slift (operand_value fr i 1)) (\<lambda>v. sret (store_local c v fr, Continue))"
    by (simp add: execute_instruction_def op o1(1) sem_simps(7))
  have nv: "n + (if defines_value (ins_opcode i) then 1 else 0) = n"
    by (simp add: defines_value_def op)
  show ?thesis
    unfolding eq nv la
    apply (rule safe_bind [where R = "\<lambda>v s. valid_value (in_heap s) v", OF safe_read stable_frame safe_ret])
    subgoal for s using operand_value_ok [OF o1(2) c(2)] by blast
    subgoal for v s using frame_store_ok [of p n l "in_heap s" fr v c] by (simp add: after_def flow_ok_def)
    done
qed

lemma safe_load_member:
  assumes op: "ins_opcode i = LoadMember" and o: "operands_ok m ids (value_ids n) l i"
  shows "safe_at B p n l ids fr i (execute_instruction d call m i fr)"
proof -
  obtain w c where c: "ins_operands i = [w, c]" "w \<in> value_ids n" "constant_ok m c"
    using o op by (auto simp: operands_ok_def Let_def)
  have o1: "operand i 0 = Inr w" "operand i 1 = Inr c" using c(1) by (simp_all add: operand_def)
  show ?thesis
    unfolding execute_instruction_def op
    apply (simp add: defines_value_def locals_after_def op)
    apply (rule safe_bind [where R = "\<lambda>v s. valid_value (in_heap s) v", OF safe_read stable_frame])
    subgoal for s using operand_value_ok [OF o1(1) c(2)] by blast
    apply (rule safe_bind [where R = "\<lambda>v s. True", OF safe_lift])
    subgoal by simp
    subgoal using operand_symbol_benign [OF o1(2) c(3)] by simp
    subgoal by (intro stable_frame_and stable_intros)
    apply (rule safe_bind [where R = "\<lambda>v s. valid_value (in_heap s) v", OF safe_on_heap])
    subgoal using load_member_benign(1) by (auto simp: interp_ok_def)
    subgoal using load_member_benign(2) by (auto simp: interp_ok_def)
    subgoal by (intro stable_frame_and stable_intros)
    by (rule safe_push) simp
qed

lemma safe_store_member:
  assumes op: "ins_opcode i = StoreMember" and o: "operands_ok m ids (value_ids n) l i"
  shows "safe_at B p n l ids fr i (execute_instruction d call m i fr)"
proof -
  obtain w c x where c: "ins_operands i = [w, c, x]" "w \<in> value_ids n" "constant_ok m c" "x \<in> value_ids n"
    using o op by (auto simp: operands_ok_def Let_def)
  have o1: "operand i 0 = Inr w" "operand i 1 = Inr c" "operand i 2 = Inr x"
    using c(1) by (simp_all add: operand_def numeral_2_eq_2)
  show ?thesis
    unfolding execute_instruction_def op
    apply (simp add: defines_value_def locals_after_def op)
    apply (rule safe_bind [where R = "\<lambda>v s. valid_value (in_heap s) v", OF safe_read stable_frame])
    subgoal for s using operand_value_ok [OF o1(1) c(2)] by blast
    apply (rule safe_bind [where R = "\<lambda>v s. True", OF safe_lift])
    subgoal by simp
    subgoal using operand_symbol_benign [OF o1(2) c(3)] by simp
    subgoal by (intro stable_frame_and stable_intros)
    apply (rule safe_bind [where R = "\<lambda>v s. valid_value (in_heap s) v", OF safe_read])
    subgoal for s using operand_value_ok [OF o1(3) c(4)] by blast
    subgoal by (intro stable_frame_and stable_intros stable_frame)
    apply (rule safe_bind [where R = "\<lambda>v s. True", OF safe_write])
    subgoal by simp
    subgoal by simp
    subgoal by (intro stable_frame_and stable_intros stable_frame)
    by (rule safe_ret) (simp add: after_def flow_ok_def)
qed

lemma safe_binary:
  assumes op: "ins_opcode i = Binary" and o: "operands_ok m ids (value_ids n) l i"
  shows "safe_at B p n l ids fr i (execute_instruction d call m i fr)"
proof -
  obtain bop x y where c: "ins_operands i = [bop, x, y]" "x \<in> value_ids n" "y \<in> value_ids n"
    using o op by (auto simp: operands_ok_def Let_def)
  have o1: "operand i 0 = Inr bop" "operand i 1 = Inr x" "operand i 2 = Inr y"
    using c(1) by (simp_all add: operand_def numeral_2_eq_2)
  show ?thesis
    unfolding execute_instruction_def op
    apply (simp add: defines_value_def locals_after_def op o1(1) sem_simps(7))
    apply (rule safe_bind [where R = "\<lambda>v s. valid_value (in_heap s) v", OF safe_read stable_frame])
    subgoal for s using operand_value_ok [OF o1(2) [unfolded One_nat_def] c(2)] by blast
    apply (rule safe_bind [where R = "\<lambda>v s. valid_value (in_heap s) v", OF safe_read])
    subgoal for s using operand_value_ok [OF o1(3) c(3)] by blast
    subgoal by (intro stable_frame_and stable_intros)
    apply (rule safe_bind [where R = "\<lambda>v s. valid_value (in_heap s) v", OF safe_on_heap])
    subgoal by (erule binary_benign(2) [rotated 3]) (auto simp: interp_ok_def)
    subgoal by (erule binary_benign(1) [rotated 3]) (auto simp: interp_ok_def)
    subgoal by (intro stable_frame_and stable_intros stable_frame)
    by (rule safe_push) simp
qed

lemma safe_call:
  assumes op: "ins_opcode i = Call" and o: "operands_ok m ids (value_ids n) l i" and call: "call_safe B call"
  shows "safe_at B p n l ids fr i (execute_instruction d call m i fr)"
proof -
  obtain c k ws where c: "ins_operands i = c # k # ws" "constant_ok m c" "length ws = unat k"
    "set ws \<subseteq> value_ids n"
    using o op by (auto simp: operands_ok_def Let_def)
  have o1: "operand i 0 = Inr c" "operand i 1 = Inr k" using c(1) by (simp_all add: operand_def)
  have args: "take (unat k) (drop 2 (ins_operands i)) = ws" using c(1,3) by simp
  show ?thesis
    unfolding execute_instruction_def op
    apply (simp add: defines_value_def locals_after_def op o1(2) [unfolded One_nat_def] sem_simps(7) args)
    apply (rule safe_bind [where R = "\<lambda>v s. True", OF safe_lift stable_frame])
    subgoal by simp
    subgoal using operand_symbol_benign [OF o1(1) c(2)] by simp
    apply (rule safe_bind [where R = "\<lambda>vs s. valid_values (in_heap s) vs", OF safe_read])
    subgoal for _ s using frame_values_ok [OF _ c(4)] by blast
    subgoal by (intro stable_frame_and stable_intros)
    apply (rule safe_bind [where R = "\<lambda>v s. valid_value (in_heap s) v"])
    subgoal for _ args using call unfolding call_safe_def by (blast intro: safe_weaken)
    subgoal by (intro stable_frame_and stable_intros stable_frame)
    by (rule safe_push) simp
qed

lemma safe_branch:
  assumes op: "ins_opcode i = Branch" and o: "operands_ok m ids (value_ids n) l i"
  shows "safe_at B p n l ids fr i (execute_instruction d call m i fr)"
proof -
  obtain w x y where c: "ins_operands i = [w, x, y]" "w \<in> value_ids n" "x \<in> ids" "y \<in> ids"
    using o op by (auto simp: operands_ok_def Let_def)
  have o1: "operand i 0 = Inr w" "operand i 1 = Inr x" "operand i 2 = Inr y"
    using c(1) by (simp_all add: operand_def numeral_2_eq_2)
  show ?thesis
    unfolding execute_instruction_def op
    apply (simp add: defines_value_def locals_after_def op)
    apply (rule safe_bind [where R = "\<lambda>v s. True", OF safe_read stable_frame])
    subgoal for s using operand_value_ok [OF o1(1) c(2)] by blast
    apply (rule safe_bind [where R = "\<lambda>t s. t \<in> ids", OF safe_lift])
    subgoal using o1 c by (auto split: if_splits)
    subgoal using o1 c by (auto split: if_splits)
    subgoal by (intro stable_frame_and stable_intros)
    by (rule safe_ret) (simp add: after_def flow_ok_def)
qed

lemma safe_jump:
  assumes op: "ins_opcode i = Jump" and o: "operands_ok m ids (value_ids n) l i"
  shows "safe_at B p n l ids fr i (execute_instruction d call m i fr)"
proof -
  obtain t where c: "ins_operands i = [t]" "t \<in> ids"
    using o op by (auto simp: operands_ok_def Let_def)
  have o1: "operand i 0 = Inr t" using c(1) by (simp add: operand_def)
  show ?thesis
    unfolding execute_instruction_def op
    apply (simp add: defines_value_def locals_after_def op o1 sem_simps(7))
    by (rule safe_ret) (simp add: after_def flow_ok_def c(2))
qed

lemma safe_return:
  assumes op: "ins_opcode i = Return" and o: "operands_ok m ids (value_ids n) l i"
  shows "safe_at B p n l ids fr i (execute_instruction d call m i fr)"
proof -
  consider "ins_operands i = []" | w where "ins_operands i = [w]" "w \<in> value_ids n"
    using o op by (auto simp: operands_ok_def Let_def)
  then show ?thesis
  proof cases
    case 1
    show ?thesis
      unfolding execute_instruction_def op
      apply (simp add: defines_value_def locals_after_def op 1 sem_simps(7))
      by (rule safe_ret) (simp add: after_def flow_ok_def)
  next
    case (2 w)
    show ?thesis
      unfolding execute_instruction_def op
      apply (simp add: defines_value_def locals_after_def op 2(1))
      apply (rule safe_bind [where R = "\<lambda>v s. valid_value (in_heap s) v", OF safe_read stable_frame])
      subgoal for s using frame_value_ok [OF _ 2(2)] by blast
      by (rule safe_ret) (simp add: after_def flow_ok_def)
  qed
qed

lemma safe_instruction:
  assumes ok: "instruction_ok m ids (value_ids n) l i" and call: "call_safe B call"
  shows "safe_at B p n l ids fr i (execute_instruction d call m i fr)"
proof -
  have o: "operands_ok m ids (value_ids n) l i" using ok by (simp add: instruction_ok_def)
  show ?thesis
    using safe_load_const [OF _ o] safe_build_object [OF _ o] safe_build_array [OF _ o]
      safe_load_local [OF _ o] safe_store_local [OF _ o] safe_load_member [OF _ o]
      safe_store_member [OF _ o] safe_binary [OF _ o] safe_call [OF _ o call]
      safe_branch [OF _ o] safe_jump [OF _ o] safe_return [OF _ o]
    by (cases "ins_opcode i") blast+
qed

section \<open>Blocks and calls\<close>

lemma values_before_snoc:
  "values_before (pre @ [i]) = values_before pre + (if defines_value (ins_opcode i) then 1 else 0)"
  by (simp add: values_before_def)

lemma after_forget: "after p ids n l r s \<Longrightarrow> after p ids 0 0 r s"
  by (auto simp: after_def frame_ok_def)

lemma safe_instructions:
  assumes b: "block_ok m ids f b" and call: "call_safe B call" and "blk_instructions b = pre @ is"
  shows "safe B
    (\<lambda>s. frame_ok p (values_before pre) (fold locals_after pre (word_of_nat (length (fn_params f)))) (in_heap s) fr)
    (execute_instructions d call m is fr) (after p ids 0 0)"
  using assms(3)
proof (induction "is" arbitrary: pre fr)
  case Nil
  show ?case
    by simp (rule safe_ret, auto simp: after_def flow_ok_def frame_ok_def)
next
  case (Cons i "is")
  let ?n = "values_before pre" and ?l = "fold locals_after pre (word_of_nat (length (fn_params f)))"
  let ?R = "after p ids (values_before (pre @ [i]))
    (fold locals_after (pre @ [i]) (word_of_nat (length (fn_params f))))"
  have "instruction_ok m ids (value_ids ?n) ?l i"
    using b Cons.prems unfolding block_ok_def by blast
  from safe_instruction [OF this call, of p fr d]
  have i: "safe B (\<lambda>s. frame_ok p ?n ?l (in_heap s) fr) (execute_instruction d call m i fr) ?R"
    by (simp add: values_before_snoc)
  have rest: "safe B (\<lambda>s. frame_ok p ?n ?l (in_heap s) fr \<and> ?R (fr', flow) s)
      (case flow of
         Continue \<Rightarrow> execute_instructions d call m is fr'
       | Jump_To t \<Rightarrow> sret (fr', Jump_To t)
       | Return_Value v \<Rightarrow> sret (fr', Return_Value v)) (after p ids 0 0)" for fr' flow
  proof (cases flow)
    case Continue
    have "safe B (\<lambda>s. frame_ok p (values_before (pre @ [i]))
        (fold locals_after (pre @ [i]) (word_of_nat (length (fn_params f)))) (in_heap s) fr')
        (execute_instructions d call m is fr') (after p ids 0 0)"
      by (rule Cons.IH) (simp add: Cons.prems)
    then show ?thesis
      by (simp add: Continue) (erule safe_weaken, simp_all add: after_def)
  qed (auto intro!: safe_ret dest: after_forget)
  show ?case
    by (simp only: execute_instructions.simps, rule safe_bind [OF i stable_frame])
      (use rest in \<open>auto split: prod.split\<close>)
qed

lemma find_block_ok:
  "(\<exists>b. find_block f i = Inr b \<and> b \<in> set (fn_blocks f) \<and> blk_id b = i) \<or>
   find_block f i = runtime_fail (Block_Missing i) \<and> i \<notin> set (map blk_id (fn_blocks f))"
  by (auto simp: find_block_def find_None_iff find_Some_iff split: option.split)

lemma execute_blocks_missing:
  "t \<notin> set (map blk_id (fn_blocks f)) \<Longrightarrow> \<exists>e. execute_blocks k d call m f t fr = sfail e"
proof (cases k)
  case (Suc j)
  assume "t \<notin> set (map blk_id (fn_blocks f))"
  then have "find_block f t = Inl (Error (E_Runtime (Block_Missing t)))"
    using find_block_ok [of f t] by (auto simp: runtime_fail_def)
  then show ?thesis by (auto simp: Suc sem_simps(6))
qed auto

lemma safe_blocks:
  assumes f: "function_ok m f" and call: "call_safe B call"
    and i: "i \<in> set (map blk_id (fn_blocks f)) \<or> \<not> B \<and> i = 0"
  shows "safe B (\<lambda>s. frame_ok (length (fn_params f)) 0 0 (in_heap s) fr)
    (execute_blocks k d call m f i fr) (\<lambda>v s. valid_value (in_heap s) v)"
  using i
proof (induction k arbitrary: i fr)
  case 0
  show ?case by simp (rule safe_fail, simp)
next
  case (Suc k)
  let ?ids = "set (map blk_id (fn_blocks f))" and ?p = "length (fn_params f)"
  consider (missing) "find_block f i = runtime_fail (Block_Missing i)" "\<not> B \<and> i = 0"
    | (found) b where "find_block f i = Inr b" "b \<in> set (fn_blocks f)"
    using find_block_ok [of f i] Suc.prems by blast
  then show ?case
  proof cases
    case missing
    then show ?thesis by (simp add: runtime_fail_def sem_simps(6)) (rule safe_fail, simp)
  next
    case (found b)
    have b: "block_ok m ?ids f b" using f found(2) unfolding function_ok_def Let_def by blast
    have run: "safe B (\<lambda>s. frame_ok ?p 0 0 (in_heap s) fr)
        (execute_instructions d call m (blk_instructions b) fr) (after ?p ?ids 0 0)"
      by (rule safe_weaken [OF safe_instructions [OF b call, of "[]", where p = ?p]])
        (auto simp: values_before_def frame_ok_def intro: le_trans [OF unat_of_nat_le])
    have rest: "safe B (\<lambda>s. frame_ok ?p 0 0 (in_heap s) fr \<and> after ?p ?ids 0 0 (fr', flow) s)
        (case flow of
           Continue \<Rightarrow> sret R_Undefined
         | Jump_To next \<Rightarrow> execute_blocks k d call m f next fr'
         | Return_Value v \<Rightarrow> sret v) (\<lambda>v s. valid_value (in_heap s) v)" for fr' flow
    proof (cases flow)
      case (Jump_To t)
      show ?thesis
      proof (cases "t \<in> ?ids")
        case True
        then show ?thesis
          by (simp only: Jump_To control_flow.case, intro safe_weaken [OF Suc.IH]) (auto simp: after_def)
      next
        case False
        then obtain e where "execute_blocks k d call m f t fr' = sfail e"
          using execute_blocks_missing by blast
        with False show ?thesis
          by (simp only: Jump_To control_flow.case) (rule safe_fail, simp add: after_def flow_ok_def)
      qed
    qed (auto intro!: safe_ret simp: after_def flow_ok_def)
    show ?thesis
      by (simp only: execute_blocks.simps found(1) sem_simps(7), rule safe_bind [OF run stable_frame])
        (use rest in \<open>auto split: prod.split\<close>)
  qed
qed

lemma safe_run_host: "safe B (\<lambda>s. True) (run_host f) (\<lambda>v s. valid_value (in_heap s) v)"
  unfolding safe_def
proof (intro allI impI)
  fix s t r assume r: "run_host f s = (t, r)"
  obtain w x where f: "f (in_world s) = (w, x)" by fastforce
  show "capacity (in_heap s) \<le> capacity (in_heap t) \<and>
      (capacity (in_heap t) \<le> 2 ^ 32 \<longrightarrow> interp_ok s \<longrightarrow> True \<longrightarrow>
         interp_ok t \<and> heap_ext (in_heap s) (in_heap t) \<and>
         (case r of Inl e \<Rightarrow> benign B e | Inr v \<Rightarrow> valid_value (in_heap t) v))"
  proof (cases x)
    case (Inl e)
    then show ?thesis using r f by (auto simp: run_host_def interp_ok_def)
  next
    case (Inr v)
    obtain rv h where v: "runtime_from_interop v (in_heap s) = (rv, h)" by fastforce
    have t: "in_heap t = h" "in_console t = in_console s" "r = Inr rv"
      using r f Inr v by (auto simp: run_host_def)
    show ?thesis
      using from_interop_capacity(1) [OF v] from_interop_ok(1) [OF v] t
      by (auto simp: interp_ok_def intro: valid_values_ext)
  qed
qed

lemma safe_call_host:
  "safe B (\<lambda>s. valid_values (in_heap s) args) (call_host n host name args)
     (\<lambda>r s. case r of None \<Rightarrow> True | Some v \<Rightarrow> valid_value (in_heap s) v)"
  unfolding call_host_def
proof (rule safe_bind [where R = "\<lambda>_ _. True"])
  show "safe B (\<lambda>s. valid_values (in_heap s) args)
      (on_heap (\<lambda>h. rmap (\<lambda>v. rbind (materialize n h v) (\<lambda>x. Inr (interop_from_value x))) args)) (\<lambda>_ _. True)"
  proof (rule safe_on_heap)
    fix s e
    assume "interp_ok s" "valid_values (in_heap s) args"
      "rmap (\<lambda>v. rbind (materialize n (in_heap s) v) (\<lambda>x. Inr (interop_from_value x))) args = Inl e"
    moreover from this(3) obtain v where "v \<in> set args" "materialize n (in_heap s) v = Inl e"
      by (auto simp: rbind_eq_Inl dest!: rmap_Inl)
    ultimately have "e = Out_of_fuel"
      using materialize_benign [of "in_heap s" v n e] by (simp add: interp_ok_def valid_values_def)
    then show "benign B e" by simp
  qed simp
  show "safe B (\<lambda>s. valid_values (in_heap s) args \<and> True)
      (case host_call host name x of
         None \<Rightarrow> sret None
       | Some f \<Rightarrow> sbind (run_host f) (\<lambda>v. sret (Some v)))
      (\<lambda>r s. case r of None \<Rightarrow> True | Some v \<Rightarrow> valid_value (in_heap s) v)" for x
  proof (cases "host_call host name x")
    case (Some f)
    have "safe B (\<lambda>s. valid_values (in_heap s) args) (sbind (run_host f) (\<lambda>v. sret (Some v)))
        (\<lambda>r s. case r of None \<Rightarrow> True | Some v \<Rightarrow> valid_value (in_heap s) v)"
      by (rule safe_bind [where R = "\<lambda>v s. valid_value (in_heap s) v"],
          rule safe_weaken [OF safe_run_host]) (auto intro!: safe_ret)
    with Some show ?thesis by simp
  qed (auto intro!: safe_ret)
qed auto

lemma safe_console_log:
  "safe B (\<lambda>s. valid_values (in_heap s) args) (console_log args) (\<lambda>v s. valid_value (in_heap s) v)"
  by (auto simp: safe_def console_log_def interp_ok_def)

lemma find_function_ok:
  "(\<exists>f. find_function m name = Inr f \<and> f \<in> set (mod_functions m) \<and> fn_name f = name) \<or>
   find_function m name = runtime_fail (Unknown_Function name)"
  by (auto simp: find_function_def find_Some_iff split: option.split)

lemma call_function_safe:
  assumes m: "module_ok m" and B: "B \<longrightarrow> entry_blocks m"
  shows "call_safe B (call_function n m host)"
proof (induction n)
  case 0
  show ?case by (auto simp: call_safe_def intro!: safe_fail)
next
  case (Suc n)
  let ?P = "\<lambda>args s. valid_values (in_heap s) args" and ?Q = "\<lambda>v s. valid_value (in_heap s) v"
  have body: "safe B (?P args) (sbind (slift (find_function m name)) (\<lambda>f.
      execute_frame n (call_function n m host) m f (frame_new f args))) ?Q" for name args
  proof (cases "\<exists>f. find_function m name = Inr f")
    case True
    then obtain f where f: "find_function m name = Inr f" "f \<in> set (mod_functions m)"
      using find_function_ok [of m name] by (auto simp: runtime_fail_def)
    have "function_ok m f" using m f(2) by (simp add: module_ok_def)
    moreover have "0 \<in> set (map blk_id (fn_blocks f)) \<or> \<not> B \<and> (0::u32) = 0"
      using B f(2) by (auto simp: entry_blocks_def)
    ultimately have "safe B (?P args)
        (execute_frame n (call_function n m host) m f (frame_new f args)) ?Q"
      unfolding execute_frame_def
      by (intro safe_weaken [OF safe_blocks [OF _ Suc.IH]])
        (auto dest: frame_new_ok [of _ _ f] simp: frame_ok_def)
    then show ?thesis by (simp add: f(1) sem_simps(7))
  next
    case False
    then have "find_function m name = Inl (Error (E_Runtime (Unknown_Function name)))"
      using find_function_ok [of m name] by (auto simp: runtime_fail_def)
    then show ?thesis by (simp add: sem_simps(6)) (rule safe_fail, simp)
  qed
  have "safe B (?P args) (call_function (Suc n) m host name args) ?Q" for name args
  proof (cases "name = ''console.log''")
    case True
    then show ?thesis by (simp add: safe_console_log)
  next
    case False
    have "safe B (\<lambda>s. ?P args s \<and> (case r of None \<Rightarrow> True | Some v \<Rightarrow> ?Q v s))
        (case r of Some v \<Rightarrow> sret v | None \<Rightarrow> sbind (slift (find_function m name)) (\<lambda>f.
           execute_frame n (call_function n m host) m f (frame_new f args))) ?Q" for r
      by (cases r) (auto intro: safe_ret safe_weaken [OF body])
    then show ?thesis
      using False by (simp, intro safe_bind [OF safe_call_host]) auto
  qed
  then show ?case by (simp add: call_safe_def)
qed

section \<open>The final collection\<close>

text \<open>\<open>rooted h roots v\<close>: what \<open>v\<close> points at survives a collection with these roots.\<close>

definition rooted :: "heap_value gc_heap \<Rightarrow> heap_handle list \<Rightarrow> runtime_value \<Rightarrow> bool" where
  "rooted h roots v \<longleftrightarrow>
     (\<forall>k\<in>set (value_refs v). \<forall>i. resolves h k i \<longrightarrow> reach heap_value_refs h roots i)"

lemma rooted_refs: "set (value_refs v) \<subseteq> set roots \<Longrightarrow> rooted h roots v"
  by (auto simp: rooted_def intro: reach_root)

lemma rooted_contents:
  assumes "rooted h roots v" and "k \<in> set (value_refs v)" and "heap_get h k = Some c"
    and "set (value_refs w) \<subseteq> set (heap_value_refs c)"
  shows "rooted h roots w"
  using assms unfolding rooted_def heap_get_Some by (meson reach_step subsetD)

lemma collect_get_rooted:
  assumes "collect trace_heap_value roots h = Some (h', rep)"
    and "rooted h roots v" and "k \<in> set (value_refs v)"
  shows "heap_get h' k = heap_get h k"
proof (cases "heap_get h k")
  case None
  then show ?thesis using rt_heap.collect_get [OF assms(1), of k] by simp
next
  case (Some c)
  then have "reach heap_value_refs h roots (unat (handle_index k))"
    using assms(2,3) unfolding rooted_def heap_get_Some by blast
  then show ?thesis using rt_heap.collect_get [OF assms(1), of k] by simp
qed

text \<open>A collection does not change what a rooted value looks like from outside.\<close>

lemma materialize_collect:
  assumes c: "collect trace_heap_value roots h = Some (h', rep)"
  shows "rooted h roots v \<Longrightarrow> materialize n h' v = materialize n h v"
proof (induction n arbitrary: v)
  case 0
  show ?case by (cases v) auto
next
  case (Suc n)
  note same = collect_get_rooted [OF c Suc.prems]
  show ?case
  proof (cases v)
    case (R_Object k)
    show ?thesis
    proof (cases "\<exists>fs. heap_get h k = Some (H_Object fs)")
      case True
      then obtain fs where fs: "heap_get h k = Some (H_Object fs)" by blast
      have m: "materialize n h' (snd kv) = materialize n h (snd kv)" if "kv \<in> set fs" for kv
        by (rule Suc.IH, rule rooted_contents [OF Suc.prems _ fs heap_value_refs_field [OF that]])
          (simp add: R_Object)
      have "collect_fields (materialize n h') fs = collect_fields (materialize n h) fs"
        unfolding collect_fields_def by (rule arg_cong [where f = "\<lambda>r. rbind r _"], rule rmap_cong) (simp_all add: m)
      then show ?thesis using same [of k] fs by (simp add: R_Object)
    next
      case False
      then show ?thesis using same [of k] by (simp add: R_Object split: option.split heap_value.split)
    qed
  next
    case (R_Array k)
    show ?thesis
    proof (cases "\<exists>vs. heap_get h k = Some (H_Array vs)")
      case True
      then obtain vs where vs: "heap_get h k = Some (H_Array vs)" by blast
      have m: "materialize n h' w = materialize n h w" if "w \<in> set vs" for w
        by (rule Suc.IH, rule rooted_contents [OF Suc.prems _ vs]) (use that R_Array in auto)
      have "rmap (materialize n h') vs = rmap (materialize n h) vs"
        by (rule rmap_cong) (simp_all add: m)
      then show ?thesis using same [of k] vs by (simp add: R_Array)
    next
      case False
      then show ?thesis using same [of k] by (simp add: R_Array split: option.split heap_value.split)
    qed
  qed auto
qed

text \<open>The output of a run is the state it ended in; the report counts what stayed reachable.\<close>

lemma finish_run_output:
  fixes h :: "heap_value gc_heap" and console :: "runtime_value list" and v :: runtime_value
  defines "roots \<equiv> concat (map value_refs console) @ value_refs v"
  shows "\<exists>h' rep. collect trace_heap_value roots h = Some (h', rep) \<and>
    finish_run n h console v =
      rbind (rmap (materialize n h) console) (\<lambda>cs.
      rbind (materialize n h v) (\<lambda>x.
      Inr \<lparr>out_console = cs, out_return_value = x,
           out_heap = \<lparr>live_objects = live_len h', allocated_slots = capacity h', last_collection = rep\<rparr>\<rparr>))"
proof -
  have r: "extend_roots v (runtime_roots console) = roots"
    by (simp add: roots_def extend_roots_refs runtime_roots_refs)
  obtain h' rep where c: "collect trace_heap_value roots h = Some (h', rep)"
    using rt_heap.collect_total by blast
  have m: "materialize n h' w = materialize n h w" if "w \<in> set console \<or> w = v" for w
    by (rule materialize_collect [OF c], rule rooted_refs) (use that in \<open>auto simp: roots_def\<close>)
  have "rmap (materialize n h') console = rmap (materialize n h) console"
    by (rule rmap_cong) (simp_all add: m)
  with m [of v] c show ?thesis
    by (auto simp: finish_run_def collect_runtime_def r)
qed

lemma finish_run_benign:
  assumes ok: "heap_ok h" "valid_values h console" "valid_value h v"
    and e: "finish_run n h console v = Inl e"
  shows "e = Out_of_fuel"
proof -
  have "(\<exists>w\<in>set console. materialize n h w = Inl e) \<or> materialize n h v = Inl e"
    using finish_run_output [of console v h n] e rmap_Inl [of "materialize n h" console]
    by (auto simp: rbind_eq_Inl rbind_eq_sym)
  then show ?thesis using materialize_benign [OF ok(1)] ok(2,3) by (auto simp: valid_values_def)
qed

lemma call_function_run:
  assumes m: "module_ok m" and B: "B \<longrightarrow> entry_blocks m"
    and c: "call_function n m host name args s = (t, r)"
    and s: "interp_ok s" "valid_values (in_heap s) args" "capacity (in_heap t) \<le> 2 ^ 32"
  shows "interp_ok t \<and> (case r of Inl e \<Rightarrow> benign B e | Inr v \<Rightarrow> valid_value (in_heap t) v)"
proof -
  have "safe B (\<lambda>s. valid_values (in_heap s) args) (call_function n m host name args)
      (\<lambda>v s. valid_value (in_heap s) v)"
    using call_function_safe [OF m B] unfolding call_safe_def by blast
  with c s show ?thesis unfolding safe_def by blast
qed

lemma execute_benign:
  assumes m: "module_ok m" and B: "B \<longrightarrow> entry_blocks m"
    and c: "call_function n m host ''__entry'' [] (interp_new w) = (s, r)"
    and cap: "capacity (in_heap s) \<le> 2 ^ 32" and e: "execute n m host w = (w', Inl e)"
  shows "benign B e"
proof -
  note ok = call_function_run [OF m B c interp_ok_new _ cap]
  show ?thesis
  proof (cases r)
    case (Inl x)
    then show ?thesis using ok c e by (simp add: execute_def)
  next
    case (Inr v)
    then have "finish_run n (in_heap s) (in_console s) v = Inl e"
      using c e by (simp add: execute_def)
    then have "e = Out_of_fuel"
      using finish_run_benign [of "in_heap s" "in_console s" v n e] ok Inr by (simp add: interp_ok_def)
    then show ?thesis by simp
  qed
qed

end
