(* ===== verification/Static_Errors.thy ===== *)
theory Static_Errors
  imports Interpreter_Safety
begin

text \<open>
  The errors of an accepted module that do not depend on the values it computes. The verifier
  leaves four things of a module unchecked: that the constants used as names are names, that the
  operators of binary instructions exist, that number constants are numbers and that functions
  have a block 0. Each of the four errors they lead to needs a module with that defect.
\<close>

section \<open>Defects of a module\<close>

definition instructions_of :: "bytecode_module \<Rightarrow> instruction list" where
  "instructions_of m =
     concat (map blk_instructions (concat (map fn_blocks (mod_functions m))))"

text \<open>The operands that an instruction reads as the indices of names.\<close>

definition name_operands :: "instruction \<Rightarrow> nat list" where
  "name_operands i =
     (case ins_opcode i of
        BuildObject \<Rightarrow> filter odd [0..<length (ins_operands i)]
      | LoadMember \<Rightarrow> [1]
      | StoreMember \<Rightarrow> [1]
      | Call \<Rightarrow> [0]
      | _ \<Rightarrow> [])"

fun names_something :: "const_entry \<Rightarrow> bool" where
  "names_something (Const_Symbol v) = True"
| "names_something (Const_String v) = True"
| "names_something _ = False"

definition name_at :: "bytecode_module \<Rightarrow> instruction \<Rightarrow> nat \<Rightarrow> bool" where
  "name_at m i k \<longleftrightarrow>
     (case operand i k of
        Inl _ \<Rightarrow> True
      | Inr w \<Rightarrow> (case module_constant m w of Inl _ \<Rightarrow> True | Inr c \<Rightarrow> names_something c))"

definition names_ok :: "bytecode_module \<Rightarrow> bool" where
  "names_ok m \<longleftrightarrow> list_all (\<lambda>i. list_all (name_at m i) (name_operands i)) (instructions_of m)"

definition operator_ok :: "instruction \<Rightarrow> bool" where
  "operator_ok i \<longleftrightarrow>
     (if ins_opcode i = Binary then (case operand i 0 of Inl _ \<Rightarrow> True | Inr op \<Rightarrow> op < 16) else True)"

definition operators_ok :: "bytecode_module \<Rightarrow> bool" where
  "operators_ok m \<longleftrightarrow> list_all operator_ok (instructions_of m)"

fun number_ok :: "const_entry \<Rightarrow> bool" where
  "number_ok (Const_Number v) = (case f64_parse v of Inl _ \<Rightarrow> False | Inr _ \<Rightarrow> True)"
| "number_ok _ = True"

definition numbers_ok :: "bytecode_module \<Rightarrow> bool" where
  "numbers_ok m \<longleftrightarrow> list_all number_ok (mod_constants m)"

section \<open>Errors and the defects they need\<close>

fun needs_defect :: "bytecode_module \<Rightarrow> runtime_error \<Rightarrow> bool" where
  "needs_defect m Expected_Symbol = (\<not> names_ok m)"
| "needs_defect m (Unknown_Binary_Op op) = (\<not> operators_ok m)"
| "needs_defect m (Invalid_Number v err) = (\<not> numbers_ok m)"
| "needs_defect m _ = True"

fun explained :: "bytecode_module \<Rightarrow> abort \<Rightarrow> bool" where
  "explained m (Error (E_Runtime e)) = needs_defect m e"
| "explained m _ = True"

text \<open>Every error of \<open>act\<close>, from any state, satisfies \<open>P\<close>.\<close>

definition raises :: "(abort \<Rightarrow> bool) \<Rightarrow> ('s, abort, 'a) sem \<Rightarrow> bool" where
  "raises P act \<longleftrightarrow> (\<forall>s t e. act s = (t, Inl e) \<longrightarrow> P e)"

named_theorems raises_intros

lemma raises_ret [raises_intros]: "raises P (sret x)"
  by (simp add: raises_def sret_def)

lemma raises_fail: "P e \<Longrightarrow> raises P (sfail e)"
  by (simp add: raises_def sfail_def)

lemma raises_lift: "(\<And>e. r = Inl e \<Longrightarrow> P e) \<Longrightarrow> raises P (slift r)"
  by (auto simp: raises_def slift_def)

lemma raises_heap: "(\<And>h e. g h = Inl e \<Longrightarrow> P e) \<Longrightarrow> raises P (on_heap g)"
  by (auto simp: raises_def on_heap_def)

lemma raises_write: "(\<And>h e. g h = Inl e \<Longrightarrow> P e) \<Longrightarrow> raises P (write_heap g)"
  by (auto simp: raises_def write_heap_def split: sum.splits)

lemma raises_bind: "raises P c \<Longrightarrow> (\<And>x. raises P (f x)) \<Longrightarrow> raises P (sbind c f)"
  by (fastforce simp: raises_def sbind_def split: prod.splits sum.splits)

lemma raises_basic [raises_intros]:
  "raises P (allocate_value c)" "raises P (push_continue fr v)" "raises P (console_log vs)"
  by (auto simp: raises_def allocate_value_def push_continue_def sret_def console_log_def split: prod.splits)

section \<open>The parts of an instruction\<close>

lemma frame_explained:
  "frame_value fr w = Inl e \<Longrightarrow> explained m e" "frame_local fr w = Inl e \<Longrightarrow> explained m e"
  "operand i k = Inl e \<Longrightarrow> explained m e" "operand_value fr i k = Inl e \<Longrightarrow> explained m e"
  by (auto simp: frame_value_def frame_local_def operand_def operand_value_def ok_or_def rbind_eq_Inl
      runtime_fail_def split: option.splits)

lemma frame_values_explained: "rmap (frame_value fr) ws = Inl e \<Longrightarrow> explained m e"
  using rmap_Inl frame_explained(1) by metis

lemma module_constant_explained: "module_constant m' w = Inl e \<Longrightarrow> explained m e"
  by (auto simp: module_constant_def runtime_fail_def split: option.splits)

lemma module_constant_in: "module_constant m w = Inr c \<Longrightarrow> c \<in> set (mod_constants m)"
  by (auto simp: module_constant_def runtime_fail_def nth_opt_in split: option.splits)

lemma symbol_name_Inl: "symbol_name c = Inl e \<Longrightarrow> e = Error (E_Runtime Expected_Symbol) \<and> \<not> names_something c"
  by (cases c) (auto simp: runtime_fail_def)

lemma names_okD:
  "names_ok m \<Longrightarrow> i \<in> set (instructions_of m) \<Longrightarrow> k \<in> set (name_operands i) \<Longrightarrow> name_at m i k"
  by (auto simp: names_ok_def list_all_iff)

lemma operators_okD: "operators_ok m \<Longrightarrow> i \<in> set (instructions_of m) \<Longrightarrow> operator_ok i"
  by (auto simp: operators_ok_def list_all_iff)

lemma numbers_okD: "numbers_ok m \<Longrightarrow> c \<in> set (mod_constants m) \<Longrightarrow> number_ok c"
  by (auto simp: numbers_ok_def list_all_iff)

lemma name_explained:
  assumes "i \<in> set (instructions_of m)" and "k \<in> set (name_operands i)"
    and "rbind (operand i k) (module_constant m) = Inr c" and "symbol_name c = Inl e"
  shows "explained m e"
proof -
  from assms(3) obtain w where "operand i k = Inr w" "module_constant m w = Inr c"
    by (auto simp: rbind_eq_Inr)
  then have "name_at m i k \<longleftrightarrow> names_something c" by (simp add: name_at_def)
  with symbol_name_Inl [OF assms(4)] names_okD [OF _ assms(1,2)] show ?thesis by auto
qed

lemma operand_symbol_explained:
  assumes "i \<in> set (instructions_of m)" and "k \<in> set (name_operands i)" and "operand_symbol m i k = Inl e"
  shows "explained m e"
  using assms(3) name_explained [OF assms(1,2)] frame_explained(3) module_constant_explained
  by (fastforce simp: operand_symbol_def rbind_eq_Inl)

lemma object_fields_explained:
  assumes "i \<in> set (instructions_of m)" and "ins_opcode i = BuildObject"
  shows "object_fields m fr i index n acc = Inl e \<Longrightarrow> explained m e"
proof (induction n arbitrary: index acc)
  case (Suc n)
  let ?k = "1 + index * 2"
  have name: "explained m x" if "rbind (operand i ?k) (module_constant m) = Inr c" "symbol_name c = Inl x" for c x
  proof -
    have "?k < length (ins_operands i)"
      using that(1) by (auto simp: rbind_eq_Inr operand_def ok_or_eq_Inr)
    then have "?k \<in> set (name_operands i)" by (simp add: name_operands_def assms(2))
    from name_explained [OF assms(1) this that] show ?thesis .
  qed
  from Suc.prems consider
      "rbind (operand i ?k) (module_constant m) = Inl e"
    | c where "rbind (operand i ?k) (module_constant m) = Inr c" "symbol_name c = Inl e"
    | "operand i (2 + index * 2) = Inl e"
    | w where "frame_value fr w = Inl e"
    | index' acc' where "object_fields m fr i index' n acc' = Inl e"
    unfolding object_fields.simps rbind_eq_Inl by metis
  then show ?case
  proof cases
    case 1
    then show ?thesis using frame_explained(3) module_constant_explained by (fastforce simp: rbind_eq_Inl)
  next
    case 2
    then show ?thesis by (rule name)
  next
    case 5
    then show ?thesis by (rule Suc.IH)
  qed (auto intro: frame_explained)
qed simp

lemma constant_explained:
  assumes "rbind (rbind (operand i 0) (module_constant m)) value_from_constant = Inl e"
  shows "explained m e"
proof -
  have "explained m e" if "c \<in> set (mod_constants m)" "value_from_constant c = Inl e" for c
    using that numbers_okD [of m c]
    by (cases c rule: const_entry.exhaust) (auto simp: runtime_fail_def split: sum.splits)
  with assms show ?thesis
    using frame_explained(3) module_constant_explained module_constant_in
    by (fastforce simp: rbind_eq_Inl rbind_eq_Inr)
qed

lemma member_explained:
  "load_member h v name = Inl e \<Longrightarrow> explained m e" "store_member h v name u = Inl e \<Longrightarrow> explained m e"
  by (cases v; auto simp: runtime_fail_def split: option.splits heap_value.splits)+

lemma display_explained: "display n h v = Inl e \<Longrightarrow> explained m e"
proof (induction n h v arbitrary: e rule: display.induct)
  case (8 n h hn)
  then show ?case
    by (auto simp: runtime_fail_def rbind_eq_Inl dest!: rmap_Inl split: option.splits heap_value.splits)
qed auto

lemma materialize_explained: "materialize n h v = Inl e \<Longrightarrow> explained m e"
proof (induction n arbitrary: v e)
  case 0
  then show ?case by (cases v) auto
next
  case (Suc n)
  then show ?case
    by (cases v) (auto simp: runtime_fail_def rbind_eq_Inl collect_fields_def dest!: rmap_Inl
        split: option.splits heap_value.splits)
qed

lemma arith_explained: "arith f wrap x y = Inl e \<Longrightarrow> explained m e"
  by (cases x; cases y) (auto simp: arith_def runtime_fail_def)

lemma add_values_explained: "add_values n h x y = Inl e \<Longrightarrow> explained m e"
  using display_explained arith_explained
  by (cases x; cases y) (fastforce simp: add_values_def rbind_eq_Inl)+

lemma small_operator: "(op :: u32) < 16 \<Longrightarrow> op \<in> set (map word_of_nat [0..<16])"
proof -
  assume "op < 16"
  then have "unat op < 16" by (simp add: word_less_nat_alt)
  then have "unat op \<in> set [0..<16]" by simp
  then have "word_of_nat (unat op) \<in> set (map (word_of_nat :: nat \<Rightarrow> u32) [0..<16])"
    unfolding set_map by (rule imageI)
  then show ?thesis by simp
qed

lemma binary_explained:
  assumes "binary n op h x y = Inl e" and "\<not> explained m e"
  shows "\<not> op < 16"
proof
  assume "op < 16"
  from small_operator [OF this] have "op \<in> {0, 1, 2, 3, 4, 5, 6, 7, 8, 9, 10, 11, 12, 13, 14, 15}"
    by (simp add: upt_rec)
  with assms show False
    by (auto simp: binary_def dest: add_values_explained [where m = m] arith_explained [where m = m])
qed

section \<open>Runs\<close>

lemma raises_symbol:
  "i \<in> set (instructions_of m) \<Longrightarrow> k \<in> set (name_operands i) \<Longrightarrow>
     raises (explained m) (slift (operand_symbol m i k))"
  by (rule raises_lift) (rule operand_symbol_explained)

lemma raises_reads [raises_intros]:
  "raises (explained m) (slift (operand_value fr i k))"
  "raises (explained m) (slift (operand i k))"
  "raises (explained m) (slift (rmap (frame_value fr) ws))"
  "raises (explained m) (on_heap (\<lambda>h. load_member h v name))"
  "raises (explained m) (write_heap (\<lambda>h. store_member h v name u))"
  by (intro raises_lift raises_heap raises_write; erule frame_explained frame_values_explained member_explained)+

lemma instruction_explained:
  assumes i: "i \<in> set (instructions_of m)" and call: "\<And>name args. raises (explained m) (call name args)"
  shows "raises (explained m) (execute_instruction n call m i fr)"
proof (cases "ins_opcode i")
  case LoadConst
  then show ?thesis unfolding execute_instruction_def
    by simp (intro raises_bind raises_intros raises_lift, erule constant_explained)
next
  case BuildObject
  have "raises (explained m) (slift (rbind (operand i 0) (\<lambda>count. object_fields m fr i 0 (unat count) [])))"
    by (rule raises_lift)
      (auto simp: rbind_eq_Inl intro: frame_explained(3) object_fields_explained [OF i BuildObject])
  then show ?thesis using BuildObject unfolding execute_instruction_def
    by simp (intro raises_bind raises_intros)
next
  case BuildArray
  have "raises (explained m) (slift (rbind (operand i 0) (\<lambda>_. rmap (frame_value fr) (drop 1 (ins_operands i)))))"
    by (rule raises_lift) (auto simp: rbind_eq_Inl intro: frame_explained(3) frame_values_explained)
  then show ?thesis using BuildArray unfolding execute_instruction_def
    by simp (intro raises_bind raises_intros)
next
  case LoadLocal
  have "raises (explained m) (slift (rbind (operand i 0) (frame_local fr)))"
    by (rule raises_lift) (auto simp: rbind_eq_Inl intro: frame_explained)
  then show ?thesis using LoadLocal unfolding execute_instruction_def
    by simp (intro raises_bind raises_intros)
next
  case StoreLocal
  then show ?thesis unfolding execute_instruction_def by simp (intro raises_bind raises_intros)
next
  case LoadMember
  then have "raises (explained m) (slift (operand_symbol m i 1))"
    by (intro raises_symbol i) (simp add: name_operands_def)
  then show ?thesis using LoadMember unfolding execute_instruction_def
    by simp (intro raises_bind raises_intros)
next
  case StoreMember
  then have "raises (explained m) (slift (operand_symbol m i 1))"
    by (intro raises_symbol i) (simp add: name_operands_def)
  then show ?thesis using StoreMember unfolding execute_instruction_def
    by simp (intro raises_bind raises_intros)
next
  case Binary
  have "raises (explained m) (sbind (slift (operand i 0)) (\<lambda>op.
      sbind (on_heap (\<lambda>h. binary n op h x y)) (push_continue fr)))" for x y
  proof (cases "operand i 0")
    case (Inl e)
    then show ?thesis using frame_explained(3) by (auto simp: raises_def sbind_def slift_def)
  next
    case (Inr op)
    have "explained m e" if b: "binary n op h x y = Inl e" for h e
    proof (rule ccontr)
      assume n: "\<not> explained m e"
      from binary_explained [OF b n] Inr Binary operators_okD [OF _ i] have "\<not> operators_ok m"
        by (auto simp: operator_ok_def)
      moreover have "e = Error (E_Runtime (Unknown_Binary_Op op)) \<or> explained m e"
        using b by (auto simp: binary_def runtime_fail_def dest: add_values_explained [where m = m]
            arith_explained [where m = m] split: if_splits)
      ultimately show False using n by auto
    qed
    then have "raises (explained m) (sbind (on_heap (\<lambda>h. binary n op h x y)) (push_continue fr))"
      by (intro raises_bind raises_intros raises_heap)
    then show ?thesis by (simp add: Inr raises_def sbind_def slift_def)
  qed
  note operation = this
  show ?thesis using Binary unfolding execute_instruction_def
    by simp (rule raises_bind, rule raises_reads, rule raises_bind, rule raises_reads, rule operation)
next
  case Call
  then have "raises (explained m) (slift (operand_symbol m i 0))"
    by (intro raises_symbol i) (simp add: name_operands_def)
  then show ?thesis using Call unfolding execute_instruction_def
    by simp (intro raises_bind raises_intros call)
next
  case Branch
  have "raises (explained m) (slift (if b then operand i 1 else operand i 2))" for b
    by (rule raises_lift) (auto intro: frame_explained split: if_splits)
  then show ?thesis using Branch unfolding execute_instruction_def
    by simp (intro raises_bind raises_intros)
next
  case Jump
  then show ?thesis unfolding execute_instruction_def by simp (intro raises_bind raises_intros)
next
  case Return
  have "raises (explained m) (slift (case ins_operands i of [] \<Rightarrow> Inr R_Undefined | w # _ \<Rightarrow> frame_value fr w))"
    by (rule raises_lift) (auto intro: frame_explained split: list.splits)
  then show ?thesis using Return unfolding execute_instruction_def
    by simp (intro raises_bind raises_intros)
qed

lemma instructions_explained:
  assumes "\<And>name args. raises (explained m) (call name args)"
  shows "set is \<subseteq> set (instructions_of m) \<Longrightarrow> raises (explained m) (execute_instructions n call m is fr)"
proof (induction "is" arbitrary: fr)
  case (Cons i "is")
  show ?case
    unfolding execute_instructions.simps
    by (rule raises_bind [OF instruction_explained [OF _ assms]])
      (use Cons in \<open>auto split: prod.split control_flow.split intro: raises_intros\<close>)
qed (simp add: raises_intros)

lemma find_block_in: "find_block f b = Inr blk \<Longrightarrow> blk \<in> set (fn_blocks f)"
  by (auto simp: find_block_def runtime_fail_def find_Some_iff split: option.splits)

lemma blocks_explained:
  assumes "\<And>name args. raises (explained m) (call name args)" and "f \<in> set (mod_functions m)"
  shows "raises (explained m) (execute_blocks k n call m f b fr)"
proof (induction k arbitrary: b fr)
  case (Suc k)
  show ?case
  proof (cases "find_block f b")
    case (Inl e)
    then show ?thesis by (auto simp: raises_def sem_simps find_block_def runtime_fail_def split: option.splits)
  next
    case (Inr blk)
    have "set (blk_instructions blk) \<subseteq> set (instructions_of m)"
      using find_block_in [OF Inr] assms(2) by (auto simp: instructions_of_def)
    from raises_bind [OF instructions_explained [OF assms(1) this]] Suc show ?thesis
      by (simp add: Inr sem_simps) (rule raises_bind [OF instructions_explained [OF assms(1)
          \<open>set (blk_instructions blk) \<subseteq> set (instructions_of m)\<close>]],
        auto split: prod.split control_flow.split intro: raises_intros)
  qed
qed (simp add: raises_fail)

lemma call_host_explained [raises_intros]: "raises (explained m) (call_host n host name args)"
proof -
  have conv: "rmap (\<lambda>v. rbind (materialize n h v) (\<lambda>x. Inr (interop_from_value x))) args = Inl e \<Longrightarrow> explained m e" for h e
    by (drule rmap_Inl) (auto simp: rbind_eq_Inl intro: materialize_explained)
  have run: "raises (explained m) (run_host f)" for f
    by (auto simp: raises_def run_host_def split: prod.splits sum.splits)
  show ?thesis unfolding call_host_def
    by (intro raises_bind raises_heap conv) (auto split: option.split intro!: raises_intros raises_bind run)
qed

lemma find_function_cases:
  "find_function m name = Inl e \<Longrightarrow> explained m' e" "find_function m name = Inr f \<Longrightarrow> f \<in> set (mod_functions m)"
  by (auto simp: find_function_def runtime_fail_def find_Some_iff split: option.splits)

lemma function_explained: "raises (explained m) (call_function n m host name args)"
proof (induction n arbitrary: name args)
  case (Suc n)
  have body: "raises (explained m) (sbind (slift (find_function m name)) (\<lambda>f.
      execute_frame n (call_function n m host) m f (frame_new f args)))" for args
  proof (cases "find_function m name")
    case (Inr f)
    from blocks_explained [OF Suc.IH find_function_cases(2) [OF this]] show ?thesis
      by (simp add: Inr sem_simps execute_frame_def)
  qed (use find_function_cases(1) in \<open>auto simp: raises_def sem_simps\<close>)
  show ?case by (auto intro!: raises_bind raises_intros body split: option.split)
qed (simp add: raises_fail)

lemma finish_run_explained: "finish_run n h console v = Inl e \<Longrightarrow> explained m e"
  using finish_run_output [of console v h n] materialize_explained
  by (auto simp: rbind_eq_Inl rbind_eq_sym dest!: rmap_Inl)

lemma execute_explained:
  assumes "execute n m host w = (w', Inl e)"
  shows "explained m e"
proof -
  obtain s r where c: "call_function n m host ''__entry'' [] (interp_new w) = (s, r)" by fastforce
  with assms function_explained [of m n host "''__entry''" "[]"] show ?thesis
    by (cases r) (auto simp: execute_def raises_def intro: finish_run_explained)
qed

section \<open>The errors left\<close>

fun remaining_runtime :: "bytecode_module \<Rightarrow> runtime_error \<Rightarrow> bool" where
  "remaining_runtime m (Unknown_Function f) = True"
| "remaining_runtime m (Cannot_Read property) = True"
| "remaining_runtime m (Cannot_Write property) = True"
| "remaining_runtime m Expected_Number = True"
| "remaining_runtime m Expected_Symbol = (\<not> names_ok m)"
| "remaining_runtime m (Unknown_Binary_Op op) = (\<not> operators_ok m)"
| "remaining_runtime m (Invalid_Number v err) = (\<not> numbers_ok m)"
| "remaining_runtime m (Block_Missing b) = (b = 0 \<and> \<not> entry_blocks m)"
| "remaining_runtime m (Constant_Missing i) = False"
| "remaining_runtime m (Local_Missing i) = False"
| "remaining_runtime m (Value_Missing i) = False"
| "remaining_runtime m Stale_Object = False"
| "remaining_runtime m Stale_Array = False"

fun remaining :: "bytecode_module \<Rightarrow> abort \<Rightarrow> bool" where
  "remaining m Panic = False"
| "remaining m Out_of_fuel = True"
| "remaining m (Error (E_Runtime e)) = remaining_runtime m e"
| "remaining m (Error (E_Interop e)) = True"
| "remaining m (Error (E_Module ds)) = False"
| "remaining m (Error (E_Compile ds)) = False"
| "remaining m (Error (E_Verify errors)) = False"

lemma remaining_iff: "remaining m e \<longleftrightarrow> benign (entry_blocks m) e \<and> explained m e"
proof (cases e)
  case (Error x)
  then show ?thesis
  proof (cases x)
    case (E_Runtime r)
    with Error show ?thesis by (cases r) auto
  qed auto
qed auto

end
