(* ===== verification/Interpreter_Fuel.thy ===== *)
theory Interpreter_Fuel
  imports Interpreter
begin

text \<open>
  Fuel only decides whether a result is known yet: a computation that does not run out of fuel
  gives the same state and result with any more of it. So there is at most one result of a
  program, whatever the fuel, and a run with enough fuel is the run of the code. Values are
  converted within fuel exactly where the heap has no cycle below them.
\<close>

section \<open>The order of approximations\<close>

definition fle :: "abort + 'a \<Rightarrow> abort + 'a \<Rightarrow> bool" where
  "fle r r' \<longleftrightarrow> r = Inl Out_of_fuel \<or> r = r'"

definition sle :: "('s, abort, 'a) sem \<Rightarrow> ('s, abort, 'a) sem \<Rightarrow> bool" where
  "sle c c' \<longleftrightarrow> (\<forall>s. snd (c s) = Inl Out_of_fuel \<or> c s = c' s)"

lemma fle_refl [simp, intro]: "fle r r"
  by (simp add: fle_def)

lemma fle_out [simp, intro]: "fle (Inl Out_of_fuel) r"
  by (simp add: fle_def)

lemma fle_rbind: "fle r r' \<Longrightarrow> (\<And>x. fle (f x) (g x)) \<Longrightarrow> fle (rbind r f) (rbind r' g)"
  unfolding fle_def by (cases r) (auto, metis rbind_simps(2))

lemma fle_rmap: "(\<And>x. fle (f x) (g x)) \<Longrightarrow> fle (rmap f xs) (rmap g xs)"
  by (induction xs) (auto intro!: fle_rbind)

lemma sle_refl [simp, intro]: "sle c c"
  by (simp add: sle_def)

lemma sle_fail [simp, intro]: "sle (sfail Out_of_fuel) c"
  by (simp add: sle_def sfail_def)

lemma sle_lift: "fle r r' \<Longrightarrow> sle (slift r) (slift r')"
  by (auto simp: sle_def fle_def slift_def)

lemma sle_on_heap: "(\<And>h. fle (f h) (g h)) \<Longrightarrow> sle (on_heap f) (on_heap g)"
  by (auto simp: sle_def fle_def on_heap_def)

lemma sle_bind:
  assumes c: "sle c c'" and f: "\<And>x. sle (f x) (g x)"
  shows "sle (sbind c f) (sbind c' g)"
  unfolding sle_def
proof
  fix s
  obtain t r where t: "c s = (t, r)" by fastforce
  show "snd (sbind c f s) = Inl Out_of_fuel \<or> sbind c f s = sbind c' g s"
  proof (cases "r = Inl Out_of_fuel")
    case True
    then show ?thesis by (simp add: sbind_def t)
  next
    case False
    with c t have "c' s = (t, r)" by (metis snd_conv sle_def)
    then show ?thesis using f by (cases r) (auto simp: sbind_def t sle_def)
  qed
qed

lemmas fuel_intros = sle_refl sle_fail sle_lift sle_on_heap sle_bind fle_refl fle_out fle_rbind fle_rmap

section \<open>More fuel, same result\<close>

lemma display_mono: "n \<le> n' \<Longrightarrow> fle (display n h v) (display n' h v)"
proof (induction n arbitrary: n' v)
  case 0
  show ?case by (cases v) simp_all
next
  case (Suc n)
  then obtain k where k: "n' = Suc k" "n \<le> k" by (cases n') auto
  have "fle (rmap (display n h) vs) (rmap (display k h) vs)" for vs
    by (rule fle_rmap) (rule Suc.IH [OF k(2)])
  then show ?case
    unfolding k(1) by (cases v) (auto split: option.split heap_value.split intro!: fle_rbind)
qed

lemma materialize_mono: "n \<le> n' \<Longrightarrow> fle (materialize n h v) (materialize n' h v)"
proof (induction n arbitrary: n' v)
  case 0
  show ?case by (cases v) (cases n'; simp)+
next
  case (Suc n)
  then obtain k where k: "n' = Suc k" "n \<le> k" by (cases n') auto
  have "fle (rmap (materialize n h) vs) (rmap (materialize k h) vs)" for vs
    by (rule fle_rmap) (rule Suc.IH [OF k(2)])
  moreover have "fle (collect_fields (materialize n h) fs) (collect_fields (materialize k h) fs)" for fs
    unfolding collect_fields_def by (intro fuel_intros Suc.IH [OF k(2)])
  ultimately show ?case
    unfolding k(1) by (cases v) (auto split: option.split heap_value.split intro!: fle_rbind)
qed

lemma binary_mono: "n \<le> n' \<Longrightarrow> fle (binary n op h x y) (binary n' op h x y)"
  by (auto simp: binary_def add_values_def split: runtime_value.split intro!: fle_rbind display_mono)

lemma execute_instruction_mono:
  assumes "n \<le> n'" and "\<And>name args. sle (call name args) (call' name args)"
  shows "sle (execute_instruction n call m i fr) (execute_instruction n' call' m i fr)"
  unfolding execute_instruction_def
  by (cases "ins_opcode i") (simp_all, (intro fuel_intros binary_mono assms)+)

lemma execute_instructions_mono:
  assumes "n \<le> n'" and "\<And>name args. sle (call name args) (call' name args)"
  shows "sle (execute_instructions n call m is fr) (execute_instructions n' call' m is fr)"
proof (induction "is" arbitrary: fr)
  case (Cons i "is")
  show ?case
    unfolding execute_instructions.simps
    by (rule sle_bind [OF execute_instruction_mono [OF assms]])
      (auto split: prod.split control_flow.split intro: Cons.IH)
qed simp

lemma execute_blocks_mono:
  assumes "n \<le> n'" and "\<And>name args. sle (call name args) (call' name args)"
  shows "k \<le> k' \<Longrightarrow> sle (execute_blocks k n call m f b fr) (execute_blocks k' n' call' m f b fr)"
proof (induction k arbitrary: k' b fr)
  case (Suc k)
  then obtain j where j: "k' = Suc j" "k \<le> j" by (cases k') auto
  show ?case
    unfolding j(1) execute_blocks.simps
    by (intro sle_bind [OF sle_refl] sle_bind [OF execute_instructions_mono [OF assms]])
      (auto split: prod.split control_flow.split intro: Suc.IH [OF j(2)])
qed simp

lemma call_host_mono: "n \<le> n' \<Longrightarrow> sle (call_host n host name args) (call_host n' host name args)"
  unfolding call_host_def by (intro fuel_intros materialize_mono)

lemma call_function_mono:
  "n \<le> n' \<Longrightarrow> sle (call_function n m host name args) (call_function n' m host name args)"
proof (induction n arbitrary: n' name args)
  case (Suc n)
  then obtain k where k: "n' = Suc k" "n \<le> k" by (cases n') auto
  have body: "sle (execute_frame n (call_function n m host) m f fr)
      (execute_frame k (call_function k m host) m f fr)" for f fr
    unfolding execute_frame_def by (rule execute_blocks_mono [OF k(2) Suc.IH [OF k(2)] k(2)])
  have "sle (case r of Some v \<Rightarrow> sret v | None \<Rightarrow> sbind (slift (find_function m name)) (\<lambda>f.
          execute_frame n (call_function n m host) m f (frame_new f args)))
      (case r of Some v \<Rightarrow> sret v | None \<Rightarrow> sbind (slift (find_function m name)) (\<lambda>f.
          execute_frame k (call_function k m host) m f (frame_new f args)))" for r
    by (cases r) (simp_all, intro fuel_intros body)
  then show ?case
    unfolding k(1) by (simp, intro impI sle_bind call_host_mono [OF k(2)]) simp
qed simp

lemma finish_run_mono: "n \<le> n' \<Longrightarrow> fle (finish_run n h console v) (finish_run n' h console v)"
  unfolding finish_run_def
  by (intro fle_rbind fle_refl) (auto split: prod.split intro!: fuel_intros materialize_mono)

lemma execute_mono: "n \<le> n' \<Longrightarrow> sle (execute n m host) (execute n' m host)"
  unfolding sle_def
proof
  fix w assume n: "n \<le> n'"
  obtain s r where c: "call_function n m host ''__entry'' [] (interp_new w) = (s, r)" by fastforce
  show "snd (execute n m host w) = Inl Out_of_fuel \<or> execute n m host w = execute n' m host w"
  proof (cases "r = Inl Out_of_fuel")
    case True
    then show ?thesis by (simp add: execute_def c)
  next
    case False
    then have "call_function n' m host ''__entry'' [] (interp_new w) = (s, r)"
      using call_function_mono [OF n, of m host "''__entry''" "[]"] c unfolding sle_def
      by (metis snd_conv)
    then show ?thesis
      using finish_run_mono [OF n, of "in_heap s" "in_console s"] c
      by (cases r) (auto simp: execute_def fle_def)
  qed
qed

lemma prepared_call_mono:
  fixes host :: "'w host_environment"
  shows "n \<le> n' \<Longrightarrow> sle (prepared_call_function n p name args host) (prepared_call_function n' p name args host)"
  unfolding sle_def
proof
  fix w :: 'w assume n: "n \<le> n'"
  obtain rargs h where a: "runtime_values_from_interop args (in_heap (interp_new w)) = (rargs, h)"
    by fastforce
  let ?s = "(interp_new w)\<lparr>in_heap := h\<rparr>"
  obtain s r where c: "call_function n (pm_module p) host name rargs ?s = (s, r)" by fastforce
  show "snd (prepared_call_function n p name args host w) = Inl Out_of_fuel \<or>
      prepared_call_function n p name args host w = prepared_call_function n' p name args host w"
  proof (cases "r = Inl Out_of_fuel")
    case True
    then show ?thesis by (simp add: prepared_call_function_def a c)
  next
    case False
    then have c': "call_function n' (pm_module p) host name rargs ?s = (s, r)"
      using call_function_mono [OF n, of "pm_module p" host name rargs] c unfolding sle_def
      by (metis snd_conv)
    have "fle (rbind (collect_runtime (extend_roots v []) (in_heap s)) (\<lambda>(h', report).
          rbind (materialize n h' v) (\<lambda>x. Inr (interop_from_value x))))
        (rbind (collect_runtime (extend_roots v []) (in_heap s)) (\<lambda>(h', report).
          rbind (materialize n' h' v) (\<lambda>x. Inr (interop_from_value x))))" for v
      by (intro fle_rbind fle_refl) (auto split: prod.split intro!: fuel_intros materialize_mono [OF n])
    then show ?thesis
      using c c' by (cases r) (auto simp: prepared_call_function_def a fle_def)
  qed
qed

section \<open>Which values can be converted\<close>

text \<open>
  With a rank that decreases along references, a value is converted within that much fuel; a
  value inside a set of handles each of which refers back into the set never is.
\<close>

definition ranked :: "(heap_handle \<Rightarrow> nat) \<Rightarrow> heap_value gc_heap \<Rightarrow> bool" where
  "ranked rk h \<longleftrightarrow>
     (\<forall>k c. heap_get h k = Some c \<longrightarrow> (\<forall>k'\<in>set (heap_value_refs c). rk k' < rk k))"

definition endless :: "heap_handle set \<Rightarrow> heap_value gc_heap \<Rightarrow> bool" where
  "endless S h \<longleftrightarrow>
     (\<forall>k\<in>S. \<exists>c. heap_get h k = Some c \<and> set (heap_value_refs c) \<inter> S \<noteq> {})"

lemma collect_fields_Inl: "collect_fields f fs = Inl e \<Longrightarrow> \<exists>kv\<in>set fs. f (snd kv) = Inl e"
proof -
  assume "collect_fields f fs = Inl e"
  then have "rmap (\<lambda>kv. rbind (f (snd kv)) (\<lambda>x. Inr (fst kv, x))) fs = Inl e"
    by (simp add: collect_fields_def rbind_eq_Inl)
  from rmap_Inl [OF this] obtain kv where kv: "kv \<in> set fs"
    "rbind (f (snd kv)) (\<lambda>x. Inr (fst kv, x)) = Inl e"
    by blast
  then have "f (snd kv) = Inl e" by (simp add: rbind_eq_Inl)
  with kv(1) show ?thesis by blast
qed

lemma collect_fields_Inr: "collect_fields f fs = Inr kvs \<Longrightarrow> kv \<in> set fs \<Longrightarrow> \<exists>x. f (snd kv) = Inr x"
  by (fastforce simp: collect_fields_def rbind_eq_Inr rmap_Inr list_all2_conv_all_nth in_set_conv_nth)

lemma materialize_ranked:
  assumes "ranked rk h"
  shows "\<forall>k\<in>set (value_refs v). rk k < n \<Longrightarrow> materialize n h v \<noteq> Inl Out_of_fuel"
proof (induction n arbitrary: v)
  case 0
  then show ?case by (cases v) auto
next
  case (Suc n)
  have below: "\<forall>k'\<in>set (value_refs w). rk k' < n"
    if "heap_get h k = Some c" "k \<in> set (value_refs v)" "set (value_refs w) \<subseteq> set (heap_value_refs c)" for k c w
    using that assms Suc.prems unfolding ranked_def by (meson less_Suc_eq_le order_less_le_trans subsetD)
  show ?case
  proof (cases v)
    case (R_Object k)
    have o: "collect_fields (materialize n h) fs \<noteq> Inl Out_of_fuel" if g: "heap_get h k = Some (H_Object fs)" for fs
    proof
      assume "collect_fields (materialize n h) fs = Inl Out_of_fuel"
      from collect_fields_Inl [OF this] obtain kv
        where kv: "kv \<in> set fs" "materialize n h (snd kv) = Inl Out_of_fuel"
        by blast
      have "\<forall>k'\<in>set (value_refs (snd kv)). rk k' < n"
        by (rule below [OF g _ heap_value_refs_field [OF kv(1)]]) (simp add: R_Object)
      with Suc.IH kv(2) show False by blast
    qed
    show ?thesis
    proof (cases "\<exists>fs. heap_get h k = Some (H_Object fs)")
      case True
      then obtain fs where fs: "heap_get h k = Some (H_Object fs)" by blast
      show ?thesis using o [OF fs] by (simp add: R_Object fs rbind_eq_Inl)
    next
      case False
      then show ?thesis by (simp add: R_Object runtime_fail_def split: option.split heap_value.split)
    qed
  next
    case (R_Array k)
    have o: "rmap (materialize n h) vs \<noteq> Inl Out_of_fuel" if g: "heap_get h k = Some (H_Array vs)" for vs
    proof
      assume "rmap (materialize n h) vs = Inl Out_of_fuel"
      from rmap_Inl [OF this] obtain w where w: "w \<in> set vs" "materialize n h w = Inl Out_of_fuel"
        by blast
      have "\<forall>k'\<in>set (value_refs w). rk k' < n"
        by (rule below [OF g _ heap_value_refs_element [OF w(1)]]) (simp add: R_Array)
      with Suc.IH w(2) show False by blast
    qed
    show ?thesis
    proof (cases "\<exists>vs. heap_get h k = Some (H_Array vs)")
      case True
      then obtain vs where vs: "heap_get h k = Some (H_Array vs)" by blast
      show ?thesis using o [OF vs] by (simp add: R_Array vs rbind_eq_Inl)
    next
      case False
      then show ?thesis by (simp add: R_Array runtime_fail_def split: option.split heap_value.split)
    qed
  qed auto
qed

lemma materialize_endless:
  assumes "endless S h"
  shows "set (value_refs v) \<inter> S \<noteq> {} \<Longrightarrow> materialize n h v \<noteq> Inr x"
proof (induction n arbitrary: v x)
  case 0
  then show ?case by (cases v) auto
next
  case (Suc n)
  show ?case
  proof (cases v)
    case (R_Object k)
    show ?thesis
    proof (cases "\<exists>fs. heap_get h k = Some (H_Object fs)")
      case True
      then obtain fs where fs: "heap_get h k = Some (H_Object fs)" by blast
      then have "set (heap_value_refs (H_Object fs)) \<inter> S \<noteq> {}"
        using assms Suc.prems R_Object unfolding endless_def by fastforce
      then obtain kv where kv: "kv \<in> set fs" "set (value_refs (snd kv)) \<inter> S \<noteq> {}" by force
      have "collect_fields (materialize n h) fs \<noteq> Inr kvs" for kvs
        using collect_fields_Inr [OF _ kv(1), of "materialize n h"] Suc.IH [OF kv(2)] by blast
      then show ?thesis by (auto simp: R_Object fs rbind_eq_Inr)
    next
      case False
      then show ?thesis by (auto simp: R_Object runtime_fail_def split: option.split heap_value.split)
    qed
  next
    case (R_Array k)
    show ?thesis
    proof (cases "\<exists>vs. heap_get h k = Some (H_Array vs)")
      case True
      then obtain vs where vs: "heap_get h k = Some (H_Array vs)" by blast
      then have "set (heap_value_refs (H_Array vs)) \<inter> S \<noteq> {}"
        using assms Suc.prems R_Array unfolding endless_def by fastforce
      then obtain w where w: "w \<in> set vs" "set (value_refs w) \<inter> S \<noteq> {}" by auto
      have "rmap (materialize n h) vs \<noteq> Inr ys" for ys
        using w(1) Suc.IH [OF w(2)] by (fastforce simp: rmap_Inr list_all2_conv_all_nth in_set_conv_nth)
      then show ?thesis by (auto simp: R_Array vs rbind_eq_Inr)
    next
      case False
      then show ?thesis by (auto simp: R_Array runtime_fail_def split: option.split heap_value.split)
    qed
  qed (use Suc.prems in auto)
qed

section \<open>Functions without backward jumps\<close>

text \<open>
  The blocks of a function that only jumps to higher block ids run once each at most, so the
  block loop needs no more fuel than the function has blocks.
\<close>

definition jump_targets :: "instruction \<Rightarrow> u32 list" where
  "jump_targets i =
     (case ins_opcode i of
        Branch \<Rightarrow> take 2 (drop 1 (ins_operands i))
      | Jump \<Rightarrow> take 1 (ins_operands i)
      | _ \<Rightarrow> [])"

definition forward_only :: "bytecode_function \<Rightarrow> bool" where
  "forward_only f \<longleftrightarrow>
     (\<forall>b\<in>set (fn_blocks f). \<forall>i\<in>set (blk_instructions b). \<forall>t\<in>set (jump_targets i). blk_id b < t)"

lemma sbind_Inr: "sbind c f s = (t, Inr y) \<longleftrightarrow> (\<exists>s1 x. c s = (s1, Inr x) \<and> f x s1 = (t, Inr y))"
  by (auto simp: sbind_def split: prod.split sum.split)

lemma operand_targets:
  "ins_opcode i = Jump \<Longrightarrow> operand i 0 = Inr t \<Longrightarrow> t \<in> set (jump_targets i)"
  "ins_opcode i = Branch \<Longrightarrow> operand i 1 = Inr t \<or> operand i 2 = Inr t \<Longrightarrow> t \<in> set (jump_targets i)"
proof -
  show "ins_opcode i = Jump \<Longrightarrow> operand i 0 = Inr t \<Longrightarrow> t \<in> set (jump_targets i)"
    by (cases "ins_operands i") (auto simp: jump_targets_def operand_def)
  show "ins_opcode i = Branch \<Longrightarrow> operand i 1 = Inr t \<or> operand i 2 = Inr t \<Longrightarrow> t \<in> set (jump_targets i)"
    by (cases "ins_operands i"; cases "tl (ins_operands i)"; cases "tl (tl (ins_operands i))")
      (auto simp: jump_targets_def operand_def numeral_2_eq_2)
qed

lemma execute_instruction_jump:
  assumes "execute_instruction n call m i fr s = (s', Inr (fr', Jump_To t))"
  shows "t \<in> set (jump_targets i)"
  using assms operand_targets [of i t]
  by (cases "ins_opcode i")
    (auto simp: execute_instruction_def sbind_Inr slift_def sret_def push_continue_def split: if_splits)

lemma execute_instructions_jump:
  "execute_instructions n call m is fr s = (s', Inr (fr', Jump_To t)) \<Longrightarrow>
   \<exists>i\<in>set is. t \<in> set (jump_targets i)"
proof (induction "is" arbitrary: fr s)
  case (Cons i "is")
  then obtain s1 fr1 flow where i: "execute_instruction n call m i fr s = (s1, Inr (fr1, flow))"
    and r: "(case flow of
         Continue \<Rightarrow> execute_instructions n call m is fr1
       | Jump_To t \<Rightarrow> sret (fr1, Jump_To t)
       | Return_Value v \<Rightarrow> sret (fr1, Return_Value v)) s1 = (s', Inr (fr', Jump_To t))"
    by (auto simp: sbind_Inr)
  show ?case
  proof (cases flow)
    case Continue
    with r Cons.IH show ?thesis by auto
  next
    case (Jump_To u)
    with r have "u = t" by (auto simp: sret_def)
    with execute_instruction_jump [OF i [unfolded Jump_To]] show ?thesis by simp
  qed (use r in \<open>auto simp: sret_def\<close>)
qed (simp add: sret_def)

lemma forward_blocks_enough:
  assumes f: "forward_only f"
  shows "card {j \<in> set (map blk_id (fn_blocks f)). b \<le> j} \<le> k \<Longrightarrow> k \<le> k' \<Longrightarrow>
    execute_blocks (Suc k) n call m f b fr s = execute_blocks (Suc k') n call m f b fr s"
proof (induction k arbitrary: k' b fr s rule: less_induct)
  case (less k)
  let ?I = "\<lambda>b. {j \<in> set (map blk_id (fn_blocks f)). b \<le> j}"
  show ?case
  proof (cases "find_block f b")
    case (Inl e)
    then show ?thesis by (simp add: sem_simps)
  next
    case (Inr blk)
    then have blk: "blk \<in> set (fn_blocks f)" "blk_id blk = b"
      by (auto simp: find_block_def find_Some_iff runtime_fail_def split: option.splits)
    obtain s1 r where run: "execute_instructions n call m (blk_instructions blk) fr s = (s1, r)"
      by fastforce
    have step: "execute_blocks k n call m f t fr' s1 = execute_blocks k' n call m f t fr' s1"
      if "r = Inr (fr', Jump_To t)" for fr' t
    proof -
      have lt: "b < t"
        using execute_instructions_jump [OF run [unfolded that]] f blk unfolding forward_only_def by blast
      have "?I t \<subset> ?I b" using lt blk by force
      then have "card (?I t) < card (?I b)" by (intro psubset_card_mono) auto
      with less.prems obtain j j' where j: "k = Suc j" "k' = Suc j'" "card (?I t) \<le> j" "j \<le> j'"
        by (cases k; cases k') auto
      show ?thesis unfolding j(1,2) by (rule less.IH) (use j in auto)
    qed
    show ?thesis
      using run step by (cases r) (auto simp: Inr sem_simps sbind_def split: control_flow.split)
  qed
qed

text \<open>
  A computation that does not run out of fuel. Among the instructions only calls and the
  concatenation of an addition can: the rest is one step each.
\<close>

definition keeps_fuel :: "('s, abort, 'a) sem \<Rightarrow> bool" where
  "keeps_fuel c \<longleftrightarrow> (\<forall>s. snd (c s) \<noteq> Inl Out_of_fuel)"

lemma keeps_fuel_bind: "keeps_fuel c \<Longrightarrow> (\<And>x. keeps_fuel (f x)) \<Longrightarrow> keeps_fuel (sbind c f)"
  by (auto simp: keeps_fuel_def sbind_def split: prod.split sum.split)
    (metis snd_conv)

lemma keeps_fuel_lift: "r \<noteq> Inl Out_of_fuel \<Longrightarrow> keeps_fuel (slift r)"
  by (simp add: keeps_fuel_def slift_def)

lemma keeps_fuel_heap: "(\<And>h. f h \<noteq> Inl Out_of_fuel) \<Longrightarrow> keeps_fuel (on_heap f)"
  by (simp add: keeps_fuel_def on_heap_def)

lemma keeps_fuel_write: "(\<And>h. f h \<noteq> Inl Out_of_fuel) \<Longrightarrow> keeps_fuel (write_heap f)"
  by (auto simp: keeps_fuel_def write_heap_def split: sum.split)

lemma keeps_fuel_steps: "keeps_fuel (sret x)" "keeps_fuel (push_continue fr v)" "keeps_fuel (allocate_value a)"
  by (auto simp: keeps_fuel_def sret_def push_continue_def allocate_value_def split: prod.split)

lemma keeps_fuel_rbind: "r \<noteq> Inl Out_of_fuel \<Longrightarrow> (\<And>x. f x \<noteq> Inl Out_of_fuel) \<Longrightarrow> rbind r f \<noteq> Inl Out_of_fuel"
  by (cases r) auto

lemma keeps_fuel_results:
  "operand i k \<noteq> Inl Out_of_fuel" "frame_value fr w \<noteq> Inl Out_of_fuel" "frame_local fr w \<noteq> Inl Out_of_fuel"
  "module_constant m w \<noteq> Inl Out_of_fuel" "value_from_constant c \<noteq> Inl Out_of_fuel"
  "symbol_name c \<noteq> Inl Out_of_fuel" "load_member h v name \<noteq> Inl Out_of_fuel"
  "store_member h v name x \<noteq> Inl Out_of_fuel"
proof -
  show "value_from_constant c \<noteq> Inl Out_of_fuel"
    by (cases c) (simp_all add: runtime_fail_def split: sum.split)
  show "symbol_name c \<noteq> Inl Out_of_fuel" by (cases c) (simp_all add: runtime_fail_def)
  show "load_member h v name \<noteq> Inl Out_of_fuel" "store_member h v name x \<noteq> Inl Out_of_fuel"
    by (cases v; simp add: runtime_fail_def split: option.split heap_value.split)+
qed (simp_all add: operand_def ok_or_def frame_value_def frame_local_def module_constant_def runtime_fail_def
    split: option.split)

lemma keeps_fuel_object_fields: "object_fields m fr i index k acc \<noteq> Inl Out_of_fuel"
  by (induction k arbitrary: index acc) (simp_all add: keeps_fuel_rbind keeps_fuel_results)

lemma keeps_fuel_frame_values: "rmap (frame_value fr) ws \<noteq> Inl Out_of_fuel"
  using rmap_Inl [of "frame_value fr" ws Out_of_fuel] keeps_fuel_results(2) by blast

lemma instruction_ends:
  assumes "ins_opcode i \<noteq> Binary" and "ins_opcode i \<noteq> Call"
  shows "keeps_fuel (execute_instruction n call m i fr)"
  using assms
  by (cases "ins_opcode i")
    (simp_all add: execute_instruction_def operand_value_def operand_symbol_def keeps_fuel_bind keeps_fuel_lift keeps_fuel_heap
      keeps_fuel_write keeps_fuel_steps keeps_fuel_rbind keeps_fuel_results keeps_fuel_object_fields keeps_fuel_frame_values split: list.split)

lemma instructions_end:
  assumes "\<And>i fr. i \<in> set is \<Longrightarrow> keeps_fuel (execute_instruction n call m i fr)"
  shows "keeps_fuel (execute_instructions n call m is fr)"
  using assms
  by (induction "is" arbitrary: fr)
    (auto intro!: keeps_fuel_bind keeps_fuel_steps split: control_flow.split)

text \<open>Under the same bound the loop returns, as soon as every block does.\<close>

lemma forward_blocks_return:
  assumes f: "forward_only f"
    and keeps_fuel: "\<And>b fr. b \<in> set (fn_blocks f) \<Longrightarrow> keeps_fuel (execute_instructions n call m (blk_instructions b) fr)"
  shows "card {j \<in> set (map blk_id (fn_blocks f)). b \<le> j} \<le> k \<Longrightarrow>
    snd (execute_blocks (Suc k) n call m f b fr s) \<noteq> Inl Out_of_fuel"
proof (induction k arbitrary: b fr s rule: less_induct)
  case (less k)
  let ?I = "\<lambda>b. {j \<in> set (map blk_id (fn_blocks f)). b \<le> j}"
  show ?case
  proof (cases "find_block f b")
    case (Inl e)
    then show ?thesis by (auto simp: sem_simps find_block_def runtime_fail_def split: option.splits)
  next
    case (Inr blk)
    then have blk: "blk \<in> set (fn_blocks f)" "blk_id blk = b"
      by (auto simp: find_block_def runtime_fail_def find_Some_iff split: option.splits)
    obtain s1 r where run: "execute_instructions n call m (blk_instructions blk) fr s = (s1, r)" by fastforce
    have step: "snd (execute_blocks k n call m f t fr1 s1) \<noteq> Inl Out_of_fuel"
      if "r = Inr (fr1, Jump_To t)" for fr1 t
    proof -
      have lt: "b < t"
        using execute_instructions_jump [OF run [unfolded that]] f blk unfolding forward_only_def by blast
      have "?I t \<subset> ?I b" using lt blk by force
      then have "card (?I t) < card (?I b)" by (intro psubset_card_mono) auto
      with less.prems have "card (?I t) < k" by linarith
      then obtain j where j: "k = Suc j" "card (?I t) \<le> j" by (cases k) (auto simp: less_Suc_eq_le)
      show ?thesis unfolding j(1) by (rule less.IH [OF _ j(2)]) (simp add: j(1))
    qed
    show ?thesis
      using run step keeps_fuel [OF blk(1), of fr, unfolded keeps_fuel_def, rule_format, of s]
      by (cases r) (auto simp: Inr sem_simps sbind_def sret_def split: control_flow.splits)
  qed
qed

lemma card_ids_le: "card {j \<in> set (map blk_id (fn_blocks f)). b \<le> j} \<le> length (fn_blocks f)"
  by (rule order_trans [OF card_mono [of "set (map blk_id (fn_blocks f))"] order_trans [OF card_length]])
    auto

end
