(* ===== verification/Program_Runs.thy ===== *)
theory Program_Runs
  imports Static_Errors Interpreter_Fuel
begin

text \<open>
  Properties of whole runs: what a module the verifier accepts can do, what a run returns, and
  where the checks leave a gap between the verifier and the interpreter.
\<close>

section \<open>Sample modules\<close>

definition sample_ref :: source_ref where
  "sample_ref = \<lparr>start_byte = 0, end_byte = 0, start_line = 1, start_column = 1, end_line = 1, end_column = 1\<rparr>"

definition sample_ins :: "opcode \<Rightarrow> u32 list \<Rightarrow> instruction" where
  "sample_ins op ops = \<lparr>ins_opcode = op, ins_operands = ops, ins_type_tag = Tag_Object, ins_source_ref = 0\<rparr>"

definition sample_module :: "const_entry list \<Rightarrow> (u32 \<times> instruction list) list \<Rightarrow> bytecode_module" where
  "sample_module constants blocks =
     \<lparr>mod_header = \<lparr>hdr_magic = BYTECODE_MAGIC, hdr_version = BYTECODE_VERSION\<rparr>,
      mod_constants = constants,
      mod_functions = [\<lparr>fn_name = ''__entry'', fn_params = [], fn_return_type = Tag_Unknown,
        fn_blocks = map (\<lambda>(i, is). \<lparr>blk_id = i, blk_instructions = is\<rparr>) blocks,
        fn_exception_table = []\<rparr>],
      mod_source_map = [sample_ref]\<rparr>"

text \<open>An object is logged and one of its members returned.\<close>

definition greeting :: bytecode_module where
  "greeting = sample_module [Const_String ''hi'', Const_Symbol ''text'', Const_Symbol ''console.log'']
     [(0, [sample_ins LoadConst [0], sample_ins BuildObject [1, 1, 0], sample_ins Call [2, 1, 1],
           sample_ins LoadMember [1, 1], sample_ins Return [3]])]"

text \<open>A property of a string is read.\<close>

definition bad_read :: bytecode_module where
  "bad_read = sample_module [Const_String ''hi'', Const_Symbol ''text'']
     [(0, [sample_ins LoadConst [0], sample_ins LoadMember [0, 1], sample_ins Return [1]])]"

text \<open>An object is stored in its own field and returned.\<close>

definition self_reference :: bytecode_module where
  "self_reference = sample_module [Const_Symbol ''self'']
     [(0, [sample_ins BuildObject [0], sample_ins StoreMember [0, 0, 0], sample_ins Return [0]])]"

text \<open>The three other defects: a name that is a number, an operator 99 and a number that is none.\<close>

definition bad_name :: bytecode_module where
  "bad_name = sample_module [Const_Number ''1'']
     [(0, [sample_ins BuildObject [0], sample_ins LoadMember [0, 0], sample_ins Return [1]])]"

definition bad_operator :: bytecode_module where
  "bad_operator = sample_module [Const_Null]
     [(0, [sample_ins LoadConst [0], sample_ins LoadConst [0], sample_ins Binary [99, 0, 1], sample_ins Return [2]])]"

definition bad_number :: bytecode_module where
  "bad_number = sample_module [Const_Number ''x''] [(0, [sample_ins LoadConst [0], sample_ins Return [0]])]"

text \<open>Two blocks with one constant each; the second returns the value numbered \<open>w\<close>.\<close>

definition two_blocks :: "u32 \<Rightarrow> bytecode_module" where
  "two_blocks w = sample_module [Const_String ''first'', Const_String ''second'']
     [(0, [sample_ins LoadConst [0], sample_ins Jump [1]]),
      (1, [sample_ins LoadConst [1], sample_ins Return [w]])]"

lemmas sample_defs = sample_module_def sample_ins_def sample_ref_def greeting_def bad_read_def
  self_reference_def two_blocks_def

section \<open>Accepted modules run safely\<close>

lemma verified_ok: "verify_module m = Inr () \<Longrightarrow> module_ok m"
  by (simp add: verify_module_iff)

text \<open>
  C1: When the verifier accepts a module and the slot table of its run stays within 32 bits,
  executing it never panics on an operand, never misses a constant, a value or a local, never jumps
  to a block that does not exist, never meets a stale handle, and never reports errors of earlier
  stages. What remains besides running out of fuel: an error of a host function, a call of a function
  that neither module nor host has, a member of a non-object, an operand that is no number, and four
  static errors, each only in a module with the defect that the verifier does not check: a
  constant used as a name that names nothing, an operator code above 15, a number constant that
  is no number, and a function without a block 0.
\<close>

theorem verified_execution_safe:
  assumes "verify_module m = Inr ()"
    and "call_function n m host ''__entry'' [] (interp_new w) = (s, r)"
    and "capacity (in_heap s) \<le> 2 ^ 32"
    and "execute n m host w = (w', Inl e)"
  shows "remaining m e"
  unfolding remaining_iff
  using execute_benign [OF verified_ok [OF assms(1)] _ assms(2,3,4)] execute_explained [OF assms(4)]
  by blast

theorem verified_execution_safe_witness:
  "\<exists>w' e. execute 5 bad_read host_new () = (w', Inl e) \<and> remaining bad_read e"
proof -
  obtain s r where c: "call_function 5 bad_read host_new ''__entry'' [] (interp_new ()) = (s, r)"
    by fastforce
  have "capacity (in_heap (fst (call_function 5 bad_read host_new ''__entry'' [] (interp_new ())))) = 0"
    by code_simp
  then have cap: "capacity (in_heap s) \<le> 2 ^ 32" by (simp add: c)
  have "snd (execute 5 bad_read host_new ()) = Inl (Error (E_Runtime (Cannot_Read ''text'')))"
    by code_simp
  then obtain w' where e: "execute 5 bad_read host_new () = (w', Inl (Error (E_Runtime (Cannot_Read ''text''))))"
    by (metis prod.collapse)
  have "verify_module bad_read = Inr ()" by code_simp
  from verified_execution_safe [OF this c cap e] e show ?thesis by blast
qed

text \<open>The verifier accepts each of these defects.\<close>

lemma defects_accepted:
  "verify_module bad_name = Inr ()" "\<not> names_ok bad_name"
  "snd (execute 5 bad_name host_new ()) = Inl (Error (E_Runtime Expected_Symbol))"
  "verify_module bad_operator = Inr ()" "\<not> operators_ok bad_operator"
  "snd (execute 5 bad_operator host_new ()) = Inl (Error (E_Runtime (Unknown_Binary_Op 99)))"
  "verify_module bad_number = Inr ()" "\<not> numbers_ok bad_number"
  by code_simp+

text \<open>
  C19: A call from the host into an accepted module is as safe as a run of the module: the
  arguments are converted to well-formed runtime values, and the only errors are the benign
  ones.
\<close>

theorem prepared_call_safe:
  assumes v: "verify_module (pm_module p) = Inr ()"
    and a: "runtime_values_from_interop args (in_heap (interp_new w)) = (rargs, h)"
    and c: "call_function n (pm_module p) host name rargs ((interp_new w)\<lparr>in_heap := h\<rparr>) = (s, r)"
    and cap: "capacity (in_heap s) \<le> 2 ^ 32" "capacity h \<le> 2 ^ 32"
    and e: "prepared_call_function n p name args host w = (w', Inl e)"
  shows "benign (entry_blocks (pm_module p)) e"
proof -
  have "heap_ok (in_heap (interp_new w))"
    using interp_ok_new [of w] by (simp add: interp_ok_def)
  with from_interop_ok(3) [OF a _ cap(2)]
  have ok: "interp_ok ((interp_new w)\<lparr>in_heap := h\<rparr>)" "valid_values h rargs"
    by (simp_all add: interp_ok_def interp_new_def)
  have run: "interp_ok s \<and> (case r of Inl e \<Rightarrow> benign (entry_blocks (pm_module p)) e
      | Inr v \<Rightarrow> valid_value (in_heap s) v)"
    by (rule call_function_run [OF verified_ok [OF v] _ c ok(1) _ cap(1)]) (simp_all add: ok(2))
  show ?thesis
  proof (cases r)
    case (Inl x)
    then show ?thesis using run e c a by (simp add: prepared_call_function_def)
  next
    case (Inr v)
    obtain h' rep where g: "collect trace_heap_value (extend_roots v []) (in_heap s) = Some (h', rep)"
      using rt_heap.collect_total by blast
    have "rooted (in_heap s) (extend_roots v []) v"
      by (rule rooted_refs) (simp add: extend_roots_refs)
    from materialize_collect [OF g this] have "materialize n (in_heap s) v = Inl e"
      using e c a Inr g by (auto simp: prepared_call_function_def collect_runtime_def rbind_eq_Inl)
    then have "e = Out_of_fuel"
      using materialize_benign [of "in_heap s" v n e] run Inr by (simp add: interp_ok_def)
    then show ?thesis by simp
  qed
qed

theorem prepared_call_safe_witness:
  "\<exists>w' e. prepared_call_function 5 \<lparr>pm_module = greeting\<rparr> ''nope'' [IV_Array [IV_Null]] host_new () = (w', Inl e) \<and>
     benign (entry_blocks greeting) e"
proof -
  let ?p = "\<lparr>pm_module = greeting\<rparr>" and ?args = "[IV_Array [IV_Null]]"
  let ?a = "runtime_values_from_interop ?args (in_heap (interp_new ()))"
  let ?s = "(interp_new ())\<lparr>in_heap := snd ?a\<rparr>"
  let ?c = "call_function 5 (pm_module ?p) host_new ''nope'' (fst ?a) ?s"
  have 1: "verify_module (pm_module ?p) = Inr ()" by code_simp
  have "capacity (in_heap (fst ?c)) = 1" "capacity (snd ?a) = 1" by code_simp+
  then have 2: "capacity (in_heap (fst ?c)) \<le> 2 ^ 32" "capacity (snd ?a) \<le> 2 ^ 32" by simp_all
  have "snd (prepared_call_function 5 ?p ''nope'' ?args host_new ()) =
      Inl (Error (E_Runtime (Unknown_Function ''nope'')))"
    by code_simp
  then obtain w' where e: "prepared_call_function 5 ?p ''nope'' ?args host_new () =
      (w', Inl (Error (E_Runtime (Unknown_Function ''nope''))))"
    by (metis prod.collapse)
  from prepared_call_safe [OF 1 prod.collapse [symmetric] prod.collapse [symmetric] 2 e] e
  show ?thesis by auto
qed

section \<open>What a run returns\<close>

text \<open>
  C9: When \<^verbatim>\<open>__entry\<close> returns, the output of the run is the console and the returned value as
  they were then: the final collection takes place, keeps everything they refer to, and only
  shows in the heap statistics.
\<close>

theorem execute_output:
  assumes "call_function n m host ''__entry'' [] (interp_new w) = (s, Inr v)"
  shows "\<exists>h' rep.
    collect trace_heap_value (concat (map value_refs (in_console s)) @ value_refs v) (in_heap s) = Some (h', rep) \<and>
    execute n m host w =
      (in_world s,
       rbind (rmap (materialize n (in_heap s)) (in_console s)) (\<lambda>console.
       rbind (materialize n (in_heap s) v) (\<lambda>value.
       Inr \<lparr>out_console = console, out_return_value = value,
            out_heap = \<lparr>live_objects = live_len h', allocated_slots = capacity (in_heap s),
                        last_collection = rep\<rparr>\<rparr>)))"
proof -
  obtain h' rep where
    c: "collect trace_heap_value (concat (map value_refs (in_console s)) @ value_refs v) (in_heap s) = Some (h', rep)"
    and f: "finish_run n (in_heap s) (in_console s) v =
      rbind (rmap (materialize n (in_heap s)) (in_console s)) (\<lambda>cs.
      rbind (materialize n (in_heap s) v) (\<lambda>x.
      Inr \<lparr>out_console = cs, out_return_value = x,
           out_heap = \<lparr>live_objects = live_len h', allocated_slots = capacity h', last_collection = rep\<rparr>\<rparr>))"
    using finish_run_output by blast
  then show ?thesis
    using rt_heap.collect_capacity [OF c] assms by (auto simp: execute_def)
qed

theorem execute_output_witness:
  "\<exists>s v. call_function 5 greeting host_new ''__entry'' [] (interp_new ()) = (s, Inr v) \<and>
     (\<exists>out. execute 5 greeting host_new () = (in_world s, Inr out) \<and> out_return_value out = V_String ''hi'')"
proof -
  have "snd (call_function 5 greeting host_new ''__entry'' [] (interp_new ())) = Inr (R_String ''hi'')"
    by code_simp
  then obtain s where c: "call_function 5 greeting host_new ''__entry'' [] (interp_new ()) = (s, Inr (R_String ''hi''))"
    by (metis prod.collapse)
  have "(case snd (execute 5 greeting host_new ()) of Inl _ \<Rightarrow> False
        | Inr out \<Rightarrow> out_return_value out = V_String ''hi'')"
    by code_simp
  with execute_output [OF c] c show ?thesis
    by (cases "execute 5 greeting host_new ()") (auto split: sum.splits)
qed

text \<open>
  A run that ends, with a result or an error, ends the same way and in the same host state
  with any more fuel; so its outcome does not depend on the fuel.
\<close>

theorem execute_fuel_irrelevant:
  assumes "n \<le> n'" and "snd (execute n m host w) \<noteq> Inl Out_of_fuel"
  shows "execute n' m host w = execute n m host w"
  using execute_mono [OF assms(1), of m host] assms(2) unfolding sle_def by metis

theorem execute_fuel_irrelevant_witness:
  "execute 100 greeting host_new () = execute 5 greeting host_new ()"
proof (rule execute_fuel_irrelevant)
  have "(case snd (execute 5 greeting host_new ()) of Inl _ \<Rightarrow> False | Inr _ \<Rightarrow> True)"
    by code_simp
  then show "snd (execute 5 greeting host_new ()) \<noteq> Inl Out_of_fuel"
    by (auto split: sum.splits)
qed simp

lemma finish_run_Inr: "finish_run n h console v = Inr out \<Longrightarrow> \<exists>x. materialize n h v = Inr x"
  using finish_run_output [of console v h n] by (auto simp: rbind_eq_Inr rbind_eq_sym)

section \<open>Conversions and loops that end, and some that do not\<close>

text \<open>
  With a rank on handles that decreases along references, a value is converted for the host
  within as much fuel as the rank of the handle it holds, plus one.
\<close>

theorem materialize_terminates:
  assumes "ranked rk h" and "\<forall>k\<in>set (value_refs v). rk k < n"
  shows "materialize n h v \<noteq> Inl Out_of_fuel"
  using materialize_ranked [OF assms(1)] assms(2) .

theorem materialize_terminates_witness:
  "materialize 1 (snd (allocate (H_Array [R_Null]) heap_new))
     (R_Array (fst (allocate (H_Array [R_Null]) heap_new))) \<noteq> Inl Out_of_fuel"
proof (rule materialize_terminates [where rk = "\<lambda>_. 0"])
  show "ranked (\<lambda>_. 0) (snd (allocate (H_Array [R_Null]) heap_new))"
    by (auto simp: ranked_def heap_get_def allocate_def heap_new_def nth_opt_def Let_def split: if_splits)
qed simp

text \<open>
  C27: A program that stores an object in its own field and returns it is accepted by the
  verifier, and its run never produces an output: with no amount of fuel does the conversion of
  the result end.
\<close>

theorem cyclic_result_never_returns:
  "verify_module self_reference = Inr () \<and>
   (\<forall>n. \<exists>e. snd (execute n self_reference host_new w) = Inl e)"
proof
  show "verify_module self_reference = Inr ()" by code_simp
  let ?k = "\<lparr>handle_index = 0, handle_generation = 0\<rparr>"
  show "\<forall>n. \<exists>e. snd (execute n self_reference host_new w) = Inl e"
  proof
    fix n
    show "\<exists>e. snd (execute n self_reference host_new w) = Inl e"
    proof (cases "\<exists>k. n = Suc (Suc k)")
      case True
      then obtain k where n: "n = Suc (Suc k)" by blast
      let ?h = "\<lparr>heap_slots = [\<lparr>slot_generation = 0, slot_value = Some (H_Object [(''self'', R_Object ?k)])\<rparr>],
        heap_free = [], heap_live = 1\<rparr>"
      have "call_function n self_reference host_new ''__entry'' [] (interp_new w) =
          (\<lparr>in_heap = ?h, in_console = [], in_world = w\<rparr>, Inr (R_Object ?k))"
        by (simp add: n sample_defs call_host_def on_heap_def sbind_def sret_def slift_def find_function_def
            execute_frame_def find_block_def execute_instruction_def operand_def module_constant_def
            allocate_value_def allocate_def heap_new_def interp_new_def push_continue_def push_value_def
            frame_new_def resize_def operand_value_def operand_symbol_def frame_value_def write_heap_def
            heap_get_def heap_get_mut_def Let_def nth_opt_def)
      moreover have "materialize n ?h (R_Object ?k) \<noteq> Inr x" for x
        by (rule materialize_endless [of "{?k}"])
          (auto simp: endless_def heap_get_def nth_opt_def)
      ultimately show ?thesis
        using finish_run_Inr [of n ?h "[]" "R_Object ?k"]
        by (cases "finish_run n ?h [] (R_Object ?k)") (auto simp: execute_def)
    next
      case False
      then have "n = 0 \<or> n = 1" by (cases n; cases "n - 1") auto
      then show ?thesis
        by (auto simp: execute_def call_host_def on_heap_def sbind_def sret_def slift_def sfail_def
            find_function_def sample_defs execute_frame_def)
    qed
  qed
qed

text \<open>
  C26: A function whose jumps all lead to blocks with a higher id ends: when its calls and its
  binary operations do, the block loop needs to run one block more than the function has, and
  then never runs out of fuel, so it returns a value or an error; more fuel for the loop changes
  nothing.
\<close>

theorem forward_function_terminates:
  assumes "forward_only f" and "length (fn_blocks f) < k"
    and "\<And>b i fr s. b \<in> set (fn_blocks f) \<Longrightarrow> i \<in> set (blk_instructions b) \<Longrightarrow>
      ins_opcode i = Call \<or> ins_opcode i = Binary \<Longrightarrow>
      snd (execute_instruction n call m i fr s) \<noteq> Inl Out_of_fuel"
  shows "snd (execute_blocks k n call m f 0 fr s) \<noteq> Inl Out_of_fuel \<and>
    execute_blocks k n call m f 0 fr s = execute_blocks (Suc (length (fn_blocks f))) n call m f 0 fr s"
proof -
  obtain j where j: "k = Suc j" "length (fn_blocks f) \<le> j" using assms(2) by (cases k) auto
  have c: "card {i \<in> set (map blk_id (fn_blocks f)). 0 \<le> i} \<le> j" using card_ids_le j(2) by (rule order_trans)
  have "keeps_fuel (execute_instructions n call m (blk_instructions b) fr)" if "b \<in> set (fn_blocks f)" for b fr
    by (rule instructions_end) (metis instruction_ends assms(3) [OF that] keeps_fuel_def)
  from forward_blocks_return [OF assms(1) this c] forward_blocks_enough [OF assms(1) card_ids_le j(2)]
  show ?thesis unfolding j(1) by (intro conjI) (assumption, rule sym)
qed

theorem forward_function_terminates_witness:
  "\<forall>call fr (s :: unit interp).
     snd (execute_blocks 3 0 call (two_blocks 0) (hd (mod_functions (two_blocks 0))) 0 fr s) \<noteq> Inl Out_of_fuel"
proof (intro allI)
  fix call fr and s :: "unit interp"
  let ?f = "hd (mod_functions (two_blocks 0))"
  have f: "forward_only ?f" and l: "length (fn_blocks ?f) < 3" by code_simp+
  show "snd (execute_blocks 3 0 call (two_blocks 0) ?f 0 fr s) \<noteq> Inl Out_of_fuel"
    by (rule conjunct1 [OF forward_function_terminates [OF f l]]) (auto simp: sample_defs)
qed

section \<open>Gaps between the verifier and the interpreter\<close>

text \<open>A module with every block numbered one higher, in the jumps and exception tables as well.\<close>

definition shift_instruction :: "instruction \<Rightarrow> instruction" where
  "shift_instruction i =
     i\<lparr>ins_operands :=
        (case ins_opcode i of
           Jump \<Rightarrow> map (\<lambda>t. t + 1) (ins_operands i)
         | Branch \<Rightarrow> take 1 (ins_operands i) @ map (\<lambda>t. t + 1) (drop 1 (ins_operands i))
         | _ \<Rightarrow> ins_operands i)\<rparr>"

definition shift_block :: "bytecode_block \<Rightarrow> bytecode_block" where
  "shift_block b = b\<lparr>blk_id := blk_id b + 1, blk_instructions := map shift_instruction (blk_instructions b)\<rparr>"

definition shift_entry :: "exception_entry \<Rightarrow> exception_entry" where
  "shift_entry e =
     e\<lparr>start_block := start_block e + 1, end_block := end_block e + 1, handler_block := handler_block e + 1\<rparr>"

definition shift_function :: "bytecode_function \<Rightarrow> bytecode_function" where
  "shift_function f =
     f\<lparr>fn_blocks := map shift_block (fn_blocks f), fn_exception_table := map shift_entry (fn_exception_table f)\<rparr>"

definition shift_blocks :: "bytecode_module \<Rightarrow> bytecode_module" where
  "shift_blocks m = m\<lparr>mod_functions := map shift_function (mod_functions m)\<rparr>"

lemma shift_instruction_simps [simp]:
  "ins_opcode (shift_instruction i) = ins_opcode i" "ins_source_ref (shift_instruction i) = ins_source_ref i"
  "ins_type_tag (shift_instruction i) = ins_type_tag i" "locals_after (shift_instruction i) = locals_after i"
  by (simp_all add: shift_instruction_def locals_after_def fun_eq_iff split: opcode.split)

lemma shift_operands_ok:
  "operands_ok m bs vs l i \<Longrightarrow>
   operands_ok (shift_blocks m) ((\<lambda>t. t + 1) ` bs) vs l (shift_instruction i)"
  by (cases "ins_opcode i")
    (auto simp: operands_ok_def shift_instruction_def shift_blocks_def constant_ok_def)

lemma shift_block_ok:
  assumes "block_ok m bs f b"
  shows "block_ok (shift_blocks m) ((\<lambda>t. t + 1) ` bs) (shift_function f) (shift_block b)"
  unfolding block_ok_def
proof (intro allI impI)
  fix pre i post
  assume "blk_instructions (shift_block b) = pre @ i # post"
  then obtain pre' i' post' where s: "pre = map shift_instruction pre'" "i = shift_instruction i'"
    "blk_instructions b = pre' @ i' # post'"
    by (auto simp: shift_block_def map_eq_append_conv map_eq_Cons_conv)
  have l: "fold locals_after pre = fold locals_after pre'" by (simp add: s(1) fold_map comp_def)
  have v: "values_before pre = values_before pre'" by (simp add: s(1) values_before_def filter_map comp_def)
  from assms s(3) have "instruction_ok m bs (value_ids (values_before pre'))
      (fold locals_after pre' (word_of_nat (length (fn_params f)))) i'"
    unfolding block_ok_def by blast
  then show "instruction_ok (shift_blocks m) ((\<lambda>t. t + 1) ` bs) (value_ids (values_before pre))
      (fold locals_after pre (word_of_nat (length (fn_params (shift_function f))))) i"
    using shift_operands_ok unfolding l v by (auto simp: instruction_ok_def s(2) shift_blocks_def shift_function_def)
qed

lemma shift_not_zero: "x \<noteq> (- 1 :: u32) \<Longrightarrow> x + 1 \<noteq> 0"
  by (metis add.commute add_eq_0_iff)

lemma shift_order: "x \<le> y \<Longrightarrow> x \<noteq> - 1 \<Longrightarrow> y \<noteq> (- 1 :: u32) \<Longrightarrow> x + 1 \<le> y + 1"
  using shift_not_zero [of x] shift_not_zero [of y] by (simp add: word_le_nat_alt unatSuc add.commute)

lemma shift_function_ok:
  assumes "function_ok m f" and "\<forall>b\<in>set (fn_blocks f). blk_id b \<noteq> - 1"
  shows "function_ok (shift_blocks m) (shift_function f)"
proof -
  let ?ids = "set (map blk_id (fn_blocks f))"
  have ids: "set (map blk_id (fn_blocks (shift_function f))) = (\<lambda>t. t + 1) ` ?ids"
    by (auto simp: shift_function_def shift_block_def image_image)
  have "has_terminator (shift_function f)"
    using assms(1) by (auto simp: function_ok_def has_terminator_def shift_function_def shift_block_def)
  moreover have "block_ok (shift_blocks m) ((\<lambda>t. t + 1) ` ?ids) (shift_function f) b"
    if "b \<in> set (fn_blocks (shift_function f))" for b
    using that assms(1) shift_block_ok by (auto simp: function_ok_def Let_def shift_function_def)
  moreover have "\<forall>e\<in>set (fn_exception_table (shift_function f)).
      start_block e \<in> (\<lambda>t. t + 1) ` ?ids \<and> end_block e \<in> (\<lambda>t. t + 1) ` ?ids \<and>
      handler_block e \<in> (\<lambda>t. t + 1) ` ?ids \<and> start_block e \<le> end_block e"
    using assms by (auto simp: function_ok_def Let_def shift_function_def shift_entry_def intro!: shift_order imageI)
  ultimately show ?thesis unfolding function_ok_def Let_def ids by blast
qed

text \<open>
  C28: The verifier does not ask for the block the interpreter starts with. Every accepted module
  that has an entry function stays accepted when its blocks are numbered one higher (no id being
  the last of 32 bits), and then each of its runs fails with the missing block 0, before any
  instruction and any effect, unless the host answers for the entry function.
\<close>

theorem missing_entry_block_fails:
  assumes "verify_module m = Inr ()"
    and "\<forall>f\<in>set (mod_functions m). \<forall>b\<in>set (fn_blocks f). blk_id b \<noteq> - 1"
    and "\<exists>f\<in>set (mod_functions m). fn_name f = ''__entry''" and "host_call host ''__entry'' [] = None"
  shows "verify_module (shift_blocks m) = Inr () \<and>
    execute_module_with_host (Suc (Suc n)) (shift_blocks m) host w =
      (w, Inl (Error (E_Runtime (Block_Missing 0))))"
proof
  from assms(1,2) have "\<forall>f\<in>set (mod_functions m). function_ok (shift_blocks m) (shift_function f)"
    using shift_function_ok by (auto simp: verify_module_iff module_ok_def)
  with assms(1) show v: "verify_module (shift_blocks m) = Inr ()"
    by (auto simp: verify_module_iff module_ok_def shift_blocks_def)
  let ?P = "\<lambda>f. fn_name f = ''__entry''"
  from assms(3) obtain f where f: "find ?P (mod_functions (shift_blocks m)) = Some f"
    by (cases "find ?P (mod_functions (shift_blocks m))")
      (auto simp: find_None_iff shift_blocks_def shift_function_def)
  then have "f \<in> set (map shift_function (mod_functions m))"
    by (auto simp: find_Some_iff shift_blocks_def)
  then have "0 \<notin> set (map blk_id (fn_blocks f))"
    using assms(2) shift_not_zero by (force simp: shift_function_def shift_block_def)
  then have "find_block f 0 = runtime_fail (Block_Missing 0)"
    by (auto simp: find_block_def find_Some_iff split: option.splits)
  with v f assms(4) show "execute_module_with_host (Suc (Suc n)) (shift_blocks m) host w =
      (w, Inl (Error (E_Runtime (Block_Missing 0))))"
    by (simp add: execute_module_with_host_def execute_def call_host_def on_heap_def sem_simps sbind_def
        sret_def slift_def find_function_def execute_frame_def runtime_fail_def interp_new_def)
qed

theorem missing_entry_block_fails_witness:
  "verify_module (shift_blocks greeting) = Inr () \<and>
   execute_module_with_host 2 (shift_blocks greeting) host_new () =
     ((), Inl (Error (E_Runtime (Block_Missing 0))))"
proof -
  have v: "verify_module greeting = Inr ()" by code_simp
  have "\<forall>f\<in>set (mod_functions greeting). \<forall>b\<in>set (fn_blocks f). blk_id b \<noteq> - 1"
    "\<exists>f\<in>set (mod_functions greeting). fn_name f = ''__entry''"
    by (simp_all add: sample_defs)
  from missing_entry_block_fails [OF v this host_call_new, of 0 "()"] show ?thesis
    by (simp add: numeral_2_eq_2)
qed

text \<open>
  The verifier numbers values from zero in every block, the interpreter through the whole
  call. A second block that returns "value 0" is accepted and returns the value the first block
  computed, not its own; the module that names its own value by the number the interpreter
  uses is rejected.
\<close>

theorem value_numbering_mismatch:
  "verify_module (two_blocks 0) = Inr () \<and>
   (case snd (execute 5 (two_blocks 0) host_new ()) of
      Inl _ \<Rightarrow> False | Inr out \<Rightarrow> out_return_value out = V_String ''first'') \<and>
   verify_module (two_blocks 1) \<noteq> Inr () \<and>
   (case snd (execute 5 (two_blocks 1) host_new ()) of
      Inl _ \<Rightarrow> False | Inr out \<Rightarrow> out_return_value out = V_String ''second'')"
proof (intro conjI)
  show "verify_module (two_blocks 0) = Inr ()" by code_simp
  show "case snd (execute 5 (two_blocks 0) host_new ()) of
      Inl _ \<Rightarrow> False | Inr out \<Rightarrow> out_return_value out = V_String ''first''"
    by code_simp
  show "case snd (execute 5 (two_blocks 1) host_new ()) of
      Inl _ \<Rightarrow> False | Inr out \<Rightarrow> out_return_value out = V_String ''second''"
    by code_simp
  have "(case verify_module (two_blocks 1) of Inl _ \<Rightarrow> True | Inr _ \<Rightarrow> False)" by code_simp
  then show "verify_module (two_blocks 1) \<noteq> Inr ()" by auto
qed

end
