(* ===== verification/Ast.thy ===== *)
theory Ast
  imports Tokens
begin

text \<open>
  \<^verbatim>\<open>runtime/ast\<close>: programs, statements, expressions and type nodes, each with the span it was
  parsed from. Structs that contain themselves are datatypes with named fields, the others
  records.
\<close>

section \<open>Types\<close>

datatype type_node = Type_Node (tn_kind: type_kind) (tn_span: span)
and type_kind =
  TK_Number
| TK_String
| TK_Boolean
| TK_Null
| TK_Undefined
| TK_Named string
| TK_Array type_node
| TK_Object "type_member list"
and type_member = Type_Member (tm_name: string) (tm_ty: type_node) (tm_span: span)

section \<open>Expressions\<close>

datatype unary_operator = Negate | Not_Op

datatype binary_operator =
  Op_Add | Op_Subtract | Op_Multiply | Op_Divide | Op_Remainder | Op_Equal | Op_StrictEqual
| Op_NotEqual | Op_StrictNotEqual | Op_Less | Op_LessEqual | Op_Greater | Op_GreaterEqual
| Op_LogicalAnd | Op_LogicalOr | Op_NullishCoalesce

datatype assignment_operator =
  Assign | AddAssign | SubtractAssign | MultiplyAssign | DivideAssign | RemainderAssign

datatype expression = Expression (ex_kind: expression_kind) (ex_span: span)
and expression_kind =
  Ex_Identifier string
| Ex_Number string
| Ex_String string
| Ex_Boolean bool
| Ex_Null
| Ex_Undefined
| Ex_Object "object_property list"
| Ex_Array "expression list"
| Ex_Member expression string
| Ex_Call expression "expression list"
| Ex_Unary unary_operator expression
| Ex_Binary expression binary_operator expression
| Ex_Assignment expression assignment_operator expression
| Ex_Error
and object_property = Object_Property (pp_name: string) (pp_value: expression) (pp_span: span)

section \<open>Statements\<close>

record import_declaration =
  im_names :: "string list"
  im_from :: string

record interface_declaration =
  if_name :: string
  if_members :: "type_member list"

record type_alias_declaration =
  ta_name :: string
  ta_ty :: type_node

record class_member =
  cm_name :: string
  cm_ty :: "type_node option"
  cm_initializer :: "expression option"
  cm_span :: span

record class_declaration =
  cl_name :: string
  cl_members :: "class_member list"

record parameter =
  pa_name :: string
  pa_ty :: "type_node option"
  pa_span :: span

datatype variable_kind = VK_Let | VK_Const | VK_Var

record variable_declaration =
  vd_kind :: variable_kind
  vd_name :: string
  vd_ty :: "type_node option"
  vd_initializer :: "expression option"

datatype statement = Statement (st_kind: statement_kind) (st_span: span)
and statement_kind =
  S_Import import_declaration
| S_Export statement
| S_Interface interface_declaration
| S_TypeAlias type_alias_declaration
| S_Class class_declaration
| S_Function function_declaration
| S_Variable variable_declaration
| S_Return "expression option"
| S_Throw expression
| S_If if_statement
| S_While while_statement
| S_For for_statement
| S_Block "statement list"
| S_Expression expression
| S_Empty
| S_Error
and function_declaration =
  Function_Declaration (fd_name: string) (fd_params: "parameter list")
    (fd_return_type: "type_node option") (fd_body: "statement list")
and if_statement =
  If_Statement (if_test: expression) (if_consequent: statement) (if_alternate: "statement option")
and while_statement = While_Statement (wh_test: expression) (wh_body: statement)
and for_statement =
  For_Statement (fo_initializer: "statement option") (fo_test: "expression option")
    (fo_update: "expression option") (fo_body: statement)

record program =
  pg_body :: "statement list"
  pg_span :: "span option"

end
