(* ===== verification/Lexer.thy ===== *)
theory Lexer
  imports Rust_Text Tokens
begin

text \<open>
  \<^verbatim>\<open>runtime/lexer\<close>: from source text to tokens with spans. The source is its UTF-8 bytes and a
  Rust \<^verbatim>\<open>char\<close> is the string of its bytes. Methods that take \<^verbatim>\<open>&mut self\<close> are functions from
  the lexer state to the next one. The loops end because every turn moves the cursor.
\<close>

definition lex_error_message :: "lex_error \<Rightarrow> string" where
  "lex_error_message e =
     (let place = show_nat (pos_line (span_start (le_span e))) @ '':'' @
                  show_nat (pos_column (span_start (le_span e)))
      in case le_kind e of
           UnexpectedCharacter ch \<Rightarrow> ''unexpected character `'' @ ch @ ''` at '' @ place
         | UnterminatedString \<Rightarrow> ''unterminated string at '' @ place
         | UnterminatedBlockComment \<Rightarrow> ''unterminated block comment at '' @ place)"

text \<open>A lexical error, or the failed \<^verbatim>\<open>expect\<close> of \<^verbatim>\<open>next_token\<close>.\<close>

datatype lex_failure = Lex_Error lex_error | Lex_Panic

section \<open>The cursor\<close>

record lexer =
  lx_source :: string
  lx_cursor :: nat
  lx_line :: nat
  lx_column :: nat

definition lexer_new :: "string \<Rightarrow> lexer" where
  "lexer_new source = \<lparr>lx_source = source, lx_cursor = 0, lx_line = 1, lx_column = 1\<rparr>"

definition lx_rest :: "lexer \<Rightarrow> string" where
  "lx_rest lx = drop (lx_cursor lx) (lx_source lx)"

definition lx_slice :: "lexer \<Rightarrow> nat \<Rightarrow> string" where
  "lx_slice lx start = take (lx_cursor lx - start) (drop start (lx_source lx))"

text \<open>\<^verbatim>\<open>chars().next()\<close>: the first byte tells how many bytes the character has.\<close>

definition char_len :: "char \<Rightarrow> nat" where
  "char_len c = max 1 (utf8_char_width (byte c))"

definition first_char :: "string \<Rightarrow> string option" where
  "first_char s = (case s of [] \<Rightarrow> None | c # _ \<Rightarrow> Some (take (char_len c) s))"

definition peek :: "lexer \<Rightarrow> string option" where
  "peek lx = first_char (lx_rest lx)"

definition peek_next :: "lexer \<Rightarrow> string option" where
  "peek_next lx =
     (case first_char (lx_rest lx) of
        None \<Rightarrow> None
      | Some ch \<Rightarrow> first_char (drop (length ch) (lx_rest lx)))"

definition is_at_end :: "lexer \<Rightarrow> bool" where
  "is_at_end lx \<longleftrightarrow> length (lx_source lx) \<le> lx_cursor lx"

definition lx_position :: "lexer \<Rightarrow> position" where
  "lx_position lx = \<lparr>pos_byte = lx_cursor lx, pos_line = lx_line lx, pos_column = lx_column lx\<rparr>"

definition newline :: string where
  "newline = [char_of (10 :: nat)]"

definition advance :: "lexer \<Rightarrow> lexer \<times> string option" where
  "advance lx =
     (case peek lx of
        None \<Rightarrow> (lx, None)
      | Some ch \<Rightarrow>
          (let lx1 = lx\<lparr>lx_cursor := lx_cursor lx + length ch\<rparr>
           in if ch = newline
              then (lx1\<lparr>lx_line := lx_line lx1 + 1, lx_column := 1\<rparr>, Some ch)
              else (lx1\<lparr>lx_column := lx_column lx1 + 1\<rparr>, Some ch)))"

text \<open>\<^verbatim>\<open>self.advance();\<close> with the character dropped.\<close>

definition skip_char :: "lexer \<Rightarrow> lexer" where
  "skip_char lx = fst (advance lx)"

definition match_char :: "string \<Rightarrow> lexer \<Rightarrow> lexer \<times> bool" where
  "match_char expected lx =
     (if peek lx = Some expected then (skip_char lx, True) else (lx, False))"

definition match_or :: "token_kind \<Rightarrow> token_kind \<Rightarrow> string \<Rightarrow> lexer \<Rightarrow> lexer \<times> token_kind" where
  "match_or matched unmatched expected lx =
     (case match_char expected lx of (lx1, b) \<Rightarrow> (lx1, if b then matched else unmatched))"

lemma first_char_Some: "first_char s = Some ch \<Longrightarrow> ch \<noteq> [] \<and> length ch \<le> length s \<and> s = ch @ drop (length ch) s"
proof -
  assume "first_char s = Some ch"
  then obtain c cs where s: "s = c # cs" "ch = take (char_len c) s"
    by (auto simp: first_char_def split: list.splits)
  moreover have "0 < char_len c" by (simp add: char_len_def)
  moreover have "drop (length (take n s)) s = drop n s" for n by (cases "n \<le> length s") auto
  ultimately show ?thesis by (metis append_take_drop_id length_take list.distinct(1) min.cobounded1 take_eq_Nil less_numeral_extra(3))
qed

lemma first_char_None [simp]: "first_char s = None \<longleftrightarrow> s = []" "first_char [] = None"
  by (auto simp: first_char_def split: list.splits)

lemma advance_cases:
  obtains (stop) "lx_rest lx = []" "peek lx = None" "advance lx = (lx, None)" "skip_char lx = lx"
  | (char) ch where "peek lx = Some ch" "advance lx = (skip_char lx, Some ch)"
      "lx_source (skip_char lx) = lx_source lx" "lx_cursor (skip_char lx) = lx_cursor lx + length ch"
      "lx_cursor lx < lx_cursor (skip_char lx)" "lx_cursor (skip_char lx) \<le> length (lx_source lx)"
proof (cases "peek lx")
  case None
  with stop show thesis by (simp add: advance_def skip_char_def peek_def)
next
  case (Some ch)
  note f = first_char_Some [OF Some [unfolded peek_def]]
  then have "lx_cursor lx < length (lx_source lx)"
    by (cases "lx_cursor lx < length (lx_source lx)") (auto simp: lx_rest_def)
  with f Some show thesis
    by (intro char [of ch]) (auto simp: advance_def skip_char_def Let_def lx_rest_def)
qed

text \<open>\<open>moves lx lx'\<close>: some characters are consumed, by which everything below proceeds.\<close>

definition moves :: "lexer \<Rightarrow> lexer \<Rightarrow> bool" where
  "moves lx lx' \<longleftrightarrow> (\<exists>n. lx' = (skip_char ^^ n) lx)"

named_theorems moves_intro "lexer steps only move forward"

lemma moves_refl [simp, moves_intro]: "moves lx lx"
  unfolding moves_def by (rule exI [of _ 0]) simp

lemma moves_trans: "moves lx lx1 \<Longrightarrow> moves lx1 lx2 \<Longrightarrow> moves lx lx2"
  unfolding moves_def by (metis add.commute funpow_add o_apply)

lemma moves_skip [moves_intro]: "moves lx (skip_char lx)"
  unfolding moves_def by (rule exI [of _ 1]) simp

lemma moves_induct [consumes 1, case_names refl skip]:
  assumes "moves lx lx'" and "P lx" and "\<And>lx1. moves lx lx1 \<Longrightarrow> P lx1 \<Longrightarrow> P (skip_char lx1)"
  shows "P lx'"
proof -
  obtain n where n: "lx' = (skip_char ^^ n) lx" using assms(1) unfolding moves_def by blast
  have "P ((skip_char ^^ n) lx)"
  proof (induction n)
    case (Suc n)
    have "moves lx ((skip_char ^^ n) lx)" unfolding moves_def by blast
    with Suc assms(3) show ?case by simp
  qed (simp add: assms(2))
  with n show ?thesis by simp
qed

lemma moves_bounds:
  assumes "moves lx lx'"
  shows "lx_source lx' = lx_source lx" and "lx_cursor lx \<le> lx_cursor lx'"
    and "lx_cursor lx \<le> length (lx_source lx) \<Longrightarrow> lx_cursor lx' \<le> length (lx_source lx)"
proof -
  have "lx_source lx' = lx_source lx \<and> lx_cursor lx \<le> lx_cursor lx' \<and>
      (lx_cursor lx \<le> length (lx_source lx) \<longrightarrow> lx_cursor lx' \<le> length (lx_source lx))"
    using assms
  proof (induction rule: moves_induct)
    case (skip lx1)
    then show ?case by (cases rule: advance_cases [of lx1]) auto
  qed simp
  then show "lx_source lx' = lx_source lx" and "lx_cursor lx \<le> lx_cursor lx'"
    and "lx_cursor lx \<le> length (lx_source lx) \<Longrightarrow> lx_cursor lx' \<le> length (lx_source lx)"
    by auto
qed

lemma moves_advance: "advance lx = (lx', r) \<Longrightarrow> moves lx lx'"
  using moves_skip [of lx] by (simp add: skip_char_def)

lemma moves_match [moves_intro]: "match_char c lx = (lx', b) \<Longrightarrow> moves lx lx'"
  by (auto simp: match_char_def moves_skip split: if_splits)

lemma moves_match_or [moves_intro]: "moves lx (fst (match_or a b c lx))"
  by (auto simp: match_or_def moves_match split: prod.splits)

definition lx_left :: "lexer \<Rightarrow> nat" where
  "lx_left lx = length (lx_source lx) - lx_cursor lx"

lemma skip_char_left: "peek lx = Some ch \<Longrightarrow> lx_left (skip_char lx) < lx_left lx"
proof (cases rule: advance_cases [of lx])
  case (char c)
  then show ?thesis by (simp only: lx_left_def)
qed simp

lemma moves_left: "moves lx lx' \<Longrightarrow> lx_left lx' \<le> lx_left lx"
  using moves_bounds(1,2) by (simp add: lx_left_def diff_le_mono2)

section \<open>Literals, names and trivia\<close>

function consume_while :: "(string \<Rightarrow> bool) \<Rightarrow> lexer \<Rightarrow> lexer" where
  "consume_while p lx =
     (case peek lx of
        None \<Rightarrow> lx
      | Some ch \<Rightarrow> if p ch then consume_while p (skip_char lx) else lx)"
  by pat_completeness auto
termination
  by (relation "measure (\<lambda>(p, lx). lx_left lx)") (auto simp: skip_char_left)

declare consume_while.simps [simp del]

lemma moves_consume [moves_intro]: "moves lx (consume_while p lx)"
proof (induction p lx rule: consume_while.induct)
  case (1 p lx)
  show ?case
    by (subst consume_while.simps)
      (auto split: option.split intro: moves_trans [OF moves_skip] 1)
qed

definition char_in :: "nat \<Rightarrow> nat \<Rightarrow> char \<Rightarrow> bool" where
  "char_in lo hi c \<longleftrightarrow> lo \<le> byte c \<and> byte c \<le> hi"

definition ascii_digit :: "char \<Rightarrow> bool" where
  "ascii_digit c = char_in 48 57 c"

definition ident_start :: "char \<Rightarrow> bool" where
  "ident_start c \<longleftrightarrow> char_in 97 122 c \<or> char_in 65 90 c \<or> byte c = 95 \<or> byte c = 36"

definition ident_part :: "char \<Rightarrow> bool" where
  "ident_part c \<longleftrightarrow> ident_start c \<or> ascii_digit c"

text \<open>A predicate on ASCII characters, read on the bytes of a \<^verbatim>\<open>char\<close>.\<close>

definition on_char :: "(char \<Rightarrow> bool) \<Rightarrow> string \<Rightarrow> bool" where
  "on_char p ch \<longleftrightarrow> (case ch of [c] \<Rightarrow> p c | _ \<Rightarrow> False)"

text \<open>\<^verbatim>\<open>char::is_whitespace\<close>: the UTF-8 forms of the code points with \<^verbatim>\<open>White_Space\<close>.\<close>

definition whitespace_chars :: "nat list list" where
  "whitespace_chars =
     [[9], [10], [11], [12], [13], [32], [194, 133], [194, 160], [225, 154, 128],
      [226, 128, 128], [226, 128, 129], [226, 128, 130], [226, 128, 131], [226, 128, 132],
      [226, 128, 133], [226, 128, 134], [226, 128, 135], [226, 128, 136], [226, 128, 137],
      [226, 128, 138], [226, 128, 168], [226, 128, 169], [226, 128, 175], [226, 129, 159],
      [227, 128, 128]]"

definition is_whitespace :: "string \<Rightarrow> bool" where
  "is_whitespace ch \<longleftrightarrow> map byte ch \<in> set whitespace_chars"

definition keyword :: "string \<Rightarrow> token_kind option" where
  "keyword text = map_of
     [(''let'', T_Let), (''const'', T_Const), (''var'', T_Var), (''function'', T_Function),
      (''interface'', T_Interface), (''type'', T_Type), (''class'', T_Class), (''import'', T_Import),
      (''export'', T_Export), (''from'', T_From), (''if'', T_If), (''else'', T_Else),
      (''switch'', T_Switch), (''case'', T_Case), (''default'', T_Default), (''for'', T_For),
      (''while'', T_While), (''do'', T_Do), (''try'', T_Try), (''catch'', T_Catch),
      (''finally'', T_Finally), (''throw'', T_Throw), (''return'', T_Return), (''new'', T_New),
      (''as'', T_As), (''extends'', T_Extends), (''implements'', T_Implements),
      (''number'', T_NumberType), (''string'', T_StringType), (''boolean'', T_BooleanType),
      (''true'', T_BooleanLiteral True), (''false'', T_BooleanLiteral False),
      (''null'', T_Null), (''undefined'', T_Undefined)] text"

definition identifier_or_keyword :: "position \<Rightarrow> lexer \<Rightarrow> lexer \<times> token_kind" where
  "identifier_or_keyword start lx =
     (let lx1 = consume_while (on_char ident_part) lx;
          text = lx_slice lx1 (pos_byte start)
      in (lx1, case keyword text of Some k \<Rightarrow> k | None \<Rightarrow> T_Identifier text))"

definition consume_digits :: "lexer \<Rightarrow> lexer" where
  "consume_digits = consume_while (on_char ascii_digit)"

definition peek_is :: "(char \<Rightarrow> bool) \<Rightarrow> lexer \<Rightarrow> bool" where
  "peek_is p lx \<longleftrightarrow> (case peek lx of None \<Rightarrow> False | Some ch \<Rightarrow> on_char p ch)"

definition fraction_part :: "lexer \<Rightarrow> lexer" where
  "fraction_part lx =
     (if peek lx = Some ''.'' \<and> (case peek_next lx of None \<Rightarrow> False | Some ch \<Rightarrow> on_char ascii_digit ch)
      then consume_digits (skip_char lx) else lx)"

text \<open>An \<^verbatim>\<open>e\<close> that no exponent follows is given back: cursor, line and column are restored.\<close>

definition exponent_part :: "lexer \<Rightarrow> lexer" where
  "exponent_part lx =
     (if peek_is (\<lambda>c. c = CHR ''e'' \<or> c = CHR ''E'') lx
      then
        (let lx1 = skip_char lx;
             lx2 = (if peek_is (\<lambda>c. c = CHR ''+'' \<or> c = CHR ''-'') lx1 then skip_char lx1 else lx1)
         in if peek_is ascii_digit lx2 then consume_digits lx2
            else lx2\<lparr>lx_cursor := lx_cursor lx, lx_line := lx_line lx, lx_column := lx_column lx\<rparr>)
      else lx)"

definition number_literal :: "position \<Rightarrow> lexer \<Rightarrow> lexer \<times> token_kind" where
  "number_literal start lx =
     (let lx1 = exponent_part (fraction_part (consume_digits lx))
      in (lx1, T_NumberLiteral (lx_slice lx1 (pos_byte start))))"

definition carriage_return :: string where
  "carriage_return = [char_of (13 :: nat)]"

definition unescape :: "string \<Rightarrow> string" where
  "unescape escaped =
     (if escaped = ''n'' then newline
      else if escaped = ''r'' then carriage_return
      else if escaped = ''t'' then [char_of (9 :: nat)]
      else escaped)"

definition lex_error_at :: "lex_error_kind \<Rightarrow> position \<Rightarrow> lexer \<Rightarrow> lex_failure" where
  "lex_error_at kind start lx =
     Lex_Error \<lparr>le_kind = kind, le_span = \<lparr>span_start = start, span_end = lx_position lx\<rparr>\<rparr>"

definition backslash :: string where
  "backslash = [char_of (92 :: nat)]"

function string_literal ::
  "position \<Rightarrow> string \<Rightarrow> string \<Rightarrow> lexer \<Rightarrow> lexer \<times> (lex_failure + token_kind)" where
  "string_literal start quote_char val lx =
     (case peek lx of
        None \<Rightarrow> (lx, Inl (lex_error_at UnterminatedString start lx))
      | Some ch \<Rightarrow>
          if ch = quote_char then (skip_char lx, Inr (T_StringLiteral val))
          else if ch = newline \<or> ch = carriage_return
          then (lx, Inl (lex_error_at UnterminatedString start lx))
          else if ch = backslash
          then
            (case peek (skip_char lx) of
               None \<Rightarrow> (skip_char lx, Inl (lex_error_at UnterminatedString start (skip_char lx)))
             | Some escaped \<Rightarrow>
                 string_literal start quote_char (val @ unescape escaped) (skip_char (skip_char lx)))
          else string_literal start quote_char (val @ ch) (skip_char lx))"
  by pat_completeness auto
termination
  by (relation "measure (\<lambda>(start, q, v, lx). lx_left lx)")
    (auto simp: skip_char_left intro: less_trans [OF skip_char_left skip_char_left])

declare string_literal.simps [simp del]

function skip_line :: "lexer \<Rightarrow> lexer" where
  "skip_line lx =
     (case peek lx of
        None \<Rightarrow> lx
      | Some ch \<Rightarrow> if ch \<noteq> newline then skip_line (skip_char lx) else lx)"
  by pat_completeness auto
termination
  by (relation "measure lx_left") (auto simp: skip_char_left)

declare skip_line.simps [simp del]

function comment_end :: "position \<Rightarrow> lexer \<Rightarrow> lexer \<times> (lex_failure + unit)" where
  "comment_end start lx =
     (case peek lx of
        None \<Rightarrow> (lx, Inl (lex_error_at UnterminatedBlockComment start lx))
      | Some ch \<Rightarrow>
          if ch = ''*'' \<and> peek_next lx = Some ''/'' then (skip_char (skip_char lx), Inr ())
          else comment_end start (skip_char lx))"
  by pat_completeness auto
termination
  by (relation "measure (\<lambda>(start, lx). lx_left lx)") (auto simp: skip_char_left)

declare comment_end.simps [simp del]

definition skip_block_comment :: "lexer \<Rightarrow> lexer \<times> (lex_failure + unit)" where
  "skip_block_comment lx = comment_end (lx_position lx) (skip_char (skip_char lx))"

lemma moves_skip_line [moves_intro]: "moves lx (skip_line lx)"
proof (induction lx rule: skip_line.induct)
  case (1 lx)
  show ?case
    by (subst skip_line.simps) (auto split: option.split intro: moves_trans [OF moves_skip] 1)
qed

lemma moves_comment_end: "comment_end start lx = (lx', r) \<Longrightarrow> moves lx lx'"
proof (induction start lx arbitrary: lx' r rule: comment_end.induct)
  case (1 start lx)
  from 1(2) show ?case
    by (subst (asm) comment_end.simps)
      (auto split: option.splits if_splits intro: moves_trans [OF moves_skip] moves_skip 1(1))
qed

lemma moves_block_comment [moves_intro]: "skip_block_comment lx = (lx', r) \<Longrightarrow> moves (skip_char lx) lx'"
  unfolding skip_block_comment_def
  by (blast intro: moves_trans moves_skip dest: moves_comment_end)

lemma block_comment_left:
  "skip_block_comment lx = (lx1, r) \<Longrightarrow> peek lx = Some ch \<Longrightarrow> lx_left lx1 < lx_left lx"
  by (rule le_less_trans [OF moves_left [OF moves_block_comment] skip_char_left])

lemma line_comment_left:
  "peek lx = Some ch \<Longrightarrow> lx_left (skip_line (skip_char (skip_char lx))) < lx_left lx"
  by (rule le_less_trans [OF moves_left [OF moves_trans [OF moves_skip moves_skip_line]] skip_char_left])

function skip_trivia :: "lexer \<Rightarrow> lexer \<times> (lex_failure + unit)" where
  "skip_trivia lx =
     (case peek lx of
        None \<Rightarrow> (lx, Inr ())
      | Some ch \<Rightarrow>
          if is_whitespace ch then skip_trivia (skip_char lx)
          else if ch = ''/'' \<and> peek_next lx = Some ''/''
          then skip_trivia (skip_line (skip_char (skip_char lx)))
          else if ch = ''/'' \<and> peek_next lx = Some ''*''
          then
            (case skip_block_comment lx of
               (lx1, Inl e) \<Rightarrow> (lx1, Inl e)
             | (lx1, Inr _) \<Rightarrow> skip_trivia lx1)
          else (lx, Inr ()))"
  by pat_completeness auto
termination
  by (relation "measure lx_left") (auto simp: skip_char_left line_comment_left dest: block_comment_left [OF sym])

declare skip_trivia.simps [simp del]

section \<open>Tokens and the whole source\<close>

text \<open>
  The \<^verbatim>\<open>match\<close> of \<^verbatim>\<open>next_token\<close> after its first \<^verbatim>\<open>advance\<close>; guarded arms come in the
  code's order.
\<close>

definition ok_token :: "lexer \<times> token_kind \<Rightarrow> lexer \<times> (lex_failure + token_kind)" where
  "ok_token r = (fst r, Inr (snd r))"

definition token_after :: "position \<Rightarrow> string \<Rightarrow> lexer \<Rightarrow> lexer \<times> (lex_failure + token_kind)" where
  "token_after start ch lx =
     (if on_char ident_start ch then ok_token (identifier_or_keyword start lx)
      else if on_char ascii_digit ch then ok_token (number_literal start lx)
      else if ch = [char_of (34 :: nat)] \<or> ch = [char_of (39 :: nat)] then string_literal start ch [] lx
      else if ch = ''+'' then ok_token (match_or T_PlusEquals T_Plus ''='' lx)
      else if ch = ''-'' then ok_token (match_or T_MinusEquals T_Minus ''='' lx)
      else if ch = ''*'' then ok_token (match_or T_StarEquals T_Star ''='' lx)
      else if ch = ''/'' then ok_token (match_or T_SlashEquals T_Slash ''='' lx)
      else if ch = ''%'' then ok_token (match_or T_PercentEquals T_Percent ''='' lx)
      else if ch = ''='' then
        (if peek lx = Some ''>'' then (skip_char lx, Inr T_Arrow)
         else if peek lx = Some ''='' then
           ok_token (match_or T_StrictEquals T_EqualsEquals ''='' (skip_char lx))
         else (lx, Inr T_Equals))
      else if ch = ''!'' then
        (if peek lx = Some ''='' then
           ok_token (match_or T_StrictBangEquals T_BangEquals ''='' (skip_char lx))
         else (lx, Inr T_Bang))
      else if ch = ''<'' then ok_token (match_or T_LessEquals T_Less ''='' lx)
      else if ch = ''>'' then ok_token (match_or T_GreaterEquals T_Greater ''='' lx)
      else if ch = ''&'' \<and> peek lx = Some ''&'' then (skip_char lx, Inr T_AndAnd)
      else if ch = ''|'' \<and> peek lx = Some ''|'' then (skip_char lx, Inr T_PipePipe)
      else if ch = ''?'' \<and> peek lx = Some ''?'' then (skip_char lx, Inr T_QuestionQuestion)
      else if ch = ''?'' then (lx, Inr T_Question)
      else if ch = '':'' then (lx, Inr T_Colon)
      else if ch = '';'' then (lx, Inr T_Semicolon)
      else if ch = '','' then (lx, Inr T_Comma)
      else if ch = ''.'' then (lx, Inr T_Dot)
      else if ch = ''('' then (lx, Inr T_LeftParen)
      else if ch = '')'' then (lx, Inr T_RightParen)
      else if ch = ''{'' then (lx, Inr T_LeftBrace)
      else if ch = ''}'' then (lx, Inr T_RightBrace)
      else if ch = ''['' then (lx, Inr T_LeftBracket)
      else if ch = '']'' then (lx, Inr T_RightBracket)
      else (lx, Inl (lex_error_at (UnexpectedCharacter ch) start lx)))"

definition next_token :: "lexer \<Rightarrow> lexer \<times> (lex_failure + token)" where
  "next_token lx =
     (let start = lx_position lx in
      case advance lx of
        (lx1, None) \<Rightarrow> (lx1, Inl Lex_Panic)
      | (lx1, Some ch) \<Rightarrow>
          (case token_after start ch lx1 of
             (lx2, Inl e) \<Rightarrow> (lx2, Inl e)
           | (lx2, Inr kind) \<Rightarrow>
               (lx2, Inr \<lparr>tok_kind = kind,
                          tok_span = \<lparr>span_start = start, span_end = lx_position lx2\<rparr>\<rparr>)))"

lemma moves_ident [moves_intro]: "identifier_or_keyword start lx = (lx', k) \<Longrightarrow> moves lx lx'"
  by (auto simp: identifier_or_keyword_def Let_def moves_consume)

lemma moves_fraction [moves_intro]: "moves lx (fraction_part lx)"
  by (auto simp: fraction_part_def consume_digits_def intro: moves_trans [OF moves_skip] moves_consume)

lemma moves_exponent [moves_intro]: "moves lx (exponent_part lx)"
proof -
  have 1: "moves lx (if b then skip_char (skip_char lx) else skip_char lx)" for b
    by (auto intro: moves_trans [OF moves_skip] moves_skip)
  have "lx2\<lparr>lx_cursor := lx_cursor lx, lx_line := lx_line lx, lx_column := lx_column lx\<rparr> = lx"
    if "moves lx lx2" for lx2
    using moves_bounds(1) [OF that] by (cases lx; cases lx2) simp
  moreover have "moves lx (consume_digits lx2)" if "moves lx lx2" for lx2
    using that by (auto simp: consume_digits_def intro: moves_trans [OF _ moves_consume])
  ultimately show ?thesis
    using 1 by (simp add: exponent_part_def Let_def)
qed

lemma moves_number [moves_intro]: "number_literal start lx = (lx', k) \<Longrightarrow> moves lx lx'"
  by (auto simp: number_literal_def Let_def consume_digits_def
      intro!: moves_trans [OF moves_trans [OF moves_consume moves_fraction] moves_exponent])

lemma moves_string [moves_intro]: "string_literal start q v lx = (lx', r) \<Longrightarrow> moves lx lx'"
proof (induction start q v lx arbitrary: lx' r rule: string_literal.induct)
  case (1 start q v lx)
  have 2: "moves lx (skip_char (skip_char lx))"
    by (rule moves_trans [OF moves_skip moves_skip])
  from 1(3) show ?case
    by (subst (asm) string_literal.simps)
      (auto split: option.splits if_splits intro: moves_skip moves_trans [OF moves_skip 1(2)]
        moves_trans [OF 2 1(1)])
qed

lemma moves_leaves:
  "moves lx (fst (lx, r))" "moves lx (fst (skip_char lx, r))"
  "moves lx (fst r') \<Longrightarrow> moves lx (fst (ok_token r'))"
  "moves lx (fst (match_or a b c lx))" "moves lx (fst (match_or a b c (skip_char lx)))"
  "moves lx (fst (identifier_or_keyword start lx))" "moves lx (fst (number_literal start lx))"
  "moves lx (fst (string_literal start q v lx))"
  "moves lx (fst x) \<Longrightarrow> moves lx (fst y) \<Longrightarrow> moves lx (fst (if d then x else y))"
  by (auto simp: ok_token_def intro: moves_skip moves_match_or moves_trans [OF moves_skip]
      moves_ident moves_number moves_string prod.collapse [symmetric])

lemma moves_token_after: "token_after start ch lx = (lx', r) \<Longrightarrow> moves lx lx'"
proof -
  have "moves lx (fst (token_after start ch lx))"
    unfolding token_after_def by (intro moves_leaves)
  then show "token_after start ch lx = (lx', r) \<Longrightarrow> moves lx lx'" by simp
qed

lemma next_token_moves:
  "next_token lx = (lx', r) \<Longrightarrow> moves (skip_char lx) lx'"
  by (cases rule: advance_cases [of lx])
    (auto simp: next_token_def Let_def split: prod.splits sum.splits dest: moves_token_after)

lemma next_token_left: "next_token lx = (lx', Inr t) \<Longrightarrow> lx_left lx' < lx_left lx"
proof (cases rule: advance_cases [of lx])
  case (char ch)
  assume "next_token lx = (lx', Inr t)"
  from moves_left [OF next_token_moves [OF this]] skip_char_left [OF char(1)] show ?thesis by simp
qed (simp add: next_token_def Let_def)

lemma moves_trivia [moves_intro]: "skip_trivia lx = (lx', r) \<Longrightarrow> moves lx lx'"
proof (induction lx arbitrary: lx' r rule: skip_trivia.induct)
  case (1 lx)
  have 2: "moves lx (skip_line (skip_char (skip_char lx)))"
    by (rule moves_trans [OF moves_trans [OF moves_skip moves_skip] moves_skip_line])
  have 3: "skip_block_comment lx = (lx1, q) \<Longrightarrow> moves lx lx1" for lx1 q
    by (rule moves_trans [OF moves_skip moves_block_comment])
  from 1(4) show ?case
    by (subst (asm) skip_trivia.simps)
      (auto split: option.splits if_splits prod.splits sum.splits
        intro: moves_trans [OF moves_skip 1(1)] moves_trans [OF 2 1(2)] moves_trans [OF 3 1(3)] 3)
qed

function lex_all :: "lexer \<Rightarrow> token list \<Rightarrow> lex_failure + token list" where
  "lex_all lx tokens =
     (if is_at_end lx then Inr tokens
      else
        (case skip_trivia lx of
           (lx1, Inl e) \<Rightarrow> Inl e
         | (lx1, Inr _) \<Rightarrow>
             if is_at_end lx1 then Inr tokens
             else
               (case next_token lx1 of
                  (lx2, Inl e) \<Rightarrow> Inl e
                | (lx2, Inr t) \<Rightarrow> lex_all lx2 (tokens @ [t]))))"
  by pat_completeness auto
termination
  by (relation "measure (\<lambda>(lx, ts). lx_left lx)")
    (auto dest!: next_token_left [OF sym] moves_left [OF moves_trivia [OF sym]])

declare lex_all.simps [simp del]

definition lex :: "string \<Rightarrow> lex_failure + token list" where
  "lex source = lex_all (lexer_new source) []"

section \<open>Evaluation\<close>

text \<open>Code equations that compare bytes as binary numbers, for runs of the lexer in the kernel.\<close>

lemma integer_of_char_byte: "integer_of_char c = of_nat (byte c)"
  by (cases c) (simp add: integer_of_char_def byte_def)

lemma byte_code [code]: "byte c = nat_of_integer (integer_of_char c)"
  by (simp add: integer_of_char_byte)

lemma char_in_integer:
  "char_in (numeral lo) (numeral hi) c \<longleftrightarrow> numeral lo \<le> integer_of_char c \<and> integer_of_char c \<le> numeral hi"
  by (simp add: char_in_def integer_of_char_byte)

lemma ident_start_code [code]:
  "ident_start c \<longleftrightarrow>
     (let k = integer_of_char c in 97 \<le> k \<and> k \<le> 122 \<or> 65 \<le> k \<and> k \<le> 90 \<or> k = 95 \<or> k = 36)"
  by (simp add: ident_start_def char_in_integer) (simp add: integer_of_char_byte)

lemma ascii_digit_code [code]: "ascii_digit c \<longleftrightarrow> (let k = integer_of_char c in 48 \<le> k \<and> k \<le> 57)"
  by (simp add: ascii_digit_def char_in_integer Let_def)

lemma char_len_code [code]:
  "char_len c = (if integer_of_char c < 128 then 1 else max 1 (utf8_char_width (byte c)))"
  by (simp add: char_len_def integer_of_char_byte utf8_char_width_def)

definition whitespace_codes :: "integer list list" where
  "whitespace_codes =
     [[9], [10], [11], [12], [13], [32], [194, 133], [194, 160], [225, 154, 128],
      [226, 128, 128], [226, 128, 129], [226, 128, 130], [226, 128, 131], [226, 128, 132],
      [226, 128, 133], [226, 128, 134], [226, 128, 135], [226, 128, 136], [226, 128, 137],
      [226, 128, 138], [226, 128, 168], [226, 128, 169], [226, 128, 175], [226, 129, 159],
      [227, 128, 128]]"

lemma is_whitespace_code [code]: "is_whitespace ch \<longleftrightarrow> map integer_of_char ch \<in> set whitespace_codes"
proof -
  have codes: "whitespace_codes = map (map of_nat) whitespace_chars"
    by (simp add: whitespace_codes_def whitespace_chars_def)
  have bytes: "map integer_of_char ch = map of_nat (map byte ch)"
    by (simp add: integer_of_char_byte)
  have "inj (map (of_nat :: nat \<Rightarrow> integer))" by (simp add: inj_on_def)
  then show ?thesis
    unfolding codes bytes is_whitespace_def set_map by (rule inj_image_mem_iff [symmetric])
qed

lemma char_literals [code_unfold]:
  "char_of (9 :: nat) = CHR 0x09" "char_of (10 :: nat) = CHR 0x0A" "char_of (13 :: nat) = CHR 0x0D"
  "char_of (34 :: nat) = CHR 0x22" "char_of (39 :: nat) = CHR 0x27" "char_of (92 :: nat) = CHR 0x5C"
  by code_simp+

end
