(* ===== verification/Parser.thy ===== *)
theory Parser
  imports Ast Lexer Diagnostics
begin

text \<open>
  \<^verbatim>\<open>runtime/parser\<close>: the recursive-descent parser with error recovery. A method on
  \<^verbatim>\<open>&mut self\<close> is a state-passing computation on the parser. The recursive methods take fuel;
  \<open>Parser_Total\<close> proves that the fuel \<open>parse_tokens\<close> gives them is always enough, so that
  \<open>parse_source\<close> is a total function, and that the code's \<^verbatim>\<open>unreachable!\<close> is unreachable.

  A method that others call recursively is an argument (\<open>rec\<close>) of their definitions; the knots
  are tied by \<open>parse_type\<close>, \<open>parse_expr\<close> and \<open>parse_statement\<close>.
\<close>

section \<open>The token cursor\<close>

record parser =
  pr_tokens :: "token list"
  pr_cursor :: nat
  pr_diagnostics :: "parse_diagnostic list"

datatype parse_abort = Parse_Fuel | Parse_Panic

type_synonym 'a parse = "(parser, parse_abort, 'a) sem"

definition parser_new :: "token list \<Rightarrow> parser" where
  "parser_new tokens = \<lparr>pr_tokens = tokens, pr_cursor = 0, pr_diagnostics = []\<rparr>"

definition p_peek :: "parser \<Rightarrow> token option" where
  "p_peek p = nth_opt (pr_tokens p) (pr_cursor p)"

definition peek_kind :: "parser \<Rightarrow> token_kind option" where
  "peek_kind p = map_option tok_kind (p_peek p)"

definition p_at_end :: "parser \<Rightarrow> bool" where
  "p_at_end p \<longleftrightarrow> length (pr_tokens p) \<le> pr_cursor p"

text \<open>
  The code compares discriminants; every kind it checks for is one without a payload, where
  that is equality.
\<close>

definition p_check :: "token_kind \<Rightarrow> parser \<Rightarrow> bool" where
  "p_check expected p \<longleftrightarrow> peek_kind p = Some expected"

definition fallback_position :: "parser \<Rightarrow> position" where
  "fallback_position p =
     (if pr_tokens p = [] then \<lparr>pos_byte = 0, pos_line = 1, pos_column = 1\<rparr>
      else span_end (tok_span (last (pr_tokens p))))"

definition current_start :: "parser \<Rightarrow> position" where
  "current_start p =
     (case p_peek p of None \<Rightarrow> fallback_position p | Some t \<Rightarrow> span_start (tok_span t))"

definition previous_end :: "position \<Rightarrow> parser \<Rightarrow> position" where
  "previous_end fallback p =
     (case pr_cursor p of
        0 \<Rightarrow> fallback
      | Suc i \<Rightarrow> (case nth_opt (pr_tokens p) i of None \<Rightarrow> fallback | Some t \<Rightarrow> span_end (tok_span t)))"

text \<open>A read of the parser, as a computation.\<close>

definition ask :: "(parser \<Rightarrow> 'a) \<Rightarrow> 'a parse" where
  "ask f p = (p, Inr (f p))"

definition p_advance :: "token option parse" where
  "p_advance p =
     (case p_peek p of
        None \<Rightarrow> (p, Inr None)
      | Some t \<Rightarrow> (p\<lparr>pr_cursor := pr_cursor p + 1\<rparr>, Inr (Some t)))"

definition mk_span :: "position \<Rightarrow> position \<Rightarrow> span" where
  "mk_span s e = \<lparr>span_start = s, span_end = e\<rparr>"

definition error_at :: "span \<Rightarrow> message \<Rightarrow> unit parse" where
  "error_at sp m p =
     (p\<lparr>pr_diagnostics := pr_diagnostics p @ [\<lparr>pd_message = m, pd_span = sp\<rparr>]\<rparr>, Inr ())"

definition error_here :: "message \<Rightarrow> unit parse" where
  "error_here m = sbind (ask current_start) (\<lambda>pos. error_at (mk_span pos pos) m)"

definition expected :: "string \<Rightarrow> message" where
  "expected label = Text (''expected '' @ label)"

definition match_kind :: "token_kind \<Rightarrow> bool parse" where
  "match_kind k =
     sbind (ask (p_check k)) (\<lambda>b.
       if b then sbind p_advance (\<lambda>_. sret True) else sret False)"

definition expect :: "token_kind \<Rightarrow> string \<Rightarrow> token option parse" where
  "expect k label =
     sbind (ask (p_check k)) (\<lambda>b.
       if b then p_advance
       else sbind (error_here (expected label)) (\<lambda>_. sret None))"

definition expect_any :: "string \<Rightarrow> token parse" where
  "expect_any label =
     sbind p_advance (\<lambda>t.
       case t of
         Some t \<Rightarrow> sret t
       | None \<Rightarrow>
           sbind (ask fallback_position) (\<lambda>pos.
           sbind (error_at (mk_span pos pos) (expected label)) (\<lambda>_.
           sret \<lparr>tok_kind = T_Semicolon, tok_span = mk_span pos pos\<rparr>)))"

definition identifier_of :: "token_kind \<Rightarrow> string option" where
  "identifier_of k = (case k of T_Identifier s \<Rightarrow> Some s | _ \<Rightarrow> None)"

definition string_of :: "token_kind \<Rightarrow> string option" where
  "string_of k = (case k of T_StringLiteral s \<Rightarrow> Some s | _ \<Rightarrow> None)"

definition number_of :: "token_kind \<Rightarrow> string option" where
  "number_of k = (case k of T_NumberLiteral s \<Rightarrow> Some s | _ \<Rightarrow> None)"

definition boolean_of :: "token_kind \<Rightarrow> bool option" where
  "boolean_of k = (case k of T_BooleanLiteral b \<Rightarrow> Some b | _ \<Rightarrow> None)"

text \<open>The first of several alternatives that is there.\<close>

definition or_else :: "'a option \<Rightarrow> 'a option \<Rightarrow> 'a option" where
  "or_else x y = (case x of None \<Rightarrow> y | Some v \<Rightarrow> Some v)"

definition consume_named :: "(token_kind \<Rightarrow> string option) \<Rightarrow> string \<Rightarrow> string option parse" where
  "consume_named name_of label =
     sbind p_advance (\<lambda>t.
       case t of
         None \<Rightarrow> sbind (error_here (expected label)) (\<lambda>_. sret None)
       | Some t \<Rightarrow>
           (case name_of (tok_kind t) of
              Some name \<Rightarrow> sret (Some name)
            | None \<Rightarrow> sbind (error_at (tok_span t) (expected label)) (\<lambda>_. sret None)))"

definition consume_identifier :: "string \<Rightarrow> string option parse" where
  "consume_identifier = consume_named identifier_of"

definition consume_property_name :: "string \<Rightarrow> string option parse" where
  "consume_property_name =
     consume_named (\<lambda>k. or_else (identifier_of k) (or_else (string_of k) (number_of k)))"

definition or_error :: "string option \<Rightarrow> string" where
  "or_error name = (case name of None \<Rightarrow> ''<error>'' | Some n \<Rightarrow> n)"

definition consume_optional_semicolon :: "position option parse" where
  "consume_optional_semicolon =
     sbind (match_kind T_Semicolon) (\<lambda>b.
       if b then ask (\<lambda>p. Some (previous_end (fallback_position p) p)) else sret None)"

text \<open>\<^verbatim>\<open>self.consume_optional_semicolon().unwrap_or_else(|| self.previous_end(start))\<close>.\<close>

definition end_of_statement :: "position \<Rightarrow> position parse" where
  "end_of_statement start =
     sbind consume_optional_semicolon (\<lambda>e.
       case e of Some e \<Rightarrow> sret e | None \<Rightarrow> ask (previous_end start))"

definition error_expression :: "expression parse" where
  "error_expression =
     sbind (ask fallback_position) (\<lambda>pos.
     sbind (error_at (mk_span pos pos) (expected ''expression'')) (\<lambda>_.
     sret (Expression Ex_Error (mk_span pos pos))))"

definition error_type :: "position \<Rightarrow> type_node" where
  "error_type start = Type_Node (TK_Named ''<error>'') (mk_span start start)"

section \<open>Loops\<close>

text \<open>
  \<^verbatim>\<open>while !self.check(close) && !self.is_at_end() { items.push(item); if !self.match_kind(Comma)
  { break } }\<close>, and the same loop without the comma.
\<close>

definition stop_at :: "token_kind \<Rightarrow> parser \<Rightarrow> bool" where
  "stop_at close p \<longleftrightarrow> p_check close p \<or> p_at_end p"

primrec comma_loop :: "token_kind \<Rightarrow> 'a parse \<Rightarrow> nat \<Rightarrow> 'a list \<Rightarrow> 'a list parse" where
  "comma_loop close item 0 acc = sfail Parse_Fuel"
| "comma_loop close item (Suc n) acc =
     sbind (ask (stop_at close)) (\<lambda>stop.
       if stop then sret acc
       else
         sbind item (\<lambda>x.
         sbind (match_kind T_Comma) (\<lambda>b.
           if b then comma_loop close item n (acc @ [x]) else sret (acc @ [x]))))"

primrec item_loop :: "token_kind \<Rightarrow> 'a parse \<Rightarrow> nat \<Rightarrow> 'a list \<Rightarrow> 'a list parse" where
  "item_loop close item 0 acc = sfail Parse_Fuel"
| "item_loop close item (Suc n) acc =
     sbind (ask (stop_at close)) (\<lambda>stop.
       if stop then sret acc
       else sbind item (\<lambda>x. item_loop close item n (acc @ [x])))"

section \<open>Types\<close>

definition parse_type_member :: "type_node parse \<Rightarrow> type_member parse" where
  "parse_type_member rec =
     sbind (ask current_start) (\<lambda>start.
     sbind (consume_property_name ''type member name'') (\<lambda>name.
     sbind (expect T_Colon ''colon after type member name'') (\<lambda>_.
     sbind rec (\<lambda>ty.
     sbind consume_optional_semicolon (\<lambda>semi.
     sbind (case semi of
              Some e \<Rightarrow> sret e
            | None \<Rightarrow> sbind (match_kind T_Comma) (\<lambda>_. ask (previous_end start))) (\<lambda>e.
     sret (Type_Member (or_error name) ty (mk_span start e))))))))"

definition parse_type_members :: "type_node parse \<Rightarrow> nat \<Rightarrow> type_member list parse" where
  "parse_type_members rec n =
     sbind (expect T_LeftBrace ''type member list'') (\<lambda>_.
     sbind (item_loop T_RightBrace (parse_type_member rec) n []) (\<lambda>members.
     sbind (expect T_RightBrace ''closing type member list'') (\<lambda>_.
     sret members)))"

definition finish_type_members_after_left_brace :: "type_node parse \<Rightarrow> nat \<Rightarrow> type_member list parse" where
  "finish_type_members_after_left_brace rec n =
     sbind (item_loop T_RightBrace (parse_type_member rec) n []) (\<lambda>members.
     sbind (expect T_RightBrace ''closing object type'') (\<lambda>_.
     sret members))"

definition simple_type :: "token_kind \<Rightarrow> type_kind option" where
  "simple_type k =
     (if k = T_NumberType then Some TK_Number
      else if k = T_StringType then Some TK_String
      else if k = T_BooleanType then Some TK_Boolean
      else if k = T_Null then Some TK_Null
      else if k = T_Undefined then Some TK_Undefined
      else map_option TK_Named (identifier_of k))"

primrec array_suffix :: "nat \<Rightarrow> position \<Rightarrow> type_node \<Rightarrow> type_node parse" where
  "array_suffix 0 start ty = sfail Parse_Fuel"
| "array_suffix (Suc n) start ty =
     sbind (match_kind T_LeftBracket) (\<lambda>b.
       if b then
         sbind (expect T_RightBracket ''closing array type suffix'') (\<lambda>_.
         sbind (ask (previous_end start)) (\<lambda>e.
         array_suffix n start (Type_Node (TK_Array ty) (mk_span start e))))
       else sret ty)"

definition base_type :: "type_node parse \<Rightarrow> nat \<Rightarrow> position \<Rightarrow> token \<Rightarrow> type_node parse" where
  "base_type rec n start t =
     (case simple_type (tok_kind t) of
        Some k \<Rightarrow> sret (Type_Node k (tok_span t))
      | None \<Rightarrow>
          if tok_kind t = T_LeftBrace then
            sbind (finish_type_members_after_left_brace rec n) (\<lambda>members.
            sbind (ask (previous_end start)) (\<lambda>e.
            sret (Type_Node (TK_Object members) (mk_span start e))))
          else
            sbind (error_at (tok_span t) (Found ''expected type, found '' (tok_kind t))) (\<lambda>_.
            sret (error_type (span_start (tok_span t)))))"

primrec parse_type :: "nat \<Rightarrow> type_node parse" where
  "parse_type 0 = sfail Parse_Fuel"
| "parse_type (Suc n) =
     sbind (ask current_start) (\<lambda>start.
     sbind p_advance (\<lambda>t.
       case t of
         None \<Rightarrow> sbind (error_here (expected ''type'')) (\<lambda>_. sret (error_type start))
       | Some t \<Rightarrow> sbind (base_type (parse_type n) n start t) (\<lambda>ty. array_suffix n start ty)))"

section \<open>Expressions\<close>

definition binary_operator_of :: "token_kind \<Rightarrow> (binary_operator \<times> nat) option" where
  "binary_operator_of k = map_of
     [(T_PipePipe, (Op_LogicalOr, 1)), (T_QuestionQuestion, (Op_NullishCoalesce, 1)),
      (T_AndAnd, (Op_LogicalAnd, 2)), (T_EqualsEquals, (Op_Equal, 3)),
      (T_StrictEquals, (Op_StrictEqual, 3)), (T_BangEquals, (Op_NotEqual, 3)),
      (T_StrictBangEquals, (Op_StrictNotEqual, 3)), (T_Less, (Op_Less, 4)),
      (T_LessEquals, (Op_LessEqual, 4)), (T_Greater, (Op_Greater, 4)),
      (T_GreaterEquals, (Op_GreaterEqual, 4)), (T_Plus, (Op_Add, 5)), (T_Minus, (Op_Subtract, 5)),
      (T_Star, (Op_Multiply, 6)), (T_Slash, (Op_Divide, 6)), (T_Percent, (Op_Remainder, 6))] k"

definition assignment_operator_of :: "token_kind \<Rightarrow> assignment_operator option" where
  "assignment_operator_of k = map_of
     [(T_Equals, Assign), (T_PlusEquals, AddAssign), (T_MinusEquals, SubtractAssign),
      (T_StarEquals, MultiplyAssign), (T_SlashEquals, DivideAssign),
      (T_PercentEquals, RemainderAssign)] k"

definition peek_operator :: "(token_kind \<Rightarrow> 'a option) \<Rightarrow> parser \<Rightarrow> 'a option" where
  "peek_operator op_of p = Option.bind (peek_kind p) op_of"

text \<open>
  The mutually recursive methods of the expression grammar: \<^verbatim>\<open>parse_expression\<close>, which is
  \<^verbatim>\<open>parse_assignment\<close>, \<^verbatim>\<open>parse_binary\<close> with its minimal precedence, and \<^verbatim>\<open>parse_unary\<close>.
\<close>

datatype expr_rule = Rule_Assignment | Rule_Binary nat | Rule_Unary

type_synonym expr_rec = "expr_rule \<Rightarrow> expression parse"

definition parse_assignment :: "expr_rec \<Rightarrow> expression parse" where
  "parse_assignment rec =
     sbind (rec (Rule_Binary 0)) (\<lambda>left.
     sbind (ask (peek_operator assignment_operator_of)) (\<lambda>op.
       case op of
         None \<Rightarrow> sret left
       | Some operator \<Rightarrow>
           sbind p_advance (\<lambda>_.
           sbind (rec Rule_Assignment) (\<lambda>right.
           sret (Expression (Ex_Assignment left operator right)
             (mk_span (span_start (ex_span left)) (span_end (ex_span right))))))))"

primrec binary_loop :: "expr_rec \<Rightarrow> nat \<Rightarrow> nat \<Rightarrow> expression \<Rightarrow> expression parse" where
  "binary_loop rec min_precedence 0 left = sfail Parse_Fuel"
| "binary_loop rec min_precedence (Suc n) left =
     sbind (ask (peek_operator binary_operator_of)) (\<lambda>op.
       case op of
         None \<Rightarrow> sret left
       | Some (operator, precedence) \<Rightarrow>
           if precedence < min_precedence then sret left
           else
             sbind p_advance (\<lambda>_.
             sbind (rec (Rule_Binary (precedence + 1))) (\<lambda>right.
             binary_loop rec min_precedence n
               (Expression (Ex_Binary left operator right)
                 (mk_span (span_start (ex_span left)) (span_end (ex_span right)))))))"

definition parse_binary :: "expr_rec \<Rightarrow> nat \<Rightarrow> nat \<Rightarrow> expression parse" where
  "parse_binary rec n min_precedence =
     sbind (rec Rule_Unary) (\<lambda>left. binary_loop rec min_precedence n left)"

definition finish_object_expression :: "expr_rec \<Rightarrow> nat \<Rightarrow> position \<Rightarrow> expression parse" where
  "finish_object_expression rec n start =
     sbind (comma_loop T_RightBrace
       (sbind (ask current_start) (\<lambda>property_start.
        sbind (consume_property_name ''object property name'') (\<lambda>name.
        sbind (expect T_Colon ''colon after object property name'') (\<lambda>_.
        sbind (rec Rule_Assignment) (\<lambda>val.
        sret (Object_Property (or_error name) val (mk_span property_start (span_end (ex_span val)))))))))
       n []) (\<lambda>properties.
     sbind (expect T_RightBrace ''closing object literal'') (\<lambda>_.
     sbind (ask (previous_end start)) (\<lambda>e.
     sret (Expression (Ex_Object properties) (mk_span start e)))))"

definition finish_array_expression :: "expr_rec \<Rightarrow> nat \<Rightarrow> position \<Rightarrow> expression parse" where
  "finish_array_expression rec n start =
     sbind (comma_loop T_RightBracket (rec Rule_Assignment) n []) (\<lambda>elements.
     sbind (expect T_RightBracket ''closing array literal'') (\<lambda>_.
     sbind (ask (previous_end start)) (\<lambda>e.
     sret (Expression (Ex_Array elements) (mk_span start e)))))"

definition simple_expression :: "token_kind \<Rightarrow> expression_kind option" where
  "simple_expression k =
     or_else (map_option Ex_Identifier (identifier_of k))
     (or_else (map_option Ex_Number (number_of k))
     (or_else (map_option Ex_String (string_of k))
     (or_else (map_option Ex_Boolean (boolean_of k))
        (if k = T_Null then Some Ex_Null
         else if k = T_Undefined then Some Ex_Undefined else None))))"

definition parse_primary :: "expr_rec \<Rightarrow> nat \<Rightarrow> expression parse" where
  "parse_primary rec n =
     sbind p_advance (\<lambda>t.
       case t of
         None \<Rightarrow> error_expression
       | Some t \<Rightarrow>
           (case simple_expression (tok_kind t) of
              Some k \<Rightarrow> sret (Expression k (tok_span t))
            | None \<Rightarrow>
                if tok_kind t = T_LeftParen then
                  sbind (rec Rule_Assignment) (\<lambda>e.
                  sbind (expect T_RightParen ''closing parenthesized expression'') (\<lambda>_.
                  sret e))
                else if tok_kind t = T_LeftBrace then
                  finish_object_expression rec n (span_start (tok_span t))
                else if tok_kind t = T_LeftBracket then
                  finish_array_expression rec n (span_start (tok_span t))
                else
                  sbind (error_at (tok_span t) (Found ''expected expression, found '' (tok_kind t))) (\<lambda>_.
                  sret (Expression Ex_Error (tok_span t)))))"

primrec call_member_loop :: "expr_rec \<Rightarrow> nat \<Rightarrow> expression \<Rightarrow> expression parse" where
  "call_member_loop rec 0 e = sfail Parse_Fuel"
| "call_member_loop rec (Suc n) e =
     sbind (match_kind T_Dot) (\<lambda>dot.
       if dot then
         sbind (consume_identifier ''member property name'') (\<lambda>property.
         sbind (ask (previous_end (span_start (ex_span e)))) (\<lambda>stop.
         call_member_loop rec n
           (Expression (Ex_Member e (or_error property)) (mk_span (span_start (ex_span e)) stop))))
       else
         sbind (match_kind T_LeftParen) (\<lambda>paren.
           if paren then
             sbind (comma_loop T_RightParen (rec Rule_Assignment) n []) (\<lambda>arguments.
             sbind (expect T_RightParen ''closing call arguments'') (\<lambda>_.
             sbind (ask (previous_end (span_start (ex_span e)))) (\<lambda>stop.
             call_member_loop rec n
               (Expression (Ex_Call e arguments) (mk_span (span_start (ex_span e)) stop)))))
           else sret e))"

definition parse_call_member :: "expr_rec \<Rightarrow> nat \<Rightarrow> expression parse" where
  "parse_call_member rec n = sbind (parse_primary rec n) (\<lambda>e. call_member_loop rec n e)"

definition unary_operator_of :: "token_kind \<Rightarrow> unary_operator option" where
  "unary_operator_of k =
     (if k = T_Bang then Some Not_Op else if k = T_Minus then Some Negate else None)"

definition parse_unary :: "expr_rec \<Rightarrow> nat \<Rightarrow> expression parse" where
  "parse_unary rec n =
     sbind (ask p_peek) (\<lambda>t.
       case t of
         None \<Rightarrow> error_expression
       | Some t \<Rightarrow>
           (case unary_operator_of (tok_kind t) of
              Some operator \<Rightarrow>
                sbind p_advance (\<lambda>_.
                sbind (rec Rule_Unary) (\<lambda>argument.
                sret (Expression (Ex_Unary operator argument)
                  (mk_span (span_start (tok_span t)) (span_end (ex_span argument))))))
            | None \<Rightarrow> parse_call_member rec n))"

primrec parse_expr :: "nat \<Rightarrow> expr_rec" where
  "parse_expr 0 = (\<lambda>_. sfail Parse_Fuel)"
| "parse_expr (Suc n) = (\<lambda>r.
     case r of
       Rule_Assignment \<Rightarrow> parse_assignment (parse_expr n)
     | Rule_Binary min_precedence \<Rightarrow> parse_binary (parse_expr n) n min_precedence
     | Rule_Unary \<Rightarrow> parse_unary (parse_expr n) n)"

definition parse_expression :: "nat \<Rightarrow> expression parse" where
  "parse_expression n = parse_expr n Rule_Assignment"

section \<open>Statements\<close>

text \<open>\<^verbatim>\<open>if self.match_kind(k) { Some(self.m()) } else { None }\<close>.\<close>

definition optional_after :: "token_kind \<Rightarrow> 'a parse \<Rightarrow> 'a option parse" where
  "optional_after k m =
     sbind (match_kind k) (\<lambda>b. if b then sbind m (\<lambda>x. sret (Some x)) else sret None)"

text \<open>\<^verbatim>\<open>if self.check(k) { None } else { Some(self.m()) }\<close>.\<close>

definition optional_unless :: "(parser \<Rightarrow> bool) \<Rightarrow> 'a parse \<Rightarrow> 'a option parse" where
  "optional_unless stop m =
     sbind (ask stop) (\<lambda>b. if b then sret None else sbind m (\<lambda>x. sret (Some x)))"

definition start_of :: "token \<Rightarrow> position" where
  "start_of t = span_start (tok_span t)"

definition parse_import :: "nat \<Rightarrow> statement parse" where
  "parse_import n =
     sbind (expect_any ''import declaration start'') (\<lambda>t.
     sbind (match_kind T_LeftBrace) (\<lambda>brace.
     sbind (if brace then
              sbind (comma_loop T_RightBrace (consume_identifier ''import binding'') n []) (\<lambda>names.
              sbind (expect T_RightBrace ''closing import brace'') (\<lambda>_. sret names))
            else sbind (consume_identifier ''default import binding'') (\<lambda>name. sret [name])) (\<lambda>names.
     sbind (expect T_From ''`from` in import declaration'') (\<lambda>_.
     sbind (sbind p_advance (\<lambda>t.
              case t of
                None \<Rightarrow>
                  sbind (error_here (expected ''string module specifier'')) (\<lambda>_. sret [])
              | Some t \<Rightarrow>
                  (case string_of (tok_kind t) of
                     Some s \<Rightarrow> sret s
                   | None \<Rightarrow>
                       sbind (error_at (tok_span t) (expected ''string module specifier'')) (\<lambda>_.
                       sret [])))) (\<lambda>from.
     sbind (end_of_statement (start_of t)) (\<lambda>e.
     sret (Statement (S_Import \<lparr>im_names = List.map_filter id names, im_from = from\<rparr>)
       (mk_span (start_of t) e))))))))"

definition parse_export :: "statement parse \<Rightarrow> statement parse" where
  "parse_export rec =
     sbind (expect_any ''export declaration start'') (\<lambda>t.
     sbind rec (\<lambda>inner.
     sret (Statement (S_Export inner) (mk_span (start_of t) (span_end (st_span inner))))))"

definition parse_interface :: "nat \<Rightarrow> statement parse" where
  "parse_interface n =
     sbind (expect_any ''interface declaration start'') (\<lambda>t.
     sbind (consume_identifier ''interface name'') (\<lambda>name.
     sbind (parse_type_members (parse_type n) n) (\<lambda>members.
     sbind (ask (previous_end (start_of t))) (\<lambda>e.
     sret (Statement (S_Interface \<lparr>if_name = or_error name, if_members = members\<rparr>)
       (mk_span (start_of t) e))))))"

definition parse_type_alias :: "nat \<Rightarrow> statement parse" where
  "parse_type_alias n =
     sbind (expect_any ''type alias start'') (\<lambda>t.
     sbind (consume_identifier ''type alias name'') (\<lambda>name.
     sbind (expect T_Equals ''`=` in type alias'') (\<lambda>_.
     sbind (parse_type n) (\<lambda>ty.
     sbind (end_of_statement (start_of t)) (\<lambda>e.
     sret (Statement (S_TypeAlias \<lparr>ta_name = or_error name, ta_ty = ty\<rparr>)
       (mk_span (start_of t) e)))))))"

primrec synchronize_member :: "nat \<Rightarrow> unit parse" where
  "synchronize_member 0 = sfail Parse_Fuel"
| "synchronize_member (Suc n) =
     sbind (ask p_at_end) (\<lambda>stop.
       if stop then sret ()
       else
         sbind (match_kind T_Semicolon) (\<lambda>semi.
         if semi then sret ()
         else
           sbind (match_kind T_Comma) (\<lambda>comma.
           if comma then sret ()
           else
             sbind (ask (p_check T_RightBrace)) (\<lambda>brace.
             if brace then sret ()
             else sbind p_advance (\<lambda>_. synchronize_member n)))))"

text \<open>One turn of the member loop; \<open>None\<close> is its \<^verbatim>\<open>continue\<close>.\<close>

definition parse_class_member :: "nat \<Rightarrow> class_member option parse" where
  "parse_class_member n =
     sbind (ask current_start) (\<lambda>member_start.
     sbind (consume_identifier ''class member name'') (\<lambda>name.
       case name of
         None \<Rightarrow> sbind (synchronize_member n) (\<lambda>_. sret None)
       | Some name \<Rightarrow>
           sbind (optional_after T_Colon (parse_type n)) (\<lambda>ty.
           sbind (optional_after T_Equals (parse_expression n)) (\<lambda>initializer.
           sbind (end_of_statement member_start) (\<lambda>e.
           sret (Some \<lparr>cm_name = name, cm_ty = ty, cm_initializer = initializer,
                       cm_span = mk_span member_start e\<rparr>))))))"

definition parse_class :: "nat \<Rightarrow> statement parse" where
  "parse_class n =
     sbind (expect_any ''class declaration start'') (\<lambda>t.
     sbind (consume_identifier ''class name'') (\<lambda>name.
     sbind (expect T_LeftBrace ''class body'') (\<lambda>_.
     sbind (item_loop T_RightBrace (parse_class_member n) n []) (\<lambda>members.
     sbind (expect T_RightBrace ''closing class body'') (\<lambda>_.
     sbind (ask (previous_end (start_of t))) (\<lambda>e.
     sret (Statement (S_Class \<lparr>cl_name = or_error name, cl_members = List.map_filter id members\<rparr>)
       (mk_span (start_of t) e))))))))"

definition parse_parameter :: "nat \<Rightarrow> parameter parse" where
  "parse_parameter n =
     sbind (ask current_start) (\<lambda>start.
     sbind (consume_identifier ''parameter name'') (\<lambda>name.
     sbind (optional_after T_Colon (parse_type n)) (\<lambda>ty.
     sbind (ask (previous_end start)) (\<lambda>e.
     sret \<lparr>pa_name = or_error name, pa_ty = ty, pa_span = mk_span start e\<rparr>))))"

definition parse_parameters :: "nat \<Rightarrow> parameter list parse" where
  "parse_parameters n =
     sbind (expect T_LeftParen ''parameter list'') (\<lambda>_.
     sbind (comma_loop T_RightParen (parse_parameter n) n []) (\<lambda>params.
     sbind (expect T_RightParen ''closing parameter list'') (\<lambda>_.
     sret params)))"

definition parse_block_statement :: "statement parse \<Rightarrow> nat \<Rightarrow> statement parse" where
  "parse_block_statement rec n =
     sbind (ask current_start) (\<lambda>start.
     sbind (expect T_LeftBrace ''block start'') (\<lambda>_.
     sbind (item_loop T_RightBrace rec n []) (\<lambda>body.
     sbind (expect T_RightBrace ''block end'') (\<lambda>_.
     sbind (ask (previous_end start)) (\<lambda>e.
     sret (Statement (S_Block body) (mk_span start e)))))))"

definition parse_function :: "statement parse \<Rightarrow> nat \<Rightarrow> statement parse" where
  "parse_function rec n =
     sbind (expect_any ''function declaration start'') (\<lambda>t.
     sbind (consume_identifier ''function name'') (\<lambda>name.
     sbind (parse_parameters n) (\<lambda>params.
     sbind (optional_after T_Colon (parse_type n)) (\<lambda>return_type.
     sbind (parse_block_statement rec n) (\<lambda>block.
     sret (Statement
       (S_Function (Function_Declaration (or_error name) params return_type
         (case st_kind block of S_Block body \<Rightarrow> body | _ \<Rightarrow> [])))
       (mk_span (start_of t) (span_end (st_span block)))))))))"

definition variable_kind_of :: "token_kind \<Rightarrow> variable_kind option" where
  "variable_kind_of k =
     (if k = T_Let then Some VK_Let
      else if k = T_Const then Some VK_Const
      else if k = T_Var then Some VK_Var else None)"

definition parse_variable :: "nat \<Rightarrow> bool \<Rightarrow> statement parse" where
  "parse_variable n consume_semicolon =
     sbind (expect_any ''variable declaration start'') (\<lambda>t.
     sbind (slift (ok_or Parse_Panic (variable_kind_of (tok_kind t)))) (\<lambda>kind.
     sbind (consume_identifier ''variable name'') (\<lambda>name.
     sbind (optional_after T_Colon (parse_type n)) (\<lambda>ty.
     sbind (optional_after T_Equals (parse_expression n)) (\<lambda>initializer.
     sbind (if consume_semicolon then end_of_statement (start_of t)
            else ask (previous_end (start_of t))) (\<lambda>e.
     sret (Statement (S_Variable \<lparr>vd_kind = kind, vd_name = or_error name, vd_ty = ty,
         vd_initializer = initializer\<rparr>) (mk_span (start_of t) e))))))))"

definition parse_return :: "nat \<Rightarrow> statement parse" where
  "parse_return n =
     sbind (expect_any ''return statement start'') (\<lambda>t.
     sbind (optional_unless (\<lambda>p. p_check T_Semicolon p \<or> p_check T_RightBrace p) (parse_expression n)) (\<lambda>val.
     sbind (end_of_statement (start_of t)) (\<lambda>e.
     sret (Statement (S_Return val) (mk_span (start_of t) e)))))"

definition parse_throw :: "nat \<Rightarrow> statement parse" where
  "parse_throw n =
     sbind (expect_any ''throw statement start'') (\<lambda>t.
     sbind (parse_expression n) (\<lambda>val.
     sbind (end_of_statement (start_of t)) (\<lambda>e.
     sret (Statement (S_Throw val) (mk_span (start_of t) e)))))"

definition parse_if :: "statement parse \<Rightarrow> nat \<Rightarrow> statement parse" where
  "parse_if rec n =
     sbind (expect_any ''if statement start'') (\<lambda>t.
     sbind (expect T_LeftParen ''if condition'') (\<lambda>_.
     sbind (parse_expression n) (\<lambda>test.
     sbind (expect T_RightParen ''closing if condition'') (\<lambda>_.
     sbind rec (\<lambda>consequent.
     sbind (optional_after T_Else rec) (\<lambda>alternate.
     sret (Statement (S_If (If_Statement test consequent alternate))
       (mk_span (start_of t)
         (span_end (st_span (case alternate of None \<Rightarrow> consequent | Some s \<Rightarrow> s)))))))))))"

definition parse_while :: "statement parse \<Rightarrow> nat \<Rightarrow> statement parse" where
  "parse_while rec n =
     sbind (expect_any ''while statement start'') (\<lambda>t.
     sbind (expect T_LeftParen ''while condition'') (\<lambda>_.
     sbind (parse_expression n) (\<lambda>test.
     sbind (expect T_RightParen ''closing while condition'') (\<lambda>_.
     sbind rec (\<lambda>body.
     sret (Statement (S_While (While_Statement test body))
       (mk_span (start_of t) (span_end (st_span body)))))))))"

definition parse_expression_statement_without_semicolon :: "nat \<Rightarrow> statement parse" where
  "parse_expression_statement_without_semicolon n =
     sbind (parse_expression n) (\<lambda>e. sret (Statement (S_Expression e) (ex_span e)))"

definition parse_expression_statement :: "nat \<Rightarrow> statement parse" where
  "parse_expression_statement n =
     sbind (parse_expression_statement_without_semicolon n) (\<lambda>st.
     sbind consume_optional_semicolon (\<lambda>_. sret st))"

definition at_variable :: "parser \<Rightarrow> bool" where
  "at_variable p \<longleftrightarrow>
     (case peek_kind p of None \<Rightarrow> False | Some k \<Rightarrow> variable_kind_of k \<noteq> None)"

definition parse_for_initializer :: "nat \<Rightarrow> statement option parse" where
  "parse_for_initializer n =
     sbind (match_kind T_Semicolon) (\<lambda>semi.
       if semi then sret None
       else
         sbind (ask at_variable) (\<lambda>var.
         sbind (if var then parse_variable n False
                else parse_expression_statement_without_semicolon n) (\<lambda>st.
         sret (Some st))))"

definition parse_for :: "statement parse \<Rightarrow> nat \<Rightarrow> statement parse" where
  "parse_for rec n =
     sbind (expect_any ''for statement start'') (\<lambda>t.
     sbind (expect T_LeftParen ''for header'') (\<lambda>_.
     sbind (parse_for_initializer n) (\<lambda>initializer.
     sbind (expect T_Semicolon ''semicolon after for initializer'') (\<lambda>_.
     sbind (optional_unless (p_check T_Semicolon) (parse_expression n)) (\<lambda>test.
     sbind (expect T_Semicolon ''semicolon after for test'') (\<lambda>_.
     sbind (optional_unless (p_check T_RightParen) (parse_expression n)) (\<lambda>update.
     sbind (expect T_RightParen ''closing for header'') (\<lambda>_.
     sbind rec (\<lambda>body.
     sret (Statement (S_For (For_Statement initializer test update body))
       (mk_span (start_of t) (span_end (st_span body)))))))))))))"

definition parse_empty :: "statement parse" where
  "parse_empty =
     sbind p_advance (\<lambda>t.
     sbind (slift (ok_or Parse_Panic t)) (\<lambda>t. sret (Statement S_Empty (tok_span t))))"

definition statement_rule :: "statement parse \<Rightarrow> nat \<Rightarrow> token_kind option \<Rightarrow> statement parse" where
  "statement_rule rec n k =
     (if k = Some T_Import then parse_import n
      else if k = Some T_Export then parse_export rec
      else if k = Some T_Interface then parse_interface n
      else if k = Some T_Type then parse_type_alias n
      else if k = Some T_Class then parse_class n
      else if k = Some T_Function then parse_function rec n
      else if k = Some T_Let \<or> k = Some T_Const \<or> k = Some T_Var then parse_variable n True
      else if k = Some T_Return then parse_return n
      else if k = Some T_Throw then parse_throw n
      else if k = Some T_If then parse_if rec n
      else if k = Some T_While then parse_while rec n
      else if k = Some T_For then parse_for rec n
      else if k = Some T_LeftBrace then parse_block_statement rec n
      else if k = Some T_Semicolon then parse_empty
      else parse_expression_statement n)"

primrec parse_statement :: "nat \<Rightarrow> statement parse" where
  "parse_statement 0 = sfail Parse_Fuel"
| "parse_statement (Suc n) =
     sbind (ask peek_kind) (statement_rule (parse_statement n) n)"

section \<open>Programs\<close>

definition merge_statement_spans :: "statement list \<Rightarrow> span option" where
  "merge_statement_spans body =
     (if body = [] then None
      else Some (mk_span (span_start (st_span (hd body))) (span_end (st_span (last body)))))"

text \<open>The top-level loop; a statement that consumes nothing is reported and skipped.\<close>

primrec program_loop :: "nat \<Rightarrow> nat \<Rightarrow> statement list \<Rightarrow> statement list parse" where
  "program_loop n 0 body = sfail Parse_Fuel"
| "program_loop n (Suc k) body =
     sbind (ask (\<lambda>p. (p_at_end p, pr_cursor p))) (\<lambda>(stop, start_cursor).
       if stop then sret body
       else
         sbind (parse_statement n) (\<lambda>st.
         sbind (ask pr_cursor) (\<lambda>cursor.
         sbind (if cursor = start_cursor
                then sbind (error_here (Text ''parser made no progress'')) (\<lambda>_.
                     sbind p_advance (\<lambda>_. sret ()))
                else sret ()) (\<lambda>_.
         program_loop n k (body @ [st])))))"

record parse_output =
  po_program :: program
  po_diagnostics :: "parse_diagnostic list"

text \<open>Enough fuel for any program of so many tokens.\<close>

definition parse_fuel :: "token list \<Rightarrow> nat" where
  "parse_fuel tokens = 4 * length tokens + 8"

definition parse_tokens :: "token list \<Rightarrow> parse_abort + parse_output" where
  "parse_tokens tokens =
     (let n = parse_fuel tokens in
      case program_loop n n [] (parser_new tokens) of
        (p, Inl e) \<Rightarrow> Inl e
      | (p, Inr body) \<Rightarrow>
          Inr \<lparr>po_program = \<lparr>pg_body = body, pg_span = merge_statement_spans body\<rparr>,
               po_diagnostics = pr_diagnostics p\<rparr>)"

definition diagnostic_from_lex_error :: "lex_error \<Rightarrow> parse_diagnostic" where
  "diagnostic_from_lex_error err = \<lparr>pd_message = Text (lex_error_message err), pd_span = le_span err\<rparr>"

definition parse_source :: "string \<Rightarrow> parse_abort + parse_output" where
  "parse_source source =
     (case lex source of
        Inr tokens \<Rightarrow> parse_tokens tokens
      | Inl (Lex_Error err) \<Rightarrow>
          Inr \<lparr>po_program = \<lparr>pg_body = [], pg_span = None\<rparr>,
               po_diagnostics = [diagnostic_from_lex_error err]\<rparr>
      | Inl Lex_Panic \<Rightarrow> Inl Parse_Panic)"

section \<open>Evaluation\<close>

text \<open>
  Code equations that wait for the parser state: a recursive call stands as an argument of the
  grammar rules, and is unfolded only when it is applied.
\<close>

lemma comma_loop_code [code]:
  "comma_loop close item 0 acc p = sfail Parse_Fuel p"
  "comma_loop close item (Suc n) acc p =
     sbind (ask (stop_at close)) (\<lambda>stop.
       if stop then sret acc
       else
         sbind item (\<lambda>x.
         sbind (match_kind T_Comma) (\<lambda>b.
           if b then comma_loop close item n (acc @ [x]) else sret (acc @ [x])))) p"
  by simp_all

lemma item_loop_code [code]:
  "item_loop close item 0 acc p = sfail Parse_Fuel p"
  "item_loop close item (Suc n) acc p =
     sbind (ask (stop_at close)) (\<lambda>stop.
       if stop then sret acc
       else sbind item (\<lambda>x. item_loop close item n (acc @ [x]))) p"
  by simp_all

lemma array_suffix_code [code]:
  "array_suffix 0 start ty p = sfail Parse_Fuel p"
  "array_suffix (Suc n) start ty p =
     sbind (match_kind T_LeftBracket) (\<lambda>b.
       if b then
         sbind (expect T_RightBracket ''closing array type suffix'') (\<lambda>_.
         sbind (ask (previous_end start)) (\<lambda>e.
         array_suffix n start (Type_Node (TK_Array ty) (mk_span start e))))
       else sret ty) p"
  by simp_all

lemma parse_type_code [code]:
  "parse_type 0 p = sfail Parse_Fuel p"
  "parse_type (Suc n) p =
     sbind (ask current_start) (\<lambda>start.
     sbind p_advance (\<lambda>t.
       case t of
         None \<Rightarrow> sbind (error_here (expected ''type'')) (\<lambda>_. sret (error_type start))
       | Some t \<Rightarrow> sbind (base_type (parse_type n) n start t) (\<lambda>ty. array_suffix n start ty))) p"
  by simp_all

lemma binary_loop_code [code]:
  "binary_loop rec min_precedence 0 left p = sfail Parse_Fuel p"
  "binary_loop rec min_precedence (Suc n) left p =
     sbind (ask (peek_operator binary_operator_of)) (\<lambda>op.
       case op of
         None \<Rightarrow> sret left
       | Some (operator, precedence) \<Rightarrow>
           if precedence < min_precedence then sret left
           else
             sbind p_advance (\<lambda>_.
             sbind (rec (Rule_Binary (precedence + 1))) (\<lambda>right.
             binary_loop rec min_precedence n
               (Expression (Ex_Binary left operator right)
                 (mk_span (span_start (ex_span left)) (span_end (ex_span right))))))) p"
  by simp_all

lemma call_member_loop_code [code]:
  "call_member_loop rec 0 e p = sfail Parse_Fuel p"
  "call_member_loop rec (Suc n) e p =
     sbind (match_kind T_Dot) (\<lambda>dot.
       if dot then
         sbind (consume_identifier ''member property name'') (\<lambda>property.
         sbind (ask (previous_end (span_start (ex_span e)))) (\<lambda>stop.
         call_member_loop rec n
           (Expression (Ex_Member e (or_error property)) (mk_span (span_start (ex_span e)) stop))))
       else
         sbind (match_kind T_LeftParen) (\<lambda>paren.
           if paren then
             sbind (comma_loop T_RightParen (rec Rule_Assignment) n []) (\<lambda>arguments.
             sbind (expect T_RightParen ''closing call arguments'') (\<lambda>_.
             sbind (ask (previous_end (span_start (ex_span e)))) (\<lambda>stop.
             call_member_loop rec n
               (Expression (Ex_Call e arguments) (mk_span (span_start (ex_span e)) stop)))))
           else sret e)) p"
  by simp_all

lemma parse_expr_code [code]:
  "parse_expr 0 r p = sfail Parse_Fuel p"
  "parse_expr (Suc n) r p =
     (case r of
        Rule_Assignment \<Rightarrow> parse_assignment (parse_expr n)
      | Rule_Binary min_precedence \<Rightarrow> parse_binary (parse_expr n) n min_precedence
      | Rule_Unary \<Rightarrow> parse_unary (parse_expr n) n) p"
  by simp_all

lemma parse_statement_code [code]:
  "parse_statement 0 p = sfail Parse_Fuel p"
  "parse_statement (Suc n) p = sbind (ask peek_kind) (statement_rule (parse_statement n) n) p"
  by simp_all

lemma program_loop_code [code]:
  "program_loop n 0 body p = sfail Parse_Fuel p"
  "program_loop n (Suc k) body p =
     sbind (ask (\<lambda>p. (p_at_end p, pr_cursor p))) (\<lambda>(stop, start_cursor).
       if stop then sret body
       else
         sbind (parse_statement n) (\<lambda>st.
         sbind (ask pr_cursor) (\<lambda>cursor.
         sbind (if cursor = start_cursor
                then sbind (error_here (Text ''parser made no progress'')) (\<lambda>_.
                     sbind p_advance (\<lambda>_. sret ()))
                else sret ()) (\<lambda>_.
         program_loop n k (body @ [st]))))) p"
  by simp_all

end
