(* ===== verification/Modules.thy ===== *)
theory Modules
  imports Parser Btree_Map
begin

text \<open>
  \<^verbatim>\<open>runtime/modules\<close>: the module graph of an entry module and its bundling into one source.
  \<open>visit\<close> is the recursive depth-first search, with fuel for the depth of imports;
  \<open>Module_Graph\<close> proves that the fuel of \<open>bundle_module_graph\<close> is always enough.
\<close>

section \<open>Graphs\<close>

record resolved_import =
  ri_names :: "string list"
  ri_from :: string
  ri_resolved :: string

record module_record =
  mr_specifier :: string
  mr_imports :: "resolved_import list"
  mr_exports :: "string list"

record module_graph =
  mg_entry :: string
  mg_modules :: "module_record list"
  mg_bundled_source :: string

datatype visit_state = Visiting | Visited

record graph_builder =
  gb_states :: "string \<rightharpoonup> visit_state"
  gb_records :: "(string, module_record) btree_map"
  gb_order :: "string list"
  gb_stack :: "string list"
  gb_diagnostics :: "module_diagnostic list"

type_synonym sources = "(string, string) btree_map"

definition builder_new :: graph_builder where
  "builder_new =
     \<lparr>gb_states = Map.empty, gb_records = [], gb_order = [], gb_stack = [], gb_diagnostics = []\<rparr>"

section \<open>Specifiers\<close>

definition slash :: char where
  "slash = CHR ''/''"

definition module_parts :: "string \<Rightarrow> string list" where
  "module_parts m = filter (\<lambda>p. p \<noteq> []) (split_on slash m)"

text \<open>One part of an import path: \<^verbatim>\<open>.\<close> stays, \<^verbatim>\<open>..\<close> goes up (and stays at the root).\<close>

definition resolve_part :: "string \<Rightarrow> string list \<Rightarrow> string list" where
  "resolve_part p parts =
     (if p = ''.'' \<or> p = [] then parts
      else if p = ''..'' then butlast parts
      else parts @ [p])"

definition resolve_import :: "string \<Rightarrow> import_declaration \<Rightarrow> string + string" where
  "resolve_import from_module imp =
     (if \<not> (starts_with (im_from imp) ''./'' \<or> starts_with (im_from imp) ''../'')
      then Inl (''unsupported module specifier `'' @ im_from imp @
                ''`; only local relative TypeScript modules are allowed'')
      else if \<not> ends_with (im_from imp) ''.ts''
      then Inl (''unsupported module specifier `'' @ im_from imp @
                ''`; local module specifiers must end in `.ts`'')
      else Inr (''/'' @ join_with ''/''
             (fold resolve_part (split_on slash (im_from imp)) (butlast (module_parts from_module)))))"

definition normalize_entry :: "string \<Rightarrow> string" where
  "normalize_entry entry = (if starts_with entry ''/'' then entry else ''/'' @ entry)"

definition export_name :: "statement \<Rightarrow> string option" where
  "export_name st =
     (case st_kind st of
        S_Interface d \<Rightarrow> Some (if_name d)
      | S_TypeAlias d \<Rightarrow> Some (ta_name d)
      | S_Class d \<Rightarrow> Some (cl_name d)
      | S_Function f \<Rightarrow> Some (fd_name f)
      | S_Variable v \<Rightarrow> Some (vd_name v)
      | _ \<Rightarrow> None)"

section \<open>The depth-first search\<close>

type_synonym 'a build = "(graph_builder, parse_abort, 'a) sem"

text \<open>A state update that returns nothing.\<close>

definition modify :: "(graph_builder \<Rightarrow> graph_builder) \<Rightarrow> unit build" where
  "modify f g = (f g, Inr ())"

definition module_report ::
  "module_diagnostic_code \<Rightarrow> message \<Rightarrow> string \<Rightarrow> string list \<Rightarrow> graph_builder \<Rightarrow> graph_builder" where
  "module_report code m md mds g =
     g\<lparr>gb_diagnostics := gb_diagnostics g @
         [\<lparr>md_code = code, md_message = m, md_module = md, md_modules = mds\<rparr>]\<rparr>"

text \<open>\<^verbatim>\<open>position(|entry| entry == module).unwrap_or(0)\<close>, and the stack from there on.\<close>

definition cycle_of :: "string \<Rightarrow> string list \<Rightarrow> string list" where
  "cycle_of m stack =
     (if m \<in> set stack then dropWhile (\<lambda>x. x \<noteq> m) stack else stack) @ [m]"

definition report_cycle :: "string \<Rightarrow> graph_builder \<Rightarrow> graph_builder" where
  "report_cycle m g =
     (let cycle = cycle_of m (gb_stack g)
      in module_report Cycle (Text (''module cycle detected: '' @ join_with '' -> '' cycle)) m cycle g)"

definition report_missing :: "string \<Rightarrow> graph_builder \<Rightarrow> graph_builder" where
  "report_missing m g =
     module_report MissingModule (Text (''module `'' @ m @ ''` was not provided'')) m [m] g"

definition enter_module :: "string \<Rightarrow> graph_builder \<Rightarrow> graph_builder" where
  "enter_module m g =
     g\<lparr>gb_states := (gb_states g)(m \<mapsto> Visiting), gb_stack := gb_stack g @ [m]\<rparr>"

definition leave_module ::
  "string \<Rightarrow> resolved_import list \<Rightarrow> string list \<Rightarrow> graph_builder \<Rightarrow> graph_builder" where
  "leave_module m imports exports g =
     g\<lparr>gb_stack := butlast (gb_stack g),
       gb_states := (gb_states g)(m \<mapsto> Visited),
       gb_records := bt_insert m
         \<lparr>mr_specifier = m, mr_imports = imports, mr_exports = exports\<rparr> (gb_records g),
       gb_order := gb_order g @ [m]\<rparr>"

definition report_parse :: "string \<Rightarrow> parse_diagnostic list \<Rightarrow> graph_builder \<Rightarrow> graph_builder" where
  "report_parse m ds g = fold (\<lambda>d. module_report Parse (pd_message d) m [m]) ds g"

text \<open>The loop over the statements of a module; \<open>rec\<close> visits an imported module.\<close>

fun visit_statements ::
  "(string \<Rightarrow> unit build) \<Rightarrow> string \<Rightarrow> statement list \<Rightarrow> resolved_import list \<Rightarrow> string list \<Rightarrow>
   (resolved_import list \<times> string list) build" where
  "visit_statements rec m [] imports exports = sret (imports, exports)"
| "visit_statements rec m (st # sts) imports exports =
     (case st_kind st of
        S_Import imp \<Rightarrow>
          (case resolve_import m imp of
             Inr resolved \<Rightarrow>
               sbind (rec resolved) (\<lambda>_.
               visit_statements rec m sts
                 (imports @ [\<lparr>ri_names = im_names imp, ri_from = im_from imp, ri_resolved = resolved\<rparr>])
                 exports)
           | Inl err \<Rightarrow>
               sbind (modify (module_report UnsupportedSpecifier (Text err) m [m])) (\<lambda>_.
               visit_statements rec m sts imports exports))
      | S_Export inner \<Rightarrow>
          visit_statements rec m sts imports
            (case export_name inner of None \<Rightarrow> exports | Some name \<Rightarrow> exports @ [name])
      | _ \<Rightarrow> visit_statements rec m sts imports exports)"

primrec visit :: "sources \<Rightarrow> nat \<Rightarrow> string \<Rightarrow> unit build" where
  "visit sources 0 m = sfail Parse_Fuel"
| "visit sources (Suc n) m =
     (\<lambda>g. (case gb_states g m of
             Some Visited \<Rightarrow> sret ()
           | Some Visiting \<Rightarrow> modify (report_cycle m)
           | None \<Rightarrow>
               (case bt_get sources m of
                  None \<Rightarrow> modify (report_missing m)
                | Some source \<Rightarrow>
                    sbind (modify (enter_module m)) (\<lambda>_.
                    sbind (slift (parse_source source)) (\<lambda>parsed.
                    sbind (modify (report_parse m (po_diagnostics parsed))) (\<lambda>_.
                    sbind (visit_statements (visit sources n) m (pg_body (po_program parsed)) [] [])
                      (\<lambda>(imports, exports). modify (leave_module m imports exports))))))) g)"

section \<open>Bundling\<close>

text \<open>\<^verbatim>\<open>str::get\<close> of a range of bytes, and \<^verbatim>\<open>trim\<close>.\<close>

definition char_boundary :: "string \<Rightarrow> nat \<Rightarrow> bool" where
  "char_boundary s i \<longleftrightarrow> i = length s \<or> (i < length s \<and> \<not> utf8_cont (byte (s ! i)))"

definition str_get :: "string \<Rightarrow> nat \<Rightarrow> nat \<Rightarrow> string option" where
  "str_get s a b =
     (if a \<le> b \<and> char_boundary s a \<and> char_boundary s b then Some (take (b - a) (drop a s)) else None)"

function trim_start :: "string \<Rightarrow> string" where
  "trim_start s =
     (case first_char s of
        None \<Rightarrow> s
      | Some ch \<Rightarrow> if is_whitespace ch then trim_start (drop (length ch) s) else s)"
  by pat_completeness auto
termination
proof (relation "measure length")
  fix s ch assume "first_char s = Some ch"
  from first_char_Some [OF this] have "0 < length ch" "length ch \<le> length s" by auto
  then have "length s - length ch < length s" by linarith
  then show "(drop (length ch) s, s) \<in> measure length" by simp
qed simp

declare trim_start.simps [simp del]

text \<open>The last character: its first byte is the last one that is no continuation byte.\<close>

definition last_char :: "string \<Rightarrow> string" where
  "last_char s =
     (let conts = takeWhile (\<lambda>c. utf8_cont (byte c)) (rev s)
      in rev (take (length conts + 1) (rev s)))"

function trim_end :: "string \<Rightarrow> string" where
  "trim_end s =
     (if s \<noteq> [] \<and> is_whitespace (last_char s) then trim_end (take (length s - length (last_char s)) s)
      else s)"
  by pat_completeness auto
termination
  by (relation "measure length") (auto simp: last_char_def Let_def)

declare trim_end.simps [simp del]

definition trim :: "string \<Rightarrow> string" where
  "trim s = trim_end (trim_start s)"

definition push_statement_source :: "string \<Rightarrow> statement \<Rightarrow> string \<Rightarrow> string" where
  "push_statement_source source st out =
     (case str_get source (pos_byte (span_start (st_span st))) (pos_byte (span_end (st_span st))) of
        None \<Rightarrow> out
      | Some piece \<Rightarrow> out @ trim piece @ newline)"

definition bundle_statement :: "string \<Rightarrow> statement \<Rightarrow> string \<Rightarrow> string" where
  "bundle_statement source st out =
     (case st_kind st of
        S_Import _ \<Rightarrow> out
      | S_Export inner \<Rightarrow> push_statement_source source inner out
      | _ \<Rightarrow> push_statement_source source st out)"

fun bundle_modules :: "sources \<Rightarrow> module_record list \<Rightarrow> string \<Rightarrow> parse_abort + string" where
  "bundle_modules sources [] out = Inr out"
| "bundle_modules sources (m # ms) out =
     (case bt_get sources (mr_specifier m) of
        None \<Rightarrow> bundle_modules sources ms out
      | Some source \<Rightarrow>
          rbind (parse_source source) (\<lambda>parsed.
            bundle_modules sources ms (fold (bundle_statement source) (pg_body (po_program parsed)) out)))"

text \<open>An import chain is at most as long as there are modules, and its end is one visit more.\<close>

definition visit_fuel :: "sources \<Rightarrow> nat" where
  "visit_fuel sources = length sources + 1"

definition bundle_module_graph ::
  "string \<Rightarrow> sources \<Rightarrow> parse_abort + (module_diagnostic list + module_graph)" where
  "bundle_module_graph entry sources =
     (let entry = normalize_entry entry in
      case visit sources (visit_fuel sources) entry builder_new of
        (g, Inl e) \<Rightarrow> Inl e
      | (g, Inr _) \<Rightarrow>
          if gb_diagnostics g \<noteq> [] then Inr (Inl (gb_diagnostics g))
          else
            (let modules = List.map_filter (bt_get (gb_records g)) (gb_order g) in
             rbind (bundle_modules sources modules []) (\<lambda>bundled.
               Inr (Inr \<lparr>mg_entry = entry, mg_modules = modules, mg_bundled_source = bundled\<rparr>))))"

end
