(* ===== verification/Lexer_Spec.thy ===== *)
theory Lexer_Spec
  imports Lexer
begin

text \<open>
  The lexical grammar as a specification of \<open>lex\<close>: trivia, lexemes, and the position that a
  prefix of the source ends at. \<open>lex\<close> refines it, and never panics.
\<close>

section \<open>Positions\<close>

text \<open>
  The place after a prefix of valid UTF-8: its length, a line for each newline, and a column
  for each character since the last one. Every character has one byte that is not a
  continuation byte.
\<close>

definition is_newline :: "char \<Rightarrow> bool" where
  "is_newline c \<longleftrightarrow> byte c = 10"

definition char_start :: "char \<Rightarrow> bool" where
  "char_start c \<longleftrightarrow> \<not> utf8_cont (byte c)"

definition position_after :: "string \<Rightarrow> position" where
  "position_after s =
     \<lparr>pos_byte = length s,
      pos_line = 1 + length (filter is_newline s),
      pos_column = 1 + length (filter char_start (takeWhile (\<lambda>c. \<not> is_newline c) (rev s)))\<rparr>"

lemma utf8_check_index: "utf8_check i bs = None \<longleftrightarrow> utf8_check j bs = None"
proof (induction i bs arbitrary: j rule: utf8_check.induct)
  case (1 i bs)
  show ?case
  proof (cases "bs = []")
    case False
    then show ?thesis
      using 1 [OF False, of _ "j + _"]
      by (subst (1 2) utf8_check.simps) (auto split: utf8_step.split)
  qed (simp add: utf8_check.simps)
qed

lemma utf8_tail_cont: "utf8_tail seen n bs = Utf8_Char k \<Longrightarrow> \<forall>b\<in>set (take n bs). utf8_cont b"
  by (induction seen n bs rule: utf8_tail.induct) (auto split: if_splits)

lemma utf8_second_cont: "utf8_second b c \<Longrightarrow> utf8_cont c"
  by (auto simp: utf8_second_def utf8_cont_def split: if_splits)

lemma utf8_first_shape:
  assumes "utf8_first (b # bs) = Utf8_Char (Suc m)"
  shows "\<not> utf8_cont b" and "\<forall>c\<in>set (take m bs). utf8_cont c"
    and "max 1 (utf8_char_width b) = Suc m" and "b = 10 \<Longrightarrow> m = 0"
proof -
  have width: "utf8_char_width b = Suc m" using utf8_first_pos [OF assms] by simp
  then show "max 1 (utf8_char_width b) = Suc m" by simp
  show "\<not> utf8_cont b" and "b = 10 \<Longrightarrow> m = 0"
    using width by (auto simp: utf8_char_width_def utf8_cont_def split: if_splits)
  show "\<forall>c\<in>set (take m bs). utf8_cont c"
  proof (cases m)
    case (Suc n)
    then obtain c cs where "bs = c # cs" "utf8_second b c" "utf8_tail 2 n cs = Utf8_Char (Suc m)"
      using assms width by (auto split: list.splits if_splits)
    then show ?thesis using Suc by (auto dest: utf8_second_cont utf8_tail_cont)
  qed simp
qed

lemma valid_char:
  assumes "utf8_valid (c # s)"
  obtains tail rest where "first_char (c # s) = Some (c # tail)" "s = tail @ rest" "utf8_valid rest"
    "char_start c" "\<And>d. d \<in> set tail \<Longrightarrow> \<not> char_start d" "is_newline c \<Longrightarrow> tail = []"
proof -
  have check: "utf8_check 0 (byte c # map byte s) = None"
    using assms by (simp add: utf8_valid_def)
  obtain n where n: "utf8_first (byte c # map byte s) = Utf8_Char n"
    and rest: "utf8_check (0 + n) (drop n (map byte (c # s))) = None"
    using check unfolding utf8_check.simps [of 0 "byte c # map byte s"]
    by (auto simp del: utf8_first.simps split: utf8_step.splits)
  obtain m where m: "n = Suc m"
    using utf8_first_pos [OF n] by (meson gr0_conv_Suc)
  note shape = utf8_first_shape [OF n [unfolded m]]
  have first: "first_char (c # s) = Some (c # take m s)"
    using shape(3) by (simp add: first_char_def char_len_def)
  show thesis
  proof (rule that [OF first])
    show "s = take m s @ drop m s" by simp
    show "utf8_valid (drop m s)" using rest m by (simp add: utf8_valid_def drop_map utf8_check_index [of "Suc m" _ 0])
    show "char_start c" using shape(1) by (simp add: char_start_def)
    show "\<not> char_start d" if "d \<in> set (take m s)" for d
      using shape(2) that by (auto simp: char_start_def take_map)
    show "is_newline c \<Longrightarrow> take m s = []" using shape(4) by (auto simp: is_newline_def)
  qed
qed

lemma position_after_char:
  assumes "char_start c" and "\<And>d. d \<in> set tail \<Longrightarrow> \<not> char_start d"
  shows "position_after (s @ c # tail) =
     (let p = position_after s in
      if is_newline c then \<lparr>pos_byte = pos_byte p + length (c # tail), pos_line = pos_line p + 1,
                            pos_column = 1\<rparr>
      else \<lparr>pos_byte = pos_byte p + length (c # tail), pos_line = pos_line p,
            pos_column = pos_column p + 1\<rparr>)"
proof -
  have nl: "\<not> is_newline d" if "d \<in> set tail" for d
    using assms(2) [OF that] by (auto simp: char_start_def is_newline_def utf8_cont_def)
  then have "takeWhile (\<lambda>c. \<not> is_newline c) (rev tail @ xs) = rev tail @ takeWhile (\<lambda>c. \<not> is_newline c) xs" for xs
    by (intro takeWhile_append2) auto
  moreover have "filter is_newline tail = []" "filter char_start (rev tail) = []"
    using nl assms(2) by (auto simp: filter_empty_conv)
  ultimately show ?thesis
    using assms(1) by (simp add: position_after_def Let_def)
qed

text \<open>The lexer is placed: it stands at a character boundary and knows its position.\<close>

definition placed :: "lexer \<Rightarrow> bool" where
  "placed lx \<longleftrightarrow>
     lx_cursor lx \<le> length (lx_source lx) \<and> utf8_valid (lx_rest lx) \<and>
     lx_position lx = position_after (take (lx_cursor lx) (lx_source lx))"

lemma newline_is: "[c] = newline \<longleftrightarrow> is_newline c"
proof -
  have "c = char_of (10 :: nat)" if "byte c = 10"
    using arg_cong [OF that, of char_of] by (simp add: byte_def)
  then show ?thesis by (auto simp: newline_def is_newline_def byte_def)
qed

lemma placed_skip:
  assumes "placed lx"
  shows "placed (skip_char lx)"
proof (cases rule: advance_cases [of lx])
  case stop
  then show ?thesis using assms by simp
next
  case (char ch)
  then obtain c s where rest: "lx_rest lx = c # s" by (cases "lx_rest lx") (auto simp: peek_def)
  with assms have valid: "utf8_valid (c # s)" by (simp add: placed_def)
  obtain tail after where ch: "first_char (c # s) = Some (c # tail)" "s = tail @ after" "utf8_valid after"
    and c: "char_start c" "\<And>d. d \<in> set tail \<Longrightarrow> \<not> char_start d" "is_newline c \<Longrightarrow> tail = []"
    using valid by (rule valid_char) blast
  have here: "ch = c # tail" using char(1) ch(1) rest by (simp add: peek_def)
  define k where "k = lx_cursor lx"
  have drop: "drop k (lx_source lx) = (c # tail) @ after" using rest ch(2) by (simp add: lx_rest_def k_def)
  then have before: "take (k + length (c # tail)) (lx_source lx) = take k (lx_source lx) @ c # tail"
    unfolding take_add drop by simp
  have after: "drop (k + length (c # tail)) (lx_source lx) = after"
    using arg_cong [OF drop, of "drop (length (c # tail))"] by (simp add: add.commute)
  have nl: "ch = newline \<longleftrightarrow> is_newline c"
    using newline_is [of c] c(3) here by (auto simp: newline_def)
  have "position_after (take k (lx_source lx)) = lx_position lx"
    using assms by (simp add: placed_def k_def)
  with position_after_char [of c tail "take k (lx_source lx)", OF c(1,2)]
  have "position_after (take k (lx_source lx) @ c # tail) = lx_position (skip_char lx)"
    using char(1) nl here by (simp add: skip_char_def advance_def Let_def lx_position_def)
  then show ?thesis
    using char ch(3) before after here by (simp add: placed_def lx_rest_def k_def)
qed

lemma placed_moves: "moves lx lx' \<Longrightarrow> placed lx \<Longrightarrow> placed lx'"
  by (induction rule: moves_induct) (auto intro: placed_skip)

lemma placed_new: "utf8_valid source \<Longrightarrow> placed (lexer_new source)"
  by (simp add: placed_def lexer_new_def lx_rest_def lx_position_def position_after_def)

section \<open>Reading\<close>

text \<open>\<open>reads lx s lx'\<close>: the lexer moves over the text \<open>s\<close>.\<close>

definition reads :: "lexer \<Rightarrow> string \<Rightarrow> lexer \<Rightarrow> bool" where
  "reads lx s lx' \<longleftrightarrow> moves lx lx' \<and> lx_rest lx = s @ lx_rest lx'"

lemma reads_refl [simp]: "reads lx [] lx"
  by (simp add: reads_def)

lemma reads_trans: "reads lx s lx1 \<Longrightarrow> reads lx1 t lx2 \<Longrightarrow> reads lx (s @ t) lx2"
  by (auto simp: reads_def intro: moves_trans)

lemma reads_skip:
  assumes "peek lx = Some ch"
  shows "reads lx ch (skip_char lx)"
proof -
  from first_char_Some [OF assms [unfolded peek_def]] have "lx_rest lx = ch @ drop (length ch) (lx_rest lx)"
    by simp
  moreover have "lx_rest (skip_char lx) = drop (length ch) (lx_rest lx)"
    using assms by (auto simp: skip_char_def advance_def Let_def lx_rest_def add.commute)
  ultimately show ?thesis by (simp add: reads_def moves_skip)
qed

lemma reads_cons: "peek lx = Some ch \<Longrightarrow> reads (skip_char lx) s lx' \<Longrightarrow> reads lx (ch @ s) lx'"
  by (rule reads_trans [OF reads_skip])

lemma reads_slice:
  assumes "reads lx s lx'" and "lx_cursor lx \<le> length (lx_source lx)"
  shows "lx_slice lx' (lx_cursor lx) = s" and "lx_cursor lx' = lx_cursor lx + length s"
proof -
  have m: "moves lx lx'" and rest: "lx_rest lx = s @ lx_rest lx'" using assms(1) by (auto simp: reads_def)
  note bounds = moves_bounds [OF m]
  have "length (lx_rest lx) = length s + length (lx_rest lx')" using rest by simp
  then show cursor: "lx_cursor lx' = lx_cursor lx + length s"
    using bounds assms(2) by (simp add: lx_rest_def)
  show "lx_slice lx' (lx_cursor lx) = s"
    using rest bounds(1) cursor by (simp add: lx_slice_def lx_rest_def)
qed

lemma peek_next_skip: "peek lx = Some ch \<Longrightarrow> peek_next lx = peek (skip_char lx)"
  using reads_skip [of lx ch] by (simp add: peek_next_def peek_def reads_def)

lemma reads_consume: "\<exists>s. reads lx s (consume_while (on_char p) lx) \<and> (\<forall>c\<in>set s. p c)"
proof (induction "on_char p" lx rule: consume_while.induct)
  case (1 lx)
  show ?case
  proof (cases "\<exists>ch. peek lx = Some ch \<and> on_char p ch")
    case True
    then obtain ch where ch: "peek lx = Some ch" "on_char p ch" by blast
    with 1 obtain s where "reads (skip_char lx) s (consume_while (on_char p) (skip_char lx))" "\<forall>c\<in>set s. p c"
      by blast
    moreover have "\<forall>c\<in>set ch. p c" using ch(2) by (auto simp: on_char_def split: list.splits)
    ultimately show ?thesis
      using ch reads_cons [OF ch(1)] by (intro exI [of _ "ch @ s"]) (auto simp: consume_while.simps [of _ lx])
  next
    case False
    then show ?thesis
      by (intro exI [of _ "[]"]) (auto simp: consume_while.simps [of _ lx] split: option.splits)
  qed
qed

section \<open>Trivia\<close>

inductive trivia :: "string \<Rightarrow> bool" where
  trivia_none: "trivia []"
| trivia_space: "is_whitespace ch \<Longrightarrow> trivia t \<Longrightarrow> trivia (ch @ t)"
| trivia_line: "\<forall>c\<in>set body. \<not> is_newline c \<Longrightarrow> trivia t \<Longrightarrow> trivia (''//'' @ body @ t)"
| trivia_block: "trivia t \<Longrightarrow> trivia (''/*'' @ body @ ''*/'' @ t)"

lemma placed_char_newline:
  assumes "placed lx" and "peek lx = Some ch" and "ch \<noteq> newline"
  shows "\<forall>c\<in>set ch. \<not> is_newline c"
proof -
  obtain c s where rest: "lx_rest lx = c # s" using assms(2) by (cases "lx_rest lx") (auto simp: peek_def)
  with assms(1) have valid: "utf8_valid (c # s)" by (simp add: placed_def)
  obtain tail where "first_char (c # s) = Some (c # tail)"
    and tail: "\<And>d. d \<in> set tail \<Longrightarrow> \<not> char_start d" "is_newline c \<Longrightarrow> tail = []"
    using valid by (rule valid_char) blast
  then have ch: "ch = c # tail" using assms(2) rest by (simp add: peek_def)
  have "\<not> is_newline c" using assms(3) tail(2) ch newline_is [of c] by auto
  moreover have "\<not> is_newline d" if "d \<in> set tail" for d
    using tail(1) [OF that] by (auto simp: char_start_def is_newline_def utf8_cont_def)
  ultimately show ?thesis using ch by auto
qed

lemma reads_line: "placed lx \<Longrightarrow> \<exists>s. reads lx s (skip_line lx) \<and> (\<forall>c\<in>set s. \<not> is_newline c)"
proof (induction lx rule: skip_line.induct)
  case (1 lx)
  show ?case
  proof (cases "\<exists>ch. peek lx = Some ch \<and> ch \<noteq> newline")
    case True
    then obtain ch where ch: "peek lx = Some ch" "ch \<noteq> newline" by blast
    with 1 obtain s where "reads (skip_char lx) s (skip_line (skip_char lx))" "\<forall>c\<in>set s. \<not> is_newline c"
      using placed_skip by blast
    then show ?thesis
      using ch reads_cons [OF ch(1)] placed_char_newline [OF 1(2) ch]
      by (intro exI [of _ "ch @ s"]) (auto simp: skip_line.simps [of lx])
  next
    case False
    then show ?thesis
      by (intro exI [of _ "[]"]) (auto simp: skip_line.simps [of lx] split: option.splits)
  qed
qed

lemma reads_comment_end:
  "comment_end start lx = (lx', Inr u) \<Longrightarrow> \<exists>body. reads lx (body @ ''*/'') lx'"
proof (induction start lx arbitrary: lx' u rule: comment_end.induct)
  case (1 start lx)
  from 1(2) obtain ch where ch: "peek lx = Some ch"
    by (subst (asm) comment_end.simps) (auto split: option.splits)
  show ?case
  proof (cases "ch = ''*'' \<and> peek_next lx = Some ''/''")
    case True
    then have "lx' = skip_char (skip_char lx)" "peek (skip_char lx) = Some ''/''"
      using 1(2) ch peek_next_skip [OF ch] by (auto simp: comment_end.simps [of _ lx])
    then have "reads lx (''*'' @ ''/'') lx'"
      using ch True by (blast intro: reads_cons reads_skip)
    then show ?thesis by (intro exI [of _ "[]"]) simp
  next
    case False
    with 1(2) ch have "comment_end start (skip_char lx) = (lx', Inr u)"
      by (auto simp: comment_end.simps [of _ lx])
    with 1(1) [OF ch False] obtain body where "reads (skip_char lx) (body @ ''*/'') lx'" by blast
    then show ?thesis using reads_cons [OF ch] by (intro exI [of _ "ch @ body"]) simp
  qed
qed

lemma reads_trivia:
  "skip_trivia lx = (lx', Inr u) \<Longrightarrow> placed lx \<Longrightarrow> \<exists>t. reads lx t lx' \<and> trivia t"
proof (induction lx arbitrary: lx' u rule: skip_trivia.induct)
  case (1 lx)
  note IH = 1(1-3) and eq = 1(4) [unfolded skip_trivia.simps [of lx]] and placed = 1(5)
  show ?case
  proof (cases "peek lx")
    case None
    with eq show ?thesis by (intro exI [of _ "[]"]) (auto intro: trivia_none)
  next
    case (Some ch)
    note skip = reads_skip [OF Some]
    consider (space) "is_whitespace ch"
      | (line) "\<not> is_whitespace ch" "ch = ''/''" "peek_next lx = Some ''/''"
      | (block) "\<not> is_whitespace ch" "ch = ''/''" "peek_next lx = Some ''*''"
      | (stop) "lx' = lx"
      using eq Some by (auto split: if_splits)
    then show ?thesis
    proof cases
      case space
      with eq Some have "skip_trivia (skip_char lx) = (lx', Inr u)" by simp
      from IH(1) [OF Some space this placed_skip [OF placed]]
      obtain t where "reads (skip_char lx) t lx'" "trivia t" by blast
      then show ?thesis using reads_trans [OF skip] trivia_space [OF space] by blast
    next
      case line
      define lx1 where "lx1 = skip_char (skip_char lx)"
      have "reads lx (''/'' @ ''/'') lx1"
        using line Some peek_next_skip [OF Some] unfolding lx1_def by (metis reads_cons reads_skip)
      moreover have placed1: "placed lx1" unfolding lx1_def by (intro placed_skip placed)
      then obtain s where s: "reads lx1 s (skip_line lx1)" "\<forall>c\<in>set s. \<not> is_newline c"
        using reads_line by blast
      have "skip_trivia (skip_line lx1) = (lx', Inr u)" using eq Some line by (simp add: lx1_def)
      then obtain t where "reads (skip_line lx1) t lx'" "trivia t"
        using IH(2) [OF Some line(1)] line placed_moves [OF moves_skip_line placed1]
        unfolding lx1_def by blast
      ultimately have "reads lx (((''/'' @ ''/'') @ s) @ t) lx'"
        using s(1) by (blast intro: reads_trans)
      then show ?thesis
        using trivia_line [OF s(2) \<open>trivia t\<close>] by (intro exI [of _ "''//'' @ s @ t"]) simp
    next
      case block
      with eq Some obtain lx1 v where b: "skip_block_comment lx = (lx1, Inr v)" "skip_trivia lx1 = (lx', Inr u)"
        by (auto split: prod.splits sum.splits)
      have two: "reads lx (''/'' @ ''*'') (skip_char (skip_char lx))"
        using block Some peek_next_skip [OF Some] by (metis reads_cons reads_skip)
      obtain body where body: "reads (skip_char (skip_char lx)) (body @ ''*/'') lx1"
        using b(1) reads_comment_end unfolding skip_block_comment_def by blast
      have "placed lx1"
        using two body placed placed_moves by (auto simp: reads_def)
      then obtain t where "reads lx1 t lx'" "trivia t"
        using IH(3) [OF Some block(1) _ _ b(1) [symmetric] refl] b(2) block by auto
      then show ?thesis
        using reads_trans [OF reads_trans [OF two body]] trivia_block [of t body]
        by (intro exI [of _ "''/*'' @ body @ ''*/'' @ t"]) force
    next
      case stop
      then show ?thesis by (intro exI [of _ "[]"]) (auto intro: trivia_none)
    qed
  qed
qed

section \<open>Lexemes\<close>

definition punctuation :: "string \<Rightarrow> token_kind option" where
  "punctuation text = map_of
     [(''+'', T_Plus), (''-'', T_Minus), (''*'', T_Star), (''/'', T_Slash), (''%'', T_Percent),
      (''='', T_Equals), (''+='', T_PlusEquals), (''-='', T_MinusEquals), (''*='', T_StarEquals),
      (''/='', T_SlashEquals), (''%='', T_PercentEquals), (''=='', T_EqualsEquals),
      (''==='', T_StrictEquals), (''!='', T_BangEquals), (''!=='', T_StrictBangEquals),
      (''!'', T_Bang), (''<'', T_Less), (''<='', T_LessEquals), (''>'', T_Greater),
      (''>='', T_GreaterEquals), (''&&'', T_AndAnd), (''||'', T_PipePipe),
      (''??'', T_QuestionQuestion), (''=>'', T_Arrow), ('':'', T_Colon), ('';'', T_Semicolon),
      ('','', T_Comma), (''.'', T_Dot), (''?'', T_Question), (''('', T_LeftParen),
      ('')'', T_RightParen), (''{'', T_LeftBrace), (''}'', T_RightBrace), (''['', T_LeftBracket),
      ('']'', T_RightBracket)] text"

definition is_name :: "string \<Rightarrow> bool" where
  "is_name text \<longleftrightarrow> text \<noteq> [] \<and> ident_start (hd text) \<and> (\<forall>c\<in>set text. ident_part c)"

definition digits :: "string \<Rightarrow> bool" where
  "digits s \<longleftrightarrow> s \<noteq> [] \<and> (\<forall>c\<in>set s. ascii_digit c)"

definition is_fraction :: "string \<Rightarrow> bool" where
  "is_fraction s \<longleftrightarrow> s = [] \<or> (\<exists>ds. s = ''.'' @ ds \<and> digits ds)"

definition is_exponent :: "string \<Rightarrow> bool" where
  "is_exponent s \<longleftrightarrow>
     s = [] \<or> (\<exists>e sign ds. s = e @ sign @ ds \<and> (e = ''e'' \<or> e = ''E'') \<and>
                (sign = [] \<or> sign = ''+'' \<or> sign = ''-'') \<and> digits ds)"

definition is_number :: "string \<Rightarrow> bool" where
  "is_number text \<longleftrightarrow>
     (\<exists>ds fr ex. text = ds @ fr @ ex \<and> digits ds \<and> is_fraction fr \<and> is_exponent ex)"

text \<open>The text between the quotes of a string literal, and its value.\<close>

inductive string_body :: "string \<Rightarrow> string \<Rightarrow> string \<Rightarrow> bool" for quote_char where
  body_end: "string_body quote_char [] []"
| body_char: "ch \<notin> {quote_char, newline, carriage_return, backslash} \<Longrightarrow>
    string_body quote_char s v \<Longrightarrow> string_body quote_char (ch @ s) (ch @ v)"
| body_escape: "string_body quote_char s v \<Longrightarrow>
    string_body quote_char (backslash @ ch @ s) (unescape ch @ v)"

inductive lexeme :: "token_kind \<Rightarrow> string \<Rightarrow> bool" where
  lexeme_punctuation: "punctuation text = Some k \<Longrightarrow> lexeme k text"
| lexeme_keyword: "is_name text \<Longrightarrow> keyword text = Some k \<Longrightarrow> lexeme k text"
| lexeme_identifier: "is_name text \<Longrightarrow> keyword text = None \<Longrightarrow> lexeme (T_Identifier text) text"
| lexeme_number: "is_number text \<Longrightarrow> lexeme (T_NumberLiteral text) text"
| lexeme_string: "q = [char_of (34 :: nat)] \<or> q = [char_of (39 :: nat)] \<Longrightarrow> string_body q s v \<Longrightarrow>
    lexeme (T_StringLiteral v) (q @ s @ q)"

lemma reads_string:
  "string_literal start q v lx = (lx', Inr k) \<Longrightarrow>
   \<exists>s w. reads lx (s @ q) lx' \<and> string_body q s w \<and> k = T_StringLiteral (v @ w)"
proof (induction start q v lx arbitrary: lx' k rule: string_literal.induct)
  case (1 start q v lx)
  note eq = 1(3) [unfolded string_literal.simps [of _ _ _ lx]]
  then obtain ch where ch: "peek lx = Some ch" by (auto split: option.splits)
  note skip = reads_skip [OF ch]
  consider (close) "ch = q" | (escape) "ch \<noteq> q" "ch = backslash" "\<not> (ch = newline \<or> ch = carriage_return)"
    | (plain) "ch \<noteq> q" "ch \<noteq> backslash" "\<not> (ch = newline \<or> ch = carriage_return)"
    using eq ch by (auto split: if_splits)
  then show ?case
  proof cases
    case close
    with eq ch skip show ?thesis
      by (intro exI [of _ "[]"]) (auto intro: body_end)
  next
    case escape
    with eq ch obtain e where e: "peek (skip_char lx) = Some e"
      and rec: "string_literal start q (v @ unescape e) (skip_char (skip_char lx)) = (lx', Inr k)"
      by (auto split: option.splits)
    from 1(1) [OF ch escape(1,3,2) e rec] obtain s w where
      "reads (skip_char (skip_char lx)) (s @ q) lx'" "string_body q s w" "k = T_StringLiteral (v @ unescape e @ w)"
      by auto
    then show ?thesis
      using reads_cons [OF ch reads_cons [OF e]] escape(2) body_escape [of q s w e]
      by (intro exI [of _ "backslash @ e @ s"] exI [of _ "unescape e @ w"]) simp
  next
    case plain
    with eq ch have rec: "string_literal start q (v @ ch) (skip_char lx) = (lx', Inr k)" by auto
    from 1(2) [OF ch plain(1,3,2) rec] obtain s w where
      "reads (skip_char lx) (s @ q) lx'" "string_body q s w" "k = T_StringLiteral (v @ ch @ w)"
      by auto
    then show ?thesis
      using reads_cons [OF ch] plain body_char [of ch q s w]
      by (intro exI [of _ "ch @ s"] exI [of _ "ch @ w"]) simp
  qed
qed

lemma peek_is_char: "peek_is p lx \<longleftrightarrow> (\<exists>c. peek lx = Some [c] \<and> p c)"
  by (auto simp: peek_is_def on_char_def split: option.split list.splits)

lemma reads_digits:
  assumes "peek_is ascii_digit lx"
  shows "\<exists>s. reads lx s (consume_digits lx) \<and> digits s"
proof -
  from assms obtain c where c: "peek lx = Some [c]" "ascii_digit c" by (auto simp: peek_is_char)
  obtain s where "reads (skip_char lx) s (consume_digits (skip_char lx))" "\<forall>c\<in>set s. ascii_digit c"
    using reads_consume unfolding consume_digits_def by blast
  moreover have "consume_digits lx = consume_digits (skip_char lx)"
    using c by (simp add: consume_digits_def consume_while.simps [of _ lx] on_char_def)
  ultimately show ?thesis
    using c reads_cons [OF c(1), of s] by (intro exI [of _ "[c] @ s"]) (simp add: digits_def)
qed

lemma reads_fraction: "\<exists>s. reads lx s (fraction_part lx) \<and> is_fraction s"
proof (cases "peek lx = Some ''.'' \<and> peek_is ascii_digit (skip_char lx)")
  case True
  then obtain s where "reads (skip_char lx) s (consume_digits (skip_char lx))" "digits s"
    using reads_digits by blast
  moreover have "fraction_part lx = consume_digits (skip_char lx)"
    using True by (simp add: fraction_part_def peek_next_skip peek_is_def)
  ultimately show ?thesis
    using True reads_cons by (intro exI [of _ "''.'' @ s"]) (auto simp: is_fraction_def simp del: append_Cons)
next
  case False
  then have "fraction_part lx = lx"
    using peek_next_skip [of lx "''.''"] by (auto simp: fraction_part_def peek_is_def)
  then show ?thesis by (intro exI [of _ "[]"]) (simp add: is_fraction_def)
qed

lemma restore_cursor:
  "moves lx lx2 \<Longrightarrow>
   lx2\<lparr>lx_cursor := lx_cursor lx, lx_line := lx_line lx, lx_column := lx_column lx\<rparr> = lx"
  using moves_bounds(1) [of lx lx2] by (cases lx; cases lx2) simp

lemma reads_exponent: "\<exists>s. reads lx s (exponent_part lx) \<and> is_exponent s"
proof (cases "peek_is (\<lambda>c. c = CHR ''e'' \<or> c = CHR ''E'') lx")
  case True
  then obtain e where e: "peek lx = Some e" "e = ''e'' \<or> e = ''E''" by (auto simp: peek_is_char)
  define lx1 where "lx1 = skip_char lx"
  define lx2 where "lx2 = (if peek_is (\<lambda>c. c = CHR ''+'' \<or> c = CHR ''-'') lx1 then skip_char lx1 else lx1)"
  have r1: "reads lx e lx1" unfolding lx1_def by (rule reads_skip [OF e(1)])
  obtain sign where sign: "reads lx1 sign lx2" "sign = [] \<or> sign = ''+'' \<or> sign = ''-''"
  proof (cases "peek_is (\<lambda>c. c = CHR ''+'' \<or> c = CHR ''-'') lx1")
    case True
    then obtain c where "peek lx1 = Some [c]" "c = CHR ''+'' \<or> c = CHR ''-''" by (auto simp: peek_is_char)
    with True that [of "[c]"] show thesis by (auto simp: lx2_def intro: reads_skip)
  next
    case False
    with that [of "[]"] show thesis by (simp add: lx2_def)
  qed
  have r2: "reads lx (e @ sign) lx2" by (rule reads_trans [OF r1 sign(1)])
  show ?thesis
  proof (cases "peek_is ascii_digit lx2")
    case True
    then obtain ds where "reads lx2 ds (consume_digits lx2)" "digits ds" using reads_digits by blast
    moreover have "exponent_part lx = consume_digits lx2"
      using \<open>peek_is _ lx\<close> True by (simp add: exponent_part_def lx1_def [symmetric] lx2_def [symmetric])
    ultimately have "reads lx ((e @ sign) @ ds) (exponent_part lx)" using reads_trans [OF r2] by simp
    moreover have "is_exponent ((e @ sign) @ ds)"
      unfolding is_exponent_def append_assoc using e(2) sign(2) \<open>digits ds\<close> by blast
    ultimately show ?thesis by blast
  next
    case False
    have "exponent_part lx = lx2\<lparr>lx_cursor := lx_cursor lx, lx_line := lx_line lx, lx_column := lx_column lx\<rparr>"
      using \<open>peek_is _ lx\<close> False by (simp add: exponent_part_def lx1_def [symmetric] lx2_def [symmetric] del: lexer.update_convs)
    then have "exponent_part lx = lx" using restore_cursor r2 by (simp add: reads_def)
    then show ?thesis by (intro exI [of _ "[]"]) (simp add: is_exponent_def)
  qed
qed (auto simp: exponent_part_def is_exponent_def intro!: exI [of _ "[]"])

section \<open>Tokens\<close>

text \<open>The lexer after the first character \<open>ch\<close> of a token.\<close>

definition after_first :: "lexer \<Rightarrow> string \<Rightarrow> lexer \<Rightarrow> bool" where
  "after_first lx0 ch lx \<longleftrightarrow>
     peek lx0 = Some ch \<and> lx = skip_char lx0 \<and> lx_cursor lx0 \<le> length (lx_source lx0)"

definition lexed_from :: "lexer \<Rightarrow> lexer \<Rightarrow> token_kind \<Rightarrow> bool" where
  "lexed_from lx0 lx' k \<longleftrightarrow> (\<exists>text. text \<noteq> [] \<and> reads lx0 text lx' \<and> lexeme k text)"

lemma after_first_reads: "after_first lx0 ch lx \<Longrightarrow> reads lx s lx' \<Longrightarrow> reads lx0 (ch @ s) lx'"
  by (auto simp: after_first_def intro: reads_cons)

lemma after_first_slice:
  assumes "after_first lx0 ch lx" and "reads lx s lx'"
  shows "lx_slice lx' (pos_byte (lx_position lx0)) = ch @ s"
  using reads_slice(1) [OF after_first_reads [OF assms]] assms(1)
  by (simp add: after_first_def lx_position_def)

lemma lexed_name:
  assumes first: "after_first lx0 ch lx" and ch: "on_char ident_start ch"
    and id: "identifier_or_keyword (lx_position lx0) lx = (lx', k)"
  shows "lexed_from lx0 lx' k"
proof -
  obtain c where c: "ch = [c]" "ident_start c" using ch by (auto simp: on_char_def split: list.splits)
  obtain s where s: "reads lx s lx'" "\<forall>c\<in>set s. ident_part c"
    using id reads_consume [of lx ident_part] by (auto simp: identifier_or_keyword_def Let_def)
  have "is_name (ch @ s)" using c s(2) by (auto simp: is_name_def ident_part_def)
  moreover have "k = (case keyword (ch @ s) of Some k \<Rightarrow> k | None \<Rightarrow> T_Identifier (ch @ s))"
  proof -
    have "k = (case keyword (lx_slice lx' (pos_byte (lx_position lx0))) of
        Some k \<Rightarrow> k | None \<Rightarrow> T_Identifier (lx_slice lx' (pos_byte (lx_position lx0))))"
      using id by (auto simp: identifier_or_keyword_def Let_def)
    then show ?thesis by (simp only: after_first_slice [OF first s(1)])
  qed
  ultimately have "lexeme k (ch @ s)"
    by (auto split: option.split intro: lexeme_keyword lexeme_identifier)
  then show ?thesis
    using after_first_reads [OF first s(1)] c unfolding lexed_from_def by blast
qed

lemma lexed_number:
  assumes first: "after_first lx0 ch lx" and ch: "on_char ascii_digit ch"
    and num: "number_literal (lx_position lx0) lx = (lx', k)"
  shows "lexed_from lx0 lx' k"
proof -
  obtain c where c: "ch = [c]" "ascii_digit c" using ch by (auto simp: on_char_def split: list.splits)
  obtain ds where ds: "reads lx ds (consume_digits lx)" "\<forall>c\<in>set ds. ascii_digit c"
    using reads_consume unfolding consume_digits_def by blast
  obtain fr where fr: "reads (consume_digits lx) fr (fraction_part (consume_digits lx))" "is_fraction fr"
    using reads_fraction by blast
  obtain ex where ex: "reads (fraction_part (consume_digits lx)) ex lx'" "is_exponent ex"
    using reads_exponent num by (fastforce simp: number_literal_def Let_def)
  have all: "reads lx ((ds @ fr) @ ex) lx'" by (rule reads_trans [OF reads_trans [OF ds(1) fr(1)] ex(1)])
  have "digits (ch @ ds)" using c ds(2) by (simp add: digits_def)
  then have "is_number (ch @ (ds @ fr) @ ex)"
    unfolding is_number_def append_assoc using fr(2) ex(2) by (metis append_assoc)
  moreover have "k = T_NumberLiteral (ch @ (ds @ fr) @ ex)"
    using num after_first_slice [OF first all] by (auto simp: number_literal_def Let_def)
  ultimately show ?thesis
    using after_first_reads [OF first all] c lexeme_number unfolding lexed_from_def by blast
qed

lemma lexed_string:
  assumes "after_first lx0 ch lx" and q: "ch = [char_of (34 :: nat)] \<or> ch = [char_of (39 :: nat)]"
    and str: "string_literal start ch [] lx = (lx', Inr k)"
  shows "lexed_from lx0 lx' k"
proof -
  obtain s w where s: "reads lx (s @ ch) lx'" "string_body ch s w" "k = T_StringLiteral w"
    using reads_string [OF str] by auto
  then have "lexeme k (ch @ s @ ch)" using lexeme_string [OF q] by simp
  then show ?thesis
    using after_first_reads [OF assms(1) s(1)] q unfolding lexed_from_def by blast
qed

lemma lexed_punctuation:
  assumes "after_first lx0 ch lx"
  shows "lx' = lx \<Longrightarrow> punctuation ch = Some k \<Longrightarrow> lexed_from lx0 lx' k"
    and "peek lx = Some t \<Longrightarrow> lx' = skip_char lx \<Longrightarrow> punctuation (ch @ t) = Some k \<Longrightarrow> lexed_from lx0 lx' k"
    and "peek lx = Some t \<Longrightarrow> peek (skip_char lx) = Some u \<Longrightarrow> lx' = skip_char (skip_char lx) \<Longrightarrow>
      punctuation (ch @ t @ u) = Some k \<Longrightarrow> lexed_from lx0 lx' k"
proof -
  have general: "lexed_from lx0 lx' k" if "reads lx s lx'" "punctuation (ch @ s) = Some k" for s
  proof -
    have "ch \<noteq> []" using assms first_char_Some by (auto simp: after_first_def peek_def)
    with that show ?thesis
      using after_first_reads [OF assms that(1)] lexeme_punctuation [OF that(2)]
      unfolding lexed_from_def by blast
  qed
  show "lx' = lx \<Longrightarrow> punctuation ch = Some k \<Longrightarrow> lexed_from lx0 lx' k"
    using general [of "[]"] by simp
  show "peek lx = Some t \<Longrightarrow> lx' = skip_char lx \<Longrightarrow> punctuation (ch @ t) = Some k \<Longrightarrow> lexed_from lx0 lx' k"
    using general reads_skip by blast
  show "peek lx = Some t \<Longrightarrow> peek (skip_char lx) = Some u \<Longrightarrow> lx' = skip_char (skip_char lx) \<Longrightarrow>
      punctuation (ch @ t @ u) = Some k \<Longrightarrow> lexed_from lx0 lx' k"
    using general reads_cons reads_skip by blast
qed

lemma ok_token_eq: "ok_token r = (lx', Inr k) \<longleftrightarrow> r = (lx', k)"
  by (cases r) (auto simp: ok_token_def)

lemma match_or_cases:
  "ok_token (match_or a b e lx) = (lx', Inr k) \<Longrightarrow>
   (lx' = lx \<and> k = b) \<or> (peek lx = Some e \<and> lx' = skip_char lx \<and> k = a)"
  by (auto simp: ok_token_def match_or_def match_char_def split: if_splits)

lemma if_branches: "(if d then x else y) = r \<Longrightarrow> (d \<Longrightarrow> x = r \<Longrightarrow> P) \<Longrightarrow> (y = r \<Longrightarrow> P) \<Longrightarrow> P"
  by (cases d) auto

lemma lexed_token:
  assumes first: "after_first lx0 ch lx" and tok: "token_after (lx_position lx0) ch lx = (lx', Inr k)"
  shows "lexed_from lx0 lx' k"
proof -
  note punct = lexed_punctuation [OF first] and pd = punctuation_def
  have two: "lexed_from lx0 lx' k"
    if "ok_token (match_or a b e lx) = (lx', Inr k)" "punctuation ch = Some b" "punctuation (ch @ e) = Some a"
    for a b e
    using match_or_cases [OF that(1)] punct(1,2) that(2,3) by blast
  have three: "lexed_from lx0 lx' k"
    if "ok_token (match_or a b e (skip_char lx)) = (lx', Inr k)" "peek lx = Some t"
      "punctuation (ch @ t) = Some b" "punctuation (ch @ t @ e) = Some a" for a b e t
    using match_or_cases [OF that(1)] punct(2,3) that(2-4) by blast
  from tok show ?thesis
    unfolding token_after_def
    apply (elim if_branches)
    apply (((erule two; simp add: pd; fail) | (erule three, assumption, simp add: pd, simp add: pd; fail) |
       (rule lexed_name [OF first], assumption, simp add: ok_token_eq; fail) |
       (rule lexed_number [OF first], assumption, simp add: ok_token_eq; fail) |
       (rule lexed_string [OF first]; assumption; fail) |
       (rule punct(1), simp, simp add: pd; fail) |
       ((elim conjE)?, rule punct(2), assumption, simp, simp add: pd; fail) | (simp; fail))+)
    done
qed

section \<open>The source as trivia and lexemes\<close>

text \<open>
  \<open>lexes before rest tokens\<close>: after the prefix \<open>before\<close>, the text \<open>rest\<close> is lexemes separated by
  trivia, and \<open>tokens\<close> are their tokens at their places in the source.
\<close>

inductive lexes :: "string \<Rightarrow> string \<Rightarrow> token list \<Rightarrow> bool" where
  lexes_end: "trivia rest \<Longrightarrow> lexes before rest []"
| lexes_token: "trivia gap \<Longrightarrow> text \<noteq> [] \<Longrightarrow> lexeme k text \<Longrightarrow>
    lexes (before @ gap @ text) rest tokens \<Longrightarrow>
    lexes before (gap @ text @ rest)
      (\<lparr>tok_kind = k, tok_span = \<lparr>span_start = position_after (before @ gap),
         span_end = position_after (before @ gap @ text)\<rparr>\<rparr> # tokens)"

inductive_cases lexes_NilE: "lexes b r []"
inductive_cases lexes_ConsE: "lexes b r (t # ts)"

definition lx_before :: "lexer \<Rightarrow> string" where
  "lx_before lx = take (lx_cursor lx) (lx_source lx)"

lemma placed_position: "placed lx \<Longrightarrow> lx_position lx = position_after (lx_before lx)"
  by (simp add: placed_def lx_before_def)

lemma reads_before:
  assumes "reads lx s lx'" and "placed lx"
  shows "placed lx'" and "lx_before lx' = lx_before lx @ s"
proof -
  have m: "moves lx lx'" and rest: "lx_rest lx = s @ lx_rest lx'" using assms(1) by (auto simp: reads_def)
  show "placed lx'" by (rule placed_moves [OF m assms(2)])
  have "lx_cursor lx' = lx_cursor lx + length s"
    using reads_slice(2) [OF assms(1)] assms(2) by (simp add: placed_def)
  then show "lx_before lx' = lx_before lx @ s"
    using moves_bounds(1) [OF m] rest by (simp add: lx_before_def take_add lx_rest_def)
qed

lemma next_token_lexed:
  assumes "placed lx" and tok: "next_token lx = (lx', Inr t)"
  obtains s where "s \<noteq> []" "reads lx s lx'" "lexeme (tok_kind t) s"
    "t = \<lparr>tok_kind = tok_kind t, tok_span = \<lparr>span_start = lx_position lx, span_end = lx_position lx'\<rparr>\<rparr>"
proof -
  from tok obtain ch where ch: "peek lx = Some ch"
    by (cases "peek lx") (auto simp: next_token_def Let_def advance_def)
  then have adv: "advance lx = (skip_char lx, Some ch)"
    by (simp add: skip_char_def advance_def Let_def)
  from tok obtain k where k: "token_after (lx_position lx) ch (skip_char lx) = (lx', Inr k)"
    and t: "t = \<lparr>tok_kind = k, tok_span = \<lparr>span_start = lx_position lx, span_end = lx_position lx'\<rparr>\<rparr>"
    by (auto simp: next_token_def Let_def adv split: prod.splits sum.splits)
  have "after_first lx ch (skip_char lx)"
    using ch assms(1) by (simp add: after_first_def placed_def)
  from lexed_token [OF this k] t that show thesis by (auto simp: lexed_from_def)
qed

lemma lex_all_lexes:
  "lex_all lx acc = Inr tokens \<Longrightarrow> placed lx \<Longrightarrow>
   \<exists>ts. tokens = acc @ ts \<and> lexes (lx_before lx) (lx_rest lx) ts"
proof (induction lx acc arbitrary: tokens rule: lex_all.induct)
  case (1 lx acc)
  note eq = 1(2) [unfolded lex_all.simps [of lx]] and placed = 1(3)
  have at_end: "lx_rest lx1 = []" if "is_at_end lx1" for lx1
    using that by (simp add: is_at_end_def lx_rest_def)
  show ?case
  proof (cases "is_at_end lx")
    case True
    with eq at_end show ?thesis by (auto intro: lexes_end trivia_none)
  next
    case False
    with eq obtain lx1 u where skip: "skip_trivia lx = (lx1, Inr u)"
      by (auto split: prod.splits sum.splits)
    obtain gap where gap: "reads lx gap lx1" "trivia gap" using reads_trivia [OF skip placed] by blast
    note before = reads_before [OF gap(1) placed]
    have rest: "lx_rest lx = gap @ lx_rest lx1" using gap(1) by (simp add: reads_def)
    show ?thesis
    proof (cases "is_at_end lx1")
      case True
      with eq False skip rest at_end gap(2) show ?thesis by (auto intro: lexes_end)
    next
      case end1: False
      with eq False skip obtain lx2 t where tok: "next_token lx1 = (lx2, Inr t)"
        and rec: "lex_all lx2 (acc @ [t]) = Inr tokens"
        by (auto split: prod.splits sum.splits)
      obtain s where s: "s \<noteq> []" "reads lx1 s lx2" "lexeme (tok_kind t) s"
        and t: "t = \<lparr>tok_kind = tok_kind t, tok_span = \<lparr>span_start = lx_position lx1, span_end = lx_position lx2\<rparr>\<rparr>"
        by (rule next_token_lexed [OF before(1) tok])
      note before2 = reads_before [OF s(2) before(1)]
      have "\<exists>ts. tokens = (acc @ [t]) @ ts \<and> lexes (lx_before lx2) (lx_rest lx2) ts"
        by (rule 1(1) [OF False skip [symmetric] refl end1 tok [symmetric] refl rec before2(1)])
      then obtain ts where ts: "tokens = acc @ t # ts" "lexes (lx_before lx2) (lx_rest lx2) ts" by auto
      have "lexes (lx_before lx) (gap @ s @ lx_rest lx2)
          (\<lparr>tok_kind = tok_kind t, tok_span = \<lparr>span_start = position_after (lx_before lx @ gap),
             span_end = position_after (lx_before lx @ gap @ s)\<rparr>\<rparr> # ts)"
        using ts(2) before(2) before2(2) by (intro lexes_token gap(2) s(1,3)) simp
      moreover have "lx_rest lx = gap @ s @ lx_rest lx2" using rest s(2) by (simp add: reads_def)
      moreover have "t = \<lparr>tok_kind = tok_kind t, tok_span = \<lparr>span_start = position_after (lx_before lx @ gap),
             span_end = position_after (lx_before lx @ gap @ s)\<rparr>\<rparr>"
        using t placed_position [OF before(1)] placed_position [OF before2(1)] before(2) before2(2) by simp
      ultimately show ?thesis using ts(1) by auto
    qed
  qed
qed

text \<open>Every token lies in the source, after the token before it.\<close>

fun spans_from :: "nat \<Rightarrow> nat \<Rightarrow> token list \<Rightarrow> bool" where
  "spans_from low high [] \<longleftrightarrow> low \<le> high"
| "spans_from low high (t # ts) \<longleftrightarrow>
     low \<le> pos_byte (span_start (tok_span t)) \<and>
     pos_byte (span_start (tok_span t)) < pos_byte (span_end (tok_span t)) \<and>
     spans_from (pos_byte (span_end (tok_span t))) high ts"

lemma lexes_spans: "lexes before rest ts \<Longrightarrow> spans_from (length before) (length before + length rest) ts"
  by (induction rule: lexes.induct) (auto simp: position_after_def add.assoc)

section \<open>Totality\<close>

lemma token_after_no_panic: "snd (token_after start ch lx) \<noteq> Inl Lex_Panic"
proof -
  have str: "snd (string_literal start q v lx) \<noteq> Inl Lex_Panic" for q v
  proof (induction start q v lx rule: string_literal.induct)
    case (1 start q v lx)
    then show ?case
      by (subst string_literal.simps) (auto simp: lex_error_at_def split: option.split)
  qed
  have ok: "snd (ok_token r) \<noteq> Inl Lex_Panic" for r by (simp add: ok_token_def)
  have ifs: "snd (if d then x else y) \<noteq> e" if "snd x \<noteq> e" "snd y \<noteq> e"
    for d and x y :: "lexer \<times> (lex_failure + token_kind)" and e
    using that by simp
  show ?thesis
    unfolding token_after_def by (intro ifs str ok) (simp_all add: lex_error_at_def)
qed

lemma next_token_no_panic:
  assumes "\<not> is_at_end lx"
  shows "next_token lx \<noteq> (lx', Inl Lex_Panic)"
proof -
  have "lx_rest lx \<noteq> []" using assms by (simp add: is_at_end_def lx_rest_def)
  then obtain ch where "peek lx = Some ch" by (cases "peek lx") (auto simp: peek_def)
  then have "advance lx = (skip_char lx, Some ch)" by (simp add: skip_char_def advance_def Let_def)
  then show ?thesis
    using token_after_no_panic [of "lx_position lx" ch "skip_char lx"]
    by (auto simp: next_token_def Let_def split: prod.split sum.split)
qed

lemma block_comment_no_panic: "snd (skip_block_comment lx) \<noteq> Inl Lex_Panic"
proof -
  have "snd (comment_end start lx) \<noteq> Inl Lex_Panic" for start lx
  proof (induction start lx rule: comment_end.induct)
    case (1 start lx)
    then show ?case by (subst comment_end.simps) (auto simp: lex_error_at_def split: option.split)
  qed
  then show ?thesis by (simp add: skip_block_comment_def)
qed

lemma trivia_no_panic: "snd (skip_trivia lx) \<noteq> Inl Lex_Panic"
proof (induction lx rule: skip_trivia.induct)
  case (1 lx)
  show ?case
  proof (cases "peek lx")
    case None
    then show ?thesis by (simp add: skip_trivia.simps [of lx])
  next
    case (Some ch)
    consider (space) "is_whitespace ch"
      | (line) "\<not> is_whitespace ch" "ch = ''/'' \<and> peek_next lx = Some ''/''"
      | (block) "\<not> is_whitespace ch" "\<not> (ch = ''/'' \<and> peek_next lx = Some ''/'')"
          "ch = ''/'' \<and> peek_next lx = Some ''*''"
      | (stop) "\<not> is_whitespace ch" "\<not> (ch = ''/'' \<and> peek_next lx = Some ''/'')"
          "\<not> (ch = ''/'' \<and> peek_next lx = Some ''*'')"
      by blast
    then show ?thesis
    proof cases
      case space
      with 1(1) [OF Some space] Some show ?thesis by (simp add: skip_trivia.simps [of lx])
    next
      case line
      with 1(2) [OF Some line] Some show ?thesis by (simp add: skip_trivia.simps [of lx])
    next
      case block
      obtain lx1 r where r: "skip_block_comment lx = (lx1, r)" by (cases "skip_block_comment lx")
      show ?thesis
      proof (cases r)
        case (Inl e)
        with r block Some block_comment_no_panic [of lx] show ?thesis
          by (simp add: skip_trivia.simps [of lx])
      next
        case (Inr u)
        from 1(3) [OF Some block r [symmetric] Inr] r Inr block Some show ?thesis
          by (simp add: skip_trivia.simps [of lx])
      qed
    next
      case stop
      with Some show ?thesis by (auto simp: skip_trivia.simps [of lx])
    qed
  qed
qed

lemma lex_all_no_panic: "lex_all lx acc \<noteq> Inl Lex_Panic"
proof (induction lx acc rule: lex_all.induct)
  case (1 lx acc)
  show ?case
    using trivia_no_panic [of lx] 1
    by (subst lex_all.simps) (auto split: prod.split sum.split dest: next_token_no_panic)
qed

section \<open>Properties\<close>

text \<open>C6: lexing valid UTF-8 refines the lexical grammar: the source is lexemes separated by
  white space and comments, the tokens are those of the lexemes in order, and each token's span
  holds the byte offset, line and column at which its lexeme starts and ends.\<close>

theorem lex_refines_grammar:
  assumes "utf8_valid source" and "lex source = Inr tokens"
  shows "lexes [] source tokens"
  using lex_all_lexes [OF assms(2) [unfolded lex_def] placed_new [OF assms(1)]]
  by (simp add: lexer_new_def lx_before_def lx_rest_def)

lemma lex_sample: "\<exists>tokens. lex ''x=1'' = Inr tokens"
proof -
  have "\<not> isl (lex ''x=1'')" by code_simp
  then show ?thesis by (cases "lex ''x=1''") simp_all
qed

lemma valid_sample: "utf8_valid ''x=1''"
  by code_simp

theorem lex_refines_grammar_witness: "\<exists>tokens. lexes [] ''x=1'' tokens"
proof -
  obtain tokens where "lex ''x=1'' = Inr tokens" using lex_sample by blast
  from lex_refines_grammar [OF valid_sample this] show ?thesis by blast
qed

text \<open>C23: the tokens of valid UTF-8 have non-empty spans inside the source, in source order
  and without overlap.\<close>

theorem lex_spans_ordered:
  assumes "utf8_valid source" and "lex source = Inr tokens"
  shows "spans_from 0 (length source) tokens"
proof -
  from lex_all_lexes [OF assms(2) [unfolded lex_def] placed_new [OF assms(1)]]
  have "lexes [] source tokens" by (simp add: lexer_new_def lx_before_def lx_rest_def)
  from lexes_spans [OF this] show ?thesis by simp
qed

theorem lex_spans_ordered_witness: "\<exists>tokens. lex ''x=1'' = Inr tokens \<and> spans_from 0 (length ''x=1'') tokens"
proof -
  obtain tokens where lexed: "lex ''x=1'' = Inr tokens" using lex_sample by blast
  from lex_spans_ordered [OF valid_sample this] lexed show ?thesis by (intro exI [of _ tokens]) simp
qed


end
