(* ===== verification/Parser_Total.thy ===== *)
theory Parser_Total
  imports Parser Lexer_Spec
begin

text \<open>
  The parser is total: on any tokens it returns a program, it never runs out of the fuel of
  \<open>parse_tokens\<close>, it reaches no \<^verbatim>\<open>unreachable!\<close>, and every statement it parses consumes a token,
  so that the recovery for a parser that makes no progress is never used.
\<close>

section \<open>Computations that return and consume\<close>

definition p_left :: "parser \<Rightarrow> nat" where
  "p_left p = length (pr_tokens p) - pr_cursor p"

text \<open>
  \<open>ok_from P c N b\<close>: from any parser in \<open>P\<close> with at most \<open>N\<close> tokens left, \<open>c\<close> returns, and if \<open>b\<close>
  it consumes a token when there is one.
\<close>

text \<open>Every message the parser reports on its way says what it expected.\<close>

definition expecting :: "message \<Rightarrow> bool" where
  "expecting m \<longleftrightarrow> take 9 (case m of Text s \<Rightarrow> s | Found s _ \<Rightarrow> s) = ''expected ''"

definition reports :: "parser \<Rightarrow> parser \<Rightarrow> bool" where
  "reports p q \<longleftrightarrow>
     (\<exists>ds. pr_diagnostics q = pr_diagnostics p @ ds \<and> (\<forall>d\<in>set ds. expecting (pd_message d)))"

definition steps_to :: "bool \<Rightarrow> parser \<Rightarrow> parser \<Rightarrow> bool" where
  "steps_to b p q \<longleftrightarrow>
     pr_tokens q = pr_tokens p \<and> reports p q \<and> p_left q \<le> p_left p \<and>
     (b \<longrightarrow> 0 < p_left p \<longrightarrow> p_left q < p_left p)"

definition ok_from :: "(parser \<Rightarrow> bool) \<Rightarrow> 'a parse \<Rightarrow> nat \<Rightarrow> bool \<Rightarrow> bool" where
  "ok_from P c N b \<longleftrightarrow>
     (\<forall>p. P p \<longrightarrow> p_left p \<le> N \<longrightarrow> (\<exists>q x. c p = (q, Inr x) \<and> steps_to b p q))"

abbreviation ok_parse :: "'a parse \<Rightarrow> nat \<Rightarrow> bool \<Rightarrow> bool" where
  "ok_parse c N b \<equiv> ok_from (\<lambda>_. True) c N b"

named_theorems ok_intro "parser computations that return"

lemma reports_refl [simp]: "reports p p"
  by (simp add: reports_def)

lemma reports_trans: "reports p q \<Longrightarrow> reports q r \<Longrightarrow> reports p r"
  by (fastforce simp: reports_def)

lemma steps_refl: "steps_to False p p"
  by (simp add: steps_to_def)

lemma steps_trans: "steps_to b p q \<Longrightarrow> steps_to b' q r \<Longrightarrow> steps_to (b \<or> b') p r"
  by (auto simp: steps_to_def intro: reports_trans)

lemma steps_first: "steps_to True p q \<Longrightarrow> steps_to False q r \<Longrightarrow> steps_to b p r"
  using steps_trans [of True p q False r] by (simp add: steps_to_def)

lemma ok_fromI:
  "(\<And>p. P p \<Longrightarrow> p_left p \<le> N \<Longrightarrow> \<exists>q x. c p = (q, Inr x) \<and> steps_to b p q) \<Longrightarrow> ok_from P c N b"
  by (simp add: ok_from_def)

lemma ok_use:
  assumes "ok_from P c N b" and "P p" and "p_left p \<le> N"
  obtains q x where "c p = (q, Inr x)" "steps_to b p q"
  using assms unfolding ok_from_def by blast

lemma ok_weaken:
  assumes "ok_from P c N b" and "N' \<le> N" and "b' \<Longrightarrow> b" and "\<And>p. P' p \<Longrightarrow> P p"
  shows "ok_from P' c N' b'"
proof (rule ok_fromI)
  fix p assume "P' p" "p_left p \<le> N'"
  with assms(2,4) have "P p" "p_left p \<le> N" by auto
  then obtain q x where "c p = (q, Inr x)" "steps_to b p q" by (rule ok_use [OF assms(1)])
  then show "\<exists>q x. c p = (q, Inr x) \<and> steps_to b' p q"
    using assms(3) by (auto simp: steps_to_def)
qed

lemma ok_drop: "ok_from P c N True \<Longrightarrow> ok_from P c N b"
  by (rule ok_weaken [where N = N and b = True and P = P]) auto

lemma ok_keep: "ok_from P c N b \<Longrightarrow> ok_from P c N False"
  by (rule ok_weaken [where N = N and b = b and P = P]) auto

lemma ok_less: "ok_from P c N b \<Longrightarrow> M \<le> N \<Longrightarrow> ok_from P c M b"
  by (rule ok_weaken [where N = N and b = b and P = P]) auto

lemma ok_pos:
  assumes "\<And>N'. N = Suc N' \<Longrightarrow> ok_parse c N b"
  shows "ok_from (\<lambda>p. 0 < p_left p) c N b"
proof (cases N)
  case 0
  then show ?thesis by (simp add: ok_from_def)
next
  case (Suc N')
  show ?thesis by (rule ok_weaken [OF assms [OF Suc]]) auto
qed

lemma ok_ret [ok_intro]: "ok_parse (sret x) N False"
  by (simp add: ok_from_def sret_def steps_refl)

lemma ok_ask [ok_intro]: "ok_parse (ask g) N False"
  by (simp add: ok_from_def ask_def steps_refl)

lemma ok_if [ok_intro]: "ok_from P x N b \<Longrightarrow> ok_from P y N b \<Longrightarrow> ok_from P (if d then x else y) N b"
  by simp

lemma ok_option [ok_intro]:
  "ok_from P x N b \<Longrightarrow> (\<And>v. ok_from P (y v) N b) \<Longrightarrow>
   ok_from P (case d of None \<Rightarrow> x | Some v \<Rightarrow> y v) N b"
  by (simp split: option.split)

text \<open>Sequencing: after a first step that consumes, one token less is left.\<close>

lemma ok_bind:
  assumes c: "ok_from P c N b" and f: "\<And>x. ok_parse (f x) M b'"
    and le: "\<And>p q. P p \<Longrightarrow> p_left p \<le> N \<Longrightarrow> steps_to b p q \<Longrightarrow> p_left q \<le> M"
  shows "ok_from P (sbind c f) N (b \<or> b')"
proof (rule ok_fromI)
  fix p assume p: "P p" "p_left p \<le> N"
  obtain q x where q: "c p = (q, Inr x)" "steps_to b p q"
    by (rule ok_use [OF c p])
  from le [OF p q(2)] obtain r y where r: "f x q = (r, Inr y)" "steps_to b' q r"
    using ok_use [OF f, of q x thesis] by simp
  show "\<exists>r y. sbind c f p = (r, Inr y) \<and> steps_to (b \<or> b') p r"
    using q r steps_trans [OF q(2) r(2)] by (auto simp: sbind_def)
qed

lemma ok_seq [ok_intro]:
  "ok_from P c N False \<Longrightarrow> (\<And>x. ok_parse (f x) N False) \<Longrightarrow> ok_from P (sbind c f) N False"
  using ok_bind [of P c N False f N False] by (simp add: steps_to_def)

lemma ok_then: "ok_from P c N True \<Longrightarrow> (\<And>x. ok_parse (f x) N False) \<Longrightarrow> ok_from P (sbind c f) N b"
  using ok_bind [of P c N True f N False] by (auto simp: steps_to_def intro: ok_drop)

lemma ok_first:
  assumes "ok_from P c N True" and "0 < N" and "\<And>x. ok_parse (f x) (N - 1) False"
  shows "ok_from P (sbind c f) N b"
proof -
  have le: "p_left q \<le> N - 1" if "p_left p \<le> N" "steps_to True p q" for p q
    using that \<open>0 < N\<close> by (cases "p_left p = 0") (auto simp: steps_to_def)
  show ?thesis
    using ok_bind [OF assms(1,3)] le by (auto intro: ok_drop)
qed

lemma ok_ask_from:
  "(\<And>x. ok_from (\<lambda>p. P p \<and> g p = x) (f x) N b) \<Longrightarrow> ok_from P (sbind (ask g) f) N b"
  by (auto simp: ok_from_def sbind_def ask_def)

lemma ok_ask_bind [ok_intro]:
  assumes "\<And>x. ok_parse (f x) N b"
  shows "ok_from P (sbind (ask g) f) N b"
proof (rule ok_ask_from)
  show "ok_from (\<lambda>p. P p \<and> g p = x) (f x) N b" for x
    by (rule ok_weaken [OF assms]) auto
qed

section \<open>The primitive steps\<close>

lemma p_peek_None: "p_peek p = None \<longleftrightarrow> p_left p = 0"
  by (auto simp: p_peek_def p_left_def)

lemma p_at_end_left: "p_at_end p \<longleftrightarrow> p_left p = 0"
  by (auto simp: p_at_end_def p_left_def)

lemma p_peek_left: "p_peek p = Some t \<Longrightarrow> 0 < p_left p"
  by (auto simp: p_peek_def p_left_def)

lemma peek_kind_left: "peek_kind p = Some k \<Longrightarrow> 0 < p_left p"
  by (auto simp: peek_kind_def intro: p_peek_left)

lemma p_check_peek: "p_check k p \<Longrightarrow> \<exists>t. p_peek p = Some t \<and> tok_kind t = k"
  by (auto simp: p_check_def peek_kind_def)

lemma p_advance_Some:
  assumes "p_peek p = Some t"
  obtains q where "p_advance p = (q, Inr (Some t))" "steps_to True p q" "p_left q < p_left p"
proof
  show "p_advance p = (p\<lparr>pr_cursor := pr_cursor p + 1\<rparr>, Inr (Some t))"
    by (simp add: p_advance_def assms)
  show "steps_to True p (p\<lparr>pr_cursor := pr_cursor p + 1\<rparr>)"
    "p_left (p\<lparr>pr_cursor := pr_cursor p + 1\<rparr>) < p_left p"
    using p_peek_left [OF assms] by (auto simp: steps_to_def p_left_def reports_def)
qed

lemma p_advance_None: "p_peek p = None \<Longrightarrow> p_advance p = (p, Inr None)"
  by (simp add: p_advance_def)

lemma ok_advance_from:
  assumes "\<And>t. 0 < N \<Longrightarrow> Q (tok_kind t) \<Longrightarrow> ok_parse (f (Some t)) (N - 1) False"
  shows "ok_from (\<lambda>p. \<exists>k. peek_kind p = Some k \<and> Q k) (sbind p_advance f) N b"
proof (rule ok_fromI)
  fix p assume "\<exists>k. peek_kind p = Some k \<and> Q k" and p: "p_left p \<le> N"
  then obtain t where t: "p_peek p = Some t" "Q (tok_kind t)" by (auto simp: peek_kind_def)
  obtain q where q: "p_advance p = (q, Inr (Some t))" "steps_to True p q" "p_left q < p_left p"
    using t(1) by (rule p_advance_Some)
  then have "0 < N" "p_left q \<le> N - 1" using p by auto
  then obtain r x where r: "f (Some t) q = (r, Inr x)" "steps_to False q r"
    using ok_use [OF assms, of t q thesis] t(2) by simp
  then show "\<exists>r y. sbind p_advance f p = (r, Inr y) \<and> steps_to b p r"
    using q steps_first [OF q(2) r(2)] by (auto simp: sbind_def)
qed

text \<open>After an \<^verbatim>\<open>advance\<close>: nothing was left, or one token less is.\<close>

lemma ok_advance_bind:
  assumes n: "ok_parse (f None) N False"
    and s: "\<And>t. 0 < N \<Longrightarrow> ok_parse (f (Some t)) (N - 1) False"
  shows "ok_parse (sbind p_advance f) N b"
proof (rule ok_fromI)
  fix p assume p: "p_left p \<le> N"
  show "\<exists>r y. sbind p_advance f p = (r, Inr y) \<and> steps_to b p r"
  proof (cases "p_peek p")
    case None
    obtain q x where "f None p = (q, Inr x)" "steps_to False p q"
      by (rule ok_use [OF n _ p]) simp_all
    with None show ?thesis by (simp add: sbind_def p_advance_None p_peek_None steps_to_def)
  next
    case (Some t)
    have "ok_from (\<lambda>p. \<exists>k. peek_kind p = Some k \<and> True) (sbind p_advance f) N b"
      by (rule ok_advance_from) (rule s)
    from this _ p show ?thesis
      by (rule ok_use) (auto simp: peek_kind_def Some)
  qed
qed

lemma ok_advance [ok_intro]: "ok_parse p_advance N b"
proof -
  have "ok_parse (sbind p_advance sret) N b"
    by (rule ok_advance_bind) (rule ok_ret)+
  moreover have "sbind p_advance sret = p_advance"
    by (auto simp: sbind_def sret_def fun_eq_iff split: prod.split sum.split)
  ultimately show ?thesis by simp
qed

lemma ok_advance_case [ok_intro]:
  "ok_parse x N False \<Longrightarrow> (\<And>t. 0 < N \<Longrightarrow> ok_parse (y t) (N - 1) False) \<Longrightarrow>
   ok_parse (sbind p_advance (\<lambda>t. case t of None \<Rightarrow> x | Some t \<Rightarrow> y t)) N b"
  by (rule ok_advance_bind) simp_all

lemma expecting_intros [ok_intro]:
  "expecting (expected l)" "expecting (Found ''expected type, found '' k)"
  "expecting (Found ''expected expression, found '' k)"
  by (simp_all add: expecting_def expected_def)

lemma ok_error [ok_intro]:
  "expecting m \<Longrightarrow> ok_parse (error_at sp m) N False" "expecting m \<Longrightarrow> ok_parse (error_here m) N False"
  by (auto simp: ok_from_def error_at_def error_here_def sbind_def ask_def p_left_def steps_to_def
      reports_def)

lemma ok_match_check: "ok_from (p_check k) (match_kind k) N True"
proof (rule ok_fromI)
  fix p assume k: "p_check k p"
  then obtain t where "p_peek p = Some t" using p_check_peek by blast
  then obtain q where "p_advance p = (q, Inr (Some t))" "steps_to True p q"
    by (rule p_advance_Some)
  with k have "match_kind k p = (q, Inr True) \<and> steps_to True p q"
    by (simp add: match_kind_def sbind_def ask_def sret_def)
  then show "\<exists>q x. match_kind k p = (q, Inr x) \<and> steps_to True p q" by blast
qed

lemma ok_match [ok_intro]:
  assumes t: "0 < N \<Longrightarrow> ok_parse x (N - 1) False" and e: "ok_parse y N b"
  shows "ok_parse (sbind (match_kind k) (\<lambda>b. if b then x else y)) N b"
proof (rule ok_fromI)
  fix p assume p: "p_left p \<le> N"
  show "\<exists>r y'. sbind (match_kind k) (\<lambda>b. if b then x else y) p = (r, Inr y') \<and> steps_to b p r"
  proof (cases "p_check k p")
    case True
    then obtain tok where "p_peek p = Some tok" using p_check_peek by blast
    then obtain q where q: "p_advance p = (q, Inr (Some tok))" "steps_to True p q" "p_left q < p_left p"
      by (rule p_advance_Some)
    have m: "match_kind k p = (q, Inr True)"
      using True q(1) by (simp add: match_kind_def sbind_def ask_def sret_def)
    have "0 < N" "p_left q \<le> N - 1" using p q by auto
    then obtain r z where r: "x q = (r, Inr z)" "steps_to False q r"
      using ok_use [OF t, of q thesis] by simp
    then show ?thesis using m steps_first [OF q(2) r(2)] by (auto simp: sbind_def)
  next
    case False
    then have m: "match_kind k p = (p, Inr False)"
      by (simp add: match_kind_def sbind_def ask_def sret_def)
    obtain r z where "y p = (r, Inr z)" "steps_to b p r"
      by (rule ok_use [OF e _ p]) simp_all
    with m show ?thesis by (auto simp: sbind_def)
  qed
qed

lemma ok_match_only [ok_intro]: "ok_parse (match_kind k) N False"
  unfolding match_kind_def by (intro ok_intro)

lemma ok_expect [ok_intro]: "ok_parse (expect k label) N False"
  unfolding expect_def by (intro ok_intro)

lemma ok_expect_check: "ok_from (p_check k) (expect k label) N True"
  unfolding expect_def
proof (rule ok_ask_from)
  fix x
  have "ok_from (\<lambda>p. p_check k p \<and> p_check k p = x) p_advance N True" if "x"
    by (rule ok_weaken [OF ok_advance [of N True]]) auto
  then show "ok_from (\<lambda>p. p_check k p \<and> p_check k p = x)
      (if x then p_advance else sbind (error_here (expected label)) (\<lambda>_. sret None)) N True"
    by (cases x) (simp_all add: ok_from_def)
qed

lemma ok_expect_any [ok_intro]: "ok_parse (expect_any label) N b"
  unfolding expect_any_def by (rule ok_advance_bind) (simp_all, (intro ok_intro)+)

lemma ok_consume_named: "ok_parse (consume_named name_of label) N b"
  unfolding consume_named_def by (intro ok_intro)

lemma ok_consume [ok_intro]:
  "ok_parse (consume_identifier label) N b" "ok_parse (consume_property_name label) N b"
  by (simp_all add: consume_identifier_def consume_property_name_def ok_consume_named)

lemma ok_semicolon [ok_intro]: "ok_parse consume_optional_semicolon N False"
  unfolding consume_optional_semicolon_def by (intro ok_intro)

lemma ok_end_of_statement [ok_intro]: "ok_parse (end_of_statement start) N False"
  unfolding end_of_statement_def by (intro ok_intro)

lemma ok_error_expression [ok_intro]: "ok_parse error_expression N False"
  unfolding error_expression_def by (intro ok_intro)

lemma ok_optional_after [ok_intro]:
  "(0 < N \<Longrightarrow> ok_parse m (N - 1) False) \<Longrightarrow> ok_parse (optional_after k m) N False"
  unfolding optional_after_def by (intro ok_intro)

lemma ok_optional_unless [ok_intro]:
  "ok_parse m N False \<Longrightarrow> ok_parse (optional_unless stop m) N False"
  unfolding optional_unless_def by (intro ok_intro)

text \<open>A look at the next token or operator, and what follows when there is one.\<close>

lemma ok_look:
  assumes peek: "\<And>p v. g p = Some v \<Longrightarrow> 0 < p_left p" and none: "\<And>p. g p = None \<Longrightarrow> b \<Longrightarrow> b' \<or> p_left p = 0"
    and x: "ok_parse x N b'" and y: "\<And>v. 0 < N \<Longrightarrow> ok_parse (y v) N b"
  shows "ok_parse (sbind (ask g) (\<lambda>v. case v of None \<Rightarrow> x | Some v \<Rightarrow> y v)) N b"
proof (rule ok_fromI)
  fix p assume p: "p_left p \<le> N"
  show "\<exists>q z. sbind (ask g) (\<lambda>v. case v of None \<Rightarrow> x | Some v \<Rightarrow> y v) p = (q, Inr z) \<and> steps_to b p q"
  proof (cases "g p")
    case None
    obtain q z where "x p = (q, Inr z)" "steps_to b' p q"
      by (rule ok_use [OF x _ p]) simp_all
    with None none [OF None] show ?thesis by (auto simp: sbind_def ask_def steps_to_def)
  next
    case (Some v)
    then have "0 < N" using peek p by fastforce
    then obtain q z where "y v p = (q, Inr z)" "steps_to b p q"
      using ok_use [OF y _ p, of v thesis] by simp
    with Some show ?thesis by (auto simp: sbind_def ask_def)
  qed
qed

lemma ok_peek [ok_intro]:
  "ok_parse x N False \<Longrightarrow> (\<And>t. 0 < N \<Longrightarrow> ok_parse (y t) N b) \<Longrightarrow>
   ok_parse (sbind (ask p_peek) (\<lambda>t. case t of None \<Rightarrow> x | Some t \<Rightarrow> y t)) N b"
  by (rule ok_look) (auto simp: p_peek_None dest: p_peek_left)

lemma ok_peek_operator [ok_intro]:
  "ok_parse x N False \<Longrightarrow> (\<And>v. 0 < N \<Longrightarrow> ok_parse (y v) N False) \<Longrightarrow>
   ok_parse (sbind (ask (peek_operator g)) (\<lambda>v. case v of None \<Rightarrow> x | Some v \<Rightarrow> y v)) N False"
  by (rule ok_look) (auto simp: peek_operator_def bind_eq_Some_conv dest: peek_kind_left)

section \<open>Loops\<close>

lemma ok_stop:
  assumes "ok_parse (f True) N False" and "0 < N \<Longrightarrow> ok_parse (f False) N False"
  shows "ok_parse (sbind (ask (stop_at close)) f) N False"
proof (rule ok_ask_from)
  fix x
  show "ok_from (\<lambda>p. True \<and> stop_at close p = x) (f x) N False"
  proof (cases x)
    case True
    show ?thesis by (rule ok_weaken [where P = "\<lambda>_. True" and N = N and b = False]) (simp_all add: True assms(1))
  next
    case False
    have pos: "ok_from (\<lambda>p. 0 < p_left p) (f False) N False"
      by (intro ok_pos assms(2)) simp
    have x: "f x = f False" using False by simp
    show ?thesis
      unfolding x by (rule ok_weaken [OF pos]) (auto simp: stop_at_def p_at_end_left False)
  qed
qed

lemma ok_stop_if:
  "ok_parse x N False \<Longrightarrow> (0 < N \<Longrightarrow> ok_parse y N False) \<Longrightarrow>
   ok_parse (sbind (ask (stop_at close)) (\<lambda>b. if b then x else y)) N False"
  by (rule ok_stop) simp_all

lemma ok_comma_loop:
  "(0 < N \<Longrightarrow> ok_parse item N True) \<Longrightarrow> N < n \<Longrightarrow> ok_parse (comma_loop close item n acc) N False"
proof (induction n arbitrary: N acc)
  case (Suc n)
  have IH: "ok_parse (comma_loop close item n xs) M False" if "M < N" for M xs
  proof (rule Suc.IH)
    show "ok_parse item M True"
      using that by (intro ok_less [OF Suc.prems(1)]) auto
  qed (use Suc.prems that in simp)
  show ?case
    unfolding comma_loop.simps
    by (rule ok_stop_if, rule ok_ret, rule ok_first, rule Suc.prems(1), assumption, assumption,
        rule ok_match, rule IH, simp, rule ok_ret)
qed simp

lemma ok_item_loop:
  "(0 < N \<Longrightarrow> ok_parse item N True) \<Longrightarrow> N < n \<Longrightarrow> ok_parse (item_loop close item n acc) N False"
proof (induction n arbitrary: N acc)
  case (Suc n)
  have IH: "ok_parse (item_loop close item n xs) M False" if "M < N" for M xs
  proof (rule Suc.IH)
    show "ok_parse item M True"
      using that by (intro ok_less [OF Suc.prems(1)]) auto
  qed (use Suc.prems that in simp)
  show ?case
    unfolding item_loop.simps
    by (rule ok_stop_if, rule ok_ret, rule ok_first, rule Suc.prems(1), assumption, assumption,
        rule IH, simp)
qed simp

section \<open>Types\<close>

lemma ok_array_suffix: "N < n \<Longrightarrow> ok_parse (array_suffix n start ty) N False"
proof (induction n arbitrary: N ty)
  case (Suc n)
  then show ?case
    unfolding array_suffix.simps by (intro ok_intro Suc.IH) auto
qed simp

lemma ok_type_member:
  "0 < N \<Longrightarrow> ok_parse rec (N - 1) False \<Longrightarrow> ok_parse (parse_type_member rec) N True"
  unfolding parse_type_member_def
  by (rule ok_ask_bind, rule ok_first, rule ok_consume) (assumption | rule ok_intro)+

lemma ok_type_members:
  "N < n \<Longrightarrow> ok_parse rec (N - 1) False \<Longrightarrow> ok_parse (parse_type_members rec n) N False"
  "N < n \<Longrightarrow> ok_parse rec (N - 1) False \<Longrightarrow> ok_parse (finish_type_members_after_left_brace rec n) N False"
  unfolding parse_type_members_def finish_type_members_after_left_brace_def
  by (intro ok_intro ok_item_loop ok_type_member; simp)+

lemma ok_parse_type: "N < n \<Longrightarrow> ok_parse (parse_type n) N b"
proof (induction n arbitrary: N b)
  case (Suc n)
  have rec: "ok_parse (parse_type n) M False" if "M < n" for M using Suc.IH that .
  show ?case
    unfolding parse_type.simps base_type_def
    using Suc.prems
    by (intro ok_intro ok_type_members ok_array_suffix rec) auto
qed simp

section \<open>Expressions\<close>

lemma ok_parse_assignment:
  assumes "\<And>b. ok_parse (rec (Rule_Binary 0)) N b"
    and "\<And>b. 0 < N \<Longrightarrow> ok_parse (rec Rule_Assignment) (N - 1) b"
  shows "ok_parse (parse_assignment rec) N b"
  unfolding parse_assignment_def
  by (rule ok_then, rule assms(1), rule ok_peek_operator, rule ok_ret, rule ok_first, rule ok_advance,
      assumption) (intro ok_seq assms(2) ok_ret; assumption)

lemma ok_binary_loop:
  assumes "\<And>M b prec. M < N \<Longrightarrow> ok_parse (rec (Rule_Binary prec)) M b" and "N < n"
  shows "ok_parse (binary_loop rec least n left) N False"
  using assms
proof (induction n arbitrary: N left)
  case (Suc n)
  have IH: "ok_parse (binary_loop rec least n l) (N - 1) False" if "0 < N" for l
    using that Suc.prems by (intro Suc.IH) auto
  have rec: "ok_parse (rec (Rule_Binary prec)) (N - 1) b" if "0 < N" for prec b
    using that by (intro Suc.prems(1)) simp
  show ?case
    unfolding binary_loop.simps
  proof (intro ok_peek_operator ok_ret)
    fix v :: "binary_operator \<times> nat" assume N: "0 < N"
    show "ok_parse (case v of (operator, precedence) \<Rightarrow>
        if precedence < least then sret left
        else sbind p_advance (\<lambda>_. sbind (rec (Rule_Binary (precedence + 1))) (\<lambda>right.
          binary_loop rec least n (Expression (Ex_Binary left operator right)
            (mk_span (span_start (ex_span left)) (span_end (ex_span right))))))) N False"
      by (cases v, simp only: prod.case, intro ok_if ok_ret, rule ok_first, rule ok_advance, rule N,
          rule ok_seq, rule rec, rule N, rule IH, rule N)
  qed
qed simp

lemma ok_parse_binary:
  assumes "\<And>b. ok_parse (rec Rule_Unary) N b"
    and "\<And>M b prec. M < N \<Longrightarrow> ok_parse (rec (Rule_Binary prec)) M b" and "N < n"
  shows "ok_parse (parse_binary rec n least) N b"
  unfolding parse_binary_def by (rule ok_then, rule assms(1), rule ok_binary_loop, rule assms(2), assumption, rule assms(3))

text \<open>The bracketed forms, after their opening token.\<close>

lemma ok_expression_loop:
  assumes "\<And>b. ok_parse (rec Rule_Assignment) N b" and "N < n"
  shows "ok_parse (comma_loop close (rec Rule_Assignment) n []) N False"
  by (rule ok_comma_loop) (rule assms)+

lemma ok_finish_array:
  assumes "\<And>b. ok_parse (rec Rule_Assignment) N b" and "N < n"
  shows "ok_parse (finish_array_expression rec n start) N False"
  unfolding finish_array_expression_def
  by (intro ok_seq ok_expression_loop assms ok_expect ok_ask ok_ret)

lemma ok_finish_object:
  assumes "\<And>b. ok_parse (rec Rule_Assignment) N b" and "N < n"
  shows "ok_parse (finish_object_expression rec n start) N False"
  unfolding finish_object_expression_def
proof (intro ok_seq ok_comma_loop assms(2) ok_expect ok_ask ok_ret)
  assume N: "0 < N"
  have rec: "ok_parse (rec Rule_Assignment) (N - 1) False"
    by (rule ok_less [OF assms(1)]) simp
  show "ok_parse (sbind (ask current_start) (\<lambda>property_start.
      sbind (consume_property_name ''object property name'') (\<lambda>name.
      sbind (expect T_Colon ''colon after object property name'') (\<lambda>_.
      sbind (rec Rule_Assignment) (\<lambda>val.
      sret (Object_Property (or_error name) val (mk_span property_start (span_end (ex_span val)))))))))
    N True"
    by (rule ok_ask_bind, rule ok_first, rule ok_consume, rule N) (intro ok_seq ok_expect rec ok_ret)
qed

lemma ok_parse_primary:
  assumes "\<And>b. 0 < N \<Longrightarrow> ok_parse (rec Rule_Assignment) (N - 1) b" and "N \<le> n"
  shows "ok_parse (parse_primary rec n) N b"
  unfolding parse_primary_def
proof (intro ok_advance_case ok_error_expression)
  fix t assume N: "0 < N"
  then have n: "N - 1 < n" using assms(2) by simp
  show "ok_parse (case simple_expression (tok_kind t) of
      Some k \<Rightarrow> sret (Expression k (tok_span t))
    | None \<Rightarrow>
        if tok_kind t = T_LeftParen then
          sbind (rec Rule_Assignment) (\<lambda>e.
          sbind (expect T_RightParen ''closing parenthesized expression'') (\<lambda>_. sret e))
        else if tok_kind t = T_LeftBrace then finish_object_expression rec n (span_start (tok_span t))
        else if tok_kind t = T_LeftBracket then finish_array_expression rec n (span_start (tok_span t))
        else sbind (error_at (tok_span t) (Found ''expected expression, found '' (tok_kind t)))
          (\<lambda>_. sret (Expression Ex_Error (tok_span t)))) (N - 1) False"
    by (intro ok_intro ok_finish_object ok_finish_array assms(1) n N)
qed

lemma ok_call_member_loop:
  assumes "\<And>M b. M < N \<Longrightarrow> ok_parse (rec Rule_Assignment) M b" and "N < n"
  shows "ok_parse (call_member_loop rec n e) N False"
  using assms
proof (induction n arbitrary: N e)
  case (Suc n)
  have IH: "ok_parse (call_member_loop rec n e) (N - 1) False" if "0 < N" for e
    using that Suc.prems by (intro Suc.IH) auto
  have args: "ok_parse (comma_loop T_RightParen (rec Rule_Assignment) n []) (N - 1) False" if "0 < N"
    using that Suc.prems by (intro ok_expression_loop) auto
  show ?case
    unfolding call_member_loop.simps
    by (intro ok_match ok_ret) (intro ok_seq ok_consume ok_ask ok_expect args IH; assumption)+
qed simp

lemma ok_parse_unary:
  assumes "\<And>b. 0 < N \<Longrightarrow> ok_parse (rec Rule_Unary) (N - 1) b"
    and "\<And>M b. M < N \<Longrightarrow> ok_parse (rec Rule_Assignment) M b" and "N < n"
  shows "ok_parse (parse_unary rec n) N b"
proof -
  have primary: "ok_parse (parse_primary rec n) N b" for b
    using assms(3) by (intro ok_parse_primary assms(2)) auto
  have call: "ok_parse (parse_call_member rec n) N b" for b
    unfolding parse_call_member_def
    by (rule ok_then, rule primary, rule ok_call_member_loop, rule assms(2), assumption, rule assms(3))
  show ?thesis
    unfolding parse_unary_def
    by (rule ok_peek, rule ok_error_expression, rule ok_option, rule call, rule ok_first, rule ok_advance,
        assumption) (intro ok_seq ok_ret assms(1); assumption)
qed

primrec rule_rank :: "expr_rule \<Rightarrow> nat" where
  "rule_rank Rule_Unary = 2"
| "rule_rank (Rule_Binary least) = 3"
| "rule_rank Rule_Assignment = 4"

lemma ok_parse_expr: "4 * N + rule_rank r \<le> n \<Longrightarrow> ok_parse (parse_expr n r) N b"
proof (induction n arbitrary: N r b)
  case 0
  then show ?case by (cases r) auto
next
  case (Suc n)
  have rec: "ok_parse (parse_expr n r') M b'" if "4 * M + rule_rank r' \<le> n" for r' M b'
    using Suc.IH that .
  show ?case
    using Suc.prems
    by (cases r) (simp_all, (intro ok_parse_assignment ok_parse_binary ok_parse_unary rec; simp)+)
qed

lemma ok_parse_expression: "4 * N + 4 \<le> n \<Longrightarrow> ok_parse (parse_expression n) N b"
  unfolding parse_expression_def by (intro ok_parse_expr) simp

section \<open>Statements\<close>

text \<open>
  What a statement rule may use with \<open>n\<close> fuel and at most \<open>N\<close> tokens left: types and
  expressions, and statements once a token is consumed.
\<close>

definition subparsers :: "statement parse \<Rightarrow> nat \<Rightarrow> nat \<Rightarrow> bool" where
  "subparsers rec N n \<longleftrightarrow> (\<forall>M b. M < N \<longrightarrow> ok_parse rec M b) \<and> 4 * N + 4 \<le> n"

lemma sub_rec: "subparsers rec N n \<Longrightarrow> M < N \<Longrightarrow> ok_parse rec M b"
  by (simp add: subparsers_def)

lemma sub_prev: "subparsers rec N n \<Longrightarrow> 0 < N \<Longrightarrow> ok_parse rec (N - 1) b"
  by (simp add: subparsers_def)

lemma sub_less: "subparsers rec N n \<Longrightarrow> M \<le> N \<Longrightarrow> subparsers rec M n"
  by (auto simp: subparsers_def)

lemma sub_minus: "subparsers rec N n \<Longrightarrow> subparsers rec (N - k) n"
  by (erule sub_less) (rule diff_le_self)

lemma sub_fuel: "subparsers rec N n \<Longrightarrow> N < n"
  by (auto simp: subparsers_def)

lemma sub_type: "subparsers rec N n \<Longrightarrow> ok_parse (parse_type n) N b"
  by (rule ok_parse_type) (rule sub_fuel)

lemma sub_expression: "subparsers rec N n \<Longrightarrow> ok_parse (parse_expression n) N b"
  by (rule ok_parse_expression) (simp add: subparsers_def)

lemmas sub_intros = sub_type sub_expression sub_fuel

text \<open>A rule whose first step is \<^verbatim>\<open>expect_any\<close> consumes, and continues with a token less.\<close>

lemma ok_any_first:
  "0 < N \<Longrightarrow> (\<And>t. ok_parse (f t) (N - 1) False) \<Longrightarrow> ok_parse (sbind (expect_any label) f) N b"
  by (rule ok_first, rule ok_expect_any) assumption+

lemma ok_parse_import: "0 < N \<Longrightarrow> N < n \<Longrightarrow> ok_parse (parse_import n) N b"
  unfolding parse_import_def
  by (rule ok_any_first, assumption)
    (intro ok_intro ok_comma_loop ok_less [OF ok_comma_loop]; (assumption | simp))

lemma ok_parse_export: "0 < N \<Longrightarrow> subparsers rec N n \<Longrightarrow> ok_parse (parse_export rec) N b"
  unfolding parse_export_def
  by (rule ok_any_first, assumption) (intro ok_seq sub_prev ok_ret; assumption)

lemma ok_parse_interface: "0 < N \<Longrightarrow> N < n \<Longrightarrow> ok_parse (parse_interface n) N b"
  unfolding parse_interface_def
  by (rule ok_any_first, assumption) (intro ok_seq ok_consume ok_type_members ok_parse_type ok_ask ok_ret; simp)

lemma ok_parse_type_alias: "0 < N \<Longrightarrow> N < n \<Longrightarrow> ok_parse (parse_type_alias n) N b"
  unfolding parse_type_alias_def
  by (rule ok_any_first, assumption)
    (intro ok_seq ok_consume ok_expect ok_parse_type ok_end_of_statement ok_ret; simp)

text \<open>What follows a test for the end of the tokens.\<close>

lemma ok_at_end:
  assumes "ok_parse x N False" and "0 < N \<Longrightarrow> ok_parse y N False"
  shows "ok_parse (sbind (ask p_at_end) (\<lambda>b. if b then x else y)) N False"
proof (rule ok_ask_from)
  fix e
  have x: "ok_from (\<lambda>p. p_left p = 0) x N False"
    by (rule ok_weaken [OF assms(1)]) auto
  have y: "ok_from (\<lambda>p. 0 < p_left p) y N False"
    by (intro ok_pos assms(2)) simp
  show "ok_from (\<lambda>p. True \<and> p_at_end p = e) (if e then x else y) N False"
    by (cases e) (auto simp: p_at_end_left intro: ok_weaken [OF x] ok_weaken [OF y])
qed

lemma ok_synchronize: "N < n \<Longrightarrow> ok_parse (synchronize_member n) N False"
proof (induction n arbitrary: N)
  case (Suc n)
  have rec: "ok_parse (synchronize_member n) (N - 1) False" if "0 < N"
    using Suc that by auto
  show ?case
    unfolding synchronize_member.simps
    by (intro ok_at_end ok_match ok_ask_bind ok_if ok_ret)
      (rule ok_first, rule ok_advance, assumption, rule rec, assumption)
qed simp

lemma ok_class_member: "0 < N \<Longrightarrow> subparsers rec N n \<Longrightarrow> ok_parse (parse_class_member n) N b"
  unfolding parse_class_member_def
  by (rule ok_ask_bind, rule ok_first, rule ok_consume, assumption)
    (intro ok_option ok_seq ok_synchronize ok_optional_after ok_end_of_statement ok_ret;
      (rule sub_intros sub_fuel [OF sub_minus], assumption | rule sub_intros, (rule sub_minus)+, assumption))

lemma ok_parse_class: "0 < N \<Longrightarrow> subparsers rec N n \<Longrightarrow> ok_parse (parse_class n) N b"
  unfolding parse_class_def
  by (rule ok_any_first, assumption)
    (intro ok_seq ok_consume ok_expect ok_item_loop ok_class_member ok_ask ok_ret;
      (assumption | rule sub_fuel [OF sub_minus], assumption | rule sub_minus, assumption))

lemma ok_parse_parameters: "N < n \<Longrightarrow> ok_parse (parse_parameters n) N False"
  unfolding parse_parameters_def parse_parameter_def
  by (intro ok_seq ok_expect ok_comma_loop ok_ret)
    ((rule ok_ask_bind, rule ok_first, rule ok_consume, assumption,
      intro ok_seq ok_optional_after ok_parse_type ok_ask ok_ret; simp), simp)

lemma ok_block:
  assumes "subparsers rec N n" and "\<And>b. ok_parse rec N b"
  shows "ok_parse (parse_block_statement rec n) N False"
  unfolding parse_block_statement_def
  by (intro ok_ask_bind ok_seq ok_expect ok_item_loop ok_ask ok_ret assms sub_fuel [OF assms(1)])

lemma ok_block_brace:
  assumes sub: "subparsers rec N n" and "0 < N"
  shows "ok_from (p_check T_LeftBrace) (parse_block_statement rec n) N b"
  unfolding parse_block_statement_def
proof (rule ok_ask_from)
  fix start
  have fuel: "N - 1 < n" using sub_fuel [OF sub] by simp
  have "ok_from (p_check T_LeftBrace) (sbind (expect T_LeftBrace ''block start'') (\<lambda>_.
     sbind (item_loop T_RightBrace rec n []) (\<lambda>body.
     sbind (expect T_RightBrace ''block end'') (\<lambda>_.
     sbind (ask (previous_end start)) (\<lambda>e.
     sret (Statement (S_Block body) (mk_span start e))))))) N b"
    by (rule ok_first, rule ok_expect_check, rule \<open>0 < N\<close>)
      (intro ok_seq ok_item_loop ok_expect ok_ask ok_ret sub_prev [OF sub] fuel \<open>0 < N\<close>)
  then show "ok_from (\<lambda>p. p_check T_LeftBrace p \<and> current_start p = start) (sbind (expect T_LeftBrace ''block start'') (\<lambda>_.
     sbind (item_loop T_RightBrace rec n []) (\<lambda>body.
     sbind (expect T_RightBrace ''block end'') (\<lambda>_.
     sbind (ask (previous_end start)) (\<lambda>e.
     sret (Statement (S_Block body) (mk_span start e))))))) N b"
    by (rule ok_weaken) auto
qed

lemma ok_parse_function: "0 < N \<Longrightarrow> subparsers rec N n \<Longrightarrow> ok_parse (parse_function rec n) N b"
  unfolding parse_function_def
  by (rule ok_any_first, assumption)
    (intro ok_seq ok_consume ok_parse_parameters ok_optional_after ok_block ok_ret;
      (rule sub_fuel [OF sub_minus], assumption | rule ok_less [OF sub_type], assumption, simp
       | rule sub_minus, assumption | rule sub_prev, assumption+))

lemma sbind_assoc: "sbind (sbind m f) g = sbind m (\<lambda>x. sbind (f x) g)"
  by (auto simp: sbind_def fun_eq_iff split: prod.split sum.split)

lemma ok_parse_variable:
  assumes sub: "subparsers rec N n"
  shows "ok_from at_variable (parse_variable n semi) N b"
proof -
  have at: "at_variable = (\<lambda>p. \<exists>k. peek_kind p = Some k \<and> variable_kind_of k \<noteq> None)"
    by (auto simp: at_variable_def fun_eq_iff split: option.split)
  have ty: "ok_parse (parse_type n) M b" if "M \<le> N" for M b
    by (rule ok_less [OF sub_type [OF sub] that])
  have ex: "ok_parse (parse_expression n) M b" if "M \<le> N" for M b
    by (rule ok_less [OF sub_expression [OF sub] that])
  show ?thesis
    unfolding at parse_variable_def expect_any_def sbind_assoc
  proof (rule ok_advance_from)
    fix t :: token assume "variable_kind_of (tok_kind t) \<noteq> None"
    then obtain k where k: "variable_kind_of (tok_kind t) = Some k" by blast
    show "ok_parse (sbind (case Some t of None \<Rightarrow>
           sbind (ask fallback_position) (\<lambda>pos.
           sbind (error_at (mk_span pos pos) (expected ''variable declaration start'')) (\<lambda>_.
           sret \<lparr>tok_kind = T_Semicolon, tok_span = mk_span pos pos\<rparr>)) | Some t \<Rightarrow> sret t) (\<lambda>t.
       sbind (slift (ok_or Parse_Panic (variable_kind_of (tok_kind t)))) (\<lambda>kind.
       sbind (consume_identifier ''variable name'') (\<lambda>name.
       sbind (optional_after T_Colon (parse_type n)) (\<lambda>ty.
       sbind (optional_after T_Equals (parse_expression n)) (\<lambda>initializer.
       sbind (if semi then end_of_statement (start_of t)
              else ask (previous_end (start_of t))) (\<lambda>e.
       sret (Statement (S_Variable \<lparr>vd_kind = kind, vd_name = or_error name, vd_ty = ty,
         vd_initializer = initializer\<rparr>) (mk_span (start_of t) e)))))))))
      (N - 1) False"
      unfolding option.case sem_simps(4,7) k ok_or_simps
      by (intro ok_seq ok_consume ok_optional_after ok_if ok_end_of_statement ok_ask ok_ret ty ex) simp_all
  qed
qed

lemma ok_parse_return: "0 < N \<Longrightarrow> subparsers rec N n \<Longrightarrow> ok_parse (parse_return n) N b"
  unfolding parse_return_def
  by (rule ok_any_first, assumption)
    (intro ok_seq ok_optional_unless sub_expression [OF sub_minus] ok_end_of_statement ok_ret; assumption)

lemma ok_parse_throw: "0 < N \<Longrightarrow> subparsers rec N n \<Longrightarrow> ok_parse (parse_throw n) N b"
  unfolding parse_throw_def
  by (rule ok_any_first, assumption)
    (intro ok_seq sub_expression [OF sub_minus] ok_end_of_statement ok_ret; assumption)

lemma ok_parse_if: "0 < N \<Longrightarrow> subparsers rec N n \<Longrightarrow> ok_parse (parse_if rec n) N b"
  unfolding parse_if_def
  by (rule ok_any_first, assumption)
    (intro ok_seq ok_expect ok_optional_after ok_ret;
      (rule sub_expression [OF sub_minus], assumption | rule sub_prev, assumption+
       | rule sub_rec, assumption, simp))

lemma ok_parse_while: "0 < N \<Longrightarrow> subparsers rec N n \<Longrightarrow> ok_parse (parse_while rec n) N b"
  unfolding parse_while_def
  by (rule ok_any_first, assumption)
    (intro ok_seq ok_expect ok_ret;
      (rule sub_expression [OF sub_minus], assumption | rule sub_prev, assumption+))

lemma ok_expression_statement:
  assumes "subparsers rec N n"
  shows "ok_parse (parse_expression_statement_without_semicolon n) N b"
    and "ok_parse (parse_expression_statement n) N b"
proof -
  show *: "ok_parse (parse_expression_statement_without_semicolon n) N b" for b
    unfolding parse_expression_statement_without_semicolon_def
    by (rule ok_then, rule sub_expression [OF assms], rule ok_ret)
  show "ok_parse (parse_expression_statement n) N b"
    unfolding parse_expression_statement_def
    by (rule ok_then, rule *) (intro ok_seq ok_semicolon ok_ret)
qed

lemma ok_for_initializer:
  assumes sub: "subparsers rec N n"
  shows "ok_parse (parse_for_initializer n) N False"
  unfolding parse_for_initializer_def
proof (intro ok_match ok_ret)
  show "ok_parse (sbind (ask at_variable) (\<lambda>var.
      sbind (if var then parse_variable n False else parse_expression_statement_without_semicolon n)
        (\<lambda>st. sret (Some st)))) N False"
  proof (intro ok_ask_from ok_seq ok_ret)
    fix var
    show "ok_from (\<lambda>p. True \<and> at_variable p = var)
      (if var then parse_variable n False else parse_expression_statement_without_semicolon n) N False"
      by (cases var) (auto intro: ok_weaken [OF ok_parse_variable [OF sub]] ok_weaken [OF ok_expression_statement(1) [OF sub]])
  qed
qed

lemma ok_parse_for: "0 < N \<Longrightarrow> subparsers rec N n \<Longrightarrow> ok_parse (parse_for rec n) N b"
  unfolding parse_for_def
  by (rule ok_any_first, assumption)
    (intro ok_seq ok_expect ok_optional_unless ok_ret;
      (rule ok_for_initializer [OF sub_minus], assumption | rule sub_expression [OF sub_minus], assumption
       | rule sub_prev, assumption+))

lemma ok_parse_empty: "0 < N \<Longrightarrow> ok_from (\<lambda>p. \<exists>k. peek_kind p = Some k \<and> k = T_Semicolon) parse_empty N b"
  unfolding parse_empty_def
  by (rule ok_advance_from) (simp only: ok_or_simps sem_simps(7), rule ok_ret)

text \<open>The choice of the rule by the next token.\<close>

lemma kind_weaken:
  assumes "ok_parse c N b"
  shows "ok_from (\<lambda>p. peek_kind p = k) c N b"
  by (rule ok_weaken [OF assms]) auto

lemma ok_statement_rule:
  assumes sub: "subparsers rec N n"
  shows "ok_from (\<lambda>p. peek_kind p = k) (statement_rule rec n k) N b"
proof (cases k)
  case None
  then show ?thesis
    by (simp add: statement_rule_def) (intro kind_weaken ok_expression_statement [OF sub])
next
  case (Some kind)
  show ?thesis
  proof (cases "N = 0")
    case True
    then show ?thesis using peek_kind_left by (fastforce simp: ok_from_def Some)
  next
    case False
    then have N: "0 < N" by simp
    note fuel = sub_fuel [OF sub]
    have variable: "ok_from (\<lambda>p. peek_kind p = Some v) (parse_variable n True) N b"
      if "v = T_Let \<or> v = T_Const \<or> v = T_Var" for v
      by (rule ok_weaken [OF ok_parse_variable [OF sub, of True b]])
        (use that in \<open>auto simp: at_variable_def variable_kind_of_def\<close>)
    have block: "ok_from (\<lambda>p. peek_kind p = Some T_LeftBrace) (parse_block_statement rec n) N b"
      by (rule ok_weaken [OF ok_block_brace [OF sub N, of b]]) (auto simp: p_check_def)
    have empty: "ok_from (\<lambda>p. peek_kind p = Some T_Semicolon) parse_empty N b"
      by (rule ok_weaken [OF ok_parse_empty [OF N, of b]]) auto
    have plain: "ok_parse (parse_import n) N b" "ok_parse (parse_export rec) N b"
      "ok_parse (parse_interface n) N b" "ok_parse (parse_type_alias n) N b"
      "ok_parse (parse_class n) N b" "ok_parse (parse_function rec n) N b"
      "ok_parse (parse_return n) N b" "ok_parse (parse_throw n) N b" "ok_parse (parse_if rec n) N b"
      "ok_parse (parse_while rec n) N b" "ok_parse (parse_for rec n) N b"
      "ok_parse (parse_expression_statement n) N b"
      by (intro ok_parse_import ok_parse_export [OF N sub] ok_parse_interface ok_parse_type_alias
          ok_parse_class [OF N sub] ok_parse_function [OF N sub] ok_parse_return [OF N sub]
          ok_parse_throw [OF N sub] ok_parse_if [OF N sub] ok_parse_while [OF N sub]
          ok_parse_for [OF N sub] ok_expression_statement [OF sub] N fuel)+
    note plain = plain [THEN kind_weaken, where k = "Some kind"]
    show ?thesis
      unfolding Some statement_rule_def option.inject
      by (simp only: variable block empty plain simp_thms split: if_split) (auto intro: variable block empty)
  qed
qed

lemma ok_parse_statement: "4 * N + 5 \<le> n \<Longrightarrow> ok_parse (parse_statement n) N b"
proof (induction n arbitrary: N b)
  case (Suc n)
  have sub: "subparsers (parse_statement n) N n"
    using Suc by (auto simp: subparsers_def)
  show ?case
    unfolding parse_statement.simps
    using ok_statement_rule [OF sub] by (intro ok_ask_from) simp
qed simp

section \<open>Programs\<close>

lemma program_loop_returns:
  "p_left p \<le> N \<Longrightarrow> N < k \<Longrightarrow> 4 * N + 5 \<le> n \<Longrightarrow>
   \<exists>q body'. program_loop n k body p = (q, Inr body') \<and> steps_to False p q \<and> p_left q = 0 \<and>
     length body' \<le> length body + p_left p"
proof (induction k arbitrary: N body p)
  case (Suc k)
  show ?case
  proof (cases "p_left p = 0")
    case True
    then show ?thesis
      by (simp add: sbind_def ask_def sret_def p_at_end_left steps_refl)
  next
    case False
    obtain q st where st: "parse_statement n p = (q, Inr st)" "steps_to True p q"
      by (rule ok_use [OF ok_parse_statement [OF Suc.prems(3), of True] _ Suc.prems(1)]) simp
    have less: "p_left q < p_left p" "pr_tokens q = pr_tokens p"
      using st(2) False by (auto simp: steps_to_def)
    then have cursor: "pr_cursor q \<noteq> pr_cursor p" by (auto simp: p_left_def)
    have N: "p_left q \<le> N - 1" "N - 1 < k" "4 * (N - 1) + 5 \<le> n"
      using less(1) Suc.prems False by auto
    from Suc.IH [OF N, of "body @ [st]"] obtain r body' where r: "program_loop n k (body @ [st]) q = (r, Inr body')"
      "steps_to False q r" "p_left r = 0" "length body' \<le> length (body @ [st]) + p_left q"
      by blast
    have "program_loop n (Suc k) body p = (r, Inr body')"
      using st(1) r(1) False cursor by (simp add: sbind_def ask_def sret_def p_at_end_left)
    then show ?thesis
      using steps_trans [OF st(2) r(2)] r(3,4) less by (auto simp: steps_to_def)
  qed
qed simp

lemma parse_tokens_returns:
  "\<exists>out. parse_tokens tokens = Inr out \<and> length (pg_body (po_program out)) \<le> length tokens \<and>
     (\<forall>d\<in>set (po_diagnostics out). expecting (pd_message d))"
proof -
  have "p_left (parser_new tokens) = length tokens" by (simp add: p_left_def parser_new_def)
  then obtain q body where "program_loop (parse_fuel tokens) (parse_fuel tokens) [] (parser_new tokens) =
      (q, Inr body)" "steps_to False (parser_new tokens) q" "length body \<le> length tokens"
    using program_loop_returns [of "parser_new tokens" "length tokens" "parse_fuel tokens" "parse_fuel tokens" "[]"]
    by (auto simp: parse_fuel_def)
  then show ?thesis
    by (auto simp: parse_tokens_def Let_def steps_to_def reports_def parser_new_def)
qed

section \<open>Properties\<close>

text \<open>The parser is total, so the second case never occurs.\<close>

definition parse_of :: "string \<Rightarrow> parse_output" where
  "parse_of source =
     (case parse_source source of
        Inr out \<Rightarrow> out
      | Inl _ \<Rightarrow> \<lparr>po_program = \<lparr>pg_body = [], pg_span = None\<rparr>, po_diagnostics = []\<rparr>)"

lemma parse_source_of: "parse_source source = Inr (parse_of source)"
proof (cases "lex source")
  case (Inl e)
  with lex_all_no_panic obtain err where "e = Lex_Error err" by (cases e) (auto simp: lex_def)
  with Inl show ?thesis by (simp add: parse_of_def parse_source_def)
next
  case (Inr tokens)
  then show ?thesis
    using parse_tokens_returns [of tokens] by (auto simp: parse_of_def parse_source_def)
qed

text \<open>C7: the parser is total. Every source gives a program and diagnostics: the parser ends, it
  reaches no \<^verbatim>\<open>unreachable!\<close> and no failing \<^verbatim>\<open>expect\<close>, it has at most one statement for each
  token, and its recovery for a statement that consumes nothing is never used, since each of
  its messages says what it expected.\<close>

theorem parse_source_total:
  "\<exists>out. parse_source source = Inr out \<and>
     ((\<exists>err. lex source = Inl (Lex_Error err) \<and> pg_body (po_program out) = [] \<and>
             po_diagnostics out = [diagnostic_from_lex_error err]) \<or>
      (\<exists>tokens. lex source = Inr tokens \<and> length (pg_body (po_program out)) \<le> length tokens \<and>
             list_all (expecting \<circ> pd_message) (po_diagnostics out)))"
proof (cases "lex source")
  case (Inl e)
  with lex_all_no_panic obtain err where "e = Lex_Error err" by (cases e) (auto simp: lex_def)
  with Inl show ?thesis by (simp add: parse_source_def)
next
  case (Inr tokens)
  then show ?thesis using parse_tokens_returns [of tokens] by (auto simp: parse_source_def list_all_iff)
qed

lemma progress_message: "\<not> expecting (Text ''parser made no progress'')"
  by (simp add: expecting_def)

end
