(* ===== verification/Module_Graph.thy ===== *)
theory Module_Graph
  imports Modules Parser_Total
begin

text \<open>
  Correctness of the module graph. The specification is the import relation between modules
  and, from it, \<open>buildable\<close>: every module that the entry reaches is provided and in order, and
  none of them reaches itself. The depth-first search keeps \<open>search_inv\<close>: the stack is a path
  of imports, the finished modules come after their imports, and every diagnostic is justified.
  Fuel above the number of modules not yet seen is always enough.
\<close>

section \<open>The graph of the sources\<close>

definition body_of :: "sources \<Rightarrow> string \<Rightarrow> statement list" where
  "body_of sources m =
     (case bt_get sources m of None \<Rightarrow> [] | Some s \<Rightarrow> pg_body (po_program (parse_of s)))"

definition import_of :: "string \<Rightarrow> statement \<Rightarrow> resolved_import option" where
  "import_of m st =
     (case st_kind st of
        S_Import imp \<Rightarrow>
          (case resolve_import m imp of
             Inr r \<Rightarrow> Some \<lparr>ri_names = im_names imp, ri_from = im_from imp, ri_resolved = r\<rparr>
           | Inl _ \<Rightarrow> None)
      | _ \<Rightarrow> None)"

definition export_of :: "statement \<Rightarrow> string option" where
  "export_of st = (case st_kind st of S_Export inner \<Rightarrow> export_name inner | _ \<Rightarrow> None)"

definition unsupported :: "string \<Rightarrow> statement \<Rightarrow> bool" where
  "unsupported m st \<longleftrightarrow> (case st_kind st of S_Import imp \<Rightarrow> isl (resolve_import m imp) | _ \<Rightarrow> False)"

definition record_of :: "sources \<Rightarrow> string \<Rightarrow> module_record" where
  "record_of sources m =
     \<lparr>mr_specifier = m, mr_imports = List.map_filter (import_of m) (body_of sources m),
      mr_exports = List.map_filter export_of (body_of sources m)\<rparr>"

definition imported :: "sources \<Rightarrow> string \<Rightarrow> string list" where
  "imported sources m = map ri_resolved (mr_imports (record_of sources m))"

definition imports_module :: "sources \<Rightarrow> string \<Rightarrow> string \<Rightarrow> bool" where
  "imports_module sources m m' \<longleftrightarrow> m' \<in> set (imported sources m)"

text \<open>A module in order: provided, without syntax errors and without unsupported specifiers.\<close>

definition sound_module :: "sources \<Rightarrow> string \<Rightarrow> bool" where
  "sound_module sources m \<longleftrightarrow>
     (case bt_get sources m of
        None \<Rightarrow> False
      | Some s \<Rightarrow> po_diagnostics (parse_of s) = [] \<and> list_all (\<lambda>st. \<not> unsupported m st) (body_of sources m))"

definition buildable :: "sources \<Rightarrow> string \<Rightarrow> bool" where
  "buildable sources root \<longleftrightarrow>
     (\<forall>m. (imports_module sources)\<^sup>*\<^sup>* root m \<longrightarrow>
        sound_module sources m \<and> \<not> (imports_module sources)\<^sup>+\<^sup>+ m m)"

text \<open>A diagnostic says what is wrong with a module that the entry reaches.\<close>

definition justified :: "sources \<Rightarrow> string \<Rightarrow> module_diagnostic \<Rightarrow> bool" where
  "justified sources root d \<longleftrightarrow>
     (imports_module sources)\<^sup>*\<^sup>* root (md_module d) \<and>
     (case md_code d of
        MissingModule \<Rightarrow> bt_get sources (md_module d) = None
      | Parse \<Rightarrow>
          (case bt_get sources (md_module d) of
             None \<Rightarrow> False
           | Some s \<Rightarrow> md_message d \<in> pd_message ` set (po_diagnostics (parse_of s)))
      | UnsupportedSpecifier \<Rightarrow> list_ex (unsupported (md_module d)) (body_of sources (md_module d))
      | Cycle \<Rightarrow>
          2 \<le> length (md_modules d) \<and> hd (md_modules d) = md_module d \<and>
          last (md_modules d) = md_module d \<and>
          successively (imports_module sources) (md_modules d))"

section \<open>The state of the search\<close>

definition order_ok :: "sources \<Rightarrow> string list \<Rightarrow> bool" where
  "order_ok sources ms \<longleftrightarrow>
     list_all (\<lambda>i. set (imported sources (ms ! i)) \<subseteq> set (take i ms)) [0..<length ms]"

definition search_inv :: "sources \<Rightarrow> string \<Rightarrow> graph_builder \<Rightarrow> bool" where
  "search_inv sources root g \<longleftrightarrow>
     distinct (gb_stack g) \<and> distinct (gb_order g) \<and>
     set (gb_stack g) = {m. gb_states g m = Some Visiting} \<and>
     set (gb_order g) = {m. gb_states g m = Some Visited} \<and>
     successively (imports_module sources) (gb_stack g) \<and>
     (\<forall>m\<in>dom (gb_states g). (imports_module sources)\<^sup>*\<^sup>* root m) \<and>
     bt_wf (gb_records g) \<and>
     (\<forall>m\<in>set (gb_order g). bt_get (gb_records g) m = Some (record_of sources m)) \<and>
     (gb_diagnostics g = [] \<longrightarrow>
        (\<forall>m\<in>set (gb_order g). sound_module sources m) \<and> order_ok sources (gb_order g)) \<and>
     list_all (justified sources root) (gb_diagnostics g)"

text \<open>What a call of \<open>visit\<close> leaves as it was.\<close>

definition extends :: "graph_builder \<Rightarrow> graph_builder \<Rightarrow> bool" where
  "extends g g' \<longleftrightarrow>
     gb_stack g' = gb_stack g \<and> gb_states g \<subseteq>\<^sub>m gb_states g' \<and>
     (\<exists>ds. gb_diagnostics g' = gb_diagnostics g @ ds)"

definition unseen :: "sources \<Rightarrow> graph_builder \<Rightarrow> nat" where
  "unseen sources g = length (filter (\<lambda>(k, s). gb_states g k = None) sources)"

text \<open>A module may be visited when it is the root, or is imported by the module on top.\<close>

definition may_visit :: "sources \<Rightarrow> string \<Rightarrow> graph_builder \<Rightarrow> string \<Rightarrow> bool" where
  "may_visit sources root g m \<longleftrightarrow>
     (if gb_stack g = [] then m = root else imports_module sources (last (gb_stack g)) m)"

definition visits :: "sources \<Rightarrow> string \<Rightarrow> graph_builder \<Rightarrow> string \<Rightarrow> unit build \<Rightarrow> bool" where
  "visits sources root g m act \<longleftrightarrow>
     (\<exists>g'. act g = (g', Inr ()) \<and> search_inv sources root g' \<and> extends g g' \<and>
        (gb_diagnostics g' = [] \<longrightarrow> gb_states g' m = Some Visited))"

lemma extends_refl: "extends g g"
  by (simp add: extends_def)

lemma extends_trans [trans]: "extends g1 g2 \<Longrightarrow> extends g2 g3 \<Longrightarrow> extends g1 g3"
  by (auto simp: extends_def intro: map_le_trans)

lemma length_filter_mono:
  "(\<And>x. x \<in> set xs \<Longrightarrow> Q x \<Longrightarrow> P x) \<Longrightarrow> length (filter Q xs) \<le> length (filter P xs)"
  by (induction xs) (auto simp: le_Suc_eq)

lemma length_filter_strict:
  "(\<And>x. x \<in> set xs \<Longrightarrow> Q x \<Longrightarrow> P x) \<Longrightarrow> x \<in> set xs \<Longrightarrow> P x \<Longrightarrow> \<not> Q x \<Longrightarrow>
   length (filter Q xs) < length (filter P xs)"
proof (induction xs)
  case (Cons y ys)
  have "length (filter Q ys) \<le> length (filter P ys)"
    by (rule length_filter_mono) (simp add: Cons.prems(1))
  with Cons show ?case by auto
qed simp

lemma extends_unseen: "extends g g' \<Longrightarrow> unseen sources g' \<le> unseen sources g"
  unfolding extends_def unseen_def
  by (rule length_filter_mono) (force simp: map_le_def dom_def)

lemma unseen_enter:
  assumes "gb_states g m = None" and "bt_get sources m = Some s"
  shows "unseen sources (enter_module m g) < unseen sources g"
  unfolding unseen_def
  by (rule length_filter_strict [where x = "(m, s)"])
    (use assms in \<open>auto simp: enter_module_def dest: bt_get_in split: if_splits\<close>)

lemma extends_diagnostics: "extends g g' \<Longrightarrow> gb_diagnostics g' = [] \<Longrightarrow> gb_diagnostics g = []"
  by (auto simp: extends_def)

lemma extends_visited: "extends g g' \<Longrightarrow> gb_states g m = Some s \<Longrightarrow> gb_states g' m = Some s"
  by (force simp: extends_def map_le_def)

section \<open>The invariant\<close>

text \<open>Appending a justified diagnostic.\<close>

lemma search_inv_report:
  assumes "search_inv sources root g"
    and "justified sources root \<lparr>md_code = code, md_message = msg, md_module = m, md_modules = ms\<rparr>"
  shows "search_inv sources root (module_report code msg m ms g)"
  using assms by (simp add: search_inv_def module_report_def)

lemma extends_report: "extends g (module_report code msg m ms g)"
  by (simp add: extends_def module_report_def)

lemma visits_report:
  assumes "search_inv sources root g"
    and "justified sources root \<lparr>md_code = code, md_message = msg, md_module = m, md_modules = ms\<rparr>"
  shows "visits sources root g x (modify (module_report code msg m ms))"
  unfolding visits_def modify_def
  using search_inv_report [OF assms] extends_report [of g code msg m ms]
  by (auto simp: module_report_def)

lemma may_visit_reach:
  assumes inv: "search_inv sources root g" and may: "may_visit sources root g m"
  shows "(imports_module sources)\<^sup>*\<^sup>* root m"
proof (cases "gb_stack g = []")
  case True
  with may show ?thesis by (simp add: may_visit_def)
next
  case False
  then have "last (gb_stack g) \<in> set (gb_stack g)" by simp
  with inv have "(imports_module sources)\<^sup>*\<^sup>* root (last (gb_stack g))"
    by (auto simp: search_inv_def)
  with may False show ?thesis by (simp add: may_visit_def rtranclp.rtrancl_into_rtrancl)
qed

lemma search_inv_enter:
  assumes inv: "search_inv sources root g" and may: "may_visit sources root g m"
    and new: "gb_states g m = None"
  shows "search_inv sources root (enter_module m g)"
proof -
  from inv new have out: "m \<notin> set (gb_stack g)" "m \<notin> set (gb_order g)" by (auto simp: search_inv_def)
  from may have path: "gb_stack g \<noteq> [] \<longrightarrow> imports_module sources (last (gb_stack g)) m"
    by (simp add: may_visit_def)
  show ?thesis
    using inv out path may_visit_reach [OF inv may]
    by (auto simp: search_inv_def enter_module_def successively_append_iff)
qed

lemma search_inv_leave:
  assumes inv: "search_inv sources root g" and top: "gb_stack g = S @ [m]"
    and closed: "gb_diagnostics g = [] \<Longrightarrow>
      sound_module sources m \<and> set (imported sources m) \<subseteq> set (gb_order g)"
    and rec: "ims = mr_imports (record_of sources m)" "exs = mr_exports (record_of sources m)"
  shows "search_inv sources root (leave_module m ims exs g)"
proof -
  from inv top have st: "gb_states g m = Some Visiting" and notS: "m \<notin> set S"
    by (auto simp: search_inv_def)
  with inv have notin: "m \<notin> set (gb_order g)" by (auto simp: search_inv_def)
  have eq: "\<lparr>mr_specifier = m, mr_imports = ims, mr_exports = exs\<rparr> = record_of sources m"
    by (simp add: rec record_of_def)
  have order: "order_ok sources (gb_order g @ [m])"
    if "order_ok sources (gb_order g)" "set (imported sources m) \<subseteq> set (gb_order g)"
    using that by (auto simp: order_ok_def list_all_iff nth_append)
  show ?thesis
    using inv top st notS notin order closed
    by (auto simp: search_inv_def leave_module_def eq successively_append_iff bt_get_insert
        bt_wf_insert)
qed

lemma cycle_path:
  assumes inv: "search_inv sources root g" and may: "may_visit sources root g m"
    and on: "gb_states g m = Some Visiting"
  shows "\<exists>xs. cycle_of m (gb_stack g) = m # xs @ [m] \<and>
           successively (imports_module sources) (m # xs @ [m])"
proof -
  from inv on have "m \<in> set (gb_stack g)" by (auto simp: search_inv_def)
  then obtain us vs where split: "gb_stack g = us @ m # vs" "m \<notin> set us"
    by (meson split_list_first)
  have "dropWhile (\<lambda>x. x \<noteq> m) (gb_stack g) = m # vs"
    unfolding split(1) using split(2) by (induction us) auto
  then have cyc: "cycle_of m (gb_stack g) = m # vs @ [m]"
    using split(1) by (simp add: cycle_of_def)
  have "imports_module sources (last (m # vs)) m"
    using may split(1) by (simp add: may_visit_def split: if_splits)
  moreover have "successively (imports_module sources) (m # vs)"
    using inv unfolding search_inv_def split(1) by (simp add: successively_append_iff)
  ultimately have "successively (imports_module sources) ((m # vs) @ [m])"
    by (simp add: successively_append_iff del: append_Cons)
  with cyc show ?thesis by auto
qed

lemma visits_cycle:
  assumes inv: "search_inv sources root g" and may: "may_visit sources root g m"
    and on: "gb_states g m = Some Visiting"
  shows "visits sources root g m (modify (report_cycle m))"
proof -
  from cycle_path [OF assms] obtain xs where
    xs: "cycle_of m (gb_stack g) = m # xs @ [m]" "successively (imports_module sources) (m # xs @ [m])"
    by blast
  have "visits sources root g m (modify (module_report Cycle
          (Text (''module cycle detected: '' @ join_with '' -> '' (m # xs @ [m]))) m (m # xs @ [m])))"
    by (rule visits_report [OF inv]) (use xs may_visit_reach [OF inv may] in \<open>simp add: justified_def\<close>)
  then show ?thesis by (simp add: visits_def modify_def report_cycle_def xs Let_def)
qed

lemma visits_missing:
  assumes inv: "search_inv sources root g" and may: "may_visit sources root g m"
    and none: "bt_get sources m = None"
  shows "visits sources root g m (modify (report_missing m))"
  using visits_report [OF inv, of MissingModule "Text (''module `'' @ m @ ''` was not provided'')" m "[m]"]
    may_visit_reach [OF inv may] none
  by (simp add: visits_def modify_def report_missing_def justified_def)

lemma search_inv_parse:
  assumes "search_inv sources root g" and "(imports_module sources)\<^sup>*\<^sup>* root m"
    and "bt_get sources m = Some s" and "set ds \<subseteq> set (po_diagnostics (parse_of s))"
  shows "search_inv sources root (report_parse m ds g) \<and> extends g (report_parse m ds g) \<and>
    (gb_diagnostics (report_parse m ds g) = [] \<longrightarrow> ds = [])"
  using assms
proof (induction ds arbitrary: g)
  case Nil
  then show ?case by (simp add: report_parse_def extends_refl)
next
  case (Cons d ds)
  let ?g = "module_report Parse (pd_message d) m [m] g"
  have inv: "search_inv sources root ?g"
    by (rule search_inv_report) (use Cons.prems in \<open>auto simp: justified_def\<close>)
  have step: "report_parse m (d # ds) g = report_parse m ds ?g" by (simp add: report_parse_def)
  from Cons.IH [OF inv] Cons.prems have *: "search_inv sources root (report_parse m ds ?g)"
    "extends ?g (report_parse m ds ?g)" by auto
  moreover from *(2) have "gb_diagnostics (report_parse m ds ?g) \<noteq> []"
    by (auto simp: extends_def module_report_def)
  ultimately show ?case
    unfolding step using extends_trans [OF extends_report *(2)] by simp
qed

section \<open>The search\<close>

text \<open>What the loop over statements finds, when it reports nothing.\<close>

definition settled :: "string \<Rightarrow> statement list \<Rightarrow> graph_builder \<Rightarrow> bool" where
  "settled m sts g \<longleftrightarrow>
     list_all (\<lambda>st. \<not> unsupported m st) sts \<and>
     (\<forall>i\<in>set (List.map_filter (import_of m) sts). gb_states g (ri_resolved i) = Some Visited)"

lemma settled_Cons:
  "settled m (st # sts) g \<longleftrightarrow>
     \<not> unsupported m st \<and>
     (case import_of m st of None \<Rightarrow> True | Some i \<Rightarrow> gb_states g (ri_resolved i) = Some Visited) \<and>
     settled m sts g"
  by (auto simp: settled_def map_filter_simps split: option.splits)

lemma body_imports:
  "st \<in> set (body_of sources m) \<Longrightarrow> import_of m st = Some i \<Longrightarrow> imports_module sources m (ri_resolved i)"
  by (force simp: imports_module_def imported_def record_of_def map_filter_def)

lemma visit_statements_search:
  assumes rec: "\<And>g x. search_inv sources root g \<Longrightarrow> gb_stack g = S @ [m] \<Longrightarrow>
      imports_module sources m x \<Longrightarrow> unseen sources g \<le> k \<Longrightarrow> visits sources root g x (rec x)"
    and "set sts \<subseteq> set (body_of sources m)" and reached: "(imports_module sources)\<^sup>*\<^sup>* root m"
    and "search_inv sources root g" and "gb_stack g = S @ [m]" and "unseen sources g \<le> k"
  shows "\<exists>g'. visit_statements rec m sts ims exs g =
      (g', Inr (ims @ List.map_filter (import_of m) sts, exs @ List.map_filter export_of sts)) \<and>
    search_inv sources root g' \<and> extends g g' \<and> (gb_diagnostics g' = [] \<longrightarrow> settled m sts g')"
  using assms(2,4-)
proof (induction sts arbitrary: g ims exs)
  case Nil
  then show ?case by (simp add: sret_def extends_refl settled_def map_filter_simps)
next
  case (Cons st sts)
  have skip: ?case
    if "import_of m st = None" "\<not> unsupported m st"
      "\<And>g. visit_statements rec m (st # sts) ims exs g =
         visit_statements rec m sts ims (exs @ List.map_filter export_of [st]) g"
    using Cons.IH [of g ims "exs @ List.map_filter export_of [st]"] Cons.prems that
    by (auto simp: settled_Cons map_filter_simps split: option.splits)
  show ?case
  proof (cases "\<exists>imp. st_kind st = S_Import imp")
    case False
    show ?thesis
      by (rule skip) (use False in \<open>auto simp: import_of_def unsupported_def export_of_def
          map_filter_simps split: statement_kind.splits option.splits\<close>)
  next
    case True
    then obtain imp where imp: "st_kind st = S_Import imp" by blast
    then have noexp: "export_of st = None" by (simp add: export_of_def)
    show ?thesis
    proof (cases "resolve_import m imp")
      case (Inr x)
      let ?i = "\<lparr>ri_names = im_names imp, ri_from = im_from imp, ri_resolved = x\<rparr>"
      from imp Inr have i: "import_of m st = Some ?i" and ok: "\<not> unsupported m st"
        by (simp_all add: import_of_def unsupported_def)
      have "imports_module sources m x"
        using body_imports [OF _ i] Cons.prems(1) by simp
      with Cons.prems have "visits sources root g x (rec x)" by (intro rec) auto
      then obtain g1 where g1: "rec x g = (g1, Inr ())" "search_inv sources root g1" "extends g g1"
        "gb_diagnostics g1 = [] \<Longrightarrow> gb_states g1 x = Some Visited"
        unfolding visits_def by blast
      have "unseen sources g1 \<le> k"
        using extends_unseen [OF g1(3)] Cons.prems(4) by (rule le_trans)
      moreover have "gb_stack g1 = S @ [m]" using g1(3) Cons.prems(3) by (simp add: extends_def)
      ultimately obtain g' where g': "visit_statements rec m sts (ims @ [?i]) exs g1 =
          (g', Inr ((ims @ [?i]) @ List.map_filter (import_of m) sts, exs @ List.map_filter export_of sts))"
        "search_inv sources root g'" "extends g1 g'" "gb_diagnostics g' = [] \<longrightarrow> settled m sts g'"
        using Cons.IH [of g1 "ims @ [?i]" exs] Cons.prems g1 by auto
      have "settled m (st # sts) g'" if none: "gb_diagnostics g' = []"
        using g'(4) none extends_visited [OF g'(3)] g1(4) extends_diagnostics [OF g'(3) none] i ok
        by (auto simp: settled_Cons)
      with g' g1 i imp Inr noexp show ?thesis
        by (auto simp: sbind_def map_filter_simps intro: extends_trans)
    next
      case (Inl err)
      let ?g = "module_report UnsupportedSpecifier (Text err) m [m] g"
      from imp Inl have i: "import_of m st = None" and bad: "unsupported m st"
        by (simp_all add: import_of_def unsupported_def)
      have inv: "search_inv sources root ?g"
        by (rule search_inv_report)
          (use Cons.prems bad reached in \<open>auto simp: justified_def list_ex_iff\<close>)
      have "unseen sources ?g \<le> k"
        by (rule le_trans [OF extends_unseen [OF extends_report] Cons.prems(4)])
      moreover have "gb_stack ?g = S @ [m]" using Cons.prems(3) by (simp add: module_report_def)
      ultimately obtain g' where g': "visit_statements rec m sts ims exs ?g =
          (g', Inr (ims @ List.map_filter (import_of m) sts, exs @ List.map_filter export_of sts))"
        "search_inv sources root g'" "extends ?g g'" "gb_diagnostics g' = [] \<longrightarrow> settled m sts g'"
        using Cons.IH [of ?g ims exs] Cons.prems inv by auto
      have "gb_diagnostics g' \<noteq> []"
        using extends_diagnostics [OF g'(3)] by (auto simp: module_report_def)
      with g' i imp Inl noexp show ?thesis
        using extends_trans [OF extends_report g'(3)]
        by (auto simp: sbind_def modify_def map_filter_simps)
    qed
  qed
qed

text \<open>Entering a provided module, its statements and leaving it.\<close>

lemma visits_module:
  assumes inv: "search_inv sources root g" and may: "may_visit sources root g m"
    and new: "gb_states g m = None" and src: "bt_get sources m = Some s"
    and rec: "\<And>g x. search_inv sources root g \<Longrightarrow> may_visit sources root g x \<Longrightarrow>
      unseen sources g \<le> k \<Longrightarrow> visits sources root g x (rec x)"
    and k: "unseen sources (enter_module m g) \<le> k"
  shows "visits sources root g m
    (sbind (modify (enter_module m)) (\<lambda>_.
     sbind (modify (report_parse m (po_diagnostics (parse_of s)))) (\<lambda>_.
     sbind (visit_statements rec m (pg_body (po_program (parse_of s))) [] [])
       (\<lambda>(imports, exports). modify (leave_module m imports exports)))))"
proof -
  let ?ds = "po_diagnostics (parse_of s)"
  let ?g1 = "enter_module m g" and ?g2 = "report_parse m ?ds (enter_module m g)"
  from may_visit_reach [OF inv may] have reached: "(imports_module sources)\<^sup>*\<^sup>* root m" .
  have inv1: "search_inv sources root ?g1" by (rule search_inv_enter [OF inv may new])
  from search_inv_parse [OF inv1 reached src, of ?ds] have inv2: "search_inv sources root ?g2"
    and ext2: "extends ?g1 ?g2" and none2: "gb_diagnostics ?g2 = [] \<longrightarrow> ?ds = []" by auto
  have top: "gb_stack ?g2 = gb_stack g @ [m]" using ext2 by (simp add: extends_def enter_module_def)
  have body: "body_of sources m = pg_body (po_program (parse_of s))" by (simp add: body_of_def src)
  have rec': "visits sources root g' x (rec x)"
    if "search_inv sources root g'" "gb_stack g' = gb_stack g @ [m]" "imports_module sources m x"
      "unseen sources g' \<le> k" for g' x
    using that by (intro rec) (auto simp: may_visit_def)
  have "unseen sources ?g2 \<le> k" using extends_unseen [OF ext2] k by (rule le_trans)
  from visit_statements_search [where rec = rec and sources = sources and m = m
      and sts = "body_of sources m" and ims = "[]" and exs = "[]", OF rec' subset_refl reached inv2 top this]
  obtain g3 where g3: "visit_statements rec m (body_of sources m) [] [] ?g2 =
      (g3, Inr (List.map_filter (import_of m) (body_of sources m),
                List.map_filter export_of (body_of sources m)))"
    "search_inv sources root g3" "extends ?g2 g3"
    "gb_diagnostics g3 = [] \<longrightarrow> settled m (body_of sources m) g3" by auto
  let ?is = "List.map_filter (import_of m) (body_of sources m)"
  let ?es = "List.map_filter export_of (body_of sources m)"
  let ?g4 = "leave_module m ?is ?es g3"
  have top3: "gb_stack g3 = gb_stack g @ [m]" using g3(3) top by (simp add: extends_def)
  have inv4: "search_inv sources root ?g4"
  proof (rule search_inv_leave [OF g3(2) top3])
    assume none: "gb_diagnostics g3 = []"
    with g3(4) have set: "settled m (body_of sources m) g3" by simp
    have "?ds = []" using none2 extends_diagnostics [OF g3(3) none] by simp
    with set src have "sound_module sources m" by (simp add: sound_module_def settled_def)
    moreover have "set (imported sources m) \<subseteq> set (gb_order g3)"
      using set g3(2) by (auto simp: settled_def imported_def record_of_def search_inv_def)
    ultimately show "sound_module sources m \<and> set (imported sources m) \<subseteq> set (gb_order g3)" ..
  qed (simp_all add: record_of_def)
  have "extends g ?g4"
  proof -
    note map_le_trans [trans]
    from new have "gb_states g \<subseteq>\<^sub>m gb_states ?g1" by (auto simp: enter_module_def map_le_def)
    also have "gb_states ?g1 \<subseteq>\<^sub>m gb_states g3"
      using ext2 g3(3) by (auto simp: extends_def intro: map_le_trans)
    finally have "gb_states g \<subseteq>\<^sub>m gb_states ?g4"
      using new by (auto simp: leave_module_def map_le_def)
    moreover obtain ds where "gb_diagnostics g3 = gb_diagnostics g @ ds"
      using ext2 g3(3) by (force simp: extends_def enter_module_def)
    ultimately show ?thesis using top3 by (simp add: extends_def leave_module_def)
  qed
  with inv4 g3(1) body show ?thesis
    by (simp add: visits_def sbind_def modify_def leave_module_def)
qed

theorem visit_search:
  "search_inv sources root g \<Longrightarrow> may_visit sources root g m \<Longrightarrow> unseen sources g < n \<Longrightarrow>
   visits sources root g m (visit sources n m)"
proof (induction n arbitrary: g m)
  case (Suc n)
  have same: "visits sources root g m (visit sources (Suc n) m) = visits sources root g m act"
    if "visit sources (Suc n) m g = act g" for act
    using that by (simp add: visits_def)
  show ?case
  proof (cases "gb_states g m")
    case None
    show ?thesis
    proof (cases "bt_get sources m")
      case none: None
      show ?thesis
        using visits_missing [OF Suc.prems(1,2) none] same [of "modify (report_missing m)"] None none
        by simp
    next
      case (Some s)
      let ?act = "sbind (modify (enter_module m)) (\<lambda>_.
          sbind (modify (report_parse m (po_diagnostics (parse_of s)))) (\<lambda>_.
          sbind (visit_statements (visit sources n) m (pg_body (po_program (parse_of s))) [] [])
            (\<lambda>(imports, exports). modify (leave_module m imports exports))))"
      have k: "unseen sources (enter_module m g) \<le> n - 1"
        using unseen_enter [OF None Some] Suc.prems(3) by linarith
      have "0 < n" using unseen_enter [OF None Some] Suc.prems(3) by linarith
      then have "visits sources root g m ?act"
        by (intro visits_module [OF Suc.prems(1,2) None Some _ k] Suc.IH) auto
      then show ?thesis
        using same [of ?act] None Some by (simp add: parse_source_of result_simps)
    qed
  next
    case (Some st)
    show ?thesis
    proof (cases st)
      case Visiting
      with Some show ?thesis
        using visits_cycle [OF Suc.prems(1,2)] same [of "modify (report_cycle m)"] by simp
    next
      case Visited
      with Some Suc.prems(1) same [of "sret ()"] show ?thesis
        by (simp add: visits_def sret_def extends_refl)
    qed
  qed
qed simp

section \<open>The graph\<close>

lemma search_inv_new: "search_inv sources root builder_new"
  by (simp add: search_inv_def builder_new_def order_ok_def)

lemma visit_entry:
  "\<exists>g. visit sources (visit_fuel sources) root builder_new = (g, Inr ()) \<and> search_inv sources root g \<and>
       (gb_diagnostics g = [] \<longrightarrow> root \<in> set (gb_order g))"
proof -
  have "unseen sources builder_new < visit_fuel sources"
    by (simp add: unseen_def visit_fuel_def less_Suc_eq_le)
  moreover have "may_visit sources root builder_new root" by (simp add: may_visit_def builder_new_def)
  ultimately have "visits sources root builder_new root (visit sources (visit_fuel sources) root)"
    by (intro visit_search search_inv_new)
  then show ?thesis by (fastforce simp: visits_def search_inv_def)
qed

lemma successively_tranclp: "successively R (x # xs @ [y]) \<Longrightarrow> R\<^sup>+\<^sup>+ x y"
  by (induction xs arbitrary: x) (auto intro: tranclp_into_tranclp2)

lemma justified_not_buildable:
  assumes "justified sources root d" shows "\<not> buildable sources root"
proof
  assume build: "buildable sources root"
  let ?m = "md_module d"
  from assms have reach: "(imports_module sources)\<^sup>*\<^sup>* root ?m" by (simp add: justified_def)
  with build have sound: "sound_module sources ?m" and acyclic: "\<not> (imports_module sources)\<^sup>+\<^sup>+ ?m ?m"
    by (auto simp: buildable_def)
  show False
  proof (cases "md_code d")
    case Cycle
    with assms have cyc: "2 \<le> length (md_modules d)" "hd (md_modules d) = ?m" "last (md_modules d) = ?m"
      "successively (imports_module sources) (md_modules d)"
      by (simp_all add: justified_def)
    from cyc(1) obtain x ys where ms: "md_modules d = x # ys" by (cases "md_modules d") auto
    with cyc(1) have "ys \<noteq> []" by auto
    with ms have "md_modules d = x # butlast ys @ [last ys]" by simp
    with cyc(2,3) ms \<open>ys \<noteq> []\<close> have "md_modules d = ?m # butlast ys @ [?m]" by simp
    with cyc(4) have "(imports_module sources)\<^sup>+\<^sup>+ ?m ?m" by (simp add: successively_tranclp)
    with acyclic show False ..
  qed (use assms sound in \<open>auto simp: justified_def sound_module_def list_all_iff list_ex_iff
         split: option.splits\<close>)
qed

lemma order_okD:
  assumes "order_ok sources ms" and "i < length ms" and "imports_module sources (ms ! i) m"
  shows "\<exists>j<i. m = ms ! j"
proof -
  from assms have "m \<in> set (take i ms)" by (auto simp: order_ok_def list_all_iff imports_module_def)
  then show ?thesis by (auto simp: in_set_conv_nth)
qed

lemma order_below:
  assumes order: "order_ok sources ms" and path: "(imports_module sources)\<^sup>+\<^sup>+ m m'"
    and i: "i < length ms" "m = ms ! i"
  shows "\<exists>j<i. m' = ms ! j"
  using path i
proof (induction arbitrary: i rule: tranclp_induct)
  case (base y)
  then show ?case using order_okD [OF order] by blast
next
  case (step y z)
  from step.IH [OF step.prems] obtain j where "j < i" "y = ms ! j" by blast
  with step.prems(1) step.hyps(2) order_okD [OF order, of j z] show ?case
    by (metis less_trans)
qed

lemma order_closed:
  assumes order: "order_ok sources ms" and "root \<in> set ms" and "(imports_module sources)\<^sup>*\<^sup>* root m"
  shows "m \<in> set ms"
  using assms(3,2)
proof (induction rule: rtranclp_induct)
  case (step y z)
  then obtain i where "i < length ms" "y = ms ! i" by (auto simp: in_set_conv_nth)
  with order_okD [OF order, of i z] step.hyps(2) show ?case by (auto intro: nth_mem)
qed

lemma order_acyclic:
  assumes "order_ok sources ms" and "distinct ms" and "m \<in> set ms"
  shows "\<not> (imports_module sources)\<^sup>+\<^sup>+ m m"
proof
  assume path: "(imports_module sources)\<^sup>+\<^sup>+ m m"
  from assms(3) obtain i where i: "i < length ms" "m = ms ! i" by (auto simp: in_set_conv_nth)
  from order_below [OF assms(1) path i] obtain j where "j < i" "m = ms ! j" by blast
  with i assms(2) show False by (metis less_irrefl less_trans nth_eq_iff_index_eq)
qed

lemma order_last:
  assumes "order_ok sources ms" and "distinct ms" and "root \<in> set ms"
    and reached: "\<And>m. m \<in> set ms \<Longrightarrow> (imports_module sources)\<^sup>*\<^sup>* root m"
  shows "last ms = root"
proof (rule ccontr)
  assume other: "last ms \<noteq> root"
  from assms(3) have ne: "ms \<noteq> []" by auto
  then have "(imports_module sources)\<^sup>*\<^sup>* root (last ms)" by (intro reached) simp
  with other have path: "(imports_module sources)\<^sup>+\<^sup>+ root (last ms)"
    by (metis rtranclpD)
  from assms(3) obtain i where i: "i < length ms" "root = ms ! i" by (auto simp: in_set_conv_nth)
  from order_below [OF assms(1) path i] obtain j where "j < i" "last ms = ms ! j" by blast
  with i ne have "ms ! (length ms - 1) = ms ! j" "j < length ms" "length ms - 1 < length ms"
    by (auto simp: last_conv_nth)
  with assms(2) have "length ms - 1 = j" by (metis nth_eq_iff_index_eq)
  with i \<open>j < i\<close> show False by linarith
qed

text \<open>The text a module contributes to the bundle.\<close>

definition bundle_of :: "sources \<Rightarrow> string \<Rightarrow> string" where
  "bundle_of sources m =
     (case bt_get sources m of
        None \<Rightarrow> []
      | Some s \<Rightarrow> concat (map (\<lambda>st. bundle_statement s st []) (body_of sources m)))"

lemma bundle_statement_append: "bundle_statement s st out = out @ bundle_statement s st []"
  by (simp add: bundle_statement_def push_statement_source_def
      split: statement_kind.splits option.splits)

lemma fold_bundle_statement:
  "fold (bundle_statement s) sts out = out @ concat (map (\<lambda>st. bundle_statement s st []) sts)"
proof (induction sts arbitrary: out)
  case (Cons st sts)
  then show ?case by (simp add: bundle_statement_append [of s st out])
qed simp

lemma bundle_modules_concat:
  "bundle_modules sources ms out = Inr (out @ concat (map (bundle_of sources \<circ> mr_specifier) ms))"
  by (induction ms arbitrary: out)
    (auto simp: parse_source_of fold_bundle_statement bundle_of_def body_of_def split: option.splits)

lemma records_in_order:
  assumes "search_inv sources root g"
  shows "List.map_filter (bt_get (gb_records g)) (gb_order g) = map (record_of sources) (gb_order g)"
proof -
  have "List.map_filter (bt_get (gb_records g)) ms = map (record_of sources) ms"
    if "set ms \<subseteq> set (gb_order g)" for ms
    using that assms by (induction ms) (auto simp: map_filter_simps search_inv_def)
  then show ?thesis by simp
qed

lemma record_specifier: "mr_specifier \<circ> record_of sources = id"
  by (auto simp: record_of_def)

lemma bundle_cases:
  obtains g where "visit sources (visit_fuel sources) (normalize_entry entry) builder_new = (g, Inr ())"
    "search_inv sources (normalize_entry entry) g"
    "gb_diagnostics g \<noteq> []"
    "bundle_module_graph entry sources = Inr (Inl (gb_diagnostics g))"
  | g where "search_inv sources (normalize_entry entry) g" "gb_diagnostics g = []"
    "normalize_entry entry \<in> set (gb_order g)"
    "bundle_module_graph entry sources = Inr (Inr
       \<lparr>mg_entry = normalize_entry entry, mg_modules = map (record_of sources) (gb_order g),
        mg_bundled_source = concat (map (bundle_of sources) (gb_order g))\<rparr>)"
proof -
  obtain g where g: "visit sources (visit_fuel sources) (normalize_entry entry) builder_new = (g, Inr ())"
    "search_inv sources (normalize_entry entry) g"
    "gb_diagnostics g = [] \<longrightarrow> normalize_entry entry \<in> set (gb_order g)"
    using visit_entry by blast
  show thesis
  proof (cases "gb_diagnostics g = []")
    case True
    with g records_in_order [OF g(2)] show ?thesis
      by (intro that(2) [of g])
        (auto simp: bundle_module_graph_def Let_def bundle_modules_concat comp_assoc record_specifier)
  next
    case False
    with g show ?thesis by (intro that(1) [of g]) (auto simp: bundle_module_graph_def Let_def)
  qed
qed

text \<open>C10: the module graph is built exactly when it can be. \<open>bundle_module_graph\<close> always returns,
  whatever the cycles among the modules; it builds a graph if and only if every module that the
  entry reaches through imports is provided, has no syntax errors and no unsupported specifiers,
  and no such module reaches itself. Otherwise it returns diagnostics, at least one, and each names
  a module that the entry reaches and is true of it: a module that is missing, one with that
  syntax error or with an unsupported specifier, or a cycle that is a path of imports from the
  module to itself.\<close>

theorem module_graph_exact:
  "case bundle_module_graph entry sources of
     Inl e \<Rightarrow> False
   | Inr (Inl ds) \<Rightarrow>
       ds \<noteq> [] \<and> \<not> buildable sources (normalize_entry entry) \<and>
       list_all (justified sources (normalize_entry entry)) ds
   | Inr (Inr graph) \<Rightarrow> buildable sources (normalize_entry entry)"
proof (cases rule: bundle_cases [of sources entry])
  case (1 g)
  then obtain d where "d \<in> set (gb_diagnostics g)" by (cases "gb_diagnostics g") auto
  with 1 show ?thesis
    using justified_not_buildable by (auto simp: search_inv_def list_all_iff)
next
  case (2 g)
  then have order: "order_ok sources (gb_order g)" and dist: "distinct (gb_order g)"
    and sound: "\<forall>m\<in>set (gb_order g). sound_module sources m" by (auto simp: search_inv_def)
  have "buildable sources (normalize_entry entry)"
    unfolding buildable_def
    using order_closed [OF order 2(3)] order_acyclic [OF order dist] sound by blast
  with 2 show ?thesis by simp
qed

text \<open>C17: the modules of a graph are in dependency order. They are the modules that the entry
  reaches, each once, each after all it imports and the entry last; each record holds the imports
  and exports of the module's text, and the bundle is the text of the modules in this order,
  without their imports.\<close>

theorem module_graph_order:
  assumes "bundle_module_graph entry sources = Inr (Inr graph)"
    and "specs = map mr_specifier (mg_modules graph)"
  shows "distinct specs \<and> order_ok sources specs \<and> last specs = normalize_entry entry \<and>
     set specs = {m. (imports_module sources)\<^sup>*\<^sup>* (normalize_entry entry) m} \<and>
     mg_modules graph = map (record_of sources) specs \<and>
     mg_bundled_source graph = concat (map (bundle_of sources) specs)"
proof (cases rule: bundle_cases [of sources entry])
  case 1
  with assms show ?thesis by simp
next
  case (2 g)
  with assms have graph: "mg_modules graph = map (record_of sources) (gb_order g)"
    "mg_bundled_source graph = concat (map (bundle_of sources) (gb_order g))"
    and specs: "specs = gb_order g" by (auto simp: record_specifier)
  from 2 have order: "order_ok sources (gb_order g)" and dist: "distinct (gb_order g)"
    and reached: "\<And>m. m \<in> set (gb_order g) \<Longrightarrow> (imports_module sources)\<^sup>*\<^sup>* (normalize_entry entry) m"
    by (auto simp: search_inv_def dom_def)
  then show ?thesis
    using graph specs order_closed [OF order 2(3)] order_last [OF order dist 2(3) reached] by auto
qed

definition sample_modules :: sources where
  "sample_modules =
     [(''/lib/a.ts'', ''export let a = 1;''),
      (''/m.ts'', ''import { a } from \"./lib/../lib/a.ts\"; a;'')]"

lemma sample_graph:
  "bundle_module_graph ''m.ts'' sample_modules =
     Inr (Inr \<lparr>mg_entry = ''/m.ts'',
       mg_modules =
         [\<lparr>mr_specifier = ''/lib/a.ts'', mr_imports = [], mr_exports = [''a'']\<rparr>,
          \<lparr>mr_specifier = ''/m.ts'',
           mr_imports =
             [\<lparr>ri_names = [''a''], ri_from = ''./lib/../lib/a.ts'', ri_resolved = ''/lib/a.ts''\<rparr>],
           mr_exports = []\<rparr>],
       mg_bundled_source = ''let a = 1;'' @ newline @ ''a'' @ newline\<rparr>)"
  by code_simp

theorem module_graph_order_witness:
  "order_ok sample_modules [''/lib/a.ts'', ''/m.ts''] \<and>
   (imports_module sample_modules)\<^sup>*\<^sup>* ''/m.ts'' ''/lib/a.ts''"
proof -
  have entry: "normalize_entry ''m.ts'' = ''/m.ts''" by code_simp
  from module_graph_order [OF sample_graph refl] have
    "order_ok sample_modules [''/lib/a.ts'', ''/m.ts'']"
    "{''/lib/a.ts'', ''/m.ts''} = {m. (imports_module sample_modules)\<^sup>*\<^sup>* ''/m.ts'' m}"
    by (simp_all add: entry)
  then show ?thesis by auto
qed

section \<open>Specifiers\<close>

text \<open>The one name of a file below the root: no empty, \<^verbatim>\<open>.\<close> or \<^verbatim>\<open>..\<close> parts.\<close>

definition normal_part :: "string \<Rightarrow> bool" where
  "normal_part p \<longleftrightarrow> p \<noteq> [] \<and> p \<noteq> ''.'' \<and> p \<noteq> ''..'' \<and> slash \<notin> set p"

definition normal_specifier :: "string \<Rightarrow> bool" where
  "normal_specifier m \<longleftrightarrow>
     m = slash # join_with [slash] (module_parts m) \<and> list_all normal_part (module_parts m)"

lemma module_parts_join:
  assumes "\<forall>p\<in>set ps. p \<noteq> [] \<and> slash \<notin> set p"
  shows "module_parts (slash # join_with [slash] ps) = ps"
proof (cases "ps = []")
  case True
  then show ?thesis by (simp add: module_parts_def)
next
  case False
  with assms have "split_on slash (slash # join_with [slash] ps) = [] # ps"
    by (simp add: split_on_join)
  with assms show ?thesis by (simp add: module_parts_def filter_id_conv)
qed

lemma normal_specifier_join:
  "list_all normal_part ps \<Longrightarrow> normal_specifier (slash # join_with [slash] ps)"
  by (subst normal_specifier_def) (simp add: module_parts_join list_all_iff normal_part_def)

lemma resolve_part_normal:
  "list_all normal_part parts \<Longrightarrow> slash \<notin> set p \<Longrightarrow> list_all normal_part (resolve_part p parts)"
  by (auto simp: resolve_part_def normal_part_def list_all_iff dest: in_set_butlastD)

lemma resolve_parts_normal:
  "list_all normal_part parts \<Longrightarrow> \<forall>p\<in>set ps. slash \<notin> set p \<Longrightarrow>
   list_all normal_part (fold resolve_part ps parts)"
  by (induction ps arbitrary: parts) (simp_all add: resolve_part_normal)

lemma resolve_import_normal:
  assumes "resolve_import m imp = Inr r" and "normal_specifier m"
  shows "normal_specifier r"
proof -
  let ?ps = "fold resolve_part (split_on slash (im_from imp)) (butlast (module_parts m))"
  from assms(2) have "list_all normal_part (butlast (module_parts m))"
    by (auto simp: normal_specifier_def list_all_iff dest: in_set_butlastD)
  then have "list_all normal_part ?ps"
    by (rule resolve_parts_normal) (simp add: split_on_no_sep)
  moreover from assms(1) have "r = slash # join_with [slash] ?ps"
    by (auto simp: resolve_import_def slash_def split: if_splits)
  ultimately show ?thesis using normal_specifier_join by simp
qed

lemma imports_normal:
  assumes "imports_module sources m m'" and "normal_specifier m"
  shows "normal_specifier m'"
proof -
  from assms(1) obtain st i where "import_of m st = Some i" "m' = ri_resolved i"
    by (auto simp: imports_module_def imported_def record_of_def map_filter_def)
  then obtain imp where "resolve_import m imp = Inr m'"
    by (auto simp: import_of_def split: statement_kind.splits sum.splits)
  then show ?thesis using assms(2) by (rule resolve_import_normal)
qed

text \<open>C30: every file has one name in a graph. When the entry is a normal specifier, so is every
  module of the graph: it starts at the root and has no empty, \<^verbatim>\<open>.\<close> or \<^verbatim>\<open>..\<close> part, so imports
  cannot leave the root, and one file is never two modules.\<close>

theorem module_specifiers_normal:
  assumes "bundle_module_graph entry sources = Inr (Inr graph)"
    and "normal_specifier (normalize_entry entry)"
  shows "list_all (\<lambda>m. normal_specifier (mr_specifier m)) (mg_modules graph)"
proof (cases rule: bundle_cases [of sources entry])
  case 1
  with assms show ?thesis by simp
next
  case (2 g)
  have "normal_specifier m" if "(imports_module sources)\<^sup>*\<^sup>* (normalize_entry entry) m" for m
    using that assms(2) by (induction rule: rtranclp_induct) (auto intro: imports_normal)
  with 2(1) have "\<forall>m\<in>set (gb_order g). normal_specifier m"
    by (auto simp: search_inv_def dom_def)
  moreover have "mg_modules graph = map (record_of sources) (gb_order g)"
    using assms(1) 2(4) by auto
  ultimately show ?thesis by (auto simp: list_all_iff record_of_def)
qed

theorem module_specifiers_normal_witness:
  "normal_specifier ''/lib/a.ts'' \<and> normal_specifier ''/m.ts''"
proof -
  have "normal_specifier (normalize_entry ''m.ts'')" by code_simp
  from module_specifiers_normal [OF sample_graph this] show ?thesis by simp
qed

section \<open>What bundling loses\<close>

text \<open>A bundle may not parse although its module does. The span of an expression statement
  leaves out its outer parentheses, and bundling copies the text of the span: the module
  \<^verbatim>\<open>(1 + 2) * 3;\<close> has no syntax errors and its bundle \<^verbatim>\<open>1 + 2) * 3\<close> has one.\<close>

theorem bundle_breaks_parentheses:
  "po_diagnostics (parse_of ''(1 + 2) * 3;'') = [] \<and>
   bundle_module_graph ''m.ts'' [(''/m.ts'', ''(1 + 2) * 3;'')] =
     Inr (Inr \<lparr>mg_entry = ''/m.ts'',
       mg_modules = [\<lparr>mr_specifier = ''/m.ts'', mr_imports = [], mr_exports = []\<rparr>],
       mg_bundled_source = ''1 + 2) * 3'' @ newline\<rparr>) \<and>
   po_diagnostics (parse_of (''1 + 2) * 3'' @ newline)) \<noteq> []"
  by (intro conjI; code_simp)

end
