(* ===== verification/Ir.thy ===== *)
theory Ir
  imports Ast
begin

text \<open>
  \<^verbatim>\<open>runtime/ir\<close>: the intermediate representation and its construction from the syntax tree.
  \<^verbatim>\<open>FunctionLowerer\<close> is a record that the lowering methods pass on. \<open>lower_source\<close>, which
  runs the semantic analysis first, is in \<open>Compiler\<close>.
\<close>

section \<open>Programs\<close>

datatype ir_type =
  IT_Number | IT_String | IT_Boolean | IT_Null | IT_Undefined
| IT_Object "(string \<times> ir_type) list"
| IT_Array ir_type
| IT_Named string
| IT_Unknown

datatype ir_binary_op =
  IR_Add | IR_Subtract | IR_Multiply | IR_Divide | IR_Remainder | IR_Equal | IR_StrictEqual
| IR_NotEqual | IR_StrictNotEqual | IR_Less | IR_LessEqual | IR_Greater | IR_GreaterEqual
| IR_LogicalAnd | IR_LogicalOr | IR_NullishCoalesce

type_synonym value_id = nat
type_synonym block_id = nat

datatype ir_const =
  IC_Number string
| IC_String string
| IC_Boolean bool
| IC_Null
| IC_Undefined
| IC_Object "(string \<times> value_id) list"
| IC_Array "value_id list"

datatype ir_instruction_kind =
  II_LoadConst ir_const
| II_LoadLocal string
| II_StoreLocal string value_id
| II_LoadMember value_id string
| II_StoreMember value_id string value_id
| II_Binary ir_binary_op value_id value_id
| II_Call string "value_id list"
| II_Branch value_id block_id block_id
| II_Jump block_id
| II_Return "value_id option"

record ir_instruction =
  ii_kind :: ir_instruction_kind
  ii_result :: "value_id option"
  ii_ty :: ir_type
  ii_source_span :: span

record ir_block =
  ib_id :: block_id
  ib_instructions :: "ir_instruction list"

record ir_param =
  ip_name :: string
  ip_ty :: ir_type

record ir_function =
  ir_name :: string
  ir_params :: "ir_param list"
  ir_return_type :: ir_type
  ir_blocks :: "ir_block list"
  ir_source_span :: span

record ir_program =
  ir_functions :: "ir_function list"
  ir_entry :: ir_function
  ir_program_span :: "span option"

section \<open>Types, operators and names\<close>

primrec type_from_node :: "type_node \<Rightarrow> ir_type"
and type_from_kind :: "type_kind \<Rightarrow> ir_type"
and field_from_member :: "type_member \<Rightarrow> string \<times> ir_type" where
  "type_from_node (Type_Node k sp) = type_from_kind k"
| "type_from_kind TK_Number = IT_Number"
| "type_from_kind TK_String = IT_String"
| "type_from_kind TK_Boolean = IT_Boolean"
| "type_from_kind TK_Null = IT_Null"
| "type_from_kind TK_Undefined = IT_Undefined"
| "type_from_kind (TK_Named name) = IT_Named name"
| "type_from_kind (TK_Array inner) = IT_Array (type_from_node inner)"
| "type_from_kind (TK_Object members) = IT_Object (map field_from_member members)"
| "field_from_member (Type_Member name ty sp) = (name, type_from_node ty)"

definition member_type :: "ir_type \<Rightarrow> string \<Rightarrow> ir_type" where
  "member_type object_type property =
     (case object_type of
        IT_Object fds \<Rightarrow>
          (case map_of fds property of None \<Rightarrow> IT_Unknown | Some ty \<Rightarrow> ty)
      | _ \<Rightarrow> IT_Unknown)"

fun callee_name :: "expression \<Rightarrow> string" where
  "callee_name (Expression (Ex_Identifier name) sp) = name"
| "callee_name (Expression (Ex_Member object property) sp) = callee_name object @ ''.'' @ property"
| "callee_name (Expression _ sp) = ''<expr>''"

primrec binary_op :: "binary_operator \<Rightarrow> ir_binary_op" where
  "binary_op Op_Add = IR_Add"
| "binary_op Op_Subtract = IR_Subtract"
| "binary_op Op_Multiply = IR_Multiply"
| "binary_op Op_Divide = IR_Divide"
| "binary_op Op_Remainder = IR_Remainder"
| "binary_op Op_Equal = IR_Equal"
| "binary_op Op_StrictEqual = IR_StrictEqual"
| "binary_op Op_NotEqual = IR_NotEqual"
| "binary_op Op_StrictNotEqual = IR_StrictNotEqual"
| "binary_op Op_Less = IR_Less"
| "binary_op Op_LessEqual = IR_LessEqual"
| "binary_op Op_Greater = IR_Greater"
| "binary_op Op_GreaterEqual = IR_GreaterEqual"
| "binary_op Op_LogicalAnd = IR_LogicalAnd"
| "binary_op Op_LogicalOr = IR_LogicalOr"
| "binary_op Op_NullishCoalesce = IR_NullishCoalesce"

definition binary_type :: "binary_operator \<Rightarrow> ir_type" where
  "binary_type operator =
     (if operator \<in> {Op_Add, Op_Subtract, Op_Multiply, Op_Divide, Op_Remainder} then IT_Number
      else if operator = Op_NullishCoalesce then IT_Unknown
      else IT_Boolean)"

primrec assignment_binary_op :: "assignment_operator \<Rightarrow> ir_binary_op" where
  "assignment_binary_op Assign = IR_Add"
| "assignment_binary_op AddAssign = IR_Add"
| "assignment_binary_op SubtractAssign = IR_Subtract"
| "assignment_binary_op MultiplyAssign = IR_Multiply"
| "assignment_binary_op DivideAssign = IR_Divide"
| "assignment_binary_op RemainderAssign = IR_Remainder"

definition empty_span :: span where
  "empty_span =
     (let pos = \<lparr>pos_byte = 0, pos_line = 1, pos_column = 1\<rparr>
      in \<lparr>span_start = pos, span_end = pos\<rparr>)"

section \<open>Lowering of functions\<close>

record function_lowerer =
  fl_name :: string
  fl_params :: "ir_param list"
  fl_return_type :: ir_type
  fl_blocks :: "ir_block list"
  fl_current :: block_id
  fl_next_value :: nat
  fl_locals :: "string \<rightharpoonup> ir_type"
  fl_source_span :: span

text \<open>\<^verbatim>\<open>collect\<close> into a \<^verbatim>\<open>HashMap\<close>: of two parameters with one name, the later counts.\<close>

definition lowerer_new ::
  "string \<Rightarrow> ir_param list \<Rightarrow> ir_type \<Rightarrow> span \<Rightarrow> function_lowerer" where
  "lowerer_new name params return_type source_span =
     \<lparr>fl_name = name, fl_params = params, fl_return_type = return_type,
      fl_blocks = [\<lparr>ib_id = 0, ib_instructions = []\<rparr>], fl_current = 0, fl_next_value = 0,
      fl_locals = map_of (rev (map (\<lambda>p. (ip_name p, ip_ty p)) params)),
      fl_source_span = source_span\<rparr>"

definition lowerer_finish :: "function_lowerer \<Rightarrow> ir_function" where
  "lowerer_finish fl =
     \<lparr>ir_name = fl_name fl, ir_params = fl_params fl, ir_return_type = fl_return_type fl,
      ir_blocks = fl_blocks fl, ir_source_span = fl_source_span fl\<rparr>"

definition create_block :: "function_lowerer \<Rightarrow> function_lowerer \<times> block_id" where
  "create_block fl =
     (let id = length (fl_blocks fl)
      in (fl\<lparr>fl_blocks := fl_blocks fl @ [\<lparr>ib_id = id, ib_instructions = []\<rparr>]\<rparr>, id))"

definition alloc_value :: "function_lowerer \<Rightarrow> function_lowerer \<times> value_id" where
  "alloc_value fl = (fl\<lparr>fl_next_value := fl_next_value fl + 1\<rparr>, fl_next_value fl)"

text \<open>The current block is always one of the blocks (\<open>Compiled_Shape\<close>).\<close>

definition emit ::
  "ir_instruction_kind \<Rightarrow> value_id option \<Rightarrow> ir_type \<Rightarrow> span \<Rightarrow> function_lowerer \<Rightarrow> function_lowerer" where
  "emit kind res ty sp fl =
     (let b = fl_blocks fl ! fl_current fl;
          i = \<lparr>ii_kind = kind, ii_result = res, ii_ty = ty, ii_source_span = sp\<rparr>
      in fl\<lparr>fl_blocks :=
             (fl_blocks fl)[fl_current fl := b\<lparr>ib_instructions := ib_instructions b @ [i]\<rparr>]\<rparr>)"

text \<open>\<^verbatim>\<open>let value = self.allocate_value(); self.emit(kind, Some(value), ty.clone(), span); (value, ty)\<close>.\<close>

definition emit_value ::
  "ir_instruction_kind \<Rightarrow> ir_type \<Rightarrow> span \<Rightarrow> function_lowerer \<Rightarrow> function_lowerer \<times> value_id \<times> ir_type" where
  "emit_value kind ty sp fl =
     (case alloc_value fl of (fl1, v) \<Rightarrow> (emit kind (Some v) ty sp fl1, v, ty))"

definition load_const ::
  "ir_const \<Rightarrow> ir_type \<Rightarrow> span \<Rightarrow> function_lowerer \<Rightarrow> function_lowerer \<times> value_id \<times> ir_type" where
  "load_const c ty sp fl = emit_value (II_LoadConst c) ty sp fl"

text \<open>The type of an array literal is that of its first element of a known type.\<close>

fun first_known :: "ir_type list \<Rightarrow> ir_type" where
  "first_known [] = IT_Unknown"
| "first_known (ty # tys) = (if ty = IT_Unknown then first_known tys else ty)"

text \<open>The part of \<^verbatim>\<open>lower_assignment\<close> to a member after both sides are lowered.\<close>

definition store_member_value ::
  "value_id \<Rightarrow> string \<Rightarrow> assignment_operator \<Rightarrow> value_id \<Rightarrow> ir_type \<Rightarrow> span \<Rightarrow> span \<Rightarrow> function_lowerer \<Rightarrow>
   function_lowerer \<times> value_id \<times> ir_type" where
  "store_member_value object property operator right_value right_type left_span sp fl =
     (case (if operator = Assign then (fl, right_value)
            else
              (case emit_value (II_LoadMember object property) right_type left_span fl of
                 (fl1, current, _) \<Rightarrow>
                   (case emit_value (II_Binary (assignment_binary_op operator) current right_value)
                           right_type sp fl1 of
                      (fl2, r, _) \<Rightarrow> (fl2, r)))) of
        (fl3, stored) \<Rightarrow>
          (emit (II_StoreMember object property stored) None right_type sp fl3, stored, right_type))"

fun lower_expression :: "expression \<Rightarrow> function_lowerer \<Rightarrow> function_lowerer \<times> value_id \<times> ir_type"
and lower_values :: "expression list \<Rightarrow> function_lowerer \<Rightarrow> function_lowerer \<times> (value_id \<times> ir_type) list"
and lower_properties ::
  "object_property list \<Rightarrow> function_lowerer \<Rightarrow> function_lowerer \<times> (string \<times> value_id \<times> ir_type) list"
where
  "lower_expression (Expression (Ex_Identifier name) sp) fl =
     emit_value (II_LoadLocal name)
       (case fl_locals fl name of None \<Rightarrow> IT_Unknown | Some ty \<Rightarrow> ty) sp fl"
| "lower_expression (Expression (Ex_Number s) sp) fl = load_const (IC_Number s) IT_Number sp fl"
| "lower_expression (Expression (Ex_String s) sp) fl = load_const (IC_String s) IT_String sp fl"
| "lower_expression (Expression (Ex_Boolean b) sp) fl = load_const (IC_Boolean b) IT_Boolean sp fl"
| "lower_expression (Expression Ex_Null sp) fl = load_const IC_Null IT_Null sp fl"
| "lower_expression (Expression Ex_Undefined sp) fl = load_const IC_Undefined IT_Undefined sp fl"
| "lower_expression (Expression (Ex_Object properties) sp) fl =
     (case lower_properties properties fl of
        (fl1, fds) \<Rightarrow>
          load_const (IC_Object (map (\<lambda>(n, v, ty). (n, v)) fds))
            (IT_Object (map (\<lambda>(n, v, ty). (n, ty)) fds)) sp fl1)"
| "lower_expression (Expression (Ex_Array elements) sp) fl =
     (case lower_values elements fl of
        (fl1, vals) \<Rightarrow>
          load_const (IC_Array (map fst vals)) (IT_Array (first_known (map snd vals))) sp fl1)"
| "lower_expression (Expression (Ex_Member object property) sp) fl =
     (case lower_expression object fl of
        (fl1, object_value, object_type) \<Rightarrow>
          emit_value (II_LoadMember object_value property) (member_type object_type property) sp fl1)"
| "lower_expression (Expression (Ex_Call callee arguments) sp) fl =
     (case lower_values arguments fl of
        (fl1, args) \<Rightarrow> emit_value (II_Call (callee_name callee) (map fst args)) IT_Unknown sp fl1)"
| "lower_expression (Expression (Ex_Binary left operator right) sp) fl =
     (case lower_expression left fl of
        (fl1, left_value, _) \<Rightarrow>
          (case lower_expression right fl1 of
             (fl2, right_value, _) \<Rightarrow>
               emit_value (II_Binary (binary_op operator) left_value right_value)
                 (binary_type operator) sp fl2))"
| "lower_expression (Expression (Ex_Assignment (Expression (Ex_Identifier name) left_span) operator right) sp) fl =
     (case lower_expression right fl of
        (fl1, right_value, right_type) \<Rightarrow>
          (emit (II_StoreLocal name right_value) None right_type sp fl1, right_value, right_type))"
| "lower_expression (Expression (Ex_Assignment (Expression (Ex_Member object property) left_span) operator right) sp) fl =
     (case lower_expression object fl of
        (fl1, object_value, _) \<Rightarrow>
          (case lower_expression right fl1 of
             (fl2, right_value, right_type) \<Rightarrow>
               store_member_value object_value property operator right_value right_type left_span sp fl2))"
| "lower_expression (Expression (Ex_Assignment left operator right) sp) fl = lower_expression right fl"
| "lower_expression (Expression (Ex_Unary operator argument) sp) fl = lower_expression argument fl"
| "lower_expression (Expression Ex_Error sp) fl = load_const IC_Undefined IT_Unknown sp fl"
| "lower_values [] fl = (fl, [])"
| "lower_values (e # es) fl =
     (case lower_expression e fl of
        (fl1, v) \<Rightarrow> (case lower_values es fl1 of (fl2, vs) \<Rightarrow> (fl2, v # vs)))"
| "lower_properties [] fl = (fl, [])"
| "lower_properties (Object_Property name val sp # ps) fl =
     (case lower_expression val fl of
        (fl1, v) \<Rightarrow> (case lower_properties ps fl1 of (fl2, vs) \<Rightarrow> (fl2, (name, v) # vs)))"

definition lower_variable :: "variable_declaration \<Rightarrow> span \<Rightarrow> function_lowerer \<Rightarrow> function_lowerer" where
  "lower_variable var sp fl =
     (let declared_type = (case vd_ty var of None \<Rightarrow> IT_Unknown | Some ty \<Rightarrow> type_from_node ty)
      in case (case vd_initializer var of
                 Some e \<Rightarrow> lower_expression e fl
               | None \<Rightarrow> load_const IC_Undefined IT_Undefined sp fl) of
           (fl1, val, ty) \<Rightarrow>
             (let local_type = (if declared_type = IT_Unknown then ty else declared_type)
              in emit (II_StoreLocal (vd_name var) val) None local_type sp
                   (fl1\<lparr>fl_locals := (fl_locals fl1)(vd_name var \<mapsto> local_type)\<rparr>)))"

definition lower_return :: "expression option \<Rightarrow> span \<Rightarrow> function_lowerer \<Rightarrow> function_lowerer" where
  "lower_return val sp fl =
     (case val of
        None \<Rightarrow> emit (II_Return None) None IT_Undefined sp fl
      | Some e \<Rightarrow>
          (case lower_expression e fl of
             (fl1, v, _) \<Rightarrow> emit (II_Return (Some v)) None IT_Undefined sp fl1))"

text \<open>The three blocks of an \<^verbatim>\<open>if\<close> and the branch to the first two.\<close>

definition open_if ::
  "expression \<Rightarrow> function_lowerer \<Rightarrow> function_lowerer \<times> block_id \<times> block_id \<times> block_id" where
  "open_if test fl =
     (case lower_expression test fl of
        (fl1, condition, _) \<Rightarrow>
          (case create_block fl1 of
             (fl2, then_block) \<Rightarrow>
               (case create_block fl2 of
                  (fl3, else_block) \<Rightarrow>
                    (case create_block fl3 of
                       (fl4, merge_block) \<Rightarrow>
                         (emit (II_Branch condition then_block else_block) None IT_Undefined
                            (ex_span test) fl4,
                          then_block, else_block, merge_block)))))"

definition switch_block :: "block_id \<Rightarrow> function_lowerer \<Rightarrow> function_lowerer" where
  "switch_block b fl = fl\<lparr>fl_current := b\<rparr>"

fun lower_statement :: "statement \<Rightarrow> function_lowerer \<Rightarrow> function_lowerer"
and lower_statements :: "statement list \<Rightarrow> function_lowerer \<Rightarrow> function_lowerer"
where
  "lower_statement (Statement (S_Variable var) sp) fl = lower_variable var sp fl"
| "lower_statement (Statement (S_Return val) sp) fl = lower_return val sp fl"
| "lower_statement (Statement (S_Expression e) sp) fl = fst (lower_expression e fl)"
| "lower_statement (Statement (S_Throw e) sp) fl = fst (lower_expression e fl)"
| "lower_statement (Statement (S_If (If_Statement test consequent alternate)) sp) fl =
     (case open_if test fl of
        (fl1, then_block, else_block, merge_block) \<Rightarrow>
          (let fl2 = lower_statement consequent (switch_block then_block fl1);
               fl3 = switch_block else_block (emit (II_Jump merge_block) None IT_Undefined sp fl2);
               fl4 = (case alternate of None \<Rightarrow> fl3 | Some st \<Rightarrow> lower_statement st fl3)
           in switch_block merge_block (emit (II_Jump merge_block) None IT_Undefined sp fl4)))"
| "lower_statement (Statement (S_Block body) sp) fl = lower_statements body fl"
| "lower_statement (Statement (S_Export inner) sp) fl = lower_statement inner fl"
| "lower_statement (Statement (S_Interface d) sp) fl = fl"
| "lower_statement (Statement (S_TypeAlias d) sp) fl = fl"
| "lower_statement (Statement (S_Class d) sp) fl = fl"
| "lower_statement (Statement (S_Function f) sp) fl = fl"
| "lower_statement (Statement (S_Import d) sp) fl = fl"
| "lower_statement (Statement S_Empty sp) fl = fl"
| "lower_statement (Statement S_Error sp) fl = fl"
| "lower_statement (Statement (S_While w) sp) fl = fl"
| "lower_statement (Statement (S_For f) sp) fl = fl"
| "lower_statements [] fl = fl"
| "lower_statements (st # sts) fl = lower_statements sts (lower_statement st fl)"

section \<open>Lowering of programs\<close>

definition lower_param :: "parameter \<Rightarrow> ir_param" where
  "lower_param p =
     \<lparr>ip_name = pa_name p,
      ip_ty = (case pa_ty p of None \<Rightarrow> IT_Unknown | Some ty \<Rightarrow> type_from_node ty)\<rparr>"

definition lower_function :: "function_declaration \<Rightarrow> span \<Rightarrow> ir_function" where
  "lower_function f sp =
     lowerer_finish
       (lower_statements (fd_body f)
         (lowerer_new (fd_name f) (map lower_param (fd_params f))
           (case fd_return_type f of None \<Rightarrow> IT_Undefined | Some ty \<Rightarrow> type_from_node ty) sp))"

definition lowered_function :: "statement \<Rightarrow> ir_function option" where
  "lowered_function st =
     (case st_kind st of S_Function f \<Rightarrow> Some (lower_function f (st_span st)) | _ \<Rightarrow> None)"

definition is_entry_statement :: "statement \<Rightarrow> bool" where
  "is_entry_statement st \<longleftrightarrow>
     (case st_kind st of
        S_Function _ \<Rightarrow> False | S_Interface _ \<Rightarrow> False | S_TypeAlias _ \<Rightarrow> False | S_Class _ \<Rightarrow> False
      | _ \<Rightarrow> True)"

definition lower_entry :: "statement list \<Rightarrow> span \<Rightarrow> ir_function" where
  "lower_entry body sp =
     lowerer_finish
       (emit (II_Return None) None IT_Undefined sp
         (lower_statements body (lowerer_new ''__entry'' [] IT_Undefined sp)))"

definition lower_program :: "program \<Rightarrow> ir_program" where
  "lower_program pg =
     \<lparr>ir_functions = List.map_filter lowered_function (pg_body pg),
      ir_entry =
        lower_entry (filter is_entry_statement (pg_body pg))
          (case pg_span pg of None \<Rightarrow> empty_span | Some sp \<Rightarrow> sp),
      ir_program_span = pg_span pg\<rparr>"

end
