(* ===== verification/Semantic.thy ===== *)
theory Semantic
  imports Parser
begin

text \<open>
  \<^verbatim>\<open>runtime/semantic\<close>: symbol collection and type inference. \<^verbatim>\<open>Analyzer\<close> is a record that the
  methods pass on; they never fail, they report. A \<^verbatim>\<open>HashMap\<close> of fields is a list of entries
  with distinct keys. The order in which Rust enumerates such a map is not determined, so it is
  an argument: \<open>an_order a n ks\<close> is the order of the \<open>n\<close>th enumeration of a run, of a map with
  the keys \<open>ks\<close>.
\<close>

section \<open>Symbols, types and the analyzer\<close>

datatype symbol_kind = SK_Variable | SK_Function | SK_Interface | SK_TypeAlias | SK_Class | SK_Import

record symbol =
  sym_name :: string
  sym_kind :: symbol_kind

datatype ty =
  Ty_Number | Ty_String | Ty_Boolean | Ty_Null | Ty_Undefined
| Ty_Object "(string \<times> ty) list"
| Ty_Array ty
| Ty_Function "ty list" ty bool
| Ty_Unknown

record function_binding =
  fb_declaration :: function_declaration
  fb_statement_span :: span

text \<open>The innermost scope comes first.\<close>

record analyzer =
  an_values :: "symbol list"
  an_types :: "symbol list"
  an_type_bindings :: "string \<rightharpoonup> ty"
  an_scopes :: "(string \<rightharpoonup> ty) list"
  an_functions :: "function_binding list"
  an_diagnostics :: "semantic_diagnostic list"
  an_current_return :: "ty option"
  an_order :: "nat \<Rightarrow> string list \<Rightarrow> string list"
  an_enumerations :: nat

record semantic_output =
  so_values :: "symbol list"
  so_types :: "symbol list"
  so_diagnostics :: "semantic_diagnostic list"

definition analyzer_new :: "(nat \<Rightarrow> string list \<Rightarrow> string list) \<Rightarrow> analyzer" where
  "analyzer_new order =
     \<lparr>an_values = [], an_types = [], an_type_bindings = Map.empty, an_scopes = [],
      an_functions = [], an_diagnostics = [], an_current_return = None, an_order = order,
      an_enumerations = 0\<rparr>"

text \<open>\<^verbatim>\<open>HashMap::insert\<close> and \<^verbatim>\<open>collect\<close>: the later of two entries with one key counts.\<close>

fun hash_insert :: "string \<Rightarrow> 'a \<Rightarrow> (string \<times> 'a) list \<Rightarrow> (string \<times> 'a) list" where
  "hash_insert k v [] = [(k, v)]"
| "hash_insert k v ((k', v') # m) = (if k' = k then (k, v) # m else (k', v') # hash_insert k v m)"

definition hash_collect :: "(string \<times> 'a) list \<Rightarrow> (string \<times> 'a) list" where
  "hash_collect es = fold (\<lambda>(k, v). hash_insert k v) es []"

section \<open>Reports, scopes and definitions\<close>

definition sem_report :: "diagnostic_code \<Rightarrow> string \<Rightarrow> span \<Rightarrow> analyzer \<Rightarrow> analyzer" where
  "sem_report code m sp a =
     a\<lparr>an_diagnostics :=
         an_diagnostics a @ [\<lparr>sd_code = code, sd_message = Text m, sd_span = sp\<rparr>]\<rparr>"

definition push_scope :: "analyzer \<Rightarrow> analyzer" where
  "push_scope a = a\<lparr>an_scopes := Map.empty # an_scopes a\<rparr>"

definition pop_scope :: "analyzer \<Rightarrow> analyzer" where
  "pop_scope a = a\<lparr>an_scopes := tl (an_scopes a)\<rparr>"

fun find_value :: "(string \<rightharpoonup> ty) list \<Rightarrow> string \<Rightarrow> ty option" where
  "find_value [] name = None"
| "find_value (s # scopes) name =
     (case s name of Some t \<Rightarrow> Some t | None \<Rightarrow> find_value scopes name)"

definition lookup_value :: "string \<Rightarrow> analyzer \<Rightarrow> ty option" where
  "lookup_value name a = find_value (an_scopes a) name"

definition quoted :: "string \<Rightarrow> string \<Rightarrow> string" where
  "quoted before name = before @ ''`'' @ name @ ''`''"

definition define_type :: "string \<Rightarrow> ty \<Rightarrow> symbol_kind \<Rightarrow> span \<Rightarrow> analyzer \<Rightarrow> analyzer" where
  "define_type name t kind sp a =
     (if an_type_bindings a name \<noteq> None
      then sem_report DuplicateSymbol (quoted ''duplicate type '' name) sp a
      else a\<lparr>an_type_bindings := (an_type_bindings a)(name \<mapsto> t),
             an_types := an_types a @ [\<lparr>sym_name = name, sym_kind = kind\<rparr>]\<rparr>)"

definition bind_value :: "string \<Rightarrow> ty \<Rightarrow> symbol_kind \<Rightarrow> span option \<Rightarrow> analyzer \<Rightarrow> analyzer" where
  "bind_value name t kind sp a =
     (case an_scopes a of
        [] \<Rightarrow> a
      | s # scopes \<Rightarrow>
          if s name \<noteq> None
          then (case sp of
                  Some sp \<Rightarrow> sem_report DuplicateSymbol (quoted ''duplicate value '' name) sp a
                | None \<Rightarrow> a)
          else
            (let a1 = a\<lparr>an_scopes := s(name \<mapsto> t) # scopes\<rparr>
             in if scopes = []
                then a1\<lparr>an_values := an_values a1 @ [\<lparr>sym_name = name, sym_kind = kind\<rparr>]\<rparr>
                else a1))"

section \<open>Types\<close>

text \<open>
  One enumeration of the expected fields, each with the check of its type; \<open>actual\<close> is the map
  of the actual fields.
\<close>

definition check_fields ::
  "(string \<times> (ty \<Rightarrow> analyzer \<Rightarrow> analyzer)) list \<Rightarrow> (string \<times> ty) list \<Rightarrow> span \<Rightarrow> analyzer \<Rightarrow> analyzer" where
  "check_fields checks actual sp a =
     fold (\<lambda>name a.
        case map_of checks name of
          None \<Rightarrow> a
        | Some check \<Rightarrow>
            (case map_of actual name of
               None \<Rightarrow> sem_report MissingProperty (quoted ''missing property '' name) sp a
             | Some t \<Rightarrow> check t a))
       (an_order a (an_enumerations a) (map fst checks))
       (a\<lparr>an_enumerations := an_enumerations a + 1\<rparr>)"

definition mismatch :: "diagnostic_code \<Rightarrow> span \<Rightarrow> analyzer \<Rightarrow> analyzer" where
  "mismatch code sp a = sem_report code ''type mismatch'' sp a"

definition require_same :: "ty \<Rightarrow> ty \<Rightarrow> span \<Rightarrow> diagnostic_code \<Rightarrow> analyzer \<Rightarrow> analyzer" where
  "require_same wanted actual sp code a =
     (if actual = Ty_Unknown \<or> actual = wanted then a else mismatch code sp a)"

primrec require_assignable :: "ty \<Rightarrow> span \<Rightarrow> diagnostic_code \<Rightarrow> ty \<Rightarrow> analyzer \<Rightarrow> analyzer" where
  "require_assignable Ty_Number sp code actual a = require_same Ty_Number actual sp code a"
| "require_assignable Ty_String sp code actual a = require_same Ty_String actual sp code a"
| "require_assignable Ty_Boolean sp code actual a = require_same Ty_Boolean actual sp code a"
| "require_assignable Ty_Null sp code actual a = require_same Ty_Null actual sp code a"
| "require_assignable Ty_Undefined sp code actual a = require_same Ty_Undefined actual sp code a"
| "require_assignable (Ty_Object fds) sp code actual a =
     (case actual of
        Ty_Unknown \<Rightarrow> a
      | Ty_Object actual_fds \<Rightarrow>
          check_fields (map (map_prod id (\<lambda>t. require_assignable t sp code)) fds) actual_fds sp a
      | _ \<Rightarrow> mismatch code sp a)"
| "require_assignable (Ty_Array element) sp code actual a =
     (case actual of
        Ty_Unknown \<Rightarrow> a
      | Ty_Array actual_element \<Rightarrow> require_assignable element sp code actual_element a
      | _ \<Rightarrow> mismatch code sp a)"
| "require_assignable (Ty_Function params return_type variadic) sp code actual a =
     (if actual = Ty_Unknown then a else mismatch code sp a)"
| "require_assignable Ty_Unknown sp code actual a = a"

fun resolve_type_node :: "type_node \<Rightarrow> analyzer \<Rightarrow> analyzer \<times> ty"
and resolve_members :: "type_member list \<Rightarrow> analyzer \<Rightarrow> analyzer \<times> (string \<times> ty) list"
where
  "resolve_type_node (Type_Node TK_Number sp) a = (a, Ty_Number)"
| "resolve_type_node (Type_Node TK_String sp) a = (a, Ty_String)"
| "resolve_type_node (Type_Node TK_Boolean sp) a = (a, Ty_Boolean)"
| "resolve_type_node (Type_Node TK_Null sp) a = (a, Ty_Null)"
| "resolve_type_node (Type_Node TK_Undefined sp) a = (a, Ty_Undefined)"
| "resolve_type_node (Type_Node (TK_Named name) sp) a =
     (case an_type_bindings a name of
        Some t \<Rightarrow> (a, t)
      | None \<Rightarrow> (sem_report UnknownType (quoted ''unknown type '' name) sp a, Ty_Unknown))"
| "resolve_type_node (Type_Node (TK_Array inner) sp) a =
     (case resolve_type_node inner a of (a1, t) \<Rightarrow> (a1, Ty_Array t))"
| "resolve_type_node (Type_Node (TK_Object members) sp) a =
     (case resolve_members members a of (a1, fds) \<Rightarrow> (a1, Ty_Object (hash_collect fds)))"
| "resolve_members [] a = (a, [])"
| "resolve_members (Type_Member name node sp # members) a =
     (case resolve_type_node node a of
        (a1, t) \<Rightarrow> (case resolve_members members a1 of (a2, fds) \<Rightarrow> (a2, (name, t) # fds)))"

text \<open>\<^verbatim>\<open>ty.as_ref().map_or(default, |ty| self.resolve_type_node(ty))\<close>.\<close>

definition resolve_or :: "ty \<Rightarrow> type_node option \<Rightarrow> analyzer \<Rightarrow> analyzer \<times> ty" where
  "resolve_or missing node a =
     (case node of None \<Rightarrow> (a, missing) | Some n \<Rightarrow> resolve_type_node n a)"

fun resolve_class_members :: "class_member list \<Rightarrow> analyzer \<Rightarrow> analyzer \<times> (string \<times> ty) list" where
  "resolve_class_members [] a = (a, [])"
| "resolve_class_members (m # members) a =
     (case resolve_or Ty_Unknown (cm_ty m) a of
        (a1, t) \<Rightarrow>
          (case resolve_class_members members a1 of (a2, fds) \<Rightarrow> (a2, (cm_name m, t) # fds)))"

fun resolve_params :: "parameter list \<Rightarrow> analyzer \<Rightarrow> analyzer \<times> ty list" where
  "resolve_params [] a = (a, [])"
| "resolve_params (p # params) a =
     (case resolve_or Ty_Unknown (pa_ty p) a of
        (a1, t) \<Rightarrow> (case resolve_params params a1 of (a2, ts) \<Rightarrow> (a2, t # ts)))"

section \<open>Expressions\<close>

definition member_type_of :: "ty \<Rightarrow> string \<Rightarrow> span \<Rightarrow> analyzer \<Rightarrow> analyzer \<times> ty" where
  "member_type_of object_type property sp a =
     (case object_type of
        Ty_Object fds \<Rightarrow>
          (case map_of fds property of
             Some t \<Rightarrow> (a, t)
           | None \<Rightarrow>
               (sem_report InvalidMemberAccess (quoted ''property '' property @ '' does not exist'') sp a,
                Ty_Unknown))
      | Ty_Unknown \<Rightarrow> (a, Ty_Unknown)
      | _ \<Rightarrow> (sem_report InvalidMemberAccess ''member access requires an object'' sp a, Ty_Unknown))"

definition require_both :: "ty \<Rightarrow> ty \<Rightarrow> span \<Rightarrow> ty \<Rightarrow> span \<Rightarrow> analyzer \<Rightarrow> analyzer" where
  "require_both wanted left_type left_span right_type right_span a =
     require_assignable wanted right_span TypeMismatch right_type
       (require_assignable wanted left_span TypeMismatch left_type a)"

text \<open>The \<^verbatim>\<open>match\<close> of \<^verbatim>\<open>infer_binary\<close> once both operands are inferred.\<close>

definition binary_result ::
  "ty \<Rightarrow> span \<Rightarrow> binary_operator \<Rightarrow> ty \<Rightarrow> span \<Rightarrow> analyzer \<Rightarrow> analyzer \<times> ty" where
  "binary_result left_type left_span operator right_type right_span a =
     (if operator = Op_Add then
        (if left_type = Ty_String \<or> right_type = Ty_String then (a, Ty_String)
         else (require_both Ty_Number left_type left_span right_type right_span a, Ty_Number))
      else if operator \<in> {Op_Subtract, Op_Multiply, Op_Divide, Op_Remainder} then
        (require_both Ty_Number left_type left_span right_type right_span a, Ty_Number)
      else if operator \<in> {Op_LogicalAnd, Op_LogicalOr} then
        (require_both Ty_Boolean left_type left_span right_type right_span a, Ty_Boolean)
      else if operator = Op_NullishCoalesce then
        (a, if left_type = Ty_Null \<or> left_type = Ty_Undefined then right_type else left_type)
      else (a, Ty_Boolean))"

definition assignment_result ::
  "ty \<Rightarrow> span \<Rightarrow> assignment_operator \<Rightarrow> ty \<Rightarrow> span \<Rightarrow> span \<Rightarrow> analyzer \<Rightarrow> analyzer \<times> ty" where
  "assignment_result left_type left_span operator right_type right_span sp a =
     (if operator = Assign then (require_assignable left_type sp TypeMismatch right_type a, left_type)
      else (require_both Ty_Number left_type left_span right_type right_span a, Ty_Number))"

definition unary_result :: "unary_operator \<Rightarrow> ty \<Rightarrow> span \<Rightarrow> analyzer \<Rightarrow> analyzer \<times> ty" where
  "unary_result operator actual argument_span a =
     (case operator of
        Negate \<Rightarrow> (require_assignable Ty_Number argument_span TypeMismatch actual a, Ty_Number)
      | Not_Op \<Rightarrow> (a, Ty_Boolean))"

definition check_count :: "bool \<Rightarrow> nat \<Rightarrow> nat \<Rightarrow> span \<Rightarrow> analyzer \<Rightarrow> analyzer" where
  "check_count variadic wanted found sp a =
     (if \<not> variadic \<and> wanted \<noteq> found
      then sem_report WrongArgumentCount
             (''expected '' @ show_nat wanted @ '' arguments, found '' @ show_nat found) sp a
      else a)"

fun infer_expression :: "expression \<Rightarrow> analyzer \<Rightarrow> analyzer \<times> ty"
and infer_properties :: "object_property list \<Rightarrow> analyzer \<Rightarrow> analyzer \<times> (string \<times> ty) list"
and infer_elements :: "expression list \<Rightarrow> ty \<Rightarrow> analyzer \<Rightarrow> analyzer \<times> ty"
and infer_arguments :: "expression list \<Rightarrow> ty list \<Rightarrow> analyzer \<Rightarrow> analyzer"
where
  "infer_expression (Expression (Ex_Identifier name) sp) a =
     (case lookup_value name a of
        Some t \<Rightarrow> (a, t)
      | None \<Rightarrow> (sem_report UnknownIdentifier (quoted ''unknown identifier '' name) sp a, Ty_Unknown))"
| "infer_expression (Expression (Ex_Number s) sp) a = (a, Ty_Number)"
| "infer_expression (Expression (Ex_String s) sp) a = (a, Ty_String)"
| "infer_expression (Expression (Ex_Boolean b) sp) a = (a, Ty_Boolean)"
| "infer_expression (Expression Ex_Null sp) a = (a, Ty_Null)"
| "infer_expression (Expression Ex_Undefined sp) a = (a, Ty_Undefined)"
| "infer_expression (Expression (Ex_Object properties) sp) a =
     (case infer_properties properties a of (a1, fds) \<Rightarrow> (a1, Ty_Object (hash_collect fds)))"
| "infer_expression (Expression (Ex_Array elements) sp) a =
     (case infer_elements elements Ty_Unknown a of (a1, t) \<Rightarrow> (a1, Ty_Array t))"
| "infer_expression (Expression (Ex_Member object property) sp) a =
     (case infer_expression object a of (a1, t) \<Rightarrow> member_type_of t property sp a1)"
| "infer_expression (Expression (Ex_Call callee arguments) sp) a =
     (case infer_expression callee a of
        (a1, callee_type) \<Rightarrow>
          (case callee_type of
             Ty_Function params return_type variadic \<Rightarrow>
               (infer_arguments arguments params
                  (check_count variadic (length params) (length arguments) sp a1), return_type)
           | Ty_Unknown \<Rightarrow> (a1, Ty_Unknown)
           | _ \<Rightarrow> (sem_report InvalidCallTarget ''value is not callable'' sp a1, Ty_Unknown)))"
| "infer_expression (Expression (Ex_Unary operator argument) sp) a =
     (case infer_expression argument a of
        (a1, t) \<Rightarrow> unary_result operator t (ex_span argument) a1)"
| "infer_expression (Expression (Ex_Binary left operator right) sp) a =
     (case infer_expression left a of
        (a1, left_type) \<Rightarrow>
          (case infer_expression right a1 of
             (a2, right_type) \<Rightarrow>
               binary_result left_type (ex_span left) operator right_type (ex_span right) a2))"
| "infer_expression (Expression (Ex_Assignment left operator right) sp) a =
     (case infer_expression left a of
        (a1, left_type) \<Rightarrow>
          (case infer_expression right a1 of
             (a2, right_type) \<Rightarrow>
               assignment_result left_type (ex_span left) operator right_type (ex_span right) sp a2))"
| "infer_expression (Expression Ex_Error sp) a = (a, Ty_Unknown)"
| "infer_properties [] a = (a, [])"
| "infer_properties (Object_Property name val sp # properties) a =
     (case infer_expression val a of
        (a1, t) \<Rightarrow> (case infer_properties properties a1 of (a2, fds) \<Rightarrow> (a2, (name, t) # fds)))"
| "infer_elements [] element_type a = (a, element_type)"
| "infer_elements (e # es) element_type a =
     (case infer_expression e a of
        (a1, actual) \<Rightarrow>
          if element_type = Ty_Unknown then infer_elements es actual a1
          else infer_elements es element_type
                 (require_assignable element_type (ex_span e) TypeMismatch actual a1))"
| "infer_arguments (e # es) (wanted # params) a =
     (case infer_expression e a of
        (a1, actual) \<Rightarrow>
          infer_arguments es params (require_assignable wanted (ex_span e) TypeMismatch actual a1))"
| "infer_arguments _ _ a = a"

section \<open>Statements\<close>

definition analyze_variable :: "variable_declaration \<Rightarrow> span \<Rightarrow> analyzer \<Rightarrow> analyzer" where
  "analyze_variable var sp a =
     (case (case vd_ty var of
              None \<Rightarrow> (a, None)
            | Some node \<Rightarrow> (case resolve_type_node node a of (a1, t) \<Rightarrow> (a1, Some t))) of
        (a1, declared) \<Rightarrow>
          (case (case vd_initializer var of
                   None \<Rightarrow> (a1, None)
                 | Some e \<Rightarrow> (case infer_expression e a1 of (a2, t) \<Rightarrow> (a2, Some t))) of
             (a2, initializer) \<Rightarrow>
               (let a3 = (case (declared, initializer) of
                            (Some wanted, Some actual) \<Rightarrow> require_assignable wanted sp TypeMismatch actual a2
                          | _ \<Rightarrow> a2);
                    t = (case or_else declared initializer of None \<Rightarrow> Ty_Unknown | Some t \<Rightarrow> t)
                in bind_value (vd_name var) t SK_Variable (Some sp) a3)))"

definition analyze_return :: "expression option \<Rightarrow> span \<Rightarrow> analyzer \<Rightarrow> analyzer" where
  "analyze_return val sp a =
     (case (case val of None \<Rightarrow> (a, Ty_Undefined) | Some e \<Rightarrow> infer_expression e a) of
        (a1, actual) \<Rightarrow>
          (case an_current_return a1 of
             None \<Rightarrow> a1
           | Some wanted \<Rightarrow> require_assignable wanted sp ReturnTypeMismatch actual a1))"

text \<open>\<^verbatim>\<open>self.infer_expression(e);\<close> of an expression that may be missing.\<close>

definition infer_option :: "expression option \<Rightarrow> analyzer \<Rightarrow> analyzer" where
  "infer_option e a = (case e of None \<Rightarrow> a | Some e \<Rightarrow> fst (infer_expression e a))"

fun analyze_statement :: "statement \<Rightarrow> analyzer \<Rightarrow> analyzer"
and analyze_statements :: "statement list \<Rightarrow> analyzer \<Rightarrow> analyzer"
where
  "analyze_statement (Statement (S_Variable var) sp) a = analyze_variable var sp a"
| "analyze_statement (Statement (S_Return val) sp) a = analyze_return val sp a"
| "analyze_statement (Statement (S_Throw e) sp) a = fst (infer_expression e a)"
| "analyze_statement (Statement (S_Expression e) sp) a = fst (infer_expression e a)"
| "analyze_statement (Statement (S_If (If_Statement test consequent alternate)) sp) a =
     (let a1 = analyze_statement consequent (fst (infer_expression test a))
      in case alternate of None \<Rightarrow> a1 | Some st \<Rightarrow> analyze_statement st a1)"
| "analyze_statement (Statement (S_While (While_Statement test body)) sp) a =
     analyze_statement body (fst (infer_expression test a))"
| "analyze_statement (Statement (S_For (For_Statement initializer test update body)) sp) a =
     (let a1 = push_scope a;
          a2 = (case initializer of None \<Rightarrow> a1 | Some st \<Rightarrow> analyze_statement st a1)
      in pop_scope (analyze_statement body (infer_option update (infer_option test a2))))"
| "analyze_statement (Statement (S_Block body) sp) a = pop_scope (analyze_statements body (push_scope a))"
| "analyze_statement (Statement (S_Export inner) sp) a = analyze_statement inner a"
| "analyze_statement (Statement (S_Interface d) sp) a = a"
| "analyze_statement (Statement (S_TypeAlias d) sp) a = a"
| "analyze_statement (Statement (S_Class d) sp) a = a"
| "analyze_statement (Statement (S_Function f) sp) a = a"
| "analyze_statement (Statement (S_Import d) sp) a = a"
| "analyze_statement (Statement S_Empty sp) a = a"
| "analyze_statement (Statement S_Error sp) a = a"
| "analyze_statements [] a = a"
| "analyze_statements (st # sts) a = analyze_statements sts (analyze_statement st a)"

section \<open>Programs\<close>

definition collect_function :: "function_declaration \<Rightarrow> span \<Rightarrow> bool \<Rightarrow> analyzer \<Rightarrow> analyzer" where
  "collect_function f sp top_level a =
     (case resolve_params (fd_params f) a of
        (a1, params) \<Rightarrow>
          (case resolve_or Ty_Undefined (fd_return_type f) a1 of
             (a2, return_type) \<Rightarrow>
               (let a3 = bind_value (fd_name f) (Ty_Function params return_type False) SK_Function (Some sp) a2
                in if top_level
                   then a3\<lparr>an_functions :=
                          an_functions a3 @ [\<lparr>fb_declaration = f, fb_statement_span = sp\<rparr>]\<rparr>
                   else a3)))"

fun collect_statement_symbol :: "statement \<Rightarrow> bool \<Rightarrow> analyzer \<Rightarrow> analyzer" where
  "collect_statement_symbol (Statement (S_Interface d) sp) top_level a =
     (case resolve_members (if_members d) a of
        (a1, fds) \<Rightarrow> define_type (if_name d) (Ty_Object (hash_collect fds)) SK_Interface sp a1)"
| "collect_statement_symbol (Statement (S_TypeAlias d) sp) top_level a =
     (case resolve_type_node (ta_ty d) a of (a1, t) \<Rightarrow> define_type (ta_name d) t SK_TypeAlias sp a1)"
| "collect_statement_symbol (Statement (S_Class d) sp) top_level a =
     (case resolve_class_members (cl_members d) a of
        (a1, fds) \<Rightarrow> define_type (cl_name d) (Ty_Object (hash_collect fds)) SK_Class sp a1)"
| "collect_statement_symbol (Statement (S_Function f) sp) top_level a = collect_function f sp top_level a"
| "collect_statement_symbol (Statement (S_Export inner) sp) top_level a =
     collect_statement_symbol inner top_level a"
| "collect_statement_symbol (Statement _ sp) top_level a = a"

definition collect_top_level_symbols :: "program \<Rightarrow> analyzer \<Rightarrow> analyzer" where
  "collect_top_level_symbols pg a = fold (\<lambda>st. collect_statement_symbol st True) (pg_body pg) a"

definition install_browser_builtins :: "analyzer \<Rightarrow> analyzer" where
  "install_browser_builtins a =
     bind_value ''console'' (Ty_Object [(''log'', Ty_Function [] Ty_Undefined True)]) SK_Import None a"

definition define_param :: "parameter \<Rightarrow> analyzer \<Rightarrow> analyzer" where
  "define_param p a =
     (case resolve_or Ty_Unknown (pa_ty p) a of
        (a1, t) \<Rightarrow> bind_value (pa_name p) t SK_Variable (Some (pa_span p)) a1)"

definition analyze_function_body :: "function_binding \<Rightarrow> analyzer \<Rightarrow> analyzer" where
  "analyze_function_body b a =
     (let f = fb_declaration b in
      case resolve_or Ty_Undefined (fd_return_type f) a of
        (a1, return_type) \<Rightarrow>
          (let previous = an_current_return a1;
               a2 = push_scope (a1\<lparr>an_current_return := Some return_type\<rparr>);
               a3 = analyze_statements (fd_body f) (fold define_param (fd_params f) a2);
               a4 = (pop_scope a3)\<lparr>an_current_return := previous\<rparr>
           in if fd_body f = []
              then sem_report ReturnTypeMismatch ''function body is empty'' (fb_statement_span b) a4
              else a4))"

definition is_function_statement :: "statement \<Rightarrow> bool" where
  "is_function_statement st \<longleftrightarrow> (case st_kind st of S_Function _ \<Rightarrow> True | _ \<Rightarrow> False)"

definition analyze_program :: "program \<Rightarrow> analyzer \<Rightarrow> semantic_output" where
  "analyze_program pg a =
     (let a1 = collect_top_level_symbols pg (install_browser_builtins (push_scope a));
          a2 = fold analyze_function_body (an_functions a1) a1;
          a3 = analyze_statements (filter (\<lambda>st. \<not> is_function_statement st) (pg_body pg)) a2
      in \<lparr>so_values = an_values a3, so_types = an_types a3, so_diagnostics = an_diagnostics a3\<rparr>)"

definition from_parse_diagnostic :: "parse_diagnostic \<Rightarrow> semantic_diagnostic" where
  "from_parse_diagnostic d =
     \<lparr>sd_code = TypeMismatch, sd_message = pd_message d, sd_span = pd_span d\<rparr>"

text \<open>The parser always returns (\<open>parse_source_total\<close>), so the failure below never occurs.\<close>

definition analyze_source ::
  "(nat \<Rightarrow> string list \<Rightarrow> string list) \<Rightarrow> string \<Rightarrow> parse_abort + semantic_output" where
  "analyze_source order source =
     rbind (parse_source source) (\<lambda>parsed.
       Inr (analyze_program (po_program parsed)
         ((analyzer_new order)\<lparr>an_diagnostics := map from_parse_diagnostic (po_diagnostics parsed)\<rparr>)))"

end
