(* ===== verification/Compiler.thy ===== *)
theory Compiler
  imports Ir Semantic Bytecode
begin

text \<open>
  \<^verbatim>\<open>lower_source\<close> of \<^verbatim>\<open>runtime/ir\<close> and the compiler of \<^verbatim>\<open>runtime/bytecode\<close>: from the intermediate
  representation to a module with an interned constant pool and source map. \<^verbatim>\<open>as u32\<close> is
  \<open>word_of_nat\<close>. The argument \<open>order\<close> is the enumeration order of hash maps (\<open>Semantic\<close>).
\<close>

section \<open>From source to IR\<close>

record lowered_program =
  lo_ir :: "ir_program option"
  lo_diagnostics :: "semantic_diagnostic list"

definition lower_source ::
  "(nat \<Rightarrow> string list \<Rightarrow> string list) \<Rightarrow> string \<Rightarrow> parse_abort + lowered_program" where
  "lower_source order source =
     rbind (analyze_source order source) (\<lambda>analyzed.
       if so_diagnostics analyzed \<noteq> []
       then Inr \<lparr>lo_ir = None, lo_diagnostics = so_diagnostics analyzed\<rparr>
       else
         rbind (parse_source source) (\<lambda>parsed.
           Inr \<lparr>lo_ir = Some (lower_program (po_program parsed)), lo_diagnostics = []\<rparr>))"

section \<open>The compiler\<close>

record compiler =
  cp_constants :: "const_entry list"
  cp_constant_ids :: "const_entry \<rightharpoonup> u32"
  cp_source_map :: "source_ref list"
  cp_source_ids :: "source_ref \<rightharpoonup> u32"

definition compiler_default :: compiler where
  "compiler_default =
     \<lparr>cp_constants = [], cp_constant_ids = Map.empty, cp_source_map = [], cp_source_ids = Map.empty\<rparr>"

definition source_ref_from_span :: "span \<Rightarrow> source_ref" where
  "source_ref_from_span sp =
     \<lparr>start_byte = word_of_nat (pos_byte (span_start sp)),
      end_byte = word_of_nat (pos_byte (span_end sp)),
      start_line = word_of_nat (pos_line (span_start sp)),
      start_column = word_of_nat (pos_column (span_start sp)),
      end_line = word_of_nat (pos_line (span_end sp)),
      end_column = word_of_nat (pos_column (span_end sp))\<rparr>"

primrec type_tag_of :: "ir_type \<Rightarrow> type_tag" where
  "type_tag_of IT_Number = Tag_Number"
| "type_tag_of IT_String = Tag_String"
| "type_tag_of IT_Boolean = Tag_Boolean"
| "type_tag_of IT_Null = Tag_Null"
| "type_tag_of IT_Undefined = Tag_Undefined"
| "type_tag_of (IT_Object fds) = Tag_Object"
| "type_tag_of (IT_Array ty) = Tag_Array"
| "type_tag_of (IT_Named name) = Tag_Named"
| "type_tag_of IT_Unknown = Tag_Unknown"

primrec binary_op_code :: "ir_binary_op \<Rightarrow> u32" where
  "binary_op_code IR_Add = 0"
| "binary_op_code IR_Subtract = 1"
| "binary_op_code IR_Multiply = 2"
| "binary_op_code IR_Divide = 3"
| "binary_op_code IR_Remainder = 4"
| "binary_op_code IR_Equal = 5"
| "binary_op_code IR_StrictEqual = 6"
| "binary_op_code IR_NotEqual = 7"
| "binary_op_code IR_StrictNotEqual = 8"
| "binary_op_code IR_Less = 9"
| "binary_op_code IR_LessEqual = 10"
| "binary_op_code IR_Greater = 11"
| "binary_op_code IR_GreaterEqual = 12"
| "binary_op_code IR_LogicalAnd = 13"
| "binary_op_code IR_LogicalOr = 14"
| "binary_op_code IR_NullishCoalesce = 15"

definition intern_constant :: "const_entry \<Rightarrow> compiler \<Rightarrow> compiler \<times> u32" where
  "intern_constant c cp =
     (case cp_constant_ids cp c of
        Some i \<Rightarrow> (cp, i)
      | None \<Rightarrow>
          (let i = word_of_nat (length (cp_constants cp))
           in (cp\<lparr>cp_constants := cp_constants cp @ [c],
                  cp_constant_ids := (cp_constant_ids cp)(c \<mapsto> i)\<rparr>, i)))"

definition intern_source :: "source_ref \<Rightarrow> compiler \<Rightarrow> compiler \<times> u32" where
  "intern_source r cp =
     (case cp_source_ids cp r of
        Some i \<Rightarrow> (cp, i)
      | None \<Rightarrow>
          (let i = word_of_nat (length (cp_source_map cp))
           in (cp\<lparr>cp_source_map := cp_source_map cp @ [r],
                  cp_source_ids := (cp_source_ids cp)(r \<mapsto> i)\<rparr>, i)))"

text \<open>The numbering of the locals of one function: \<^verbatim>\<open>local_ids\<close> and \<^verbatim>\<open>next_local\<close>.\<close>

record local_table =
  lt_ids :: "string \<rightharpoonup> u32"
  lt_next :: u32

definition local_id :: "string \<Rightarrow> local_table \<Rightarrow> local_table \<times> u32" where
  "local_id name lt =
     (case lt_ids lt name of
        Some i \<Rightarrow> (lt, i)
      | None \<Rightarrow>
          (\<lparr>lt_ids = (lt_ids lt)(name \<mapsto> lt_next lt), lt_next = lt_next lt + 1\<rparr>, lt_next lt))"

abbreviation u32_of :: "nat \<Rightarrow> u32" where
  "u32_of \<equiv> word_of_nat"

text \<open>The operands of the fields of an object literal, each a symbol and a value.\<close>

fun property_operands :: "(string \<times> value_id) list \<Rightarrow> compiler \<Rightarrow> compiler \<times> u32 list" where
  "property_operands [] cp = (cp, [])"
| "property_operands ((name, v) # ps) cp =
     (case intern_constant (Const_Symbol name) cp of
        (cp1, i) \<Rightarrow>
          (case property_operands ps cp1 of (cp2, ops) \<Rightarrow> (cp2, i # u32_of v # ops)))"

definition single_operand :: "compiler \<times> u32 \<Rightarrow> compiler \<times> u32 list" where
  "single_operand r = (case r of (cp, i) \<Rightarrow> (cp, [i]))"

fun ir_const_operands :: "ir_const \<Rightarrow> compiler \<Rightarrow> compiler \<times> u32 list" where
  "ir_const_operands (IC_Number s) cp = single_operand (intern_constant (Const_Number s) cp)"
| "ir_const_operands (IC_String s) cp = single_operand (intern_constant (Const_String s) cp)"
| "ir_const_operands (IC_Boolean b) cp = single_operand (intern_constant (Const_Boolean b) cp)"
| "ir_const_operands IC_Null cp = single_operand (intern_constant Const_Null cp)"
| "ir_const_operands IC_Undefined cp = single_operand (intern_constant Const_Undefined cp)"
| "ir_const_operands (IC_Object properties) cp =
     (case property_operands properties cp of
        (cp1, ops) \<Rightarrow> (cp1, u32_of (length properties) # ops))"
| "ir_const_operands (IC_Array elements) cp =
     (cp, u32_of (length elements) # map u32_of elements)"

definition const_opcode :: "ir_const \<Rightarrow> opcode" where
  "const_opcode c =
     (case c of IC_Object _ \<Rightarrow> BuildObject | IC_Array _ \<Rightarrow> BuildArray | _ \<Rightarrow> LoadConst)"

text \<open>The opcode and the operands of an instruction.\<close>

fun compile_kind ::
  "ir_instruction_kind \<Rightarrow> compiler \<Rightarrow> local_table \<Rightarrow> compiler \<times> local_table \<times> opcode \<times> u32 list" where
  "compile_kind (II_LoadConst c) cp lt =
     (case ir_const_operands c cp of (cp1, ops) \<Rightarrow> (cp1, lt, const_opcode c, ops))"
| "compile_kind (II_LoadLocal name) cp lt =
     (case local_id name lt of (lt1, i) \<Rightarrow> (cp, lt1, LoadLocal, [i]))"
| "compile_kind (II_StoreLocal name v) cp lt =
     (case local_id name lt of (lt1, i) \<Rightarrow> (cp, lt1, StoreLocal, [i, u32_of v]))"
| "compile_kind (II_LoadMember object property) cp lt =
     (case intern_constant (Const_Symbol property) cp of
        (cp1, i) \<Rightarrow> (cp1, lt, LoadMember, [u32_of object, i]))"
| "compile_kind (II_StoreMember object property v) cp lt =
     (case intern_constant (Const_Symbol property) cp of
        (cp1, i) \<Rightarrow> (cp1, lt, StoreMember, [u32_of object, i, u32_of v]))"
| "compile_kind (II_Binary op left right) cp lt =
     (cp, lt, Binary, [binary_op_code op, u32_of left, u32_of right])"
| "compile_kind (II_Call callee args) cp lt =
     (case intern_constant (Const_Symbol callee) cp of
        (cp1, i) \<Rightarrow> (cp1, lt, Call, i # u32_of (length args) # map u32_of args))"
| "compile_kind (II_Branch condition then_block else_block) cp lt =
     (cp, lt, Branch, [u32_of condition, u32_of then_block, u32_of else_block])"
| "compile_kind (II_Jump block) cp lt = (cp, lt, Jump, [u32_of block])"
| "compile_kind (II_Return v) cp lt =
     (cp, lt, Return, case v of None \<Rightarrow> [] | Some v \<Rightarrow> [u32_of v])"

definition compile_instruction ::
  "ir_instruction \<Rightarrow> compiler \<Rightarrow> local_table \<Rightarrow> compiler \<times> local_table \<times> instruction" where
  "compile_instruction i cp lt =
     (case intern_source (source_ref_from_span (ii_source_span i)) cp of
        (cp1, r) \<Rightarrow>
          (case compile_kind (ii_kind i) cp1 lt of
             (cp2, lt1, op, ops) \<Rightarrow>
               (cp2, lt1,
                \<lparr>ins_opcode = op, ins_operands = ops, ins_type_tag = type_tag_of (ii_ty i),
                 ins_source_ref = r\<rparr>)))"

fun compile_instructions ::
  "ir_instruction list \<Rightarrow> compiler \<Rightarrow> local_table \<Rightarrow> compiler \<times> local_table \<times> instruction list" where
  "compile_instructions [] cp lt = (cp, lt, [])"
| "compile_instructions (i # is) cp lt =
     (case compile_instruction i cp lt of
        (cp1, lt1, c) \<Rightarrow>
          (case compile_instructions is cp1 lt1 of (cp2, lt2, cs) \<Rightarrow> (cp2, lt2, c # cs)))"

fun compile_blocks ::
  "ir_block list \<Rightarrow> compiler \<Rightarrow> local_table \<Rightarrow> compiler \<times> local_table \<times> bytecode_block list" where
  "compile_blocks [] cp lt = (cp, lt, [])"
| "compile_blocks (b # bs) cp lt =
     (case compile_instructions (ib_instructions b) cp lt of
        (cp1, lt1, cs) \<Rightarrow>
          (case compile_blocks bs cp1 lt1 of
             (cp2, lt2, ds) \<Rightarrow>
               (cp2, lt2, \<lparr>blk_id = u32_of (ib_id b), blk_instructions = cs\<rparr> # ds)))"

definition param_table :: "ir_param list \<Rightarrow> local_table" where
  "param_table params =
     \<lparr>lt_ids = fold (\<lambda>(i, p) m. m(ip_name p \<mapsto> u32_of i)) (enumerate 0 params) Map.empty,
      lt_next = u32_of (length params)\<rparr>"

definition compile_function :: "ir_function \<Rightarrow> compiler \<Rightarrow> compiler \<times> bytecode_function" where
  "compile_function f cp =
     (case compile_blocks (ir_blocks f) cp (param_table (ir_params f)) of
        (cp1, _, bs) \<Rightarrow>
          (cp1,
           \<lparr>fn_name = ir_name f, fn_params = map (\<lambda>p. type_tag_of (ip_ty p)) (ir_params f),
            fn_return_type = type_tag_of (ir_return_type f), fn_blocks = bs,
            fn_exception_table = []\<rparr>))"

fun compile_functions :: "ir_function list \<Rightarrow> compiler \<Rightarrow> compiler \<times> bytecode_function list" where
  "compile_functions [] cp = (cp, [])"
| "compile_functions (f # fs) cp =
     (case compile_function f cp of
        (cp1, c) \<Rightarrow> (case compile_functions fs cp1 of (cp2, cs) \<Rightarrow> (cp2, c # cs)))"

definition compile :: "ir_program \<Rightarrow> bytecode_module" where
  "compile ir =
     (case compile_functions (ir_functions ir @ [ir_entry ir]) compiler_default of
        (cp, fs) \<Rightarrow>
          \<lparr>mod_header = \<lparr>hdr_magic = BYTECODE_MAGIC, hdr_version = BYTECODE_VERSION\<rparr>,
           mod_constants = cp_constants cp, mod_functions = fs,
           mod_source_map = cp_source_map cp\<rparr>)"

record bytecode_output =
  bo_module :: "bytecode_module option"
  bo_diagnostics :: "semantic_diagnostic list"

definition compile_source ::
  "(nat \<Rightarrow> string list \<Rightarrow> string list) \<Rightarrow> string \<Rightarrow> parse_abort + bytecode_output" where
  "compile_source order source =
     rbind (lower_source order source) (\<lambda>lowered.
       case lo_ir lowered of
         None \<Rightarrow> Inr \<lparr>bo_module = None, bo_diagnostics = lo_diagnostics lowered\<rparr>
       | Some ir \<Rightarrow> Inr \<lparr>bo_module = Some (compile ir), bo_diagnostics = []\<rparr>)"

end
