(* ===== verification/Semantic_Typing.thy ===== *)
theory Semantic_Typing
  imports Compiler Parser_Total
begin

text \<open>
  The type system that the semantic analyzer implements, as typing rules without analyzer state,
  and the proof that the analyzer reports nothing exactly for the programs that the rules admit.
  An operation of the analyzer \<open>decides\<close> a condition when it only appends diagnostics and leaves
  the rest of the analyzer alone, and appends none exactly when the condition holds. The rules
  do not mention the order in which hash maps are enumerated, so acceptance does not depend on it.
\<close>

section \<open>Operations that only report\<close>

text \<open>An order enumerates a hash map when it lists its keys, and no other.\<close>

definition enumerates :: "(nat \<Rightarrow> string list \<Rightarrow> string list) \<Rightarrow> bool" where
  "enumerates order \<longleftrightarrow> (\<forall>n ks. set (order n ks) = set ks)"

definition same_scopes :: "analyzer \<Rightarrow> analyzer \<Rightarrow> bool" where
  "same_scopes a b \<longleftrightarrow>
     an_scopes b = an_scopes a \<and> an_type_bindings b = an_type_bindings a \<and>
     an_functions b = an_functions a \<and> an_current_return b = an_current_return a \<and>
     an_order b = an_order a"

definition grows :: "analyzer \<Rightarrow> analyzer \<Rightarrow> bool" where
  "grows a b \<longleftrightarrow> (\<exists>ds. an_diagnostics b = an_diagnostics a @ ds)"

definition quiet :: "analyzer \<Rightarrow> analyzer \<Rightarrow> bool" where
  "quiet a b \<longleftrightarrow> an_diagnostics b = an_diagnostics a"

definition decides :: "(analyzer \<Rightarrow> analyzer) \<Rightarrow> bool \<Rightarrow> bool" where
  "decides f P \<longleftrightarrow>
     (\<forall>a. enumerates (an_order a) \<longrightarrow> same_scopes a (f a) \<and> grows a (f a) \<and> (quiet a (f a) \<longleftrightarrow> P))"

named_theorems decides_intro "operations that only report"

lemma same_scopes_refl [simp, intro]: "same_scopes a a"
  by (simp add: same_scopes_def)

lemma same_scopes_trans [trans]: "same_scopes a b \<Longrightarrow> same_scopes b c \<Longrightarrow> same_scopes a c"
  by (simp add: same_scopes_def)

lemma grows_refl [simp, intro]: "grows a a"
  by (simp add: grows_def)

lemma grows_trans [trans]: "grows a b \<Longrightarrow> grows b c \<Longrightarrow> grows a c"
  by (auto simp: grows_def)

lemma quiet_refl [simp, intro]: "quiet a a"
  by (simp add: quiet_def)

lemma quiet_split: "grows a b \<Longrightarrow> grows b c \<Longrightarrow> quiet a c \<longleftrightarrow> quiet a b \<and> quiet b c"
  by (auto simp: quiet_def grows_def)

lemma quiet_trans [trans]: "quiet a b \<Longrightarrow> quiet b c \<Longrightarrow> quiet a c"
  by (simp add: quiet_def)

lemma decidesD:
  assumes "decides f P" and "enumerates (an_order a)"
  shows "same_scopes a (f a)" "grows a (f a)" "quiet a (f a) \<longleftrightarrow> P"
  using assms by (auto simp: decides_def)

lemma decides_skip [decides_intro]: "decides (\<lambda>a. a) True"
  by (simp add: decides_def)

lemma decides_report [decides_intro]: "decides (sem_report code m sp) False"
  by (simp add: decides_def sem_report_def same_scopes_def grows_def quiet_def)

lemma decides_mismatch [decides_intro]: "decides (mismatch code sp) False"
  by (simp add: mismatch_def decides_report fun_eq_iff [symmetric] decides_def sem_report_def
      same_scopes_def grows_def quiet_def)

lemma decides_then:
  assumes f: "decides f P" and g: "decides g Q"
  shows "decides (\<lambda>a. g (f a)) (P \<and> Q)"
  unfolding decides_def
proof (intro allI impI)
  fix a :: analyzer assume e: "enumerates (an_order a)"
  note fa = decidesD [OF f e]
  from fa(1) e have "enumerates (an_order (f a))" by (simp add: same_scopes_def)
  note ga = decidesD [OF g this]
  show "same_scopes a (g (f a)) \<and> grows a (g (f a)) \<and> quiet a (g (f a)) = (P \<and> Q)"
    using same_scopes_trans [OF fa(1) ga(1)] grows_trans [OF fa(2) ga(2)]
      quiet_split [OF fa(2) ga(2)] fa(3) ga(3) by simp
qed

lemma decides_fold:
  "(\<And>x. x \<in> set xs \<Longrightarrow> decides (f x) (P x)) \<Longrightarrow> decides (fold f xs) (\<forall>x\<in>set xs. P x)"
proof (induction xs)
  case Nil
  then show ?case using decides_skip by (simp add: id_def)
next
  case (Cons x xs)
  then have "decides (\<lambda>a. fold f xs (f x a)) (P x \<and> (\<forall>x\<in>set xs. P x))"
    by (intro decides_then) auto
  then show ?case by (simp add: comp_def)
qed

section \<open>Assignability\<close>

text \<open>A value of the type on the right may be used where the type on the left is wanted.\<close>

inductive assignable :: "ty \<Rightarrow> ty \<Rightarrow> bool" where
  wanted_unknown: "assignable Ty_Unknown t"
| actual_unknown: "assignable t Ty_Unknown"
| same: "t \<in> {Ty_Number, Ty_String, Ty_Boolean, Ty_Null, Ty_Undefined} \<Longrightarrow> assignable t t"
| arrays: "assignable t u \<Longrightarrow> assignable (Ty_Array t) (Ty_Array u)"
| objects:
    "(\<And>name t. map_of fds name = Some t \<Longrightarrow> \<exists>u. map_of gds name = Some u \<and> assignable t u) \<Longrightarrow>
     assignable (Ty_Object fds) (Ty_Object gds)"

inductive_simps assignable_simps:
  "assignable Ty_Number t" "assignable Ty_String t" "assignable Ty_Boolean t"
  "assignable Ty_Null t" "assignable Ty_Undefined t" "assignable Ty_Unknown t"
  "assignable (Ty_Array t) u" "assignable (Ty_Object fds) u" "assignable (Ty_Function ps r v) u"

lemma decides_same: "decides (require_same wanted actual sp code) (actual = Ty_Unknown \<or> actual = wanted)"
  using decides_skip decides_mismatch
  by (cases "actual = Ty_Unknown \<or> actual = wanted")
    (auto simp: decides_def require_same_def)

lemma map_of_checks:
  "map_of (map (map_prod id f) fds) name = map_option f (map_of fds name)"
  by (induction fds) auto

lemma decides_fields:
  assumes "\<And>name t u. map_of fds name = Some t \<Longrightarrow> decides (check t u) (ok t u)"
  shows "decides (check_fields (map (map_prod id check) fds) gds sp)
    (\<forall>name t. map_of fds name = Some t \<longrightarrow> (\<exists>u. map_of gds name = Some u \<and> ok t u))"
  unfolding decides_def
proof (intro allI impI)
  fix a :: analyzer assume e: "enumerates (an_order a)"
  let ?f = "\<lambda>name (a :: analyzer). case map_of (map (map_prod id check) fds) name of
      None \<Rightarrow> a
    | Some check \<Rightarrow>
        (case map_of gds name of
           None \<Rightarrow> sem_report MissingProperty (quoted ''missing property '' name) sp a
         | Some t \<Rightarrow> check t a)"
  let ?P = "\<lambda>name. \<forall>t. map_of fds name = Some t \<longrightarrow> (\<exists>u. map_of gds name = Some u \<and> ok t u)"
  let ?a = "a\<lparr>an_enumerations := an_enumerations a + 1\<rparr>"
  let ?names = "an_order a (an_enumerations a) (map fst fds)"
  have step: "decides (?f name) (?P name)" for name
  proof (cases "map_of fds name")
    case None
    then show ?thesis using decides_skip by (simp add: map_of_checks)
  next
    case (Some t)
    with assms decides_report show ?thesis
      by (cases "map_of gds name") (auto simp: map_of_checks)
  qed
  have "decides (fold ?f ?names) (\<forall>name\<in>set ?names. ?P name)"
    by (rule decides_fold) (rule step)
  from decidesD [OF this, of ?a] e
  have "same_scopes ?a (fold ?f ?names ?a)" "grows ?a (fold ?f ?names ?a)"
    "quiet ?a (fold ?f ?names ?a) \<longleftrightarrow> (\<forall>name\<in>set ?names. ?P name)"
    by auto
  moreover have "set ?names = fst ` set fds" using e by (simp add: enumerates_def)
  then have "?P name" if "name \<notin> set ?names" for name
    using that map_of_eq_None_iff [of fds name] by simp
  then have "(\<forall>name\<in>set ?names. ?P name) \<longleftrightarrow> (\<forall>name. ?P name)" by blast
  moreover have "check_fields (map (map_prod id check) fds) gds sp a = fold ?f ?names ?a"
    by (simp add: check_fields_def comp_def)
  ultimately show "same_scopes a (check_fields (map (map_prod id check) fds) gds sp a) \<and>
    grows a (check_fields (map (map_prod id check) fds) gds sp a) \<and>
    (quiet a (check_fields (map (map_prod id check) fds) gds sp a) \<longleftrightarrow>
      (\<forall>name t. map_of fds name = Some t \<longrightarrow> (\<exists>u. map_of gds name = Some u \<and> ok t u)))"
    by (simp add: same_scopes_def grows_def quiet_def)
qed

lemma assignable_functions:
  "assignable (Ty_Function ps r v) u \<longleftrightarrow> u = Ty_Unknown"
  by (auto simp: assignable_simps)

lemma decides_cases:
  "(P \<Longrightarrow> decides f True) \<Longrightarrow> (\<not> P \<Longrightarrow> decides f False) \<Longrightarrow> decides f P"
  by (cases P) auto

lemma require_assignable_decides: "decides (require_assignable t sp code u) (assignable t u)"
proof (induction t arbitrary: u)
  case (Ty_Object fds)
  have fields: "decides (require_assignable (Ty_Object fds) sp code (Ty_Object gds))
      (assignable (Ty_Object fds) (Ty_Object gds))" for gds
  proof -
    have "decides (check_fields (map (map_prod id (\<lambda>t. require_assignable t sp code)) fds) gds sp)
        (\<forall>name t. map_of fds name = Some t \<longrightarrow> (\<exists>u. map_of gds name = Some u \<and> assignable t u))"
      by (rule decides_fields) (auto intro: Ty_Object dest!: map_of_SomeD)
    then show ?thesis by (simp add: assignable_simps decides_def)
  qed
  show ?case
  proof (cases u)
    case (Ty_Object gds)
    then show ?thesis by (simp only: fields)
  qed (use decides_skip decides_mismatch in \<open>simp_all add: assignable_simps\<close>)
next
  case (Ty_Array t)
  show ?case
  proof (cases u)
    case (Ty_Array v)
    with Ty_Array.IH show ?thesis by (simp add: assignable_simps)
  qed (use decides_skip decides_mismatch in \<open>simp_all add: assignable_simps\<close>)
next
  case (Ty_Function ps r v)
  show ?case
    using decides_skip decides_mismatch by (cases "u = Ty_Unknown") (simp_all add: assignable_simps)
next
  case Ty_Unknown
  then show ?case using decides_skip by (simp add: assignable_simps)
qed (use decides_same in \<open>simp_all add: assignable_simps disj_commute decides_def\<close>)

section \<open>Expressions\<close>

type_synonym scopes = "(string \<rightharpoonup> ty) list"

definition arithmetic :: "binary_operator set" where
  "arithmetic = {Op_Subtract, Op_Multiply, Op_Divide, Op_Remainder}"

definition comparison :: "binary_operator set" where
  "comparison = {Op_Equal, Op_StrictEqual, Op_NotEqual, Op_StrictNotEqual, Op_Less, Op_LessEqual,
     Op_Greater, Op_GreaterEqual}"

text \<open>The type of a binary operation from those of its operands.\<close>

inductive typed_binary :: "binary_operator \<Rightarrow> ty \<Rightarrow> ty \<Rightarrow> ty \<Rightarrow> bool" where
  concat: "t = Ty_String \<or> u = Ty_String \<Longrightarrow> typed_binary Op_Add t u Ty_String"
| add: "t \<noteq> Ty_String \<Longrightarrow> u \<noteq> Ty_String \<Longrightarrow> assignable Ty_Number t \<Longrightarrow> assignable Ty_Number u \<Longrightarrow>
    typed_binary Op_Add t u Ty_Number"
| arith: "op \<in> arithmetic \<Longrightarrow> assignable Ty_Number t \<Longrightarrow> assignable Ty_Number u \<Longrightarrow>
    typed_binary op t u Ty_Number"
| logic: "op \<in> {Op_LogicalAnd, Op_LogicalOr} \<Longrightarrow> assignable Ty_Boolean t \<Longrightarrow> assignable Ty_Boolean u \<Longrightarrow>
    typed_binary op t u Ty_Boolean"
| coalesce: "t \<in> {Ty_Null, Ty_Undefined} \<Longrightarrow> typed_binary Op_NullishCoalesce t u u"
| present: "t \<notin> {Ty_Null, Ty_Undefined} \<Longrightarrow> typed_binary Op_NullishCoalesce t u t"
| compare: "op \<in> comparison \<Longrightarrow> typed_binary op t u Ty_Boolean"

text \<open>
  \<open>typed \<Gamma> e t\<close>: the expression has the type in these scopes. An unknown callee is not checked,
  nor are arguments beyond the parameters. The elements of an array continue from the type so far.
\<close>

inductive typed :: "scopes \<Rightarrow> expression \<Rightarrow> ty \<Rightarrow> bool"
and typed_fields :: "scopes \<Rightarrow> object_property list \<Rightarrow> (string \<times> ty) list \<Rightarrow> bool"
and typed_elements :: "scopes \<Rightarrow> expression list \<Rightarrow> ty \<Rightarrow> ty \<Rightarrow> bool"
and typed_arguments :: "scopes \<Rightarrow> expression list \<Rightarrow> ty list \<Rightarrow> bool"
where
  t_identifier: "find_value \<Gamma> name = Some t \<Longrightarrow> typed \<Gamma> (Expression (Ex_Identifier name) sp) t"
| t_number: "typed \<Gamma> (Expression (Ex_Number s) sp) Ty_Number"
| t_string: "typed \<Gamma> (Expression (Ex_String s) sp) Ty_String"
| t_boolean: "typed \<Gamma> (Expression (Ex_Boolean b) sp) Ty_Boolean"
| t_null: "typed \<Gamma> (Expression Ex_Null sp) Ty_Null"
| t_undef: "typed \<Gamma> (Expression Ex_Undefined sp) Ty_Undefined"
| t_error: "typed \<Gamma> (Expression Ex_Error sp) Ty_Unknown"
| t_object: "typed_fields \<Gamma> ps fds \<Longrightarrow> typed \<Gamma> (Expression (Ex_Object ps) sp) (Ty_Object (hash_collect fds))"
| t_array: "typed_elements \<Gamma> es Ty_Unknown t \<Longrightarrow> typed \<Gamma> (Expression (Ex_Array es) sp) (Ty_Array t)"
| t_member: "typed \<Gamma> e (Ty_Object fds) \<Longrightarrow> map_of fds property = Some t \<Longrightarrow>
    typed \<Gamma> (Expression (Ex_Member e property) sp) t"
| t_member_unknown: "typed \<Gamma> e Ty_Unknown \<Longrightarrow> typed \<Gamma> (Expression (Ex_Member e property) sp) Ty_Unknown"
| t_call: "typed \<Gamma> callee (Ty_Function params t variadic) \<Longrightarrow> variadic \<or> length params = length es \<Longrightarrow>
    typed_arguments \<Gamma> es params \<Longrightarrow> typed \<Gamma> (Expression (Ex_Call callee es) sp) t"
| t_call_unknown: "typed \<Gamma> callee Ty_Unknown \<Longrightarrow> typed \<Gamma> (Expression (Ex_Call callee es) sp) Ty_Unknown"
| t_negate: "typed \<Gamma> e t \<Longrightarrow> assignable Ty_Number t \<Longrightarrow> typed \<Gamma> (Expression (Ex_Unary Negate e) sp) Ty_Number"
| t_not_op: "typed \<Gamma> e t \<Longrightarrow> typed \<Gamma> (Expression (Ex_Unary Not_Op e) sp) Ty_Boolean"
| t_binary: "typed \<Gamma> l t \<Longrightarrow> typed \<Gamma> r u \<Longrightarrow> typed_binary op t u v \<Longrightarrow>
    typed \<Gamma> (Expression (Ex_Binary l op r) sp) v"
| t_assign: "typed \<Gamma> l t \<Longrightarrow> typed \<Gamma> r u \<Longrightarrow> assignable t u \<Longrightarrow>
    typed \<Gamma> (Expression (Ex_Assignment l Assign r) sp) t"
| t_compound: "typed \<Gamma> l t \<Longrightarrow> typed \<Gamma> r u \<Longrightarrow> op \<noteq> Assign \<Longrightarrow> assignable Ty_Number t \<Longrightarrow>
    assignable Ty_Number u \<Longrightarrow> typed \<Gamma> (Expression (Ex_Assignment l op r) sp) Ty_Number"
| t_no_fields: "typed_fields \<Gamma> [] []"
| t_field: "typed \<Gamma> e t \<Longrightarrow> typed_fields \<Gamma> ps fds \<Longrightarrow>
    typed_fields \<Gamma> (Object_Property name e sp # ps) ((name, t) # fds)"
| t_no_elements: "typed_elements \<Gamma> [] t t"
| t_first_element: "typed \<Gamma> e t \<Longrightarrow> typed_elements \<Gamma> es t u \<Longrightarrow> typed_elements \<Gamma> (e # es) Ty_Unknown u"
| t_element: "t \<noteq> Ty_Unknown \<Longrightarrow> typed \<Gamma> e v \<Longrightarrow> assignable t v \<Longrightarrow> typed_elements \<Gamma> es t u \<Longrightarrow>
    typed_elements \<Gamma> (e # es) t u"
| t_no_arguments: "typed_arguments \<Gamma> [] params"
| t_no_params: "typed_arguments \<Gamma> es []"
| t_argument: "typed \<Gamma> e t \<Longrightarrow> assignable param t \<Longrightarrow> typed_arguments \<Gamma> es params \<Longrightarrow>
    typed_arguments \<Gamma> (e # es) (param # params)"

text \<open>
  \<open>infers m \<Gamma> P\<close>: a method that returns a type and only reports, and is quiet only if its type
  is as \<open>P\<close> says.
\<close>

definition infers :: "(analyzer \<Rightarrow> analyzer \<times> 'a) \<Rightarrow> scopes \<Rightarrow> ('a \<Rightarrow> bool) \<Rightarrow> bool" where
  "infers m \<Gamma> P \<longleftrightarrow>
     (\<forall>a b t. enumerates (an_order a) \<longrightarrow> an_scopes a = \<Gamma> \<longrightarrow> m a = (b, t) \<longrightarrow>
        same_scopes a b \<and> grows a b \<and> (quiet a b \<longrightarrow> P t))"

lemma infers_ret: "P t \<Longrightarrow> infers (\<lambda>a. (a, t)) \<Gamma> P"
  by (auto simp: infers_def)

lemma infers_report: "infers (\<lambda>a. (sem_report code m sp a, t)) \<Gamma> P"
  using decidesD [OF decides_report] by (auto simp: infers_def)

lemma infers_weaken: "infers m \<Gamma> P \<Longrightarrow> (\<And>t. P t \<Longrightarrow> Q t) \<Longrightarrow> infers m \<Gamma> Q"
  by (auto simp: infers_def)

lemma infers_then:
  assumes m: "infers m \<Gamma> P" and f: "\<And>t. infers (f t) \<Gamma> (\<lambda>u. P t \<longrightarrow> Q u)"
  shows "infers (\<lambda>a. case m a of (b, t) \<Rightarrow> f t b) \<Gamma> Q"
  unfolding infers_def
proof (intro allI impI)
  fix a c :: analyzer and u
  assume e: "enumerates (an_order a)" and s: "an_scopes a = \<Gamma>"
    and run: "(case m a of (b, t) \<Rightarrow> f t b) = (c, u)"
  obtain b t where b: "m a = (b, t)" by fastforce
  with m e s have ab: "same_scopes a b" "grows a b" "quiet a b \<longrightarrow> P t" by (auto simp: infers_def)
  then have "enumerates (an_order b)" "an_scopes b = \<Gamma>" using e s by (auto simp: same_scopes_def)
  moreover have "f t b = (c, u)" using run b by simp
  ultimately have bc: "same_scopes b c" "grows b c" "quiet b c \<longrightarrow> P t \<longrightarrow> Q u"
    using f [of t] by (auto simp: infers_def)
  show "same_scopes a c \<and> grows a c \<and> (quiet a c \<longrightarrow> Q u)"
    using same_scopes_trans [OF ab(1) bc(1)] grows_trans [OF ab(2) bc(2)]
      quiet_split [OF ab(2) bc(2)] ab(3) bc(3) by simp
qed

lemma infers_decides:
  assumes f: "decides f R" and m: "infers m \<Gamma> (\<lambda>u. R \<longrightarrow> Q u)"
  shows "infers (\<lambda>a. m (f a)) \<Gamma> Q"
proof -
  have "infers (\<lambda>a. (f a, ())) \<Gamma> (\<lambda>_. R)"
    using decidesD [OF f] by (auto simp: infers_def)
  then have "infers (\<lambda>a. case (f a, ()) of (b, t) \<Rightarrow> m b) \<Gamma> Q"
    by (rule infers_then) (rule m)
  then show ?thesis by simp
qed

lemma infers_cong: "(\<And>a. m a = m' a) \<Longrightarrow> infers m' \<Gamma> P \<Longrightarrow> infers m \<Gamma> P"
  by (simp add: infers_def)

lemma infers_properties:
  "(\<And>p. p \<in> set ps \<Longrightarrow> infers (infer_expression (pp_value p)) \<Gamma> (typed \<Gamma> (pp_value p))) \<Longrightarrow>
   infers (infer_properties ps) \<Gamma> (typed_fields \<Gamma> ps)"
proof (induction ps)
  case Nil
  show ?case by (rule infers_cong [OF _ infers_ret [where t = "[]"]]) (simp_all add: t_no_fields)
next
  case (Cons p ps)
  obtain name e sp where p: "p = Object_Property name e sp" by (cases p)
  have e: "infers (infer_expression e) \<Gamma> (typed \<Gamma> e)" using Cons.prems [of p] p by simp
  have ps: "infers (infer_properties ps) \<Gamma> (typed_fields \<Gamma> ps)" using Cons by simp
  show ?case
    unfolding p
    by (rule infers_cong [OF infer_properties.simps(2)], rule infers_then [OF e],
        rule infers_then [OF ps], rule infers_ret) (auto intro: t_field)
qed

lemma infers_elements:
  "(\<And>e. e \<in> set es \<Longrightarrow> infers (infer_expression e) \<Gamma> (typed \<Gamma> e)) \<Longrightarrow>
   infers (infer_elements es t) \<Gamma> (typed_elements \<Gamma> es t)"
proof (induction es arbitrary: t)
  case Nil
  show ?case by (rule infers_cong [OF _ infers_ret [where t = t]]) (simp_all add: t_no_elements)
next
  case (Cons e es)
  have e: "infers (infer_expression e) \<Gamma> (typed \<Gamma> e)" using Cons.prems [of e] by simp
  have es: "infers (infer_elements es t) \<Gamma> (typed_elements \<Gamma> es t)" for t using Cons by simp
  show ?case
  proof (cases "t = Ty_Unknown")
    case True
    have "infers (\<lambda>a. case infer_expression e a of (a1, u) \<Rightarrow> infer_elements es u a1) \<Gamma>
        (typed_elements \<Gamma> (e # es) Ty_Unknown)"
      by (rule infers_then [OF e], rule infers_weaken [OF es]) (auto intro: t_first_element)
    then show ?thesis unfolding True by (rule infers_cong [rotated]) simp
  next
    case False
    have "infers (\<lambda>a. case infer_expression e a of (a1, u) \<Rightarrow>
          infer_elements es t (require_assignable t (ex_span e) TypeMismatch u a1)) \<Gamma>
        (typed_elements \<Gamma> (e # es) t)"
      by (rule infers_then [OF e], rule infers_decides [OF require_assignable_decides],
          rule infers_weaken [OF es]) (use False in \<open>auto intro: t_element\<close>)
    then show ?thesis by (rule infers_cong [rotated]) (simp add: False)
  qed
qed

lemma infers_arguments:
  "(\<And>e. e \<in> set es \<Longrightarrow> infers (infer_expression e) \<Gamma> (typed \<Gamma> e)) \<Longrightarrow>
   infers (\<lambda>a. (infer_arguments es params a, ())) \<Gamma> (\<lambda>_. typed_arguments \<Gamma> es params)"
proof (induction es arbitrary: params)
  case Nil
  show ?case by (rule infers_cong [OF _ infers_ret [where t = "()"]]) (simp_all add: t_no_arguments)
next
  case (Cons e es)
  have e: "infers (infer_expression e) \<Gamma> (typed \<Gamma> e)" using Cons.prems [of e] by simp
  show ?case
  proof (cases params)
    case Nil
    then show ?thesis
      by (intro infers_cong [OF _ infers_ret [where t = "()"]]) (simp_all add: t_no_params)
  next
    case params: (Cons param ps)
    have es: "infers (\<lambda>a. (infer_arguments es ps a, ())) \<Gamma> (\<lambda>_. typed_arguments \<Gamma> es ps)"
      using Cons by simp
    have "infers (\<lambda>a. case infer_expression e a of (a1, t) \<Rightarrow>
          (infer_arguments es ps (require_assignable param (ex_span e) TypeMismatch t a1), ())) \<Gamma>
        (\<lambda>_. typed_arguments \<Gamma> (e # es) (param # ps))"
      by (rule infers_then [OF e],
          rule infers_decides [OF require_assignable_decides, where m = "\<lambda>a. (infer_arguments es ps a, ())"],
          rule infers_weaken [OF es])
        (auto intro: t_argument)
    then show ?thesis unfolding params by (rule infers_cong [rotated]) (simp split: prod.split)
  qed
qed

lemma infers_member:
  "infers (member_type_of t property sp) \<Gamma>
     (\<lambda>u. (\<exists>fds. t = Ty_Object fds \<and> map_of fds property = Some u) \<or> t = Ty_Unknown \<and> u = Ty_Unknown)"
proof (cases t)
  case (Ty_Object fds)
  then show ?thesis
    by (cases "map_of fds property")
      (auto simp: member_type_of_def [abs_def] intro: infers_report infers_ret)
qed (auto simp: member_type_of_def [abs_def] intro: infers_report infers_ret)

lemma infers_decided: "decides f R \<Longrightarrow> (R \<Longrightarrow> Q t) \<Longrightarrow> infers (\<lambda>a. (f a, t)) \<Gamma> Q"
  using decidesD by (fastforce simp: infers_def)

lemma require_both_decides:
  "decides (require_both wanted t sp u sp') (assignable wanted t \<and> assignable wanted u)"
  using decides_then [OF require_assignable_decides [of wanted sp TypeMismatch t]
      require_assignable_decides [of wanted sp' TypeMismatch u]]
  by (simp add: require_both_def [abs_def])

lemma infers_if:
  "(c \<Longrightarrow> infers m \<Gamma> P) \<Longrightarrow> (\<not> c \<Longrightarrow> infers m' \<Gamma> P) \<Longrightarrow> infers (\<lambda>a. if c then m a else m' a) \<Gamma> P"
  by (cases c) simp_all

lemma infers_binary: "infers (binary_result t sp op u sp') \<Gamma> (typed_binary op t u)"
  unfolding binary_result_def [abs_def]
  apply (intro infers_if infers_ret infers_decided [OF require_both_decides])
        apply (simp_all add: typed_binary.simps arithmetic_def comparison_def)
  apply (cases op; simp)
  done

lemma infers_call:
  assumes es: "\<And>params. infers (\<lambda>a. (infer_arguments es params a, ())) \<Gamma> (\<lambda>_. typed_arguments \<Gamma> es params)"
  shows "infers (\<lambda>a. case callee of
      Ty_Function params return_type variadic \<Rightarrow>
        (infer_arguments es params (check_count variadic (length params) (length es) sp a), return_type)
    | Ty_Unknown \<Rightarrow> (a, Ty_Unknown)
    | _ \<Rightarrow> (sem_report InvalidCallTarget ''value is not callable'' sp a, Ty_Unknown)) \<Gamma>
    (\<lambda>t. typed \<Gamma> e callee \<longrightarrow> typed \<Gamma> (Expression (Ex_Call e es) sp) t)"
proof (cases callee)
  case (Ty_Function params t variadic)
  have count: "decides (check_count variadic (length params) (length es) sp)
      (variadic \<or> length params = length es)"
    using decides_skip decides_report
    by (cases "variadic \<or> length params = length es") (auto simp: check_count_def [abs_def])
  have "infers (\<lambda>a. (infer_arguments es params a, t)) \<Gamma> (\<lambda>_. typed_arguments \<Gamma> es params)"
    using es [of params] by (simp add: infers_def)
  then have "infers (\<lambda>a. (infer_arguments es params (check_count variadic (length params) (length es) sp a), t)) \<Gamma>
      (\<lambda>u. typed \<Gamma> e callee \<longrightarrow> typed \<Gamma> (Expression (Ex_Call e es) sp) t)"
    by (intro infers_decides [OF count, where m = "\<lambda>a. (infer_arguments es params a, t)"])
      (erule infers_weaken, auto simp: Ty_Function intro: t_call)
  with Ty_Function show ?thesis by (simp add: infers_def)
qed (auto intro: infers_report infers_ret t_call_unknown)

lemma infer_expression_sound:
  fixes e :: expression and k :: expression_kind and p :: object_property
  shows "infers (infer_expression e) \<Gamma> (typed \<Gamma> e)"
    and "\<forall>sp. infers (infer_expression (Expression k sp)) \<Gamma> (typed \<Gamma> (Expression k sp))"
    and "infers (infer_expression (pp_value p)) \<Gamma> (typed \<Gamma> (pp_value p))"
proof (induction e and k and p)
  case (Ex_Identifier name)
  show ?case
    by (cases "find_value \<Gamma> name")
      (auto simp: infers_def lookup_value_def intro: t_identifier
        dest: decidesD [OF decides_report])
next
  case (Ex_Object ps)
  show ?case
  proof
    fix sp
    have "infers (\<lambda>a. case infer_properties ps a of (a1, fds) \<Rightarrow> (a1, Ty_Object (hash_collect fds))) \<Gamma>
        (typed \<Gamma> (Expression (Ex_Object ps) sp))"
      by (rule infers_then [OF infers_properties], rule Ex_Object, assumption, rule infers_ret)
        (auto intro: t_object)
    then show "infers (infer_expression (Expression (Ex_Object ps) sp)) \<Gamma>
        (typed \<Gamma> (Expression (Ex_Object ps) sp))"
      by (rule infers_cong [rotated]) simp
  qed
next
  case (Ex_Array es)
  show ?case
  proof
    fix sp
    have "infers (\<lambda>a. case infer_elements es Ty_Unknown a of (a1, t) \<Rightarrow> (a1, Ty_Array t)) \<Gamma>
        (typed \<Gamma> (Expression (Ex_Array es) sp))"
      by (rule infers_then [OF infers_elements], rule Ex_Array, assumption, rule infers_ret)
        (auto intro: t_array)
    then show "infers (infer_expression (Expression (Ex_Array es) sp)) \<Gamma>
        (typed \<Gamma> (Expression (Ex_Array es) sp))"
      by (rule infers_cong [rotated]) simp
  qed
next
  case (Ex_Member e property)
  show ?case
  proof
    fix sp
    have "infers (\<lambda>a. case infer_expression e a of (a1, t) \<Rightarrow> member_type_of t property sp a1) \<Gamma>
        (typed \<Gamma> (Expression (Ex_Member e property) sp))"
      by (rule infers_then [OF Ex_Member], rule infers_weaken [OF infers_member])
        (auto intro: t_member t_member_unknown)
    then show "infers (infer_expression (Expression (Ex_Member e property) sp)) \<Gamma>
        (typed \<Gamma> (Expression (Ex_Member e property) sp))"
      by (rule infers_cong [rotated]) simp
  qed
next
  case (Ex_Call e es)
  show ?case
  proof
    fix sp
    have "infers (\<lambda>a. case infer_expression e a of (a1, t) \<Rightarrow> (case t of
          Ty_Function params return_type variadic \<Rightarrow>
            (infer_arguments es params (check_count variadic (length params) (length es) sp a1), return_type)
        | Ty_Unknown \<Rightarrow> (a1, Ty_Unknown)
        | _ \<Rightarrow> (sem_report InvalidCallTarget ''value is not callable'' sp a1, Ty_Unknown))) \<Gamma>
        (typed \<Gamma> (Expression (Ex_Call e es) sp))"
      by (rule infers_then [OF Ex_Call(1)], rule infers_call, rule infers_arguments, rule Ex_Call(2))
    then show "infers (infer_expression (Expression (Ex_Call e es) sp)) \<Gamma>
        (typed \<Gamma> (Expression (Ex_Call e es) sp))"
      by (rule infers_cong [rotated]) simp
  qed
next
  case (Ex_Unary op e)
  show ?case
  proof
    fix sp
    have result: "infers (unary_result op t (ex_span e)) \<Gamma>
        (\<lambda>u. typed \<Gamma> e t \<longrightarrow> typed \<Gamma> (Expression (Ex_Unary op e) sp) u)" for t
    proof (cases op)
      case Negate
      have "infers (\<lambda>a. (require_assignable Ty_Number (ex_span e) TypeMismatch t a, Ty_Number)) \<Gamma>
          (\<lambda>u. typed \<Gamma> e t \<longrightarrow> typed \<Gamma> (Expression (Ex_Unary Negate e) sp) u)"
        by (rule infers_decided [OF require_assignable_decides]) (auto intro: t_negate)
      with Negate show ?thesis by (simp add: unary_result_def [abs_def])
    qed (auto simp: unary_result_def [abs_def] intro: infers_ret t_not_op)
    have "infers (\<lambda>a. case infer_expression e a of (a1, t) \<Rightarrow> unary_result op t (ex_span e) a1) \<Gamma>
        (typed \<Gamma> (Expression (Ex_Unary op e) sp))"
      by (rule infers_then [OF Ex_Unary]) (rule result)
    then show "infers (infer_expression (Expression (Ex_Unary op e) sp)) \<Gamma>
        (typed \<Gamma> (Expression (Ex_Unary op e) sp))"
      by (rule infers_cong [rotated]) simp
  qed
next
  case (Ex_Binary l op r)
  show ?case
  proof
    fix sp
    have "infers (\<lambda>a. case infer_expression l a of (a1, t) \<Rightarrow>
        (case infer_expression r a1 of (a2, u) \<Rightarrow> binary_result t (ex_span l) op u (ex_span r) a2)) \<Gamma>
        (typed \<Gamma> (Expression (Ex_Binary l op r) sp))"
      by (rule infers_then [OF Ex_Binary(1)], rule infers_then [OF Ex_Binary(2)],
          rule infers_weaken [OF infers_binary]) (auto intro: t_binary)
    then show "infers (infer_expression (Expression (Ex_Binary l op r) sp)) \<Gamma>
        (typed \<Gamma> (Expression (Ex_Binary l op r) sp))"
      by (rule infers_cong [rotated]) simp
  qed
next
  case (Ex_Assignment l op r)
  show ?case
  proof
    fix sp
    have result: "infers (assignment_result t (ex_span l) op u (ex_span r) sp) \<Gamma>
        (\<lambda>v. typed \<Gamma> r u \<longrightarrow> typed \<Gamma> l t \<longrightarrow> typed \<Gamma> (Expression (Ex_Assignment l op r) sp) v)" for t u
      by (cases "op = Assign")
        (auto simp: assignment_result_def [abs_def] intro: t_assign t_compound
          intro!: infers_decided [OF require_assignable_decides] infers_decided [OF require_both_decides])
    have "infers (\<lambda>a. case infer_expression l a of (a1, t) \<Rightarrow>
        (case infer_expression r a1 of (a2, u) \<Rightarrow>
           assignment_result t (ex_span l) op u (ex_span r) sp a2)) \<Gamma>
        (typed \<Gamma> (Expression (Ex_Assignment l op r) sp))"
      by (rule infers_then [OF Ex_Assignment(1)], rule infers_then [OF Ex_Assignment(2)], rule result)
    then show "infers (infer_expression (Expression (Ex_Assignment l op r) sp)) \<Gamma>
        (typed \<Gamma> (Expression (Ex_Assignment l op r) sp))"
      by (rule infers_cong [rotated]) simp
  qed
qed (auto simp: infers_def intro: typed_typed_fields_typed_elements_typed_arguments.intros)

text \<open>\<open>finds m \<Gamma> t\<close>: the method returns \<open>t\<close> and reports nothing.\<close>

definition finds :: "(analyzer \<Rightarrow> analyzer \<times> 'a) \<Rightarrow> scopes \<Rightarrow> 'a \<Rightarrow> bool" where
  "finds m \<Gamma> t \<longleftrightarrow>
     (\<forall>a. enumerates (an_order a) \<longrightarrow> an_scopes a = \<Gamma> \<longrightarrow>
        (\<exists>b. m a = (b, t) \<and> same_scopes a b \<and> quiet a b))"

lemma finds_ret: "finds (\<lambda>a. (a, t)) \<Gamma> t"
  by (simp add: finds_def)

lemma finds_cong: "(\<And>a. m a = m' a) \<Longrightarrow> finds m' \<Gamma> t \<Longrightarrow> finds m \<Gamma> t"
  by (simp add: finds_def)

lemma finds_then:
  assumes m: "finds m \<Gamma> t" and f: "finds (f t) \<Gamma> u"
  shows "finds (\<lambda>a. case m a of (b, t) \<Rightarrow> f t b) \<Gamma> u"
  unfolding finds_def
proof (intro allI impI)
  fix a :: analyzer assume e: "enumerates (an_order a)" and s: "an_scopes a = \<Gamma>"
  with m obtain b where b: "m a = (b, t)" "same_scopes a b" "quiet a b" by (auto simp: finds_def)
  with e s have "enumerates (an_order b)" "an_scopes b = \<Gamma>" by (auto simp: same_scopes_def)
  with f obtain c where "f t b = (c, u)" "same_scopes b c" "quiet b c" by (auto simp: finds_def)
  with b show "\<exists>c. (case m a of (b, t) \<Rightarrow> f t b) = (c, u) \<and> same_scopes a c \<and> quiet a c"
    using same_scopes_trans quiet_trans by auto
qed

lemma finds_decides:
  assumes f: "decides f R" and R: R and m: "finds m \<Gamma> u"
  shows "finds (\<lambda>a. m (f a)) \<Gamma> u"
proof -
  have "finds (\<lambda>a. (f a, ())) \<Gamma> ()"
    using decidesD [OF f] R by (auto simp: finds_def)
  then have "finds (\<lambda>a. case (f a, ()) of (b, t) \<Rightarrow> m b) \<Gamma> u"
    by (rule finds_then) (rule m)
  then show ?thesis by simp
qed

lemma finds_decided: "decides f R \<Longrightarrow> R \<Longrightarrow> finds (\<lambda>a. (f a, t)) \<Gamma> t"
  using decidesD by (fastforce simp: finds_def)

lemma finds_binary: "typed_binary op t u v \<Longrightarrow> finds (binary_result t sp op u sp') \<Gamma> v"
  by (induction rule: typed_binary.induct)
    (auto simp: binary_result_def [abs_def] arithmetic_def comparison_def
      intro!: finds_ret finds_decided [OF require_both_decides])

lemma infer_expression_complete:
  "typed \<Gamma> e t \<Longrightarrow> finds (infer_expression e) \<Gamma> t"
  "typed_fields \<Gamma> ps fds \<Longrightarrow> finds (infer_properties ps) \<Gamma> fds"
  "typed_elements \<Gamma> es t u \<Longrightarrow> finds (infer_elements es t) \<Gamma> u"
  "typed_arguments \<Gamma> es params \<Longrightarrow> finds (\<lambda>a. (infer_arguments es params a, ())) \<Gamma> ()"
proof (induction rule: typed_typed_fields_typed_elements_typed_arguments.inducts)
  case (t_identifier \<Gamma> name t sp)
  then show ?case by (auto simp: finds_def lookup_value_def)
next
  case (t_object \<Gamma> ps fds sp)
  then show ?case
    by (intro finds_cong [OF infer_expression.simps(7)] finds_then [where t = fds] finds_ret)
next
  case (t_array \<Gamma> es t sp)
  then show ?case
    by (intro finds_cong [OF infer_expression.simps(8)] finds_then [where t = t] finds_ret)
next
  case (t_member \<Gamma> e fds property t sp)
  then have "finds (member_type_of (Ty_Object fds) property sp) \<Gamma> t"
    by (simp add: member_type_of_def [abs_def] finds_ret)
  with t_member show ?case
    by (intro finds_cong [OF infer_expression.simps(9)] finds_then [where t = "Ty_Object fds"])
next
  case (t_member_unknown \<Gamma> e property sp)
  have "finds (member_type_of Ty_Unknown property sp) \<Gamma> Ty_Unknown"
    by (simp add: member_type_of_def [abs_def] finds_ret)
  with t_member_unknown show ?case
    by (intro finds_cong [OF infer_expression.simps(9)] finds_then [where t = "Ty_Unknown"])
next
  case (t_call \<Gamma> callee params t variadic es sp)
  then have "finds (\<lambda>a. (infer_arguments es params a, t)) \<Gamma> t" by (simp add: finds_def)
  moreover have "check_count variadic (length params) (length es) sp = (\<lambda>a. a)"
    using t_call(2) by (auto simp: check_count_def [abs_def])
  ultimately show ?case
    by (intro finds_cong [OF infer_expression.simps(10)] finds_then [OF t_call(4)]) simp
next
  case (t_call_unknown \<Gamma> callee es sp)
  show ?case
    by (intro finds_cong [OF infer_expression.simps(10)] finds_then [OF t_call_unknown(2)])
      (simp add: finds_ret)
next
  case (t_negate \<Gamma> e t sp)
  have "finds (\<lambda>a. (require_assignable Ty_Number (ex_span e) TypeMismatch t a, Ty_Number)) \<Gamma> Ty_Number"
    by (rule finds_decided [OF require_assignable_decides t_negate(2)])
  then have "finds (unary_result Negate t (ex_span e)) \<Gamma> Ty_Number"
    by (simp add: unary_result_def [abs_def])
  then show ?case
    by (intro finds_cong [OF infer_expression.simps(11)] finds_then [OF t_negate(3)])
next
  case (t_not_op \<Gamma> e t sp)
  show ?case
    by (intro finds_cong [OF infer_expression.simps(11)] finds_then [OF t_not_op(2)])
      (simp add: unary_result_def [abs_def] finds_ret)
next
  case (t_binary \<Gamma> l t r u op v sp)
  then show ?case
    by (intro finds_cong [OF infer_expression.simps(12)] finds_then [OF t_binary(4)]
        finds_then [OF t_binary(5)] finds_binary)
next
  case (t_assign \<Gamma> l t r u sp)
  have "finds (assignment_result t (ex_span l) Assign u (ex_span r) sp) \<Gamma> t"
    using finds_decided [OF require_assignable_decides t_assign(3)]
    by (simp add: assignment_result_def [abs_def])
  then show ?case
    by (intro finds_cong [OF infer_expression.simps(13)] finds_then [OF t_assign(4)]
        finds_then [OF t_assign(5)])
next
  case (t_compound \<Gamma> l t r u op sp)
  have "finds (\<lambda>a. (require_both Ty_Number t (ex_span l) u (ex_span r) a, Ty_Number)) \<Gamma> Ty_Number"
    by (rule finds_decided [OF require_both_decides]) (use t_compound in simp)
  then have "finds (assignment_result t (ex_span l) op u (ex_span r) sp) \<Gamma> Ty_Number"
    using t_compound(3) by (simp add: assignment_result_def [abs_def])
  then show ?case
    by (intro finds_cong [OF infer_expression.simps(13)] finds_then [OF t_compound(6)]
        finds_then [OF t_compound(7)])
next
  case (t_field \<Gamma> e t ps fds name sp)
  show ?case
    by (intro finds_cong [OF infer_properties.simps(2)] finds_then [OF t_field(3)]
        finds_then [OF t_field(4)] finds_ret)
next
  case (t_first_element \<Gamma> e t es u)
  have "finds (\<lambda>a. case infer_expression e a of (a1, t) \<Rightarrow> infer_elements es t a1) \<Gamma> u"
    by (intro finds_then [OF t_first_element(3)] t_first_element(4))
  then show ?case by (rule finds_cong [rotated]) simp
next
  case (t_element t \<Gamma> e v es u)
  have "finds (\<lambda>a. case infer_expression e a of (a1, v) \<Rightarrow>
      infer_elements es t (require_assignable t (ex_span e) TypeMismatch v a1)) \<Gamma> u"
    by (intro finds_then [OF t_element(5)] finds_decides [OF require_assignable_decides t_element(3)]
        t_element(6))
  then show ?case by (rule finds_cong [rotated]) (simp add: t_element(1))
next
  case (t_argument \<Gamma> e t param es params)
  have "finds (\<lambda>a. case infer_expression e a of (a1, t) \<Rightarrow>
      (infer_arguments es params (require_assignable param (ex_span e) TypeMismatch t a1), ())) \<Gamma> ()"
    by (intro finds_then [OF t_argument(4)] t_argument(5)
        finds_decides [OF require_assignable_decides t_argument(2), where m = "\<lambda>a. (infer_arguments es params a, ())"])
  then show ?case by (rule finds_cong [rotated]) (simp split: prod.split)
qed (auto simp: finds_def)

text \<open>Both directions: the analyzer infers a type without a report exactly when it has that type.\<close>

theorem infer_expression_typed:
  assumes "enumerates (an_order a)" and "infer_expression e a = (b, t)"
  shows "quiet a b \<longleftrightarrow> typed (an_scopes a) e t"
proof
  assume "quiet a b"
  with assms infer_expression_sound(1) [of e "an_scopes a"] show "typed (an_scopes a) e t"
    by (auto simp: infers_def)
next
  assume "typed (an_scopes a) e t"
  from infer_expression_complete(1) [OF this] assms show "quiet a b" by (auto simp: finds_def)
qed

end
