(* ===== verification/Semantic_Programs.thy ===== *)
theory Semantic_Programs
  imports Semantic_Typing
begin

text \<open>
  The typing rules of statements and programs, and the proof that the analyzer accepts exactly
  the programs they admit. The rules are relations between the scopes before and after a
  statement; the analyzer follows them as long as it is quiet.
\<close>

section \<open>Type nodes\<close>

type_synonym type_env = "string \<rightharpoonup> ty"

primrec node_type :: "type_env \<Rightarrow> type_node \<Rightarrow> ty"
and kind_type :: "type_env \<Rightarrow> type_kind \<Rightarrow> ty"
and member_entry :: "type_env \<Rightarrow> type_member \<Rightarrow> string \<times> ty" where
  "node_type \<Theta> (Type_Node k sp) = kind_type \<Theta> k"
| "kind_type \<Theta> TK_Number = Ty_Number"
| "kind_type \<Theta> TK_String = Ty_String"
| "kind_type \<Theta> TK_Boolean = Ty_Boolean"
| "kind_type \<Theta> TK_Null = Ty_Null"
| "kind_type \<Theta> TK_Undefined = Ty_Undefined"
| "kind_type \<Theta> (TK_Named name) = (case \<Theta> name of Some t \<Rightarrow> t | None \<Rightarrow> Ty_Unknown)"
| "kind_type \<Theta> (TK_Array inner) = Ty_Array (node_type \<Theta> inner)"
| "kind_type \<Theta> (TK_Object members) = Ty_Object (hash_collect (map (member_entry \<Theta>) members))"
| "member_entry \<Theta> (Type_Member name node sp) = (name, node_type \<Theta> node)"

text \<open>Every named type is declared.\<close>

primrec known_type :: "type_env \<Rightarrow> type_node \<Rightarrow> bool"
and known_kind :: "type_env \<Rightarrow> type_kind \<Rightarrow> bool"
and known_member :: "type_env \<Rightarrow> type_member \<Rightarrow> bool" where
  "known_type \<Theta> (Type_Node k sp) = known_kind \<Theta> k"
| "known_kind \<Theta> TK_Number = True"
| "known_kind \<Theta> TK_String = True"
| "known_kind \<Theta> TK_Boolean = True"
| "known_kind \<Theta> TK_Null = True"
| "known_kind \<Theta> TK_Undefined = True"
| "known_kind \<Theta> (TK_Named name) = (\<Theta> name \<noteq> None)"
| "known_kind \<Theta> (TK_Array inner) = known_type \<Theta> inner"
| "known_kind \<Theta> (TK_Object members) = list_all (\<lambda>m. m) (map (known_member \<Theta>) members)"
| "known_member \<Theta> (Type_Member name node sp) = known_type \<Theta> node"

text \<open>A method that computes \<open>g\<close> of the declared types and reports unless \<open>P\<close> of them holds.\<close>

definition resolves :: "(analyzer \<Rightarrow> analyzer \<times> 'a) \<Rightarrow> (type_env \<Rightarrow> 'a) \<Rightarrow> (type_env \<Rightarrow> bool) \<Rightarrow> bool" where
  "resolves m g P \<longleftrightarrow>
     (\<forall>a. snd (m a) = g (an_type_bindings a) \<and> same_scopes a (fst (m a)) \<and> grows a (fst (m a)) \<and>
          (quiet a (fst (m a)) \<longleftrightarrow> P (an_type_bindings a)))"

lemma resolvesD:
  assumes "resolves m g P" and "m a = (b, t)"
  shows "t = g (an_type_bindings a)" "same_scopes a b" "grows a b"
    "quiet a b \<longleftrightarrow> P (an_type_bindings a)"
  using assms unfolding resolves_def by (metis fst_conv snd_conv)+

lemma resolves_ret: "resolves (\<lambda>a. (a, t)) (\<lambda>\<Theta>. t) (\<lambda>\<Theta>. True)"
  by (simp add: resolves_def)

lemma resolves_then:
  assumes m: "resolves m g P" and f: "resolves m' h Q"
  shows "resolves (\<lambda>a. case m a of (b, t) \<Rightarrow> (case m' b of (c, u) \<Rightarrow> (c, k t u)))
    (\<lambda>\<Theta>. k (g \<Theta>) (h \<Theta>)) (\<lambda>\<Theta>. P \<Theta> \<and> Q \<Theta>)"
  unfolding resolves_def
proof
  fix a
  obtain b t where b: "m a = (b, t)" by fastforce
  obtain c u where c: "m' b = (c, u)" by fastforce
  note b' = resolvesD [OF m b] and c' = resolvesD [OF f c]
  have "an_type_bindings b = an_type_bindings a" using b'(2) by (simp add: same_scopes_def)
  with b' c' show "snd (case m a of (b, t) \<Rightarrow> (case m' b of (c, u) \<Rightarrow> (c, k t u))) =
      k (g (an_type_bindings a)) (h (an_type_bindings a)) \<and>
    same_scopes a (fst (case m a of (b, t) \<Rightarrow> (case m' b of (c, u) \<Rightarrow> (c, k t u)))) \<and>
    grows a (fst (case m a of (b, t) \<Rightarrow> (case m' b of (c, u) \<Rightarrow> (c, k t u)))) \<and>
    (quiet a (fst (case m a of (b, t) \<Rightarrow> (case m' b of (c, u) \<Rightarrow> (c, k t u)))) \<longleftrightarrow>
      P (an_type_bindings a) \<and> Q (an_type_bindings a))"
    using same_scopes_trans [OF b'(2) c'(2)] grows_trans [OF b'(3) c'(3)] quiet_split [OF b'(3) c'(3)]
    by (simp add: b c)
qed

lemma resolves_cong:
  "(\<And>a. m a = m' a) \<Longrightarrow> resolves m' g P \<Longrightarrow> resolves m g P"
  by (simp add: resolves_def)

lemma resolves_map:
  "resolves m g P \<Longrightarrow> resolves (\<lambda>a. case m a of (b, t) \<Rightarrow> (b, k t)) (\<lambda>\<Theta>. k (g \<Theta>)) P"
  by (simp add: resolves_def split_beta)

lemma resolves_members:
  "(\<And>m. m \<in> set ms \<Longrightarrow> resolves (resolve_type_node (tm_ty m)) (\<lambda>\<Theta>. snd (member_entry \<Theta> m))
      (\<lambda>\<Theta>. known_member \<Theta> m)) \<Longrightarrow>
   resolves (resolve_members ms) (\<lambda>\<Theta>. map (member_entry \<Theta>) ms) (\<lambda>\<Theta>. list_all (known_member \<Theta>) ms)"
proof (induction ms)
  case Nil
  show ?case using resolves_ret [of "[]"] by (simp add: resolves_def)
next
  case (Cons m ms)
  obtain name node sp where m: "m = Type_Member name node sp" by (cases m)
  have node: "resolves (resolve_type_node node) (\<lambda>\<Theta>. node_type \<Theta> node) (\<lambda>\<Theta>. known_type \<Theta> node)"
    using Cons.prems [of m] m by simp
  have ms: "resolves (resolve_members ms) (\<lambda>\<Theta>. map (member_entry \<Theta>) ms) (\<lambda>\<Theta>. list_all (known_member \<Theta>) ms)"
    using Cons by simp
  have "resolves (\<lambda>a. case resolve_type_node node a of (a1, t) \<Rightarrow>
      (case resolve_members ms a1 of (a2, fds) \<Rightarrow> (a2, (name, t) # fds)))
    (\<lambda>\<Theta>. (name, node_type \<Theta> node) # map (member_entry \<Theta>) ms)
    (\<lambda>\<Theta>. known_type \<Theta> node \<and> list_all (known_member \<Theta>) ms)"
    by (rule resolves_then [OF node ms])
  then show ?case unfolding m by (simp add: resolves_def)
qed

lemma resolve_type_node_resolves:
  fixes node :: type_node and k :: type_kind and m :: type_member
  shows "resolves (resolve_type_node node) (\<lambda>\<Theta>. node_type \<Theta> node) (\<lambda>\<Theta>. known_type \<Theta> node)"
    and "\<forall>sp. resolves (resolve_type_node (Type_Node k sp)) (\<lambda>\<Theta>. kind_type \<Theta> k) (\<lambda>\<Theta>. known_kind \<Theta> k)"
    and "resolves (resolve_type_node (tm_ty m)) (\<lambda>\<Theta>. snd (member_entry \<Theta> m)) (\<lambda>\<Theta>. known_member \<Theta> m)"
proof (induction node and k and m)
  case (TK_Named name)
  show ?case
    by (auto simp: resolves_def sem_report_def same_scopes_def grows_def quiet_def split: option.split)
next
  case (TK_Array inner)
  show ?case
    using resolves_map [OF TK_Array, of Ty_Array] by (simp add: resolves_def)
next
  case (TK_Object members)
  have "resolves (resolve_members members) (\<lambda>\<Theta>. map (member_entry \<Theta>) members)
      (\<lambda>\<Theta>. list_all (known_member \<Theta>) members)"
    by (rule resolves_members) (rule TK_Object)
  from resolves_map [OF this, of "\<lambda>fds. Ty_Object (hash_collect fds)"]
  show ?case by (simp add: resolves_def list.pred_map comp_def)
qed (simp_all add: resolves_def)

lemmas resolve_members_resolves =
  resolves_members [OF resolve_type_node_resolves(3)]

lemma resolve_or_resolves:
  "resolves (resolve_or missing node)
     (\<lambda>\<Theta>. case node of None \<Rightarrow> missing | Some n \<Rightarrow> node_type \<Theta> n) (\<lambda>\<Theta>. pred_option (known_type \<Theta>) node)"
  using resolve_type_node_resolves(1)
  by (cases node) (simp_all add: resolve_or_def [abs_def] resolves_ret)

text \<open>A missing annotation has a default type and is always known.\<close>

definition annotated :: "ty \<Rightarrow> type_env \<Rightarrow> type_node option \<Rightarrow> ty" where
  "annotated missing \<Theta> node = (case node of None \<Rightarrow> missing | Some n \<Rightarrow> node_type \<Theta> n)"

lemmas annotation_resolves = resolve_or_resolves [folded annotated_def]

lemma resolve_params_resolves:
  "resolves (resolve_params ps) (\<lambda>\<Theta>. map (annotated Ty_Unknown \<Theta> \<circ> pa_ty) ps)
     (\<lambda>\<Theta>. list_all (\<lambda>p. pred_option (known_type \<Theta>) (pa_ty p)) ps)"
proof (induction ps)
  case Nil
  show ?case using resolves_ret [of "[]"] by (simp add: resolves_def)
next
  case (Cons p ps)
  show ?case
    using resolves_then [OF annotation_resolves [of Ty_Unknown "pa_ty p"] Cons.IH, of Cons]
    by (simp add: resolves_def)
qed

lemma resolve_class_members_resolves:
  "resolves (resolve_class_members ms) (\<lambda>\<Theta>. map (\<lambda>m. (cm_name m, annotated Ty_Unknown \<Theta> (cm_ty m))) ms)
     (\<lambda>\<Theta>. list_all (\<lambda>m. pred_option (known_type \<Theta>) (cm_ty m)) ms)"
proof (induction ms)
  case Nil
  show ?case using resolves_ret [of "[]"] by (simp add: resolves_def)
next
  case (Cons m ms)
  show ?case
    using resolves_then [OF annotation_resolves [of Ty_Unknown "cm_ty m"] Cons.IH,
        of "\<lambda>t fds. (cm_name m, t) # fds"]
    by (simp add: resolves_def)
qed

section \<open>Statements\<close>

text \<open>A declaration is new in the innermost scope.\<close>

fun bound :: "scopes \<Rightarrow> string \<Rightarrow> ty \<Rightarrow> scopes \<Rightarrow> bool" where
  "bound [] name t \<Gamma> = (\<Gamma> = [])"
| "bound (s # scopes) name t \<Gamma> = (s name = None \<and> \<Gamma> = s(name \<mapsto> t) # scopes)"

text \<open>The type of a variable: its annotation, else that of its initializer.\<close>

definition variable_type :: "type_env \<Rightarrow> variable_declaration \<Rightarrow> ty option \<Rightarrow> ty" where
  "variable_type \<Theta> var initial =
     (case or_else (map_option (node_type \<Theta>) (vd_ty var)) initial of None \<Rightarrow> Ty_Unknown | Some t \<Rightarrow> t)"

definition typed_variable :: "type_env \<Rightarrow> scopes \<Rightarrow> variable_declaration \<Rightarrow> ty option \<Rightarrow> bool" where
  "typed_variable \<Theta> \<Gamma> var initial \<longleftrightarrow>
     pred_option (known_type \<Theta>) (vd_ty var) \<and> rel_option (typed \<Gamma>) (vd_initializer var) initial \<and>
     (case (vd_ty var, initial) of
        (Some node, Some t) \<Rightarrow> assignable (node_type \<Theta> node) t
      | _ \<Rightarrow> True)"

text \<open>The type of what a \<^verbatim>\<open>return\<close> returns.\<close>

definition returned :: "scopes \<Rightarrow> expression option \<Rightarrow> ty \<Rightarrow> bool" where
  "returned \<Gamma> val t = (case val of None \<Rightarrow> t = Ty_Undefined | Some e \<Rightarrow> typed \<Gamma> e t)"

text \<open>
  \<open>checked \<Theta> ret \<Gamma> st \<Gamma>'\<close>: in a function that returns \<open>ret\<close>, the statement is well typed in the
  scopes \<open>\<Gamma>\<close> and leaves \<open>\<Gamma>'\<close>. Nested functions, interfaces, classes and imports are skipped.
\<close>

inductive checked :: "type_env \<Rightarrow> ty option \<Rightarrow> scopes \<Rightarrow> statement \<Rightarrow> scopes \<Rightarrow> bool"
and checked_list :: "type_env \<Rightarrow> ty option \<Rightarrow> scopes \<Rightarrow> statement list \<Rightarrow> scopes \<Rightarrow> bool"
for \<Theta> ret where
  c_variable: "typed_variable \<Theta> \<Gamma> var initial \<Longrightarrow> bound \<Gamma> (vd_name var) (variable_type \<Theta> var initial) \<Gamma>' \<Longrightarrow>
    checked \<Theta> ret \<Gamma> (Statement (S_Variable var) sp) \<Gamma>'"
| c_return: "returned \<Gamma> val t \<Longrightarrow> pred_option (\<lambda>wanted. assignable wanted t) ret \<Longrightarrow>
    checked \<Theta> ret \<Gamma> (Statement (S_Return val) sp) \<Gamma>"
| c_throw: "typed \<Gamma> e t \<Longrightarrow> checked \<Theta> ret \<Gamma> (Statement (S_Throw e) sp) \<Gamma>"
| c_expression: "typed \<Gamma> e t \<Longrightarrow> checked \<Theta> ret \<Gamma> (Statement (S_Expression e) sp) \<Gamma>"
| c_if: "typed \<Gamma> test t \<Longrightarrow> checked \<Theta> ret \<Gamma> st \<Gamma>' \<Longrightarrow>
    checked \<Theta> ret \<Gamma> (Statement (S_If (If_Statement test st None)) sp) \<Gamma>'"
| c_if_else: "typed \<Gamma> test t \<Longrightarrow> checked \<Theta> ret \<Gamma> st1 \<Gamma>1 \<Longrightarrow> checked \<Theta> ret \<Gamma>1 st2 \<Gamma>2 \<Longrightarrow>
    checked \<Theta> ret \<Gamma> (Statement (S_If (If_Statement test st1 (Some st2))) sp) \<Gamma>2"
| c_while: "typed \<Gamma> test t \<Longrightarrow> checked \<Theta> ret \<Gamma> st \<Gamma>' \<Longrightarrow>
    checked \<Theta> ret \<Gamma> (Statement (S_While (While_Statement test st)) sp) \<Gamma>'"
| c_for: "pred_option (\<lambda>e. \<exists>t. typed (Map.empty # \<Gamma>) e t) test \<Longrightarrow>
    pred_option (\<lambda>e. \<exists>t. typed (Map.empty # \<Gamma>) e t) update \<Longrightarrow>
    checked \<Theta> ret (Map.empty # \<Gamma>) st \<Gamma>' \<Longrightarrow>
    checked \<Theta> ret \<Gamma> (Statement (S_For (For_Statement None test update st)) sp) (tl \<Gamma>')"
| c_for_init: "checked \<Theta> ret (Map.empty # \<Gamma>) st1 \<Gamma>1 \<Longrightarrow> pred_option (\<lambda>e. \<exists>t. typed \<Gamma>1 e t) test \<Longrightarrow>
    pred_option (\<lambda>e. \<exists>t. typed \<Gamma>1 e t) update \<Longrightarrow> checked \<Theta> ret \<Gamma>1 st \<Gamma>' \<Longrightarrow>
    checked \<Theta> ret \<Gamma> (Statement (S_For (For_Statement (Some st1) test update st)) sp) (tl \<Gamma>')"
| c_block: "checked_list \<Theta> ret (Map.empty # \<Gamma>) sts \<Gamma>' \<Longrightarrow>
    checked \<Theta> ret \<Gamma> (Statement (S_Block sts) sp) (tl \<Gamma>')"
| c_export: "checked \<Theta> ret \<Gamma> st \<Gamma>' \<Longrightarrow> checked \<Theta> ret \<Gamma> (Statement (S_Export st) sp) \<Gamma>'"
| c_interface: "checked \<Theta> ret \<Gamma> (Statement (S_Interface i) sp) \<Gamma>"
| c_alias: "checked \<Theta> ret \<Gamma> (Statement (S_TypeAlias ta) sp) \<Gamma>"
| c_class: "checked \<Theta> ret \<Gamma> (Statement (S_Class cl) sp) \<Gamma>"
| c_function: "checked \<Theta> ret \<Gamma> (Statement (S_Function f) sp) \<Gamma>"
| c_import: "checked \<Theta> ret \<Gamma> (Statement (S_Import i') sp) \<Gamma>"
| c_empty: "checked \<Theta> ret \<Gamma> (Statement S_Empty sp) \<Gamma>"
| c_error: "checked \<Theta> ret \<Gamma> (Statement S_Error sp) \<Gamma>"
| c_nil: "checked_list \<Theta> ret \<Gamma> [] \<Gamma>"
| c_cons: "checked \<Theta> ret \<Gamma> st \<Gamma>1 \<Longrightarrow> checked_list \<Theta> ret \<Gamma>1 sts \<Gamma>2 \<Longrightarrow>
    checked_list \<Theta> ret \<Gamma> (st # sts) \<Gamma>2"

text \<open>A statement changes the innermost scope only.\<close>

lemma bound_tl: "bound \<Gamma> name t \<Gamma>' \<Longrightarrow> tl \<Gamma>' = tl \<Gamma> \<and> length \<Gamma>' = length \<Gamma>"
  by (cases \<Gamma>) auto

lemma checked_tl:
  "checked \<Theta> ret \<Gamma> st \<Gamma>' \<Longrightarrow> tl \<Gamma>' = tl \<Gamma> \<and> length \<Gamma>' = length \<Gamma>"
  "checked_list \<Theta> ret \<Gamma> sts \<Gamma>' \<Longrightarrow> tl \<Gamma>' = tl \<Gamma> \<and> length \<Gamma>' = length \<Gamma>"
  by (induction rule: checked_checked_list.inducts) (auto simp: bound_tl)

text \<open>What statements leave alone.\<close>

definition same_frame :: "analyzer \<Rightarrow> analyzer \<Rightarrow> bool" where
  "same_frame a b \<longleftrightarrow>
     an_type_bindings b = an_type_bindings a \<and> an_functions b = an_functions a \<and>
     an_current_return b = an_current_return a \<and> an_order b = an_order a"

lemma same_frame_trans [trans]: "same_frame a b \<Longrightarrow> same_frame b c \<Longrightarrow> same_frame a c"
  by (simp add: same_frame_def)

lemma same_scopes_frame: "same_scopes a b \<Longrightarrow> same_frame a b"
  by (simp add: same_scopes_def same_frame_def)

text \<open>
  \<open>changes \<Theta> ret f \<Gamma> P\<close>: from the scopes \<open>\<Gamma>\<close> the operation only changes scopes and reports, and is
  quiet only if the scopes it leaves are as \<open>P\<close> says. \<open>leads \<Theta> ret f \<Gamma> \<Gamma>'\<close>: it is quiet and leaves \<open>\<Gamma>'\<close>.
\<close>

definition starts :: "type_env \<Rightarrow> ty option \<Rightarrow> scopes \<Rightarrow> analyzer \<Rightarrow> bool" where
  "starts \<Theta> ret \<Gamma> a \<longleftrightarrow>
     enumerates (an_order a) \<and> an_type_bindings a = \<Theta> \<and> an_current_return a = ret \<and> an_scopes a = \<Gamma>"

definition changes :: "type_env \<Rightarrow> ty option \<Rightarrow> (analyzer \<Rightarrow> analyzer) \<Rightarrow> scopes \<Rightarrow> (scopes \<Rightarrow> bool) \<Rightarrow> bool" where
  "changes \<Theta> ret f \<Gamma> P \<longleftrightarrow>
     (\<forall>a. starts \<Theta> ret \<Gamma> a \<longrightarrow>
        same_frame a (f a) \<and> grows a (f a) \<and> (quiet a (f a) \<longrightarrow> P (an_scopes (f a))))"

definition leads :: "type_env \<Rightarrow> ty option \<Rightarrow> (analyzer \<Rightarrow> analyzer) \<Rightarrow> scopes \<Rightarrow> scopes \<Rightarrow> bool" where
  "leads \<Theta> ret f \<Gamma> \<Gamma>' \<longleftrightarrow>
     (\<forall>a. starts \<Theta> ret \<Gamma> a \<longrightarrow> same_frame a (f a) \<and> quiet a (f a) \<and> an_scopes (f a) = \<Gamma>')"

lemma starts_next: "starts \<Theta> ret \<Gamma> a \<Longrightarrow> same_frame a b \<Longrightarrow> starts \<Theta> ret (an_scopes b) b"
  by (simp add: starts_def same_frame_def)

lemma changes_then:
  assumes f: "changes \<Theta> ret f \<Gamma> P" and g: "\<And>\<Gamma>'. changes \<Theta> ret g \<Gamma>' (\<lambda>\<Gamma>''. P \<Gamma>' \<longrightarrow> Q \<Gamma>'')"
  shows "changes \<Theta> ret (\<lambda>a. g (f a)) \<Gamma> Q"
  unfolding changes_def
proof (intro allI impI)
  fix a assume a: "starts \<Theta> ret \<Gamma> a"
  with f have fa: "same_frame a (f a)" "grows a (f a)" "quiet a (f a) \<longrightarrow> P (an_scopes (f a))"
    by (auto simp: changes_def)
  from starts_next [OF a fa(1)] g [of "an_scopes (f a)"] have ga: "same_frame (f a) (g (f a))"
    "grows (f a) (g (f a))" "quiet (f a) (g (f a)) \<longrightarrow> P (an_scopes (f a)) \<longrightarrow> Q (an_scopes (g (f a)))"
    by (auto simp: changes_def)
  show "same_frame a (g (f a)) \<and> grows a (g (f a)) \<and> (quiet a (g (f a)) \<longrightarrow> Q (an_scopes (g (f a))))"
    using same_frame_trans [OF fa(1) ga(1)] grows_trans [OF fa(2) ga(2)]
      quiet_split [OF fa(2) ga(2)] fa(3) ga(3) by simp
qed

lemma leads_then:
  assumes f: "leads \<Theta> ret f \<Gamma> \<Gamma>1" and g: "leads \<Theta> ret g \<Gamma>1 \<Gamma>2"
  shows "leads \<Theta> ret (\<lambda>a. g (f a)) \<Gamma> \<Gamma>2"
  unfolding leads_def
proof (intro allI impI)
  fix a assume a: "starts \<Theta> ret \<Gamma> a"
  with f have fa: "same_frame a (f a)" "quiet a (f a)" "an_scopes (f a) = \<Gamma>1"
    by (auto simp: leads_def)
  from starts_next [OF a fa(1)] fa(3) g have ga: "same_frame (f a) (g (f a))" "quiet (f a) (g (f a))"
    "an_scopes (g (f a)) = \<Gamma>2" by (auto simp: leads_def)
  show "same_frame a (g (f a)) \<and> quiet a (g (f a)) \<and> an_scopes (g (f a)) = \<Gamma>2"
    using same_frame_trans [OF fa(1) ga(1)] quiet_trans [OF fa(2) ga(2)] ga(3) by simp
qed

lemma changes_weaken: "changes \<Theta> ret f \<Gamma> P \<Longrightarrow> (\<And>\<Gamma>. P \<Gamma> \<Longrightarrow> Q \<Gamma>) \<Longrightarrow> changes \<Theta> ret f \<Gamma> Q"
  by (auto simp: changes_def)

lemma changes_skip: "P \<Gamma> \<Longrightarrow> changes \<Theta> ret (\<lambda>a. a) \<Gamma> P"
  by (auto simp: changes_def same_frame_def starts_def)

lemma leads_skip: "leads \<Theta> ret (\<lambda>a. a) \<Gamma> \<Gamma>"
  by (auto simp: leads_def same_frame_def starts_def)

lemma changes_push: "P (Map.empty # \<Gamma>) \<Longrightarrow> changes \<Theta> ret push_scope \<Gamma> P"
  by (simp add: changes_def push_scope_def same_frame_def grows_def starts_def)

lemma leads_push: "leads \<Theta> ret push_scope \<Gamma> (Map.empty # \<Gamma>)"
  by (simp add: leads_def push_scope_def same_frame_def quiet_def starts_def)

lemma changes_pop: "P (tl \<Gamma>) \<Longrightarrow> changes \<Theta> ret pop_scope \<Gamma> P"
  by (simp add: changes_def pop_scope_def same_frame_def grows_def starts_def)

lemma leads_pop: "leads \<Theta> ret pop_scope \<Gamma> (tl \<Gamma>)"
  by (simp add: leads_def pop_scope_def same_frame_def quiet_def starts_def)

lemma changes_infer:
  "changes \<Theta> ret (\<lambda>a. fst (infer_expression e a)) \<Gamma> (\<lambda>\<Gamma>'. \<Gamma>' = \<Gamma> \<and> (\<exists>t. typed \<Gamma> e t))"
proof -
  have "same_frame a (fst (infer_expression e a)) \<and> grows a (fst (infer_expression e a)) \<and>
      (quiet a (fst (infer_expression e a)) \<longrightarrow>
        an_scopes (fst (infer_expression e a)) = \<Gamma> \<and> (\<exists>t. typed \<Gamma> e t))"
    if "starts \<Theta> ret \<Gamma> a" for a
  proof -
    obtain b t where b: "infer_expression e a = (b, t)" by fastforce
    with infer_expression_sound(1) [of e \<Gamma>] that have "same_scopes a b" "grows a b"
      "quiet a b \<longrightarrow> typed \<Gamma> e t" by (auto simp: infers_def starts_def)
    with b that same_scopes_frame show ?thesis by (auto simp: starts_def same_scopes_def)
  qed
  then show ?thesis by (simp add: changes_def)
qed

lemma leads_infer:
  assumes "typed \<Gamma> e t"
  shows "leads \<Theta> ret (\<lambda>a. fst (infer_expression e a)) \<Gamma> \<Gamma>"
  using infer_expression_complete(1) [OF assms] same_scopes_frame
  by (fastforce simp: leads_def finds_def starts_def same_scopes_def)

lemma changes_infer_option:
  "changes \<Theta> ret (infer_option e) \<Gamma> (\<lambda>\<Gamma>'. \<Gamma>' = \<Gamma> \<and> pred_option (\<lambda>e. \<exists>t. typed \<Gamma> e t) e)"
  using changes_infer by (cases e) (simp_all add: infer_option_def [abs_def] changes_skip)

lemma leads_infer_option:
  "pred_option (\<lambda>e. \<exists>t. typed \<Gamma> e t) e \<Longrightarrow> leads \<Theta> ret (infer_option e) \<Gamma> \<Gamma>"
  by (cases e) (auto simp: infer_option_def [abs_def] leads_skip intro: leads_infer)

lemma bind_value_cases:
  obtains (new) s scopes b where "an_scopes a = s # scopes" "s name = None"
    "bind_value name t kind (Some sp) a = b" "an_scopes b = s(name \<mapsto> t) # scopes"
    "an_diagnostics b = an_diagnostics a" "same_frame a b"
  | (duplicate) s scopes where "an_scopes a = s # scopes" "s name \<noteq> None"
    "bind_value name t kind (Some sp) a =
       sem_report DuplicateSymbol (quoted ''duplicate value '' name) sp a"
  | (none) "an_scopes a = []" "bind_value name t kind (Some sp) a = a"
proof (cases "an_scopes a")
  case Nil
  with none show thesis by (simp add: bind_value_def)
next
  case (Cons s scopes)
  show thesis
  proof (cases "s name")
    case None
    let ?a = "a\<lparr>an_scopes := s(name \<mapsto> t) # scopes\<rparr>"
    let ?b = "if scopes = []
      then ?a\<lparr>an_values := an_values ?a @ [\<lparr>sym_name = name, sym_kind = kind\<rparr>]\<rparr> else ?a"
    have "bind_value name t kind (Some sp) a = ?b"
      unfolding bind_value_def Cons list.case Let_def None by simp
    with new [OF Cons None] show ?thesis by (simp add: same_frame_def)
  next
    case (Some u)
    with duplicate [OF Cons] Cons show ?thesis by (simp add: bind_value_def)
  qed
qed

lemma bind_value_bound:
  fixes a :: analyzer and name t kind sp
  shows "same_frame a (bind_value name t kind (Some sp) a)" "grows a (bind_value name t kind (Some sp) a)"
    "quiet a (bind_value name t kind (Some sp) a) \<Longrightarrow>
       bound (an_scopes a) name t (an_scopes (bind_value name t kind (Some sp) a))"
    "bound (an_scopes a) name t \<Gamma> \<Longrightarrow>
       quiet a (bind_value name t kind (Some sp) a) \<and> an_scopes (bind_value name t kind (Some sp) a) = \<Gamma>"
  by (cases rule: bind_value_cases [of a name t kind sp];
      simp add: same_frame_def grows_def quiet_def sem_report_def)+

text \<open>The three steps of a variable declaration before it is bound.\<close>

lemma analyze_variable_steps:
  fixes a :: analyzer
  assumes a: "starts \<Theta> ret \<Gamma> a"
  obtains a3 initial where
    "analyze_variable var sp a =
       bind_value (vd_name var) (variable_type \<Theta> var initial) SK_Variable (Some sp) a3"
    "same_scopes a a3" "grows a a3" "quiet a a3 \<Longrightarrow> typed_variable \<Theta> \<Gamma> var initial"
    "\<And>i. typed_variable \<Theta> \<Gamma> var i \<Longrightarrow> initial = i \<and> quiet a a3"
proof -
  obtain a1 declared where a1: "(case vd_ty var of
      None \<Rightarrow> (a, None)
    | Some node \<Rightarrow> (case resolve_type_node node a of (a1, t) \<Rightarrow> (a1, Some t))) = (a1, declared)"
    by fastforce
  have d: "declared = map_option (node_type \<Theta>) (vd_ty var)" "same_scopes a a1" "grows a a1"
    "quiet a a1 \<longleftrightarrow> pred_option (known_type \<Theta>) (vd_ty var)"
    using a1 a resolvesD [OF resolve_type_node_resolves(1)]
    by (auto simp: starts_def split: option.splits prod.splits)
  obtain a2 initial where a2: "(case vd_initializer var of
      None \<Rightarrow> (a1, None)
    | Some e \<Rightarrow> (case infer_expression e a1 of (a2, t) \<Rightarrow> (a2, Some t))) = (a2, initial)"
    by fastforce
  have a1': "enumerates (an_order a1)" "an_scopes a1 = \<Gamma>" using d(2) a by (auto simp: same_scopes_def starts_def)
  have i: "same_scopes a1 a2" "grows a1 a2" "quiet a1 a2 \<longrightarrow> rel_option (typed \<Gamma>) (vd_initializer var) initial"
    using a2 a1' infer_expression_sound(1) [of _ \<Gamma>]
    by (auto simp: infers_def split: option.splits prod.splits)
  have i': "initial = j \<and> quiet a1 a2" if "rel_option (typed \<Gamma>) (vd_initializer var) j" for j
    using that a2 a1' infer_expression_complete(1) [of \<Gamma>]
    by (cases j) (fastforce simp: finds_def option_rel_Some2 split: option.splits prod.splits)+
  let ?a3 = "case (declared, initial) of
      (Some wanted, Some actual) \<Rightarrow> require_assignable wanted sp TypeMismatch actual a2
    | _ \<Rightarrow> a2"
  have "enumerates (an_order a2)" using i(1) a1'(1) by (simp add: same_scopes_def)
  then have r: "same_scopes a2 ?a3" "grows a2 ?a3"
    "quiet a2 ?a3 \<longleftrightarrow> (case (declared, initial) of (Some w, Some u) \<Rightarrow> assignable w u | _ \<Rightarrow> True)"
    using decidesD [OF require_assignable_decides] by (auto split: option.split)
  have run: "analyze_variable var sp a =
      bind_value (vd_name var) (variable_type \<Theta> var initial) SK_Variable (Some sp) ?a3"
    unfolding analyze_variable_def a1 prod.case a2 Let_def variable_type_def d(1) by simp
  show thesis
  proof (rule that [OF run])
    show "same_scopes a ?a3" using same_scopes_trans [OF same_scopes_trans [OF d(2) i(1)] r(1)] .
    show "grows a ?a3" using grows_trans [OF grows_trans [OF d(3) i(2)] r(2)] .
    have split: "quiet a ?a3 \<longleftrightarrow> quiet a a1 \<and> quiet a1 a2 \<and> quiet a2 ?a3"
      using quiet_split [OF d(3) grows_trans [OF i(2) r(2)]] quiet_split [OF i(2) r(2)] by simp
    show "typed_variable \<Theta> \<Gamma> var initial" if "quiet a ?a3"
      using that split d(1,4) i(3) r(3)
      by (auto simp: typed_variable_def split: option.splits)
    show "initial = j \<and> quiet a ?a3" if "typed_variable \<Theta> \<Gamma> var j" for j
      using that split d(1,4) i' [of j] r(3)
      by (auto simp: typed_variable_def split: option.splits)
  qed
qed

lemma changes_variable:
  "changes \<Theta> ret (analyze_variable var sp) \<Gamma> (checked \<Theta> ret \<Gamma> (Statement (S_Variable var) sp))"
  unfolding changes_def
proof (intro allI impI)
  fix a :: analyzer assume a: "starts \<Theta> ret \<Gamma> a"
  obtain a3 initial where run: "analyze_variable var sp a =
       bind_value (vd_name var) (variable_type \<Theta> var initial) SK_Variable (Some sp) a3"
    and a3: "same_scopes a a3" "grows a a3" "quiet a a3 \<Longrightarrow> typed_variable \<Theta> \<Gamma> var initial"
    using analyze_variable_steps [OF a] by metis
  let ?b = "bind_value (vd_name var) (variable_type \<Theta> var initial) SK_Variable (Some sp) a3"
  note b = bind_value_bound(1-3) [where a = a3 and name = "vd_name var" and
      t = "variable_type \<Theta> var initial" and kind = SK_Variable and sp = sp]
  have "an_scopes a3 = \<Gamma>" using a3(1) a by (simp add: same_scopes_def starts_def)
  then show "same_frame a (analyze_variable var sp a) \<and> grows a (analyze_variable var sp a) \<and>
      (quiet a (analyze_variable var sp a) \<longrightarrow>
        checked \<Theta> ret \<Gamma> (Statement (S_Variable var) sp) (an_scopes (analyze_variable var sp a)))"
    unfolding run
    using same_frame_trans [OF same_scopes_frame [OF a3(1)] b(1)] grows_trans [OF a3(2) b(2)]
      quiet_split [OF a3(2) b(2)] a3(3) b(3) by (auto intro: c_variable)
qed

lemma leads_variable:
  assumes "typed_variable \<Theta> \<Gamma> var initial" and "bound \<Gamma> (vd_name var) (variable_type \<Theta> var initial) \<Gamma>'"
  shows "leads \<Theta> ret (analyze_variable var sp) \<Gamma> \<Gamma>'"
  unfolding leads_def
proof (intro allI impI)
  fix a :: analyzer assume a: "starts \<Theta> ret \<Gamma> a"
  obtain a3 where run: "analyze_variable var sp a =
       bind_value (vd_name var) (variable_type \<Theta> var initial) SK_Variable (Some sp) a3"
    and a3: "same_scopes a a3" "quiet a a3"
    using analyze_variable_steps [OF a] assms(1) by metis
  have "an_scopes a3 = \<Gamma>" using a3(1) a by (simp add: same_scopes_def starts_def)
  with bind_value_bound(1,4) [where a = a3 and name = "vd_name var" and
      t = "variable_type \<Theta> var initial" and kind = SK_Variable and sp = sp] assms(2)
  show "same_frame a (analyze_variable var sp a) \<and> quiet a (analyze_variable var sp a) \<and>
      an_scopes (analyze_variable var sp a) = \<Gamma>'"
    unfolding run
    using same_frame_trans [OF same_scopes_frame [OF a3(1)]] quiet_trans [OF a3(2)] by auto
qed

text \<open>Returning, as an inference followed by a check.\<close>

lemma analyze_return_infers:
  "infers (\<lambda>a. case val of None \<Rightarrow> (a, Ty_Undefined) | Some e \<Rightarrow> infer_expression e a) \<Gamma> (returned \<Gamma> val)"
  by (cases val) (simp_all add: returned_def [abs_def] infers_ret infer_expression_sound(1))

lemma analyze_return_finds:
  "returned \<Gamma> val t \<Longrightarrow>
   finds (\<lambda>a. case val of None \<Rightarrow> (a, Ty_Undefined) | Some e \<Rightarrow> infer_expression e a) \<Gamma> t"
  by (cases val) (simp_all add: returned_def finds_ret infer_expression_complete(1))

lemma return_check:
  fixes b :: analyzer and sp t
  assumes "enumerates (an_order b)"
  defines "c \<equiv> (case an_current_return b of
      None \<Rightarrow> b | Some wanted \<Rightarrow> require_assignable wanted sp ReturnTypeMismatch t b)"
  shows "same_scopes b c" "grows b c"
    "quiet b c \<longleftrightarrow> pred_option (\<lambda>wanted. assignable wanted t) (an_current_return b)"
  unfolding c_def using decidesD [OF require_assignable_decides assms(1)]
  by (cases "an_current_return b"; simp)+

lemma changes_return:
  "changes \<Theta> ret (analyze_return val sp) \<Gamma> (checked \<Theta> ret \<Gamma> (Statement (S_Return val) sp))"
  unfolding changes_def
proof (intro allI impI)
  fix a :: analyzer assume a: "starts \<Theta> ret \<Gamma> a"
  obtain b t where b: "(case val of None \<Rightarrow> (a, Ty_Undefined) | Some e \<Rightarrow> infer_expression e a) = (b, t)"
    by fastforce
  with analyze_return_infers [of val \<Gamma>] a have ab: "same_scopes a b" "grows a b"
    "quiet a b \<longrightarrow> returned \<Gamma> val t" by (auto simp: infers_def starts_def)
  with a have e: "enumerates (an_order b)" and ret: "an_current_return b = ret" and "an_scopes b = \<Gamma>"
    by (auto simp: starts_def same_scopes_def)
  note c = return_check [OF e, of sp t]
  have run: "analyze_return val sp a = (case an_current_return b of
      None \<Rightarrow> b | Some wanted \<Rightarrow> require_assignable wanted sp ReturnTypeMismatch t b)"
    by (simp add: analyze_return_def b)
  show "same_frame a (analyze_return val sp a) \<and> grows a (analyze_return val sp a) \<and>
      (quiet a (analyze_return val sp a) \<longrightarrow>
        checked \<Theta> ret \<Gamma> (Statement (S_Return val) sp) (an_scopes (analyze_return val sp a)))"
    unfolding run
    using same_scopes_frame [OF same_scopes_trans [OF ab(1) c(1)]] grows_trans [OF ab(2) c(2)]
      quiet_split [OF ab(2) c(2)] ab(3) c(1,3) ret \<open>an_scopes b = \<Gamma>\<close>
    by (auto simp: same_scopes_def intro: c_return)
qed

lemma leads_return:
  assumes "returned \<Gamma> val t" and "pred_option (\<lambda>wanted. assignable wanted t) ret"
  shows "leads \<Theta> ret (analyze_return val sp) \<Gamma> \<Gamma>"
  unfolding leads_def
proof (intro allI impI)
  fix a :: analyzer assume a: "starts \<Theta> ret \<Gamma> a"
  obtain b where b: "(case val of None \<Rightarrow> (a, Ty_Undefined) | Some e \<Rightarrow> infer_expression e a) = (b, t)"
    and ab: "same_scopes a b" "quiet a b"
    using analyze_return_finds [OF assms(1)] a by (auto simp: finds_def starts_def)
  with a have e: "enumerates (an_order b)" and ret: "an_current_return b = ret" and "an_scopes b = \<Gamma>"
    by (auto simp: starts_def same_scopes_def)
  note c = return_check [OF e, of sp t]
  have run: "analyze_return val sp a = (case an_current_return b of
      None \<Rightarrow> b | Some wanted \<Rightarrow> require_assignable wanted sp ReturnTypeMismatch t b)"
    by (simp add: analyze_return_def b)
  show "same_frame a (analyze_return val sp a) \<and> quiet a (analyze_return val sp a) \<and>
      an_scopes (analyze_return val sp a) = \<Gamma>"
    unfolding run
    using same_scopes_frame [OF same_scopes_trans [OF ab(1) c(1)]] quiet_trans [OF ab(2)]
      c(1,3) ret \<open>an_scopes b = \<Gamma>\<close> assms(2)
    by (auto simp: same_scopes_def)
qed

lemma changes_cong: "(\<And>a. f a = g a) \<Longrightarrow> changes \<Theta> ret g \<Gamma> P \<Longrightarrow> changes \<Theta> ret f \<Gamma> P"
  by (simp add: changes_def)

lemma leads_cong: "(\<And>a. f a = g a) \<Longrightarrow> leads \<Theta> ret g \<Gamma> \<Gamma>' \<Longrightarrow> leads \<Theta> ret f \<Gamma> \<Gamma>'"
  by (simp add: leads_def)

lemma changes_statements:
  "(\<And>st \<Gamma>. st \<in> set sts \<Longrightarrow> changes \<Theta> ret (analyze_statement st) \<Gamma> (checked \<Theta> ret \<Gamma> st)) \<Longrightarrow>
   changes \<Theta> ret (analyze_statements sts) \<Gamma> (checked_list \<Theta> ret \<Gamma> sts)"
proof (induction sts arbitrary: \<Gamma>)
  case Nil
  show ?case by (rule changes_cong [OF _ changes_skip]) (simp_all add: c_nil)
next
  case (Cons st sts)
  have st: "changes \<Theta> ret (analyze_statement st) \<Gamma> (checked \<Theta> ret \<Gamma> st)" by (rule Cons.prems) simp
  have sts: "changes \<Theta> ret (analyze_statements sts) \<Gamma>' (checked_list \<Theta> ret \<Gamma>' sts)" for \<Gamma>'
    by (rule Cons.IH) (simp add: Cons.prems)
  have "changes \<Theta> ret (\<lambda>a. analyze_statements sts (analyze_statement st a)) \<Gamma> (checked_list \<Theta> ret \<Gamma> (st # sts))"
    by (rule changes_then [OF st], rule changes_weaken [OF sts]) (auto intro: c_cons)
  then show ?case by (rule changes_cong [rotated]) simp
qed

lemma analyze_statement_changes:
  fixes st :: statement and k :: statement_kind and f :: function_declaration
    and i :: if_statement and w :: while_statement and fo :: for_statement
  shows "\<forall>\<Gamma>. changes \<Theta> ret (analyze_statement st) \<Gamma> (checked \<Theta> ret \<Gamma> st)"
    and "\<forall>\<Gamma> sp. changes \<Theta> ret (analyze_statement (Statement k sp)) \<Gamma> (checked \<Theta> ret \<Gamma> (Statement k sp))"
    and "f = f"
    and "\<forall>\<Gamma> sp. changes \<Theta> ret (analyze_statement (Statement (S_If i) sp)) \<Gamma>
       (checked \<Theta> ret \<Gamma> (Statement (S_If i) sp))"
    and "\<forall>\<Gamma> sp. changes \<Theta> ret (analyze_statement (Statement (S_While w) sp)) \<Gamma>
       (checked \<Theta> ret \<Gamma> (Statement (S_While w) sp))"
    and "\<forall>\<Gamma> sp. changes \<Theta> ret (analyze_statement (Statement (S_For fo) sp)) \<Gamma>
       (checked \<Theta> ret \<Gamma> (Statement (S_For fo) sp))"
proof (induction st and k and f and i and w and fo)
  case (S_Export st)
  show ?case
  proof (intro allI)
    fix \<Gamma> sp
    have "changes \<Theta> ret (analyze_statement st) \<Gamma> (checked \<Theta> ret \<Gamma> (Statement (S_Export st) sp))"
      by (rule changes_weaken [OF S_Export [rule_format]]) (rule c_export)
    then show "changes \<Theta> ret (analyze_statement (Statement (S_Export st) sp)) \<Gamma>
        (checked \<Theta> ret \<Gamma> (Statement (S_Export st) sp))" by (rule changes_cong [rotated]) simp
  qed
next
  case (S_Variable var)
  show ?case using changes_variable by (auto intro: changes_cong [rotated])
next
  case (S_Return val)
  show ?case using changes_return by (auto intro: changes_cong [rotated])
next
  case (S_Throw e)
  show ?case
    by (intro allI changes_cong [OF analyze_statement.simps(3)] changes_weaken [OF changes_infer])
      (auto intro: c_throw)
next
  case (S_Expression e)
  show ?case
    by (intro allI changes_cong [OF analyze_statement.simps(4)] changes_weaken [OF changes_infer])
      (auto intro: c_expression)
next
  case (S_Block sts)
  have sts: "changes \<Theta> ret (analyze_statements sts) \<Gamma> (checked_list \<Theta> ret \<Gamma> sts)" for \<Gamma>
    by (rule changes_statements) (simp add: S_Block)
  show ?case
  proof (intro allI)
    fix \<Gamma> sp
    have push: "changes \<Theta> ret push_scope \<Gamma> (\<lambda>\<Gamma>'. \<Gamma>' = Map.empty # \<Gamma>)" by (rule changes_push) simp
    have body: "changes \<Theta> ret (\<lambda>a. analyze_statements sts (push_scope a)) \<Gamma>
        (checked_list \<Theta> ret (Map.empty # \<Gamma>) sts)"
      by (rule changes_then [OF push], rule changes_weaken [OF sts]) blast
    have "changes \<Theta> ret (\<lambda>a. pop_scope (analyze_statements sts (push_scope a))) \<Gamma>
        (checked \<Theta> ret \<Gamma> (Statement (S_Block sts) sp))"
      by (rule changes_then [OF body], rule changes_pop) (auto intro: c_block)
    then show "changes \<Theta> ret (analyze_statement (Statement (S_Block sts) sp)) \<Gamma>
        (checked \<Theta> ret \<Gamma> (Statement (S_Block sts) sp))" by (rule changes_cong [rotated]) simp
  qed
next
  case (If_Statement test st alternate)
  show ?case
  proof (intro allI)
    fix \<Gamma> sp
    have first: "changes \<Theta> ret (\<lambda>a. analyze_statement st (fst (infer_expression test a))) \<Gamma>
        (\<lambda>\<Gamma>'. (\<exists>t. typed \<Gamma> test t) \<and> checked \<Theta> ret \<Gamma> st \<Gamma>')"
      by (rule changes_then [OF changes_infer], rule changes_weaken [OF If_Statement(1) [rule_format]]) auto
    show "changes \<Theta> ret (analyze_statement (Statement (S_If (If_Statement test st alternate)) sp)) \<Gamma>
        (checked \<Theta> ret \<Gamma> (Statement (S_If (If_Statement test st alternate)) sp))"
    proof (cases alternate)
      case None
      then show ?thesis
        by (intro changes_cong [OF analyze_statement.simps(5)])
          (auto simp: Let_def intro: changes_weaken [OF first] c_if)
    next
      case (Some st2)
      have st2: "changes \<Theta> ret (analyze_statement st2) \<Gamma>' (checked \<Theta> ret \<Gamma>' st2)" for \<Gamma>'
        using If_Statement(2) Some by simp
      have "changes \<Theta> ret (\<lambda>a. analyze_statement st2 (analyze_statement st (fst (infer_expression test a)))) \<Gamma>
          (checked \<Theta> ret \<Gamma> (Statement (S_If (If_Statement test st (Some st2))) sp))"
        by (rule changes_then [OF first], rule changes_weaken [OF st2]) (auto intro: c_if_else)
      with Some show ?thesis
        by (intro changes_cong [OF analyze_statement.simps(5)]) (simp add: Let_def)
    qed
  qed
next
  case (While_Statement test st)
  show ?case
  proof (intro allI)
    fix \<Gamma> sp
    show "changes \<Theta> ret (analyze_statement (Statement (S_While (While_Statement test st)) sp)) \<Gamma>
        (checked \<Theta> ret \<Gamma> (Statement (S_While (While_Statement test st)) sp))"
      by (rule changes_cong [OF analyze_statement.simps(6)], rule changes_then [OF changes_infer],
          rule changes_weaken [OF While_Statement [rule_format]]) (auto intro: c_while)
  qed
next
  case (For_Statement initializer test update st)
  show ?case
  proof (intro allI)
    fix \<Gamma> sp
    let ?init = "\<lambda>a. case initializer of None \<Rightarrow> push_scope a | Some st \<Rightarrow> analyze_statement st (push_scope a)"
    let ?P = "\<lambda>\<Gamma>1. case initializer of
        None \<Rightarrow> \<Gamma>1 = Map.empty # \<Gamma> | Some st \<Rightarrow> checked \<Theta> ret (Map.empty # \<Gamma>) st \<Gamma>1"
    have init: "changes \<Theta> ret ?init \<Gamma> ?P"
    proof (cases initializer)
      case None
      then show ?thesis by (simp add: changes_push)
    next
      case (Some st)
      have "changes \<Theta> ret (analyze_statement st) \<Gamma>' (checked \<Theta> ret \<Gamma>' st)" for \<Gamma>'
        using For_Statement(1) Some by simp
      with Some show ?thesis
        by (auto intro: changes_then [where P = "\<lambda>\<Gamma>'. \<Gamma>' = Map.empty # \<Gamma>", OF changes_push] changes_weaken)
    qed
    let ?Q = "\<lambda>\<Gamma>1. ?P \<Gamma>1 \<and> pred_option (\<lambda>e. \<exists>t. typed \<Gamma>1 e t) test"
    have tested: "changes \<Theta> ret (\<lambda>a. infer_option test (?init a)) \<Gamma> ?Q"
      by (rule changes_then [OF init], rule changes_weaken [OF changes_infer_option]) auto
    let ?R = "\<lambda>\<Gamma>1. ?Q \<Gamma>1 \<and> pred_option (\<lambda>e. \<exists>t. typed \<Gamma>1 e t) update"
    have updated: "changes \<Theta> ret (\<lambda>a. infer_option update (infer_option test (?init a))) \<Gamma> ?R"
      by (rule changes_then [OF tested], rule changes_weaken [OF changes_infer_option]) auto
    let ?S = "\<lambda>\<Gamma>2. \<exists>\<Gamma>1. ?R \<Gamma>1 \<and> checked \<Theta> ret \<Gamma>1 st \<Gamma>2"
    have body: "changes \<Theta> ret (\<lambda>a. analyze_statement st (infer_option update (infer_option test (?init a)))) \<Gamma> ?S"
      by (rule changes_then [OF updated], rule changes_weaken [OF For_Statement(2) [rule_format]]) blast
    have "changes \<Theta> ret (\<lambda>a. pop_scope (analyze_statement st (infer_option update (infer_option test (?init a))))) \<Gamma>
        (checked \<Theta> ret \<Gamma> (Statement (S_For (For_Statement initializer test update st)) sp))"
      by (rule changes_then [OF body], rule changes_pop)
        (cases initializer, auto intro: c_for c_for_init)
    then show "changes \<Theta> ret (analyze_statement (Statement (S_For (For_Statement initializer test update st)) sp)) \<Gamma>
        (checked \<Theta> ret \<Gamma> (Statement (S_For (For_Statement initializer test update st)) sp))"
      by (rule changes_cong [rotated]) (simp add: Let_def)
  qed
qed (auto intro: changes_cong [rotated, OF changes_skip] checked_checked_list.intros)

lemma analyze_statement_leads:
  "checked \<Theta> ret \<Gamma> st \<Gamma>' \<Longrightarrow> leads \<Theta> ret (analyze_statement st) \<Gamma> \<Gamma>'"
  "checked_list \<Theta> ret \<Gamma> sts \<Gamma>' \<Longrightarrow> leads \<Theta> ret (analyze_statements sts) \<Gamma> \<Gamma>'"
proof (induction rule: checked_checked_list.inducts)
  case (c_variable \<Gamma> var initial \<Gamma>' sp)
  then show ?case by (intro leads_cong [OF analyze_statement.simps(1)] leads_variable)
next
  case (c_return \<Gamma> val t sp)
  then show ?case by (intro leads_cong [OF analyze_statement.simps(2)] leads_return)
next
  case (c_throw \<Gamma> e t sp)
  then show ?case by (intro leads_cong [OF analyze_statement.simps(3)] leads_infer)
next
  case (c_expression \<Gamma> e t sp)
  then show ?case by (intro leads_cong [OF analyze_statement.simps(4)] leads_infer)
next
  case (c_if \<Gamma> test t st \<Gamma>' sp)
  have "leads \<Theta> ret (\<lambda>a. analyze_statement st (fst (infer_expression test a))) \<Gamma> \<Gamma>'"
    by (rule leads_then [OF leads_infer [OF c_if(1)] c_if(3)])
  then show ?case by (rule leads_cong [rotated]) simp
next
  case (c_if_else \<Gamma> test t st1 \<Gamma>1 st2 \<Gamma>2 sp)
  have "leads \<Theta> ret (\<lambda>a. analyze_statement st2 (analyze_statement st1 (fst (infer_expression test a)))) \<Gamma> \<Gamma>2"
    by (rule leads_then [OF leads_then [OF leads_infer [OF c_if_else(1)] c_if_else(3)] c_if_else(5)])
  then show ?case by (rule leads_cong [rotated]) simp
next
  case (c_while \<Gamma> test t st \<Gamma>' sp)
  show ?case
    by (rule leads_cong [OF analyze_statement.simps(6)],
        rule leads_then [OF leads_infer [OF c_while(1)] c_while(3)])
next
  case (c_for \<Gamma> test update st \<Gamma>' sp)
  have "leads \<Theta> ret (\<lambda>a. pop_scope (analyze_statement st (infer_option update (infer_option test (push_scope a)))))
      \<Gamma> (tl \<Gamma>')"
    by (rule leads_then [OF leads_then [OF leads_then [OF leads_then [OF leads_push
          leads_infer_option [OF c_for(1)]] leads_infer_option [OF c_for(2)]] c_for(4)] leads_pop])
  then show ?case by (rule leads_cong [rotated]) (simp add: Let_def)
next
  case (c_for_init \<Gamma> st1 \<Gamma>1 test update st \<Gamma>' sp)
  have "leads \<Theta> ret (\<lambda>a. pop_scope (analyze_statement st (infer_option update
        (infer_option test (analyze_statement st1 (push_scope a)))))) \<Gamma> (tl \<Gamma>')"
    by (rule leads_then [OF leads_then [OF leads_then [OF leads_then [OF leads_then [OF leads_push
          c_for_init.IH(2)] leads_infer_option [OF c_for_init.hyps(1)]]
          leads_infer_option [OF c_for_init.hyps(2)]] c_for_init.IH(4)] leads_pop])
  then show ?case by (rule leads_cong [rotated]) (simp add: Let_def)
next
  case (c_block \<Gamma> sts \<Gamma>' sp)
  show ?case
    by (rule leads_cong [OF analyze_statement.simps(8)],
        rule leads_then [OF leads_then [OF leads_push c_block(2)] leads_pop])
next
  case (c_export \<Gamma> st \<Gamma>' sp)
  from c_export(2) show ?case by (rule leads_cong [rotated]) simp
next
  case (c_cons \<Gamma> st \<Gamma>1 sts \<Gamma>2)
  from leads_then [OF c_cons(2,4)] show ?case by (rule leads_cong [rotated]) simp
qed (auto intro: leads_cong [rotated, OF leads_skip])

section \<open>Programs\<close>

text \<open>The top-level symbols: declared types, the scopes and the functions to check.\<close>

type_synonym symbols = "type_env \<times> scopes \<times> function_binding list"

inductive declares :: "symbols \<Rightarrow> statement \<Rightarrow> symbols \<Rightarrow> bool" where
  d_interface: "list_all (known_member \<Theta>) (if_members d) \<Longrightarrow> \<Theta> (if_name d) = None \<Longrightarrow>
    declares (\<Theta>, \<Gamma>, fs) (Statement (S_Interface d) sp)
      (\<Theta>(if_name d \<mapsto> Ty_Object (hash_collect (map (member_entry \<Theta>) (if_members d)))), \<Gamma>, fs)"
| d_alias: "known_type \<Theta> (ta_ty d) \<Longrightarrow> \<Theta> (ta_name d) = None \<Longrightarrow>
    declares (\<Theta>, \<Gamma>, fs) (Statement (S_TypeAlias d) sp) (\<Theta>(ta_name d \<mapsto> node_type \<Theta> (ta_ty d)), \<Gamma>, fs)"
| d_class: "list_all (\<lambda>m. pred_option (known_type \<Theta>) (cm_ty m)) (cl_members d) \<Longrightarrow>
    \<Theta> (cl_name d) = None \<Longrightarrow>
    declares (\<Theta>, \<Gamma>, fs) (Statement (S_Class d) sp)
      (\<Theta>(cl_name d \<mapsto> Ty_Object (hash_collect
         (map (\<lambda>m. (cm_name m, annotated Ty_Unknown \<Theta> (cm_ty m))) (cl_members d)))), \<Gamma>, fs)"
| d_function: "list_all (\<lambda>p. pred_option (known_type \<Theta>) (pa_ty p)) (fd_params f) \<Longrightarrow>
    pred_option (known_type \<Theta>) (fd_return_type f) \<Longrightarrow>
    bound \<Gamma> (fd_name f) (Ty_Function (map (annotated Ty_Unknown \<Theta> \<circ> pa_ty) (fd_params f))
      (annotated Ty_Undefined \<Theta> (fd_return_type f)) False) \<Gamma>' \<Longrightarrow>
    declares (\<Theta>, \<Gamma>, fs) (Statement (S_Function f) sp)
      (\<Theta>, \<Gamma>', fs @ [\<lparr>fb_declaration = f, fb_statement_span = sp\<rparr>])"
| d_export: "declares S st S' \<Longrightarrow> declares S (Statement (S_Export st) sp) S'"
| d_other: "(case k of S_Interface _ \<Rightarrow> False | S_TypeAlias _ \<Rightarrow> False | S_Class _ \<Rightarrow> False
      | S_Function _ \<Rightarrow> False | S_Export _ \<Rightarrow> False | _ \<Rightarrow> True) \<Longrightarrow>
    declares S (Statement k sp) S"

inductive_simps declares_simps:
  "declares S (Statement (S_Interface d) sp) S'" "declares S (Statement (S_TypeAlias d) sp) S'"
  "declares S (Statement (S_Class d) sp) S'" "declares S (Statement (S_Function f) sp) S'"
  "declares S (Statement (S_Export st) sp) S'"

inductive_simps declares_other_simps:
  "declares S (Statement (S_Import i) sp) S'" "declares S (Statement (S_Variable v) sp) S'"
  "declares S (Statement (S_Return r) sp) S'" "declares S (Statement (S_Throw e) sp) S'"
  "declares S (Statement (S_If c) sp) S'" "declares S (Statement (S_While w) sp) S'"
  "declares S (Statement (S_For l) sp) S'" "declares S (Statement (S_Block sts) sp) S'"
  "declares S (Statement (S_Expression e) sp) S'" "declares S (Statement S_Empty sp) S'"
  "declares S (Statement S_Error sp) S'"

fun declares_all :: "symbols \<Rightarrow> statement list \<Rightarrow> symbols \<Rightarrow> bool" where
  "declares_all S [] S' = (S' = S)"
| "declares_all S (st # sts) S' = (\<exists>S1. declares S st S1 \<and> declares_all S1 sts S')"

fun parameters_bound :: "type_env \<Rightarrow> scopes \<Rightarrow> parameter list \<Rightarrow> scopes \<Rightarrow> bool" where
  "parameters_bound \<Theta> \<Gamma> [] \<Gamma>' = (\<Gamma>' = \<Gamma>)"
| "parameters_bound \<Theta> \<Gamma> (p # ps) \<Gamma>' =
     (\<exists>\<Gamma>1. pred_option (known_type \<Theta>) (pa_ty p) \<and>
        bound \<Gamma> (pa_name p) (annotated Ty_Unknown \<Theta> (pa_ty p)) \<Gamma>1 \<and> parameters_bound \<Theta> \<Gamma>1 ps \<Gamma>')"

definition function_typed :: "type_env \<Rightarrow> scopes \<Rightarrow> function_binding \<Rightarrow> bool" where
  "function_typed \<Theta> \<Gamma> b \<longleftrightarrow>
     (let f = fb_declaration b in
      pred_option (known_type \<Theta>) (fd_return_type f) \<and> fd_body f \<noteq> [] \<and>
      (\<exists>\<Gamma>1 \<Gamma>2. parameters_bound \<Theta> (Map.empty # \<Gamma>) (fd_params f) \<Gamma>1 \<and>
         checked_list \<Theta> (Some (annotated Ty_Undefined \<Theta> (fd_return_type f))) \<Gamma>1 (fd_body f) \<Gamma>2))"

definition builtin_scope :: "string \<rightharpoonup> ty" where
  "builtin_scope = [''console'' \<mapsto> Ty_Object [(''log'', Ty_Function [] Ty_Undefined True)]]"

text \<open>The programs of the type system.\<close>

definition program_typed :: "program \<Rightarrow> bool" where
  "program_typed pg \<longleftrightarrow>
     (\<exists>\<Theta> \<Gamma> fs \<Gamma>'. declares_all (Map.empty, [builtin_scope], []) (pg_body pg) (\<Theta>, \<Gamma>, fs) \<and>
        list_all (function_typed \<Theta> \<Gamma>) fs \<and>
        checked_list \<Theta> None \<Gamma> (filter (\<lambda>st. \<not> is_function_statement st) (pg_body pg)) \<Gamma>')"

definition symbols_of :: "analyzer \<Rightarrow> symbols" where
  "symbols_of a = (an_type_bindings a, an_scopes a, an_functions a)"

text \<open>
  \<open>enters a b R\<close>: from \<open>a\<close> to \<open>b\<close> only symbols and reports are added, and it is quiet exactly if the
  symbols are related by \<open>R\<close>, which then fixes them.
\<close>

definition enters :: "analyzer \<Rightarrow> analyzer \<Rightarrow> (symbols \<Rightarrow> symbols \<Rightarrow> bool) \<Rightarrow> bool" where
  "enters a b R \<longleftrightarrow>
     an_order b = an_order a \<and> an_current_return b = an_current_return a \<and> grows a b \<and>
     (quiet a b \<longrightarrow> R (symbols_of a) (symbols_of b)) \<and>
     (\<forall>S. R (symbols_of a) S \<longrightarrow> quiet a b \<and> symbols_of b = S)"

lemma enters_cong:
  "enters a b R \<Longrightarrow> (\<And>S. R (symbols_of a) S \<longleftrightarrow> Q (symbols_of a) S) \<Longrightarrow> enters a b Q"
  by (simp add: enters_def)

lemma enters_define_type:
  fixes a :: analyzer
  assumes "same_scopes a a1" and "grows a a1" and "quiet a a1 \<longleftrightarrow> P"
  shows "enters a (define_type name t kind sp a1)
    (\<lambda>(\<Theta>, \<Gamma>, fs) S. P \<and> \<Theta> name = None \<and> S = (\<Theta>(name \<mapsto> t), \<Gamma>, fs))"
proof (cases "an_type_bindings a name")
  case None
  with assms show ?thesis
    by (auto simp: enters_def define_type_def symbols_of_def same_scopes_def grows_def quiet_def)
next
  case (Some u)
  then have "define_type name t kind sp a1 = sem_report DuplicateSymbol (quoted ''duplicate type '' name) sp a1"
    using assms(1) by (simp add: define_type_def same_scopes_def)
  with Some assms show ?thesis
    by (auto simp: enters_def symbols_of_def same_scopes_def grows_def quiet_def sem_report_def)
qed

lemma enters_function:
  fixes a :: analyzer
  shows "enters a (collect_function f sp True a) (\<lambda>S. declares S (Statement (S_Function f) sp))"
proof -
  obtain a1 params where a1: "resolve_params (fd_params f) a = (a1, params)" by fastforce
  obtain a2 t where a2: "resolve_or Ty_Undefined (fd_return_type f) a1 = (a2, t)" by fastforce
  note r1 = resolvesD [OF resolve_params_resolves a1] and r2 = resolvesD [OF annotation_resolves a2]
  let ?b = "bind_value (fd_name f) (Ty_Function params t False) SK_Function (Some sp) a2"
  note b = bind_value_bound [where a = a2 and name = "fd_name f" and t = "Ty_Function params t False"
      and kind = SK_Function and sp = sp]
  have run: "collect_function f sp True a =
      ?b\<lparr>an_functions := an_functions ?b @ [\<lparr>fb_declaration = f, fb_statement_span = sp\<rparr>]\<rparr>"
    by (simp add: collect_function_def a1 a2 Let_def)
  have same: "same_scopes a a2" by (rule same_scopes_trans [OF r1(2) r2(2)])
  have "an_type_bindings a1 = an_type_bindings a" using r1(2) by (simp add: same_scopes_def)
  with quiet_split [OF r1(3) r2(3)] r1(1,4) r2(1,4) have
    q: "quiet a a2 \<longleftrightarrow> list_all (\<lambda>p. pred_option (known_type (an_type_bindings a)) (pa_ty p)) (fd_params f) \<and>
        pred_option (known_type (an_type_bindings a)) (fd_return_type f)"
    and t: "params = map (annotated Ty_Unknown (an_type_bindings a) \<circ> pa_ty) (fd_params f)"
      "t = annotated Ty_Undefined (an_type_bindings a) (fd_return_type f)" by simp_all
  have g: "grows a a2" by (rule grows_trans [OF r1(3) r2(3)])
  have frame: "an_order ?b = an_order a" "an_current_return ?b = an_current_return a"
    "an_type_bindings ?b = an_type_bindings a" "an_functions ?b = an_functions a" "an_scopes a2 = an_scopes a"
    using b(1) same by (simp_all add: same_frame_def same_scopes_def)
  have grow: "grows a (collect_function f sp True a)"
    "quiet a (collect_function f sp True a) \<longleftrightarrow> quiet a a2 \<and> quiet a2 ?b"
    using grows_trans [OF g b(2)] quiet_split [OF g b(2)] unfolding run by (simp_all add: grows_def quiet_def)
  have "declares (symbols_of a) (Statement (S_Function f) sp) (symbols_of (collect_function f sp True a))"
    if "quiet a (collect_function f sp True a)"
    using that grow(2) q b(3) frame t unfolding run by (auto simp: symbols_of_def intro: d_function)
  moreover have "quiet a (collect_function f sp True a) \<and> symbols_of (collect_function f sp True a) = S"
    if "declares (symbols_of a) (Statement (S_Function f) sp) S" for S
    using that grow(2) q b(4) frame t unfolding run
    by (auto simp: symbols_of_def declares_simps)
  ultimately show ?thesis using grow(1) frame by (simp add: enters_def run)
qed

lemma enters_same: "enters a a (\<lambda>S S'. S' = S)"
  by (simp add: enters_def)

lemma enters_symbol: "enters a (collect_statement_symbol st True a) (\<lambda>S. declares S st)"
proof (induction st "True" a rule: collect_statement_symbol.induct)
  case (1 d sp a)
  obtain a1 fds where a1: "resolve_members (if_members d) a = (a1, fds)" by fastforce
  note r = resolvesD [OF resolve_members_resolves a1]
  from enters_define_type [OF r(2-4), of "if_name d" "Ty_Object (hash_collect fds)" SK_Interface sp]
  have "enters a (define_type (if_name d) (Ty_Object (hash_collect fds)) SK_Interface sp a1)
      (\<lambda>S. declares S (Statement (S_Interface d) sp))"
    by (rule enters_cong) (auto simp: symbols_of_def declares_simps r(1))
  then show ?case by (simp add: a1)
next
  case (2 d sp a)
  obtain a1 t where a1: "resolve_type_node (ta_ty d) a = (a1, t)" by fastforce
  note r = resolvesD [OF resolve_type_node_resolves(1) a1]
  from enters_define_type [OF r(2-4), of "ta_name d" t SK_TypeAlias sp]
  have "enters a (define_type (ta_name d) t SK_TypeAlias sp a1)
      (\<lambda>S. declares S (Statement (S_TypeAlias d) sp))"
    by (rule enters_cong) (auto simp: symbols_of_def declares_simps r(1))
  then show ?case by (simp add: a1)
next
  case (3 d sp a)
  obtain a1 fds where a1: "resolve_class_members (cl_members d) a = (a1, fds)" by fastforce
  note r = resolvesD [OF resolve_class_members_resolves a1]
  from enters_define_type [OF r(2-4), of "cl_name d" "Ty_Object (hash_collect fds)" SK_Class sp]
  have "enters a (define_type (cl_name d) (Ty_Object (hash_collect fds)) SK_Class sp a1)
      (\<lambda>S. declares S (Statement (S_Class d) sp))"
    by (rule enters_cong) (auto simp: symbols_of_def declares_simps r(1))
  then show ?case by (simp add: a1)
next
  case (4 f sp a)
  show ?case using enters_function by simp
next
  case (5 inner sp a)
  then show ?case by (simp add: enters_def declares_simps)
qed (simp_all add: enters_def declares_other_simps)

lemma enters_then:
  assumes ab: "enters a b R" and bc: "enters b c Q"
  shows "enters a c (\<lambda>S S'. \<exists>S1. R S S1 \<and> Q S1 S')"
proof -
  from ab bc have g: "grows a b" "grows b c" by (auto simp: enters_def)
  note q = quiet_split [OF g]
  have "\<exists>S1. R (symbols_of a) S1 \<and> Q S1 (symbols_of c)" if "quiet a c"
    using that q ab bc unfolding enters_def by blast
  moreover have "quiet a c \<and> symbols_of c = S" if R: "R (symbols_of a) S1" and Q: "Q S1 S" for S S1
  proof -
    from ab R have ab': "quiet a b" "symbols_of b = S1" unfolding enters_def by blast+
    with bc Q have "quiet b c" "symbols_of c = S" unfolding enters_def by blast+
    with ab' q show ?thesis by blast
  qed
  ultimately show ?thesis using ab bc grows_trans [OF g] unfolding enters_def by auto
qed

lemma enters_all:
  "enters a (fold (\<lambda>st. collect_statement_symbol st True) sts a) (\<lambda>S. declares_all S sts)"
proof (induction sts arbitrary: a)
  case Nil
  show ?case by (simp add: enters_def)
next
  case (Cons st sts)
  from enters_then [OF enters_symbol [of a st] Cons] show ?case by simp
qed

lemma parameters_changes:
  "changes \<Theta> ret (fold define_param ps) \<Gamma> (parameters_bound \<Theta> \<Gamma> ps)"
proof (induction ps arbitrary: \<Gamma>)
  case Nil
  show ?case using changes_skip by (simp add: id_def)
next
  case (Cons p ps)
  have "changes \<Theta> ret (define_param p) \<Gamma> (\<lambda>\<Gamma>1. pred_option (known_type \<Theta>) (pa_ty p) \<and>
      bound \<Gamma> (pa_name p) (annotated Ty_Unknown \<Theta> (pa_ty p)) \<Gamma>1)"
    unfolding changes_def
  proof (intro allI impI)
    fix a :: analyzer assume a: "starts \<Theta> ret \<Gamma> a"
    obtain a1 t where a1: "resolve_or Ty_Unknown (pa_ty p) a = (a1, t)" by fastforce
    note r = resolvesD [OF annotation_resolves a1]
    note b = bind_value_bound(1-3) [where a = a1 and name = "pa_name p" and t = t and
        kind = SK_Variable and sp = "pa_span p"]
    have "an_scopes a1 = \<Gamma>" using r(2) a by (simp add: same_scopes_def starts_def)
    moreover have "an_type_bindings a = \<Theta>" using a by (simp add: starts_def)
    ultimately show "same_frame a (define_param p a) \<and> grows a (define_param p a) \<and>
      (quiet a (define_param p a) \<longrightarrow> pred_option (known_type \<Theta>) (pa_ty p) \<and>
         bound \<Gamma> (pa_name p) (annotated Ty_Unknown \<Theta> (pa_ty p)) (an_scopes (define_param p a)))"
      using same_frame_trans [OF same_scopes_frame [OF r(2)] b(1)] grows_trans [OF r(3) b(2)]
        quiet_split [OF r(3) b(2)] r(1,4) b(3) by (auto simp: define_param_def a1)
  qed
  then have "changes \<Theta> ret (\<lambda>a. fold define_param ps (define_param p a)) \<Gamma> (parameters_bound \<Theta> \<Gamma> (p # ps))"
    by (rule changes_then, intro changes_weaken [OF Cons]) auto
  then show ?case by (simp add: comp_def del: parameters_bound.simps)
qed

lemma parameters_leads:
  "parameters_bound \<Theta> \<Gamma> ps \<Gamma>' \<Longrightarrow> leads \<Theta> ret (fold define_param ps) \<Gamma> \<Gamma>'"
proof (induction ps arbitrary: \<Gamma>)
  case Nil
  then show ?case using leads_skip by (simp add: id_def)
next
  case (Cons p ps)
  then obtain \<Gamma>1 where p: "pred_option (known_type \<Theta>) (pa_ty p)"
    "bound \<Gamma> (pa_name p) (annotated Ty_Unknown \<Theta> (pa_ty p)) \<Gamma>1" and ps: "parameters_bound \<Theta> \<Gamma>1 ps \<Gamma>'"
    by auto
  have "leads \<Theta> ret (define_param p) \<Gamma> \<Gamma>1"
    unfolding leads_def
  proof (intro allI impI)
    fix a :: analyzer assume a: "starts \<Theta> ret \<Gamma> a"
    obtain a1 t where a1: "resolve_or Ty_Unknown (pa_ty p) a = (a1, t)" by fastforce
    note r = resolvesD [OF annotation_resolves a1]
    note b = bind_value_bound(1,4) [where a = a1 and name = "pa_name p" and t = t and
        kind = SK_Variable and sp = "pa_span p"]
    have "an_scopes a1 = \<Gamma>" using r(2) a by (simp add: same_scopes_def starts_def)
    moreover have "an_type_bindings a = \<Theta>" using a by (simp add: starts_def)
    ultimately show "same_frame a (define_param p a) \<and> quiet a (define_param p a) \<and>
        an_scopes (define_param p a) = \<Gamma>1"
      using same_frame_trans [OF same_scopes_frame [OF r(2)] b(1)] p r(1,4) b(2)
      by (auto simp: define_param_def a1 intro: quiet_trans)
  qed
  then have "leads \<Theta> ret (\<lambda>a. fold define_param ps (define_param p a)) \<Gamma> \<Gamma>'"
    by (rule leads_then) (rule Cons.IH [OF ps])
  then show ?case by (simp add: comp_def)
qed

lemma parameters_bound_tl: "parameters_bound \<Theta> \<Gamma> ps \<Gamma>' \<Longrightarrow> tl \<Gamma>' = tl \<Gamma>"
  by (induction ps arbitrary: \<Gamma>) (auto dest: bound_tl)

text \<open>The parameters and the body of a function, in a scope of their own.\<close>

definition body_typed :: "type_env \<Rightarrow> scopes \<Rightarrow> function_declaration \<Rightarrow> ty \<Rightarrow> scopes \<Rightarrow> bool" where
  "body_typed \<Theta> \<Gamma> f t \<Gamma>2 \<longleftrightarrow>
     (\<exists>\<Gamma>1. parameters_bound \<Theta> (Map.empty # \<Gamma>) (fd_params f) \<Gamma>1 \<and>
        checked_list \<Theta> (Some t) \<Gamma>1 (fd_body f) \<Gamma>2)"

lemma body_changes:
  "changes \<Theta> (Some t) (\<lambda>a. analyze_statements (fd_body f) (fold define_param (fd_params f) (push_scope a))) \<Gamma>
     (body_typed \<Theta> \<Gamma> f t)"
proof -
  have push: "changes \<Theta> (Some t) push_scope \<Gamma> (\<lambda>\<Gamma>'. \<Gamma>' = Map.empty # \<Gamma>)" by (rule changes_push) simp
  have params: "changes \<Theta> (Some t) (\<lambda>a. fold define_param (fd_params f) (push_scope a)) \<Gamma>
      (parameters_bound \<Theta> (Map.empty # \<Gamma>) (fd_params f))"
    by (rule changes_then [OF push], rule changes_weaken [OF parameters_changes]) blast
  show ?thesis
    by (rule changes_then [OF params], rule changes_weaken [OF changes_statements])
      (auto simp: body_typed_def analyze_statement_changes(1))
qed

lemma body_leads:
  assumes "body_typed \<Theta> \<Gamma> f t \<Gamma>2"
  shows "leads \<Theta> (Some t) (\<lambda>a. analyze_statements (fd_body f) (fold define_param (fd_params f) (push_scope a))) \<Gamma> \<Gamma>2"
proof -
  from assms obtain \<Gamma>1 where "parameters_bound \<Theta> (Map.empty # \<Gamma>) (fd_params f) \<Gamma>1"
    "checked_list \<Theta> (Some t) \<Gamma>1 (fd_body f) \<Gamma>2" by (auto simp: body_typed_def)
  then show ?thesis
    by (intro leads_then [OF leads_then [OF leads_push parameters_leads] analyze_statement_leads(2)])
qed

lemma body_typed_tl: "body_typed \<Theta> \<Gamma> f t \<Gamma>2 \<Longrightarrow> tl \<Gamma>2 = \<Gamma>"
  by (auto simp: body_typed_def dest!: parameters_bound_tl checked_tl(2))

lemma function_typed_body:
  "function_typed \<Theta> \<Gamma> b \<longleftrightarrow>
     pred_option (known_type \<Theta>) (fd_return_type (fb_declaration b)) \<and> fd_body (fb_declaration b) \<noteq> [] \<and>
     (\<exists>\<Gamma>2. body_typed \<Theta> \<Gamma> (fb_declaration b) (annotated Ty_Undefined \<Theta> (fd_return_type (fb_declaration b))) \<Gamma>2)"
  by (auto simp: function_typed_def body_typed_def Let_def)

text \<open>The steps of \<open>analyze_function_body\<close>: the return type, the body, and the empty body.\<close>

lemma function_body_steps:
  fixes a :: analyzer and b :: function_binding
  assumes a: "starts \<Theta> ret \<Gamma> a"
  defines "f \<equiv> fb_declaration b" and "t \<equiv> annotated Ty_Undefined \<Theta> (fd_return_type (fb_declaration b))"
  obtains a1 where "same_scopes a a1" "grows a a1"
    "quiet a a1 \<longleftrightarrow> pred_option (known_type \<Theta>) (fd_return_type f)"
    "starts \<Theta> (Some t) \<Gamma> (a1\<lparr>an_current_return := Some t\<rparr>)"
    "analyze_function_body b a =
       (let c = analyze_statements (fd_body f) (fold define_param (fd_params f)
              (push_scope (a1\<lparr>an_current_return := Some t\<rparr>)));
            d = (pop_scope c)\<lparr>an_current_return := ret\<rparr>
        in if fd_body f = [] then sem_report ReturnTypeMismatch ''function body is empty'' (fb_statement_span b) d
           else d)"
proof -
  obtain a1 u where a1: "resolve_or Ty_Undefined (fd_return_type f) a = (a1, u)" by fastforce
  note r = resolvesD [OF annotation_resolves a1]
  have \<Theta>: "an_type_bindings a = \<Theta>" and ret: "an_current_return a = ret" using a by (simp_all add: starts_def)
  have u: "u = t" using r(1) \<Theta> by (simp add: t_def f_def)
  show thesis
  proof (rule that [of a1])
    show "starts \<Theta> (Some t) \<Gamma> (a1\<lparr>an_current_return := Some t\<rparr>)"
      using r(2) a by (simp add: starts_def same_scopes_def)
    have "an_current_return a1 = ret" using r(2) ret by (simp add: same_scopes_def)
    with a1 show "analyze_function_body b a =
       (let c = analyze_statements (fd_body f) (fold define_param (fd_params f)
              (push_scope (a1\<lparr>an_current_return := Some t\<rparr>)));
            d = (pop_scope c)\<lparr>an_current_return := ret\<rparr>
        in if fd_body f = [] then sem_report ReturnTypeMismatch ''function body is empty'' (fb_statement_span b) d
           else d)"
      by (simp add: analyze_function_body_def Let_def f_def u)
  qed (use r \<Theta> in simp_all)
qed

lemma grows_return: "grows a (c\<lparr>an_current_return := r\<rparr>) \<longleftrightarrow> grows a c"
  "quiet a (c\<lparr>an_current_return := r\<rparr>) \<longleftrightarrow> quiet a c"
  "grows (c\<lparr>an_current_return := r\<rparr>) a \<longleftrightarrow> grows c a"
  "quiet (c\<lparr>an_current_return := r\<rparr>) a \<longleftrightarrow> quiet c a"
  by (simp_all add: grows_def quiet_def)

lemma grows_pop: "grows a (pop_scope c) \<longleftrightarrow> grows a c" "quiet a (pop_scope c) \<longleftrightarrow> quiet a c"
  by (simp_all add: grows_def quiet_def pop_scope_def)

lemma function_body_changes:
  "changes \<Theta> ret (analyze_function_body b) \<Gamma> (\<lambda>\<Gamma>'. \<Gamma>' = \<Gamma> \<and> function_typed \<Theta> \<Gamma> b)"
  unfolding changes_def
proof (intro allI impI)
  fix a :: analyzer assume a: "starts \<Theta> ret \<Gamma> a"
  let ?f = "fb_declaration b" and ?t = "annotated Ty_Undefined \<Theta> (fd_return_type (fb_declaration b))"
  obtain a1 where a1: "same_scopes a a1" "grows a a1"
    "quiet a a1 \<longleftrightarrow> pred_option (known_type \<Theta>) (fd_return_type ?f)"
    "starts \<Theta> (Some ?t) \<Gamma> (a1\<lparr>an_current_return := Some ?t\<rparr>)"
    and run: "analyze_function_body b a =
       (let c = analyze_statements (fd_body ?f) (fold define_param (fd_params ?f)
              (push_scope (a1\<lparr>an_current_return := Some ?t\<rparr>)));
            d = (pop_scope c)\<lparr>an_current_return := ret\<rparr>
        in if fd_body ?f = [] then sem_report ReturnTypeMismatch ''function body is empty'' (fb_statement_span b) d
           else d)"
    using function_body_steps [OF a] by metis
  define c where "c = analyze_statements (fd_body ?f) (fold define_param (fd_params ?f)
              (push_scope (a1\<lparr>an_current_return := Some ?t\<rparr>)))"
  define d where "d = (pop_scope c)\<lparr>an_current_return := ret\<rparr>"
  from body_changes [of \<Theta> ?t ?f \<Gamma>] a1(4) have c: "same_frame (a1\<lparr>an_current_return := Some ?t\<rparr>) c"
    "grows a1 c" "quiet a1 c \<longrightarrow> body_typed \<Theta> \<Gamma> ?f ?t (an_scopes c)"
    unfolding changes_def c_def by (auto simp: grows_return)
  have ret: "an_current_return a = ret" using a by (simp add: starts_def)
  have d: "same_frame a d" "grows a d"
    using same_scopes_frame [OF a1(1)] c(1) ret grows_trans [OF a1(2) c(2)]
    by (simp_all add: d_def same_frame_def pop_scope_def grows_def)
  have q: "quiet a d \<longleftrightarrow> quiet a a1 \<and> quiet a1 c"
    using quiet_split [OF a1(2) c(2)] by (simp add: d_def grows_return grows_pop)
  have typed: "an_scopes d = \<Gamma> \<and> (fd_body ?f \<noteq> [] \<longrightarrow> function_typed \<Theta> \<Gamma> b)" if "quiet a d"
  proof -
    from that q have "quiet a a1" "quiet a1 c" by simp_all
    with c(3) a1(3) have "body_typed \<Theta> \<Gamma> ?f ?t (an_scopes c)"
      "pred_option (known_type \<Theta>) (fd_return_type ?f)" by simp_all
    with body_typed_tl [OF this(1)] show ?thesis
      by (auto simp: function_typed_body d_def pop_scope_def)
  qed
  show "same_frame a (analyze_function_body b a) \<and> grows a (analyze_function_body b a) \<and>
      (quiet a (analyze_function_body b a) \<longrightarrow>
        an_scopes (analyze_function_body b a) = \<Gamma> \<and> function_typed \<Theta> \<Gamma> b)"
  proof (cases "fd_body ?f = []")
    case True
    then have "analyze_function_body b a =
        sem_report ReturnTypeMismatch ''function body is empty'' (fb_statement_span b) d"
      using run by (simp add: Let_def c_def d_def)
    then show ?thesis using d by (auto simp: sem_report_def same_frame_def grows_def quiet_def)
  next
    case False
    then have "analyze_function_body b a = d" using run by (simp add: Let_def c_def d_def)
    with d typed False show ?thesis by simp
  qed
qed

lemma function_body_leads:
  assumes "function_typed \<Theta> \<Gamma> b"
  shows "leads \<Theta> ret (analyze_function_body b) \<Gamma> \<Gamma>"
  unfolding leads_def
proof (intro allI impI)
  fix a :: analyzer assume a: "starts \<Theta> ret \<Gamma> a"
  let ?f = "fb_declaration b" and ?t = "annotated Ty_Undefined \<Theta> (fd_return_type (fb_declaration b))"
  obtain a1 where a1: "same_scopes a a1" "grows a a1"
    "quiet a a1 \<longleftrightarrow> pred_option (known_type \<Theta>) (fd_return_type ?f)"
    "starts \<Theta> (Some ?t) \<Gamma> (a1\<lparr>an_current_return := Some ?t\<rparr>)"
    and run: "analyze_function_body b a =
       (let c = analyze_statements (fd_body ?f) (fold define_param (fd_params ?f)
              (push_scope (a1\<lparr>an_current_return := Some ?t\<rparr>)));
            d = (pop_scope c)\<lparr>an_current_return := ret\<rparr>
        in if fd_body ?f = [] then sem_report ReturnTypeMismatch ''function body is empty'' (fb_statement_span b) d
           else d)"
    using function_body_steps [OF a] by metis
  from assms obtain \<Gamma>2 where ok: "pred_option (known_type \<Theta>) (fd_return_type ?f)" "fd_body ?f \<noteq> []"
    "body_typed \<Theta> \<Gamma> ?f ?t \<Gamma>2" by (auto simp: function_typed_body)
  define c where "c = analyze_statements (fd_body ?f) (fold define_param (fd_params ?f)
              (push_scope (a1\<lparr>an_current_return := Some ?t\<rparr>)))"
  from body_leads [OF ok(3)] a1(4) have c: "same_frame (a1\<lparr>an_current_return := Some ?t\<rparr>) c"
    "quiet a1 c" "an_scopes c = \<Gamma>2"
    unfolding leads_def c_def by (auto simp: grows_return)
  have "analyze_function_body b a = (pop_scope c)\<lparr>an_current_return := ret\<rparr>"
    using run ok(2) by (simp add: Let_def c_def)
  moreover have "an_current_return a = ret" using a by (simp add: starts_def)
  ultimately show "same_frame a (analyze_function_body b a) \<and> quiet a (analyze_function_body b a) \<and>
      an_scopes (analyze_function_body b a) = \<Gamma>"
    using same_scopes_frame [OF a1(1)] c body_typed_tl [OF ok(3)] a1(3) ok(1)
    by (simp add: same_frame_def pop_scope_def quiet_def)
qed

lemma functions_changes:
  "changes \<Theta> ret (fold analyze_function_body fs) \<Gamma> (\<lambda>\<Gamma>'. \<Gamma>' = \<Gamma> \<and> list_all (function_typed \<Theta> \<Gamma>) fs)"
proof (induction fs)
  case Nil
  show ?case using changes_skip by (simp add: id_def)
next
  case (Cons b fs)
  have rest: "changes \<Theta> ret (fold analyze_function_body fs) \<Gamma>1 (\<lambda>\<Gamma>'. \<Gamma>1 = \<Gamma> \<and> function_typed \<Theta> \<Gamma> b \<longrightarrow>
      \<Gamma>' = \<Gamma> \<and> list_all (function_typed \<Theta> \<Gamma>) (b # fs))" for \<Gamma>1
  proof (cases "\<Gamma>1 = \<Gamma>")
    case True
    then show ?thesis using changes_weaken [OF Cons] by simp
  next
    case False
    have "changes \<Theta> ret (fold analyze_function_body fs) \<Gamma>1 (\<lambda>_. True)"
    proof (induction fs arbitrary: \<Gamma>1)
      case Nil
      show ?case using changes_skip by (simp add: id_def)
    next
      case (Cons b fs)
      have "changes \<Theta> ret (\<lambda>a. fold analyze_function_body fs (analyze_function_body b a)) \<Gamma>1 (\<lambda>_. True)"
        by (rule changes_then [OF function_body_changes]) (simp add: Cons)
      then show ?case by (simp add: comp_def)
    qed
    with False show ?thesis by simp
  qed
  from changes_then [OF function_body_changes rest] show ?case by (simp add: comp_def)
qed

lemma functions_leads:
  "list_all (function_typed \<Theta> \<Gamma>) fs \<Longrightarrow> leads \<Theta> ret (fold analyze_function_body fs) \<Gamma> \<Gamma>"
proof (induction fs)
  case Nil
  show ?case using leads_skip by (simp add: id_def)
next
  case (Cons b fs)
  then have "leads \<Theta> ret (\<lambda>a. fold analyze_function_body fs (analyze_function_body b a)) \<Gamma> \<Gamma>"
    by (intro leads_then [OF function_body_leads Cons.IH]) simp_all
  then show ?case by (simp add: comp_def)
qed

lemma builtins_installed:
  assumes "an_scopes a = []"
  shows "an_scopes (install_browser_builtins (push_scope a)) = [builtin_scope] \<and>
    same_frame a (install_browser_builtins (push_scope a)) \<and> quiet a (install_browser_builtins (push_scope a))"
  using assms
  by (simp add: install_browser_builtins_def bind_value_def push_scope_def Let_def builtin_scope_def
      same_frame_def quiet_def)

lemma analyze_program_typed:
  assumes order: "enumerates (an_order a)" and new: "an_scopes a = []" "an_type_bindings a = Map.empty"
    "an_functions a = []" "an_current_return a = None"
  shows "so_diagnostics (analyze_program pg a) = an_diagnostics a \<longleftrightarrow> program_typed pg"
    and "\<exists>ds. so_diagnostics (analyze_program pg a) = an_diagnostics a @ ds"
proof -
  define a0 where "a0 = install_browser_builtins (push_scope a)"
  define a1 where "a1 = collect_top_level_symbols pg a0"
  define top where "top = filter (\<lambda>st. \<not> is_function_statement st) (pg_body pg)"
  define run where "run = (\<lambda>b. analyze_statements top (fold analyze_function_body (an_functions a1) b))"
  from builtins_installed [OF new(1)] have a0: "an_scopes a0 = [builtin_scope]" "same_frame a a0" "quiet a a0"
    by (simp_all add: a0_def)
  then have syms0: "symbols_of a0 = (Map.empty, [builtin_scope], [])"
    using new by (simp add: symbols_of_def same_frame_def)
  have ent: "enters a0 a1 (\<lambda>S. declares_all S (pg_body pg))"
    using enters_all [of a0 "pg_body pg"] by (simp add: a1_def collect_top_level_symbols_def)
  obtain \<Theta> \<Gamma> fs where syms1: "symbols_of a1 = (\<Theta>, \<Gamma>, fs)" by (cases "symbols_of a1")
  then have fs: "an_functions a1 = fs" by (simp add: symbols_of_def)
  have st1: "starts \<Theta> None \<Gamma> a1"
    using ent a0(2) order new(4) syms1 by (simp add: starts_def enters_def same_frame_def symbols_of_def)
  have out: "so_diagnostics (analyze_program pg a) = an_diagnostics (run a1)"
    by (simp add: analyze_program_def Let_def run_def a1_def a0_def top_def)
  have ch: "changes \<Theta> None run \<Gamma>
      (\<lambda>\<Gamma>'. list_all (function_typed \<Theta> \<Gamma>) fs \<and> checked_list \<Theta> None \<Gamma> top \<Gamma>')"
    unfolding run_def fs
    by (rule changes_then [OF functions_changes], rule changes_weaken [OF changes_statements])
      (auto simp: analyze_statement_changes(1))
  with st1 have r1: "grows a1 (run a1)" and r2: "quiet a1 (run a1) \<Longrightarrow>
      list_all (function_typed \<Theta> \<Gamma>) fs \<and> (\<exists>\<Gamma>'. checked_list \<Theta> None \<Gamma> top \<Gamma>')"
    by (auto simp: changes_def)
  have g1: "grows a0 a1" and q1: "quiet a0 a1 \<Longrightarrow> declares_all (symbols_of a0) (pg_body pg) (symbols_of a1)"
    using ent by (auto simp: enters_def)
  have all: "quiet a (run a1) \<longleftrightarrow> quiet a0 a1 \<and> quiet a1 (run a1)"
    using quiet_split [OF g1 r1] a0(3) by (simp add: quiet_def)
  have typed: "program_typed pg" if "quiet a (run a1)"
  proof -
    from that all have "quiet a0 a1" "quiet a1 (run a1)" by simp_all
    with q1 r2 syms0 syms1 show ?thesis
      unfolding program_typed_def top_def [symmetric] by metis
  qed
  have quiet: "quiet a (run a1)" if typed: "program_typed pg"
  proof -
    from typed obtain \<Theta>' \<Gamma>1 fs' \<Gamma>' where
      p: "declares_all (Map.empty, [builtin_scope], []) (pg_body pg) (\<Theta>', \<Gamma>1, fs')"
        "list_all (function_typed \<Theta>' \<Gamma>1) fs'" "checked_list \<Theta>' None \<Gamma>1 top \<Gamma>'"
      unfolding program_typed_def top_def [symmetric] by blast
    from ent p(1) syms0 syms1 have "quiet a0 a1 \<and> (\<Theta>', \<Gamma>1, fs') = (\<Theta>, \<Gamma>, fs)"
      unfolding enters_def by metis
    then have q: "quiet a0 a1" and eq: "\<Theta>' = \<Theta>" "\<Gamma>1 = \<Gamma>" "fs' = fs" by simp_all
    have "leads \<Theta> None run \<Gamma> \<Gamma>'"
      unfolding run_def fs using p(2,3) unfolding eq
      by (intro leads_then [OF functions_leads analyze_statement_leads(2)])
    with st1 q all show ?thesis by (auto simp: leads_def)
  qed
  show "so_diagnostics (analyze_program pg a) = an_diagnostics a \<longleftrightarrow> program_typed pg"
    using typed quiet by (auto simp: out quiet_def)
  show "\<exists>ds. so_diagnostics (analyze_program pg a) = an_diagnostics a @ ds"
    using a0(3) grows_trans [OF g1 r1] by (simp add: out grows_def quiet_def)
qed

section \<open>Acceptance\<close>

definition accepted_source :: "string \<Rightarrow> bool" where
  "accepted_source source \<longleftrightarrow>
     po_diagnostics (parse_of source) = [] \<and> program_typed (po_program (parse_of source))"

lemma analysis_accepts:
  assumes "enumerates order"
  shows "\<exists>out. analyze_source order source = Inr out \<and> (so_diagnostics out = [] \<longleftrightarrow> accepted_source source)"
proof -
  let ?pd = "po_diagnostics (parse_of source)" and ?pg = "po_program (parse_of source)"
  let ?a = "(analyzer_new order)\<lparr>an_diagnostics := map from_parse_diagnostic ?pd\<rparr>"
  let ?out = "analyze_program ?pg ?a"
  have run: "analyze_source order source = Inr ?out"
    by (simp add: analyze_source_def parse_source_of)
  have new: "enumerates (an_order ?a)" "an_scopes ?a = []" "an_type_bindings ?a = Map.empty"
    "an_functions ?a = []" "an_current_return ?a = None"
    using assms by (simp_all add: analyzer_new_def)
  from analyze_program_typed [OF new, of ?pg] have
    "so_diagnostics ?out = map from_parse_diagnostic ?pd \<longleftrightarrow> program_typed ?pg"
    "\<exists>ds. so_diagnostics ?out = map from_parse_diagnostic ?pd @ ds" by simp_all
  then have "so_diagnostics ?out = [] \<longleftrightarrow> accepted_source source"
    by (auto simp: accepted_source_def)
  with run show ?thesis by blast
qed

text \<open>C5: the type checker accepts exactly the well-typed programs. Whatever the order in which
  hash maps are enumerated, the analysis of a source always returns, and it reports nothing if and
  only if the source parses without diagnostics and the typing rules admit its program: the rules
  for assignability, expressions, statements with their scopes, functions and top-level symbols,
  which mention neither the analyzer nor any order.\<close>

theorem analysis_exact:
  assumes "enumerates order"
  shows "\<exists>out. analyze_source order source = Inr out \<and> (so_diagnostics out = [] \<longleftrightarrow> accepted_source source)"
  by (rule analysis_accepts [OF assms])

abbreviation key_order :: "nat \<Rightarrow> string list \<Rightarrow> string list" where
  "key_order \<equiv> \<lambda>n ks. ks"

lemma enumerates_key_order: "enumerates key_order"
  by (simp add: enumerates_def)

lemma analyze_samples:
  "(case analyze_source key_order ''let a: number = 1;'' of Inr out \<Rightarrow> so_diagnostics out = [] | Inl _ \<Rightarrow> False)"
  "(case analyze_source key_order ''let a: string = 1;'' of Inr out \<Rightarrow> so_diagnostics out \<noteq> [] | Inl _ \<Rightarrow> False)"
  by code_simp+

theorem analysis_exact_witness:
  "accepted_source ''let a: number = 1;'' \<and> \<not> accepted_source ''let a: string = 1;''"
  using analysis_exact [OF enumerates_key_order, of "''let a: number = 1;''"]
    analysis_exact [OF enumerates_key_order, of "''let a: string = 1;''"] analyze_samples
  by auto

lemma compile_source_accepted:
  assumes "enumerates order"
  shows "\<exists>ds. compile_source order source = Inr
      \<lparr>bo_module = (if accepted_source source
         then Some (compile (lower_program (po_program (parse_of source)))) else None),
       bo_diagnostics = ds\<rparr> \<and> (ds = [] \<longleftrightarrow> accepted_source source)"
proof -
  from analysis_accepts [OF assms] obtain out where
    "analyze_source order source = Inr out" "so_diagnostics out = [] \<longleftrightarrow> accepted_source source" by blast
  then show ?thesis by (auto simp: compile_source_def lower_source_def parse_source_of)
qed

text \<open>C18: compilation does not depend on the order of hash maps. With any two enumeration orders
  \<open>compile_source\<close> gives the same module, or none for both; only the order of the diagnostics may
  differ. There is a module exactly for an accepted source, and it is the compilation of the
  program that the source parses to.\<close>

theorem compile_order_irrelevant:
  assumes "enumerates order" and "enumerates order'"
  shows "\<exists>out out'. compile_source order source = Inr out \<and> compile_source order' source = Inr out' \<and>
    bo_module out = bo_module out' \<and>
    bo_module out =
      (if accepted_source source then Some (compile (lower_program (po_program (parse_of source)))) else None) \<and>
    (bo_diagnostics out = [] \<longleftrightarrow> accepted_source source)"
  using compile_source_accepted [OF assms(1)] compile_source_accepted [OF assms(2)] by fastforce

theorem compile_order_irrelevant_witness:
  "bo_module (case compile_source key_order ''let a: number = 1;'' of Inr out \<Rightarrow> out) \<noteq> None"
proof -
  from analyze_samples(1) have "accepted_source ''let a: number = 1;''"
    using analysis_accepts [OF enumerates_key_order, of "''let a: number = 1;''"] by auto
  with compile_order_irrelevant [OF enumerates_key_order enumerates_key_order, of "''let a: number = 1;''"]
  show ?thesis by auto
qed

end
