(* ===== verification/Pipeline.thy ===== *)
theory Pipeline
  imports Compiler Modules Module_Cache
begin

text \<open>
  The entry points of \<^verbatim>\<open>runtime/interpreter\<close> that start from source text: the whole pipeline of
  parser, semantic analysis, lowering, compiler, verifier and interpreter. Parsing always
  returns, so an abort of the parser does not occur (\<open>Parser_Total\<close>); the fuel \<open>n\<close> is that of
  the interpreter.
\<close>

definition lift_parse :: "parse_abort + 'a \<Rightarrow> abort + 'a" where
  "lift_parse r =
     (case r of
        Inl Parse_Fuel \<Rightarrow> Inl Out_of_fuel
      | Inl Parse_Panic \<Rightarrow> Inl Panic
      | Inr x \<Rightarrow> Inr x)"

type_synonym hash_order = "nat \<Rightarrow> string list \<Rightarrow> string list"

text \<open>\<^verbatim>\<open>PreparedModule::from_source\<close>.\<close>

definition from_source :: "hash_order \<Rightarrow> string \<Rightarrow> abort + prepared_module" where
  "from_source order source =
     rbind (lift_parse (compile_source order source)) (\<lambda>compiled.
       case bo_module compiled of
         None \<Rightarrow> Inl (Error (E_Compile (bo_diagnostics compiled)))
       | Some m \<Rightarrow>
           (case verify_module m of
              Inl errors \<Rightarrow> Inl (Error (E_Verify errors))
            | Inr _ \<Rightarrow> Inr \<lparr>pm_module = m\<rparr>))"

definition execute_source_with_host ::
  "hash_order \<Rightarrow> nat \<Rightarrow> string \<Rightarrow> 'w host_environment \<Rightarrow> ('w, abort, execution_output) sem" where
  "execute_source_with_host order n source host =
     sbind (slift (from_source order source)) (\<lambda>p. prepared_execute_with_host n p host)"

definition execute_source :: "hash_order \<Rightarrow> nat \<Rightarrow> string \<Rightarrow> ('w, abort, execution_output) sem" where
  "execute_source order n source = execute_source_with_host order n source host_new"

definition execute_module_graph ::
  "hash_order \<Rightarrow> nat \<Rightarrow> string \<Rightarrow> sources \<Rightarrow> ('w, abort, execution_output) sem" where
  "execute_module_graph order n entry sources =
     sbind (slift (lift_parse (bundle_module_graph entry sources))) (\<lambda>bundled.
       case bundled of
         Inl ds \<Rightarrow> sfail (Error (E_Module ds))
       | Inr graph \<Rightarrow> execute_source order n (mg_bundled_source graph))"

end
