(* ===== verification/Script_Loader.thy ===== *)
theory Script_Loader
  imports Pipeline
begin

text \<open>
  \<^verbatim>\<open>browser/script-loader\<close>: finding the TypeScript scripts of a page and running them through a
  session's cache of prepared modules. The state of a run is the session and the host's world.
\<close>

section \<open>Results and errors\<close>

datatype script_kind = External | Inline

record script_execution =
  se_kind :: script_kind
  se_specifier :: string

record browser_execution =
  be_console :: "js_value list"
  be_scripts :: "script_execution list"
  be_generated_javascript :: bool

record script_loader_error =
  sl_message :: string
  sl_source :: "execute_error option"

datatype loader_abort = Loader_Error script_loader_error | Loader_Panic | Loader_Out_of_fuel

record script_policy =
  sp_allow_typescript :: bool

definition policy_default :: script_policy where
  "policy_default = \<lparr>sp_allow_typescript = True\<rparr>"

definition ensure_typescript_allowed :: "script_policy \<Rightarrow> loader_abort + unit" where
  "ensure_typescript_allowed policy =
     (if sp_allow_typescript policy then Inr ()
      else Inl (Loader_Error
             \<lparr>sl_message = ''TypeScript execution blocked by script policy'', sl_source = None\<rparr>))"

text \<open>\<^verbatim>\<open>execution_error\<close> on the errors of a run.\<close>

definition execution_error :: "string \<Rightarrow> abort \<Rightarrow> loader_abort" where
  "execution_error message e =
     (case e of
        Error err \<Rightarrow> Loader_Error \<lparr>sl_message = message, sl_source = Some err\<rparr>
      | Panic \<Rightarrow> Loader_Panic
      | Out_of_fuel \<Rightarrow> Loader_Out_of_fuel)"

section \<open>Scripts of a page\<close>

record script_slice =
  ss_open_tag :: string
  ss_body :: string

definition script_end :: string where
  "script_end = ''</script>''"

text \<open>The loop of \<^verbatim>\<open>find_scripts\<close> on the text from its cursor on.\<close>

function scripts_from :: "string \<Rightarrow> script_slice list" where
  "scripts_from html =
     (case find_str html ''<script'' of
        None \<Rightarrow> []
      | Some s \<Rightarrow>
          (case find_str (drop s html) ''>'' of
             None \<Rightarrow> []
           | Some t \<Rightarrow>
               (case find_str (drop (t + 1) (drop s html)) script_end of
                  None \<Rightarrow> []
                | Some k \<Rightarrow>
                    \<lparr>ss_open_tag = take (t + 1) (drop s html),
                     ss_body = take k (drop (t + 1) (drop s html))\<rparr>
                    # scripts_from (drop (k + length script_end) (drop (t + 1) (drop s html))))))"
  by pat_completeness auto
termination
proof (relation "measure length")
  fix html :: string and s t k
  assume "find_str (drop (t + 1) (drop s html)) script_end = Some k"
  from find_str_Some [OF this, THEN conjunct1]
  show "(drop (k + length script_end) (drop (t + 1) (drop s html)), html) \<in> measure length"
    by (simp add: script_end_def)
qed simp

declare scripts_from.simps [simp del]

definition find_scripts :: "string \<Rightarrow> script_slice list" where
  "find_scripts html = scripts_from html"

definition attribute :: "string \<Rightarrow> string \<Rightarrow> string option" where
  "attribute open_tag name =
     (let pattern = name @ ''='' in
      case find_str open_tag pattern of
        None \<Rightarrow> None
      | Some i \<Rightarrow>
          (let val = trim_start (drop (i + length pattern) open_tag) in
           case first_char val of
             None \<Rightarrow> None
           | Some q \<Rightarrow>
               if q \<noteq> [char_of (34 :: nat)] \<and> q \<noteq> [char_of (39 :: nat)] then None
               else
                 (let rest = drop (length q) val in
                  map_option (\<lambda>e. take e rest) (find_str rest q))))"

definition to_ascii_lowercase :: "string \<Rightarrow> string" where
  "to_ascii_lowercase s = map (\<lambda>c. if char_in 65 90 c then char_of (byte c + 32) else c) s"

definition script_type :: "string \<Rightarrow> string option" where
  "script_type open_tag = map_option to_ascii_lowercase (attribute open_tag ''type'')"

definition script_src :: "string \<Rightarrow> string option" where
  "script_src open_tag = attribute open_tag ''src''"

definition resolve_url :: "string \<Rightarrow> string \<Rightarrow> string" where
  "resolve_url document_url src =
     (if starts_with src ''/'' then src
      else ''/'' @ join_with ''/''
             (fold resolve_part (split_on slash src) (butlast (module_parts document_url))))"

section \<open>Sessions\<close>

record page_script_session =
  ps_cache :: "prepared_module module_cache"

type_synonym ('w, 'a) load = "(page_script_session \<times> 'w, loader_abort, 'a) sem"

definition session_new :: "nat \<Rightarrow> cache_error + page_script_session" where
  "session_new cache_capacity =
     rbind (cache_new cache_capacity) (\<lambda>c. Inr \<lparr>ps_cache = c\<rparr>)"

definition session_stats :: "page_script_session \<Rightarrow> cache_statistics" where
  "session_stats s = cache_stats (ps_cache s)"

text \<open>A request to the session's cache, and a run on its world.\<close>

definition lookup_prepared :: "hash_order \<Rightarrow> string \<Rightarrow> string \<Rightarrow> ('w, prepared_module) load" where
  "lookup_prepared order source message =
     (\<lambda>(s, w). case get_or_prepare (from_source order) source (ps_cache s) of
        (c, Inl e) \<Rightarrow> ((s\<lparr>ps_cache := c\<rparr>, w), Inl (execution_error message e))
      | (c, Inr (status, p)) \<Rightarrow> ((s\<lparr>ps_cache := c\<rparr>, w), Inr p))"

definition run_prepared ::
  "nat \<Rightarrow> prepared_module \<Rightarrow> 'w host_environment \<Rightarrow> string \<Rightarrow> ('w, execution_output) load" where
  "run_prepared n p host message =
     (\<lambda>(s, w). case prepared_execute_with_host n p host w of
        (w1, Inl e) \<Rightarrow> ((s, w1), Inl (execution_error message e))
      | (w1, Inr output) \<Rightarrow> ((s, w1), Inr output))"

definition execute_cached_source ::
  "hash_order \<Rightarrow> nat \<Rightarrow> string \<Rightarrow> 'w host_environment \<Rightarrow> string \<Rightarrow> ('w, execution_output) load" where
  "execute_cached_source order n source host message =
     sbind (lookup_prepared order source message) (\<lambda>p. run_prepared n p host message)"

definition inline_message :: string where
  "inline_message = ''failed to execute inline TypeScript script''"

definition execute_inline_typescript ::
  "hash_order \<Rightarrow> nat \<Rightarrow> string \<Rightarrow> 'w host_environment \<Rightarrow> script_policy \<Rightarrow> ('w, execution_output) load" where
  "execute_inline_typescript order n source host policy =
     sbind (slift (ensure_typescript_allowed policy)) (\<lambda>_.
     execute_cached_source order n source host inline_message)"

definition append_execution :: "browser_execution \<Rightarrow> execution_output \<Rightarrow> browser_execution" where
  "append_execution output execution =
     output\<lparr>be_console := be_console output @ out_console execution\<rparr>"

definition add_script :: "script_kind \<Rightarrow> string \<Rightarrow> browser_execution \<Rightarrow> browser_execution" where
  "add_script kind specifier output =
     output\<lparr>be_scripts := be_scripts output @ [\<lparr>se_kind = kind, se_specifier = specifier\<rparr>]\<rparr>"

definition external_message :: "string \<Rightarrow> string" where
  "external_message specifier = ''failed to execute TypeScript script `'' @ specifier @ ''`''"

text \<open>The source a script with a \<^verbatim>\<open>src\<close> attribute runs: its bundled module graph.\<close>

definition external_source :: "string \<Rightarrow> sources \<Rightarrow> loader_abort + string" where
  "external_source specifier resources =
     (if \<not> bt_contains resources specifier
      then Inl (Loader_Error
             \<lparr>sl_message = ''TypeScript script resource `'' @ specifier @ ''` was not provided'',
              sl_source = None\<rparr>)
      else
        (case lift_parse (bundle_module_graph specifier resources) of
           Inl e \<Rightarrow> Inl (execution_error (external_message specifier) e)
         | Inr (Inl ds) \<Rightarrow>
             Inl (execution_error (external_message specifier) (Error (E_Module ds)))
         | Inr (Inr graph) \<Rightarrow> Inr (mg_bundled_source graph)))"

definition execute_script ::
  "hash_order \<Rightarrow> nat \<Rightarrow> string \<Rightarrow> sources \<Rightarrow> 'w host_environment \<Rightarrow> script_slice \<Rightarrow> browser_execution \<Rightarrow>
   ('w, browser_execution) load" where
  "execute_script order n document_url resources host script output =
     (case script_src (ss_open_tag script) of
        Some src \<Rightarrow>
          (let specifier = resolve_url document_url src in
           sbind (slift (external_source specifier resources)) (\<lambda>source.
           sbind (execute_cached_source order n source host (external_message specifier)) (\<lambda>execution.
           sret (add_script External specifier (append_execution output execution)))))
      | None \<Rightarrow>
          sbind (execute_cached_source order n (ss_body script) host inline_message) (\<lambda>execution.
          sret (add_script Inline ''<inline>'' (append_execution output execution))))"

definition is_typescript :: "script_slice \<Rightarrow> bool" where
  "is_typescript script \<longleftrightarrow> script_type (ss_open_tag script) = Some ''text/typescript''"

primrec execute_scripts ::
  "hash_order \<Rightarrow> nat \<Rightarrow> string \<Rightarrow> sources \<Rightarrow> 'w host_environment \<Rightarrow> script_policy \<Rightarrow>
   script_slice list \<Rightarrow> browser_execution \<Rightarrow> ('w, browser_execution) load" where
  "execute_scripts order n document_url resources host policy [] output = sret output"
| "execute_scripts order n document_url resources host policy (script # scripts) output =
     (if \<not> is_typescript script
      then execute_scripts order n document_url resources host policy scripts output
      else
        sbind (slift (ensure_typescript_allowed policy)) (\<lambda>_.
        sbind (execute_script order n document_url resources host script output) (\<lambda>output1.
        execute_scripts order n document_url resources host policy scripts output1)))"

text \<open>\<^verbatim>\<open>PageScriptSession::execute_typescript_scripts_with_policy\<close>.\<close>

definition session_execute_scripts ::
  "hash_order \<Rightarrow> nat \<Rightarrow> string \<Rightarrow> string \<Rightarrow> sources \<Rightarrow> 'w host_environment \<Rightarrow> script_policy \<Rightarrow>
   ('w, browser_execution) load" where
  "session_execute_scripts order n document_url html resources host policy =
     execute_scripts order n document_url resources host policy (find_scripts html)
       \<lparr>be_console = [], be_scripts = [], be_generated_javascript = False\<rparr>"

text \<open>The one-shot entry points, each with a session of capacity one.\<close>

definition execute_typescript_scripts_with_policy ::
  "hash_order \<Rightarrow> nat \<Rightarrow> string \<Rightarrow> string \<Rightarrow> sources \<Rightarrow> 'w host_environment \<Rightarrow> script_policy \<Rightarrow>
   ('w, loader_abort, browser_execution) sem" where
  "execute_typescript_scripts_with_policy order n document_url html resources host policy w =
     (case session_new 1 of
        Inl _ \<Rightarrow> (w, Inl Loader_Panic)
      | Inr session \<Rightarrow>
          (case session_execute_scripts order n document_url html resources host policy (session, w) of
             ((_, w1), r) \<Rightarrow> (w1, r)))"

definition execute_typescript_scripts_with_host ::
  "hash_order \<Rightarrow> nat \<Rightarrow> string \<Rightarrow> string \<Rightarrow> sources \<Rightarrow> 'w host_environment \<Rightarrow>
   ('w, loader_abort, browser_execution) sem" where
  "execute_typescript_scripts_with_host order n document_url html resources host =
     execute_typescript_scripts_with_policy order n document_url html resources host policy_default"

definition execute_typescript_scripts ::
  "hash_order \<Rightarrow> nat \<Rightarrow> string \<Rightarrow> string \<Rightarrow> sources \<Rightarrow> ('w, loader_abort, browser_execution) sem" where
  "execute_typescript_scripts order n document_url html resources =
     execute_typescript_scripts_with_host order n document_url html resources host_new"

end
