(* ===== verification/Web_Bindings.thy ===== *)
theory Web_Bindings
  imports Script_Loader
begin

text \<open>
  \<^verbatim>\<open>web-bindings/dom-fetch\<close>: the document and fetch services that a page gives its scripts. The
  document is shared by the host functions and the embedder (\<^verbatim>\<open>Rc<RefCell<Document>>\<close>): it is
  the world the host functions step on.
\<close>

section \<open>Documents\<close>

record element =
  el_text :: string

record document =
  doc_nodes :: "(string, element) btree_map"

definition document_new :: document where
  "document_new = \<lparr>doc_nodes = []\<rparr>"

definition document_text :: "document \<Rightarrow> string \<Rightarrow> string option" where
  "document_text d selector = map_option el_text (bt_get (doc_nodes d) selector)"

definition set_text :: "string \<Rightarrow> string \<Rightarrow> document \<Rightarrow> document" where
  "set_text selector text d =
     d\<lparr>doc_nodes := bt_insert selector \<lparr>el_text = text\<rparr> (doc_nodes d)\<rparr>"

definition from_text_nodes :: "(string \<times> string) list \<Rightarrow> document" where
  "from_text_nodes nodes = fold (\<lambda>(selector, text). set_text selector text) nodes document_new"

section \<open>Fetch\<close>

record fetch_service =
  fs_origin :: string
  fs_resources :: "(string, string) btree_map"

definition fetch_new :: "string \<Rightarrow> (string, string) btree_map \<Rightarrow> fetch_service" where
  "fetch_new origin resources = \<lparr>fs_origin = origin, fs_resources = resources\<rparr>"

definition same_origin_path :: "fetch_service \<Rightarrow> string \<Rightarrow> interop_error + string" where
  "same_origin_path fs url =
     (if starts_with url ''/'' then Inr url
      else
        (case strip_prefix url (fs_origin fs) of
           None \<Rightarrow> Inl (interop_error_new (''cross-origin fetch blocked for `'' @ url @ ''`''))
         | Some path \<Rightarrow>
             if starts_with path ''/'' then Inr path
             else Inl (interop_error_new (''invalid fetch URL `'' @ url @ ''`''))))"

definition fetch_text :: "fetch_service \<Rightarrow> string \<Rightarrow> interop_error + string" where
  "fetch_text fs url =
     rbind (same_origin_path fs url) (\<lambda>path.
       ok_or (interop_error_new (''fetch resource `'' @ path @ ''` not found''))
         (bt_get (fs_resources fs) path))"

section \<open>Bindings\<close>

record browser_bindings =
  bb_document :: document
  bb_fetch :: fetch_service

definition bindings_new :: "document \<Rightarrow> fetch_service \<Rightarrow> browser_bindings" where
  "bindings_new d fs = \<lparr>bb_document = d, bb_fetch = fs\<rparr>"

definition expect_string :: "interop_value list \<Rightarrow> nat \<Rightarrow> string \<Rightarrow> interop_error + string" where
  "expect_string args index label =
     (case nth_opt args index of
        Some (IV_String s) \<Rightarrow> Inr s
      | _ \<Rightarrow> Inl (interop_error_new (''expected string for '' @ label)))"

definition dom_text :: "document host_function" where
  "dom_text args =
     sbind (slift (expect_string args 0 ''domText selector'')) (\<lambda>selector d.
       (d, Inr (IV_String (case document_text d selector of None \<Rightarrow> [] | Some s \<Rightarrow> s))))"

definition dom_set_text :: "document host_function" where
  "dom_set_text args =
     sbind (slift (expect_string args 0 ''domSetText selector'')) (\<lambda>selector.
     sbind (slift (expect_string args 1 ''domSetText text'')) (\<lambda>text d.
       (set_text selector text d, Inr IV_Undefined)))"

definition fetch_text_function :: "fetch_service \<Rightarrow> document host_function" where
  "fetch_text_function fs args =
     sbind (slift (expect_string args 0 ''fetchText URL'')) (\<lambda>url.
     slift (rbind (fetch_text fs url) (\<lambda>s. Inr (IV_String s))))"

definition bindings_host :: "browser_bindings \<Rightarrow> document host_environment" where
  "bindings_host b =
     with_function ''fetchText'' (fetch_text_function (bb_fetch b))
       (with_function ''domSetText'' dom_set_text
         (with_function ''domText'' dom_text host_new))"

end
