(* ===== verification/Source_Semantics.thy ===== *)
theory Source_Semantics
  imports Interpreter Ast
begin

text \<open>
  A reference semantics of straight-line programs, over the syntax tree and by names: what the
  program is meant to do, without values, locals, constants or blocks. It shares the values, the
  heap and the operators with the interpreter, and is what \<open>Compiler_Correct\<close> compares compiled
  code with. The fragment leaves out what lowering does not translate as JavaScript means it
  (unary operators, the short-circuit operators, compound assignments) and what needs
  several blocks (\<^verbatim>\<open>if\<close>, loops, nested scopes).
\<close>

section \<open>The fragment\<close>

text \<open>Callees are dotted names.\<close>

fun is_dotted :: "expression \<Rightarrow> bool" where
  "is_dotted (Expression (Ex_Identifier name) sp) = True"
| "is_dotted (Expression (Ex_Member object property) sp) = is_dotted object"
| "is_dotted (Expression _ sp) = False"

definition eager :: "binary_operator \<Rightarrow> bool" where
  "eager op \<longleftrightarrow> op \<notin> {Op_LogicalAnd, Op_LogicalOr, Op_NullishCoalesce}"

text \<open>\<open>simple D e\<close>: an expression of the fragment over the variables \<open>D\<close>.\<close>

fun simple :: "string set \<Rightarrow> expression \<Rightarrow> bool"
and simple_property :: "string set \<Rightarrow> object_property \<Rightarrow> bool"
where
  "simple D (Expression (Ex_Identifier name) sp) = (name \<in> D)"
| "simple D (Expression (Ex_Number s) sp) = True"
| "simple D (Expression (Ex_String s) sp) = True"
| "simple D (Expression (Ex_Boolean b) sp) = True"
| "simple D (Expression Ex_Null sp) = True"
| "simple D (Expression Ex_Undefined sp) = True"
| "simple D (Expression (Ex_Object properties) sp) = list_all (simple_property D) properties"
| "simple D (Expression (Ex_Array elements) sp) = list_all (simple D) elements"
| "simple D (Expression (Ex_Member object property) sp) = simple D object"
| "simple D (Expression (Ex_Call callee arguments) sp) = (is_dotted callee \<and> list_all (simple D) arguments)"
| "simple D (Expression (Ex_Binary left op right) sp) = (eager op \<and> simple D left \<and> simple D right)"
| "simple D (Expression (Ex_Assignment (Expression (Ex_Identifier name) lsp) op right) sp) =
     (op = Assign \<and> name \<in> D \<and> simple D right)"
| "simple D (Expression (Ex_Assignment (Expression (Ex_Member object property) lsp) op right) sp) =
     (op = Assign \<and> simple D object \<and> simple D right)"
| "simple D (Expression _ sp) = False"
| "simple_property D (Object_Property name e sp) = simple D e"

text \<open>The statements of the fragment and the variables they declare.\<close>

fun declared :: "statement \<Rightarrow> string set" where
  "declared (Statement (S_Variable var) sp) = {vd_name var}"
| "declared (Statement (S_Export inner) sp) = declared inner"
| "declared (Statement _ sp) = {}"

fun straight :: "string set \<Rightarrow> statement \<Rightarrow> bool" where
  "straight D (Statement (S_Variable var) sp) = pred_option (simple D) (vd_initializer var)"
| "straight D (Statement (S_Return val) sp) = pred_option (simple D) val"
| "straight D (Statement (S_Expression e) sp) = simple D e"
| "straight D (Statement (S_Export inner) sp) = straight D inner"
| "straight D (Statement (S_Interface d) sp) = True"
| "straight D (Statement (S_TypeAlias d) sp) = True"
| "straight D (Statement (S_Class d) sp) = True"
| "straight D (Statement (S_Function f) sp) = True"
| "straight D (Statement (S_Import d) sp) = True"
| "straight D (Statement S_Empty sp) = True"
| "straight D (Statement _ sp) = False"

fun straight_list :: "string set \<Rightarrow> statement list \<Rightarrow> bool" where
  "straight_list D [] = True"
| "straight_list D (st # sts) = (straight D st \<and> straight_list (D \<union> declared st) sts)"

section \<open>Expressions\<close>

text \<open>The variables by name, and the interpreter's heap, console and world.\<close>

type_synonym env = "string \<rightharpoonup> runtime_value"
type_synonym ('w, 'a) source = "(env \<times> 'w interp, abort, 'a) sem"

definition at_runtime :: "('w interp, abort, 'a) sem \<Rightarrow> ('w, 'a) source" where
  "at_runtime act = (\<lambda>(env, s). case act s of (s', r) \<Rightarrow> ((env, s'), r))"

definition get_var :: "string \<Rightarrow> ('w, runtime_value) source" where
  "get_var name = (\<lambda>(env, s). ((env, s), case env name of None \<Rightarrow> Inl Panic | Some v \<Rightarrow> Inr v))"

definition set_var :: "string \<Rightarrow> runtime_value \<Rightarrow> ('w, unit) source" where
  "set_var name v = (\<lambda>(env, s). ((env(name \<mapsto> v), s), Inr ()))"

primrec operator_code :: "binary_operator \<Rightarrow> u32" where
  "operator_code Op_Add = 0"
| "operator_code Op_Subtract = 1"
| "operator_code Op_Multiply = 2"
| "operator_code Op_Divide = 3"
| "operator_code Op_Remainder = 4"
| "operator_code Op_Equal = 5"
| "operator_code Op_StrictEqual = 6"
| "operator_code Op_NotEqual = 7"
| "operator_code Op_StrictNotEqual = 8"
| "operator_code Op_Less = 9"
| "operator_code Op_LessEqual = 10"
| "operator_code Op_Greater = 11"
| "operator_code Op_GreaterEqual = 12"
| "operator_code Op_LogicalAnd = 13"
| "operator_code Op_LogicalOr = 14"
| "operator_code Op_NullishCoalesce = 15"

text \<open>The dotted name of a callee.\<close>

fun dotted :: "expression \<Rightarrow> string" where
  "dotted (Expression (Ex_Identifier name) sp) = name"
| "dotted (Expression (Ex_Member object property) sp) = dotted object @ ''.'' @ property"
| "dotted (Expression _ sp) = []"

definition new_object :: "(string \<times> runtime_value) list \<Rightarrow> ('w interp, abort, runtime_value) sem" where
  "new_object fds =
     sbind (allocate_value (H_Object (fold (\<lambda>(k, v). bt_insert k v) fds []))) (\<lambda>hn. sret (R_Object hn))"

definition new_array :: "runtime_value list \<Rightarrow> ('w interp, abort, runtime_value) sem" where
  "new_array vs = sbind (allocate_value (H_Array vs)) (\<lambda>hn. sret (R_Array hn))"

text \<open>
  Operands from left to right, then the operation. The last equation stands for what the fragment
  leaves out.
\<close>

fun eval :: "nat \<Rightarrow> 'w call \<Rightarrow> expression \<Rightarrow> ('w, runtime_value) source"
and eval_list :: "nat \<Rightarrow> 'w call \<Rightarrow> expression list \<Rightarrow> ('w, runtime_value list) source"
and eval_fields :: "nat \<Rightarrow> 'w call \<Rightarrow> object_property list \<Rightarrow> ('w, (string \<times> runtime_value) list) source"
where
  "eval n call (Expression (Ex_Identifier name) sp) = get_var name"
| "eval n call (Expression (Ex_Number s) sp) = slift (value_from_constant (Const_Number s))"
| "eval n call (Expression (Ex_String s) sp) = sret (R_String s)"
| "eval n call (Expression (Ex_Boolean b) sp) = sret (R_Boolean b)"
| "eval n call (Expression Ex_Null sp) = sret R_Null"
| "eval n call (Expression Ex_Undefined sp) = sret R_Undefined"
| "eval n call (Expression (Ex_Object properties) sp) =
     sbind (eval_fields n call properties) (\<lambda>fds. at_runtime (new_object fds))"
| "eval n call (Expression (Ex_Array elements) sp) =
     sbind (eval_list n call elements) (\<lambda>vs. at_runtime (new_array vs))"
| "eval n call (Expression (Ex_Member object property) sp) =
     sbind (eval n call object) (\<lambda>v. at_runtime (on_heap (\<lambda>h. load_member h v property)))"
| "eval n call (Expression (Ex_Call callee arguments) sp) =
     sbind (eval_list n call arguments) (\<lambda>vs. at_runtime (call (dotted callee) vs))"
| "eval n call (Expression (Ex_Binary left op right) sp) =
     sbind (eval n call left) (\<lambda>x.
     sbind (eval n call right) (\<lambda>y.
     at_runtime (on_heap (\<lambda>h. binary n (operator_code op) h x y))))"
| "eval n call (Expression (Ex_Assignment (Expression (Ex_Identifier name) lsp) op right) sp) =
     sbind (eval n call right) (\<lambda>v. sbind (set_var name v) (\<lambda>_. sret v))"
| "eval n call (Expression (Ex_Assignment (Expression (Ex_Member object property) lsp) op right) sp) =
     sbind (eval n call object) (\<lambda>x.
     sbind (eval n call right) (\<lambda>v.
     sbind (at_runtime (write_heap (\<lambda>h. store_member h x property v))) (\<lambda>_.
     sret v)))"
| "eval n call (Expression _ sp) = sfail Panic"
| "eval_list n call [] = sret []"
| "eval_list n call (e # es) =
     sbind (eval n call e) (\<lambda>v. sbind (eval_list n call es) (\<lambda>vs. sret (v # vs)))"
| "eval_fields n call [] = sret []"
| "eval_fields n call (Object_Property name e sp # ps) =
     sbind (eval n call e) (\<lambda>v. sbind (eval_fields n call ps) (\<lambda>fs. sret ((name, v) # fs)))"

section \<open>Statements and functions\<close>

text \<open>A statement returns a value, or none when the next statement is due.\<close>

fun exec :: "nat \<Rightarrow> 'w call \<Rightarrow> statement \<Rightarrow> ('w, runtime_value option) source" where
  "exec n call (Statement (S_Variable var) sp) =
     sbind (case vd_initializer var of None \<Rightarrow> sret R_Undefined | Some e \<Rightarrow> eval n call e) (\<lambda>v.
     sbind (set_var (vd_name var) v) (\<lambda>_. sret None))"
| "exec n call (Statement (S_Return val) sp) =
     sbind (case val of None \<Rightarrow> sret R_Undefined | Some e \<Rightarrow> eval n call e) (\<lambda>v. sret (Some v))"
| "exec n call (Statement (S_Expression e) sp) = sbind (eval n call e) (\<lambda>_. sret None)"
| "exec n call (Statement (S_Export inner) sp) = exec n call inner"
| "exec n call (Statement _ sp) = sret None"

fun exec_list :: "nat \<Rightarrow> 'w call \<Rightarrow> statement list \<Rightarrow> ('w, runtime_value option) source" where
  "exec_list n call [] = sret None"
| "exec_list n call (st # sts) =
     sbind (exec n call st) (\<lambda>r. case r of None \<Rightarrow> exec_list n call sts | Some v \<Rightarrow> sret (Some v))"

text \<open>A body runs in the environment of its parameters; without a \<^verbatim>\<open>return\<close> it gives \<^verbatim>\<open>undefined\<close>.\<close>

definition run_body :: "nat \<Rightarrow> 'w call \<Rightarrow> env \<Rightarrow> statement list \<Rightarrow> ('w interp, abort, runtime_value) sem" where
  "run_body n call env body s =
     (case exec_list n call body (env, s) of
        ((_, s'), Inl e) \<Rightarrow> (s', Inl e)
      | ((_, s'), Inr r) \<Rightarrow> (s', Inr (case r of None \<Rightarrow> R_Undefined | Some v \<Rightarrow> v)))"

text \<open>A missing argument is \<^verbatim>\<open>undefined\<close>, one too many is dropped.\<close>

definition param_env :: "string list \<Rightarrow> runtime_value list \<Rightarrow> env" where
  "param_env params args = map_of (zip params (resize (length params) R_Undefined args))"

text \<open>The functions of a program by name; the entry is the rest of the program.\<close>

record source_function =
  sf_name :: string
  sf_params :: "string list"
  sf_body :: "statement list"

definition source_function_of :: "statement \<Rightarrow> source_function option" where
  "source_function_of st =
     (case st_kind st of
        S_Function f \<Rightarrow>
          Some \<lparr>sf_name = fd_name f, sf_params = map pa_name (fd_params f), sf_body = fd_body f\<rparr>
      | _ \<Rightarrow> None)"

definition is_entry_code :: "statement \<Rightarrow> bool" where
  "is_entry_code st \<longleftrightarrow>
     (case st_kind st of
        S_Function _ \<Rightarrow> False | S_Interface _ \<Rightarrow> False | S_TypeAlias _ \<Rightarrow> False | S_Class _ \<Rightarrow> False
      | _ \<Rightarrow> True)"

definition source_functions :: "program \<Rightarrow> source_function list" where
  "source_functions pg =
     List.map_filter source_function_of (pg_body pg) @
     [\<lparr>sf_name = ''__entry'', sf_params = [], sf_body = filter is_entry_code (pg_body pg)\<rparr>]"

text \<open>
  Calls by name: the console, then the host, then the functions of the program. The fuel is the
  depth of calls, as for \<open>call_function\<close>.
\<close>

primrec source_call :: "nat \<Rightarrow> source_function list \<Rightarrow> 'w host_environment \<Rightarrow> 'w call" where
  "source_call 0 fs host name args = sfail Out_of_fuel"
| "source_call (Suc n) fs host name args =
     (if name = ''console.log'' then console_log args
      else
        sbind (call_host n host name args) (\<lambda>result.
          case result of
            Some v \<Rightarrow> sret v
          | None \<Rightarrow>
              (case find (\<lambda>f. sf_name f = name) fs of
                 None \<Rightarrow> slift (runtime_fail (Unknown_Function name))
               | Some f \<Rightarrow>
                   if n = 0 then sfail Out_of_fuel
                   else run_body n (source_call n fs host) (param_env (sf_params f) args) (sf_body f))))"

definition source_run :: "nat \<Rightarrow> program \<Rightarrow> 'w host_environment \<Rightarrow> ('w, abort, execution_output) sem" where
  "source_run n pg host w =
     (case source_call n (source_functions pg) host ''__entry'' [] (interp_new w) of
        (s, Inl e) \<Rightarrow> (in_world s, Inl e)
      | (s, Inr v) \<Rightarrow> (in_world s, finish_run n (in_heap s) (in_console s) v))"

text \<open>The programs of the fragment: every body is straight, over its parameters.\<close>

definition straight_function :: "source_function \<Rightarrow> bool" where
  "straight_function f \<longleftrightarrow> distinct (sf_params f) \<and> straight_list (set (sf_params f)) (sf_body f)"

declare option.pred_inject [code]

definition straight_program :: "program \<Rightarrow> bool" where
  "straight_program pg \<longleftrightarrow> list_all straight_function (source_functions pg)"

end
