(* ===== verification/Compiled_Code.thy ===== *)
theory Compiled_Code
  imports Compiler Source_Semantics "HOL-Library.Sublist"
begin

text \<open>
  Compiled instructions and what they compute. Interning only appends to the constant pool, and
  the index it gives finds the constant again; locals are numbered in the order in which their
  names first occur. \<open>runs_as\<close> says that the bytecode of some IR instructions computes what a
  computation of the reference semantics computes, whatever was compiled before; its rules put
  instructions together, and there is one for each instruction of straight-line code.
\<close>

section \<open>Interning\<close>

definition interned :: "compiler \<Rightarrow> bool" where
  "interned cp \<longleftrightarrow>
     (\<forall>c i. cp_constant_ids cp c = Some i \<longrightarrow>
        (\<exists>k<length (cp_constants cp). i = u32_of k \<and> cp_constants cp ! k = c)) \<and>
     (\<forall>r i. cp_source_ids cp r = Some i \<longrightarrow> (\<exists>k<length (cp_source_map cp). i = u32_of k))"

text \<open>A module into which a compiler state fits: its pool extends that of the compiler.\<close>

definition pool_of :: "bytecode_module \<Rightarrow> compiler \<Rightarrow> bool" where
  "pool_of m cp \<longleftrightarrow>
     prefix (cp_constants cp) (mod_constants m) \<and> length (mod_constants m) < 2 ^ 32 \<and>
     prefix (cp_source_map cp) (mod_source_map m) \<and> length (mod_source_map m) < 2 ^ 32"

lemma interned_default: "interned compiler_default"
  by (simp add: interned_def compiler_default_def)

text \<open>A compiler step keeps the pools interned and only extends them.\<close>

definition extends_pool :: "compiler \<Rightarrow> compiler \<Rightarrow> bool" where
  "extends_pool cp cp' \<longleftrightarrow>
     interned cp' \<and> prefix (cp_constants cp) (cp_constants cp') \<and> prefix (cp_source_map cp) (cp_source_map cp')"

lemma extends_pool_trans [trans]: "extends_pool a b \<Longrightarrow> extends_pool b c \<Longrightarrow> extends_pool a c"
  by (auto simp: extends_pool_def)

lemma pool_of_prefix: "pool_of m cp' \<Longrightarrow> extends_pool cp cp' \<Longrightarrow> pool_of m cp"
  by (auto simp: pool_of_def extends_pool_def)

lemma intern_constant_cases:
  obtains (old) k where "intern_constant c cp = (cp, u32_of k)" "k < length (cp_constants cp)"
    "cp_constants cp ! k = c"
  | (new) "intern_constant c cp = (cp\<lparr>cp_constants := cp_constants cp @ [c],
      cp_constant_ids := (cp_constant_ids cp)(c \<mapsto> u32_of (length (cp_constants cp)))\<rparr>,
      u32_of (length (cp_constants cp)))"
  | (broken) "\<not> interned cp"
proof (cases "cp_constant_ids cp c")
  case None
  then show thesis by (intro new) (simp add: intern_constant_def Let_def)
next
  case (Some i)
  show thesis
  proof (cases "interned cp")
    case True
    with Some obtain k where "k < length (cp_constants cp)" "i = u32_of k" "cp_constants cp ! k = c"
      by (auto simp: interned_def)
    with Some show thesis by (intro old [of k]) (simp_all add: intern_constant_def)
  qed (rule broken)
qed

lemma intern_constant_interned:
  assumes "intern_constant c cp = (cp', i)" and "interned cp"
  shows "interned cp'" and "prefix (cp_constants cp) (cp_constants cp')"
proof -
  show "interned cp'"
    using assms
  proof (cases rule: intern_constant_cases [of c cp])
    case new
    have "\<exists>k<Suc (length (cp_constants cp)). i = u32_of k \<and> (cp_constants cp @ [c]) ! k = d"
      if "cp_constant_ids cp d = Some i" for d i
      using that assms(2) unfolding interned_def by (fastforce simp: nth_append)
    moreover have "(cp_constants cp @ [c]) ! length (cp_constants cp) = c" by simp
    ultimately show ?thesis using new assms(1,2) unfolding interned_def by auto
  qed auto
  show "prefix (cp_constants cp) (cp_constants cp')"
    using assms by (cases rule: intern_constant_cases [of c cp]) auto
qed

lemma intern_constant_found:
  assumes "intern_constant c cp = (cp', i)" and "interned cp" and "pool_of m cp'"
  shows "module_constant m i = Inr c"
proof -
  obtain k where k: "i = u32_of k" "k < length (cp_constants cp')" "cp_constants cp' ! k = c"
    using assms(1,2) by (cases rule: intern_constant_cases [of c cp]) auto
  from assms(3) obtain rest where rest: "mod_constants m = cp_constants cp' @ rest"
    and len: "length (mod_constants m) < 2 ^ 32" by (auto simp: pool_of_def prefix_def)
  with k have "unat i = k" by simp
  with k rest show ?thesis by (simp add: module_constant_def nth_opt_def nth_append)
qed

lemma intern_constant_sources: "intern_constant c cp = (cp', i) \<Longrightarrow> cp_source_map cp' = cp_source_map cp"
  by (auto simp: intern_constant_def Let_def split: option.splits)

lemma intern_source_pool:
  assumes "intern_source r cp = (cp', i)" and "interned cp"
  shows "extends_pool cp cp'" and "\<exists>k<length (cp_source_map cp'). i = u32_of k"
proof -
  have src: "\<exists>k<length (cp_source_map cp). i = u32_of k" if "cp_source_ids cp r = Some i" for r i
    using assms(2) that unfolding interned_def by blast
  have "extends_pool cp cp' \<and> (\<exists>k<length (cp_source_map cp'). i = u32_of k)"
  proof (cases "cp_source_ids cp r")
    case None
    let ?n = "length (cp_source_map cp)"
    have "\<exists>k<Suc ?n. j = u32_of k" if "((cp_source_ids cp)(r \<mapsto> u32_of ?n)) q = Some j" for q j
      using that src [of q j] by (cases "q = r") (auto intro: less_SucI)
    with assms None show ?thesis
      by (auto simp: intern_source_def Let_def extends_pool_def interned_def)
  next
    case (Some j)
    with assms src [OF Some] show ?thesis
      by (auto simp: intern_source_def extends_pool_def)
  qed
  then show "extends_pool cp cp'" "\<exists>k<length (cp_source_map cp'). i = u32_of k" by simp_all
qed

lemma intern_source_found:
  assumes "intern_source r cp = (cp', i)" and "interned cp" and "pool_of m cp'"
  shows "unat i < length (mod_source_map m)"
proof -
  from intern_source_pool(2) [OF assms(1,2)] obtain k where k: "k < length (cp_source_map cp')" "i = u32_of k"
    by blast
  from assms(3) have "length (cp_source_map cp') \<le> length (mod_source_map m)" "length (mod_source_map m) < 2 ^ 32"
    by (auto simp: pool_of_def dest: prefix_length_le)
  with k show ?thesis by (simp add: unat_of_nat take_bit_nat_eq_self)
qed

section \<open>Locals\<close>

text \<open>The numbering of the names \<open>xs\<close>, in this order.\<close>

definition numbers :: "local_table \<Rightarrow> string list \<Rightarrow> bool" where
  "numbers lt xs \<longleftrightarrow>
     distinct xs \<and> lt_next lt = u32_of (length xs) \<and>
     (\<forall>k<length xs. lt_ids lt (xs ! k) = Some (u32_of k)) \<and> (\<forall>x. x \<notin> set xs \<longrightarrow> lt_ids lt x = None)"

definition add_name :: "string \<Rightarrow> string list \<Rightarrow> string list" where
  "add_name x xs = (if x \<in> set xs then xs else xs @ [x])"

lemma prefix_add_name: "prefix xs (add_name x xs)"
  by (simp add: add_name_def)

lemma local_id_numbers:
  assumes "local_id x lt = (lt', i)" and num: "numbers lt xs"
  obtains k where "numbers lt' (add_name x xs)" "k < length (add_name x xs)" "add_name x xs ! k = x"
    "i = u32_of k"
proof (cases "x \<in> set xs")
  case True
  then obtain k where k: "k < length xs" "xs ! k = x" by (auto simp: in_set_conv_nth)
  with num have "lt_ids lt x = Some (u32_of k)" by (auto simp: numbers_def)
  with assms True k show thesis by (intro that [of k]) (auto simp: local_id_def add_name_def)
next
  case False
  with num have "lt_ids lt x = None" by (simp add: numbers_def)
  with assms(1) have lt': "lt' = \<lparr>lt_ids = (lt_ids lt)(x \<mapsto> lt_next lt), lt_next = lt_next lt + 1\<rparr>"
    "i = lt_next lt" by (auto simp: local_id_def)
  have "(xs @ [x]) ! k \<noteq> x" if "k < length xs" for k
    using that False by (auto simp: nth_append)
  with num False have "numbers lt' (xs @ [x])"
    by (auto simp: numbers_def lt' less_Suc_eq nth_append)
  with num False lt' show thesis
    by (intro that [of "length xs"]) (auto simp: add_name_def numbers_def)
qed

text \<open>The frame holds the values of the variables, in their locals.\<close>

definition frame_holds :: "string list \<Rightarrow> env \<Rightarrow> frame \<Rightarrow> bool" where
  "frame_holds xs env fr \<longleftrightarrow>
     (\<forall>x v. env x = Some v \<longrightarrow>
        (\<exists>k<length xs. xs ! k = x \<and> k < length (fr_locals fr) \<and> fr_locals fr ! k = v))"

lemma frame_holds_prefix: "frame_holds xs env fr \<Longrightarrow> prefix xs ys \<Longrightarrow> frame_holds ys env fr"
  by (fastforce simp: frame_holds_def prefix_def nth_append)

lemma frame_holds_values: "frame_holds xs env (push_value v fr) = frame_holds xs env fr"
  by (simp add: frame_holds_def push_value_def)

lemma frame_holds_local:
  assumes "frame_holds xs env fr" and "env x = Some v" and "distinct xs" and "k < length xs"
    and "xs ! k = x" and "length xs < 2 ^ 32"
  shows "frame_local fr (u32_of k) = Inr v"
proof -
  from assms(1,2) obtain j where "j < length xs" "xs ! j = x" "j < length (fr_locals fr)"
    "fr_locals fr ! j = v" by (auto simp: frame_holds_def)
  moreover from this assms(3-5) have "j = k" by (metis nth_eq_iff_index_eq)
  moreover have "unat (u32_of k) = k" using assms(4,6) by simp
  ultimately show ?thesis by (simp add: frame_local_def nth_opt_def)
qed

lemma store_local_locals:
  fixes v :: runtime_value
  assumes "k < 2 ^ 32"
  shows "k < length (fr_locals (store_local (u32_of k) v fr))"
    "fr_locals (store_local (u32_of k) v fr) ! k = v"
    "j < length (fr_locals fr) \<Longrightarrow> j \<noteq> k \<Longrightarrow>
       j < length (fr_locals (store_local (u32_of k) v fr)) \<and>
       fr_locals (store_local (u32_of k) v fr) ! j = fr_locals fr ! j"
    "fr_values (store_local (u32_of k) v fr) = fr_values fr"
proof -
  have k: "unat (u32_of k) = k" using assms by simp
  show "k < length (fr_locals (store_local (u32_of k) v fr))"
    "fr_locals (store_local (u32_of k) v fr) ! k = v"
    "fr_values (store_local (u32_of k) v fr) = fr_values fr"
    by (simp_all add: store_local_def Let_def k resize_def)
  assume "j < length (fr_locals fr)" "j \<noteq> k"
  then show "j < length (fr_locals (store_local (u32_of k) v fr)) \<and>
      fr_locals (store_local (u32_of k) v fr) ! j = fr_locals fr ! j"
    by (auto simp: store_local_def Let_def k resize_def nth_append)
qed

lemma frame_holds_store:
  assumes "frame_holds xs env fr" and "distinct (add_name x xs)" and "k < length (add_name x xs)"
    and "add_name x xs ! k = x" and "length (add_name x xs) < 2 ^ 32"
  shows "frame_holds (add_name x xs) (env(x \<mapsto> v)) (store_local (u32_of k) v fr)"
  unfolding frame_holds_def
proof (intro allI impI)
  fix y w assume y: "(env(x \<mapsto> v)) y = Some w"
  have k: "k < 2 ^ 32" using assms(3,5) by linarith
  note st = store_local_locals [OF k, where v = v and fr = fr]
  show "\<exists>j<length (add_name x xs). add_name x xs ! j = y \<and>
      j < length (fr_locals (store_local (u32_of k) v fr)) \<and>
      fr_locals (store_local (u32_of k) v fr) ! j = w"
  proof (cases "y = x")
    case True
    with y assms(3,4) st(1,2) show ?thesis by auto
  next
    case False
    with y frame_holds_prefix [OF assms(1) prefix_add_name] obtain j where
      j: "j < length (add_name x xs)" "add_name x xs ! j = y" "j < length (fr_locals fr)"
        "fr_locals fr ! j = w" unfolding frame_holds_def by fastforce
    with False assms(4) have "j \<noteq> k" by auto
    with j st(3) [OF j(3)] show ?thesis by auto
  qed
qed

section \<open>Compiled instructions\<close>

definition names_of :: "ir_instruction \<Rightarrow> string list \<Rightarrow> string list" where
  "names_of i xs =
     (case ii_kind i of II_LoadLocal x \<Rightarrow> add_name x xs | II_StoreLocal x _ \<Rightarrow> add_name x xs | _ \<Rightarrow> xs)"

definition ir_names :: "ir_instruction list \<Rightarrow> string list \<Rightarrow> string list" where
  "ir_names is xs = fold names_of is xs"

lemma ir_names_simps [simp]:
  "ir_names [] xs = xs" "ir_names (i # is) xs = ir_names is (names_of i xs)"
  "ir_names (is @ js) xs = ir_names js (ir_names is xs)"
  by (simp_all add: ir_names_def)

lemma prefix_ir_names: "prefix xs (ir_names is xs)"
proof (induction "is" arbitrary: xs)
  case (Cons i "is")
  have "prefix xs (names_of i xs)" by (simp add: names_of_def prefix_add_name split: ir_instruction_kind.split)
  with Cons [of "names_of i xs"] show ?case by (auto intro: prefix_order.trans)
qed simp

lemma extends_pool_intern: "intern_constant c cp = (cp', i) \<Longrightarrow> interned cp \<Longrightarrow> extends_pool cp cp'"
  by (simp add: extends_pool_def intern_constant_interned intern_constant_sources)

lemma property_operands_pool: "property_operands ps cp = (cp', ops) \<Longrightarrow> interned cp \<Longrightarrow> extends_pool cp cp'"
proof (induction ps cp arbitrary: cp' ops rule: property_operands.induct)
  case (2 name v ps cp)
  obtain cp1 i where a: "intern_constant (Const_Symbol name) cp = (cp1, i)" by fastforce
  obtain cp2 ops2 where b: "property_operands ps cp1 = (cp2, ops2)" by fastforce
  from extends_pool_intern [OF a "2.prems"(2)] have s: "extends_pool cp cp1" .
  then have "interned cp1" by (simp add: extends_pool_def)
  with "2.IH" [OF a [symmetric], where cp' = cp2 and ops = ops2] b have "extends_pool cp1 cp2" by simp
  with s a b "2.prems"(1) show ?case by (auto intro: extends_pool_trans)
qed (simp add: extends_pool_def)

lemma const_operands_pool: "ir_const_operands c cp = (cp', ops) \<Longrightarrow> interned cp \<Longrightarrow> extends_pool cp cp'"
  by (cases c) (auto simp: single_operand_def extends_pool_def intern_constant_interned intern_constant_sources
      dest: property_operands_pool split: prod.splits)

lemma compile_kind_pool:
  assumes "compile_kind kind cp lt = (cp', lt', opc, ops)" and "interned cp"
  shows "extends_pool cp cp'"
  using assms
  by (cases kind) (auto simp: extends_pool_def intern_constant_interned intern_constant_sources
      dest: const_operands_pool split: prod.splits)

lemma compile_kind_names:
  assumes "compile_kind (ii_kind i) cp lt = (cp', lt', opc, ops)" and "numbers lt xs"
  shows "numbers lt' (names_of i xs)"
  using assms
  by (cases "ii_kind i") (auto simp: names_of_def elim: local_id_numbers split: prod.splits)

lemma compile_instruction_pool:
  assumes "compile_instruction i cp lt = (cp', lt', c)" and "interned cp"
  shows "extends_pool cp cp'"
proof -
  obtain cp1 r where a: "intern_source (source_ref_from_span (ii_source_span i)) cp = (cp1, r)" by fastforce
  obtain cp2 lt1 opc ops where b: "compile_kind (ii_kind i) cp1 lt = (cp2, lt1, opc, ops)"
    by (metis prod_cases4)
  note s = intern_source_pool(1) [OF a assms(2)]
  then have "interned cp1" by (simp add: extends_pool_def)
  from extends_pool_trans [OF s compile_kind_pool [OF b this]] a b assms(1) show ?thesis
    by (simp add: compile_instruction_def)
qed

lemma compile_instruction_names:
  "compile_instruction i cp lt = (cp', lt', c) \<Longrightarrow> numbers lt xs \<Longrightarrow> numbers lt' (names_of i xs)"
  by (auto simp: compile_instruction_def compile_kind_names split: prod.splits)

lemma compile_instructions_pool:
  "compile_instructions is cp lt = (cp', lt', cs) \<Longrightarrow> interned cp \<Longrightarrow> extends_pool cp cp'"
proof (induction "is" arbitrary: cp lt cs)
  case (Cons i "is")
  obtain cp1 lt1 c where a: "compile_instruction i cp lt = (cp1, lt1, c)" by (metis prod_cases3)
  obtain cp2 lt2 ds where b: "compile_instructions is cp1 lt1 = (cp2, lt2, ds)" by (metis prod_cases3)
  from compile_instruction_pool [OF a Cons.prems(2)] have s: "extends_pool cp cp1" .
  then have "interned cp1" by (simp add: extends_pool_def)
  from a b Cons.prems(1) have "compile_instructions is cp1 lt1 = (cp', lt', ds)" by simp
  from Cons.IH [OF this \<open>interned cp1\<close>] s show ?case by (rule extends_pool_trans [rotated])
qed (simp add: extends_pool_def)

lemma compile_instructions_names:
  "compile_instructions is cp lt = (cp', lt', cs) \<Longrightarrow> numbers lt xs \<Longrightarrow> numbers lt' (ir_names is xs)"
  by (induction "is" arbitrary: cp lt cs xs) (auto dest: compile_instruction_names split: prod.splits)

lemma compile_instructions_append:
  "compile_instructions (is @ js) cp lt =
     (case compile_instructions is cp lt of
        (cp1, lt1, cs) \<Rightarrow> (case compile_instructions js cp1 lt1 of (cp2, lt2, ds) \<Rightarrow> (cp2, lt2, cs @ ds)))"
  by (induction "is" arbitrary: cp lt) (auto split: prod.splits)

lemma execute_instructions_append:
  "execute_instructions n call m (cs @ ds) fr =
     sbind (execute_instructions n call m cs fr) (\<lambda>(fr', flow).
       case flow of Continue \<Rightarrow> execute_instructions n call m ds fr'
       | Jump_To t \<Rightarrow> sret (fr', Jump_To t) | Return_Value v \<Rightarrow> sret (fr', Return_Value v))"
proof (induction cs arbitrary: fr)
  case Nil
  then show ?case by (simp add: sbind_def sret_def fun_eq_iff)
next
  case (Cons c cs)
  then show ?case
    by (simp add: fun_eq_iff sbind_def sret_def split: prod.splits sum.splits control_flow.splits)
qed

end
