(* ===== verification/Simulation.thy ===== *)
theory Simulation
  imports Compiled_Code
begin

text \<open>
  The simulation behind \<open>Compiler_Correct\<close>. \<open>runs_as\<close> says that the bytecode of some IR
  instructions, compiled at any place of any module, computes what a computation of the
  reference semantics computes: the same error, heap, console and world, or a frame that holds the
  variables and whose values satisfy a postcondition. The rules combine such statements as a
  program logic does; then comes one statement for each instruction of straight-line code.
\<close>

section \<open>The simulation\<close>

text \<open>\<open>cs\<close> is bytecode of \<open>is\<close> in the module \<open>m\<close>; \<open>xs\<close> and \<open>ys\<close> are the locals before and after.\<close>

definition compiled ::
  "bytecode_module \<Rightarrow> nat \<Rightarrow> ir_instruction list \<Rightarrow> string list \<Rightarrow> instruction list \<Rightarrow> string list \<Rightarrow> bool" where
  "compiled m k js xs cs ys \<longleftrightarrow>
     (\<exists>cp lt cp' lt'. compile_instructions js cp lt = (cp', lt', cs) \<and> interned cp \<and> numbers lt xs \<and>
        pool_of m cp') \<and>
     ys = ir_names js xs \<and> length ys < 2 ^ 32 \<and> k < 2 ^ 32"

lemma compiled_append:
  assumes "compiled m k (is @ js) xs cs zs"
  obtains ds es ys where "cs = ds @ es" "compiled m k is xs ds ys" "compiled m k js ys es zs"
proof -
  from assms obtain cp lt cp' lt' where c: "compile_instructions (is @ js) cp lt = (cp', lt', cs)"
    and i: "interned cp" "numbers lt xs" "pool_of m cp'"
    and z: "zs = ir_names (is @ js) xs" "length zs < 2 ^ 32" "k < 2 ^ 32"
    by (auto simp: compiled_def)
  obtain cp1 lt1 ds where a: "compile_instructions is cp lt = (cp1, lt1, ds)" by (metis prod_cases3)
  obtain es where b: "compile_instructions js cp1 lt1 = (cp', lt', es)" and cs: "cs = ds @ es"
    using a c by (auto simp: compile_instructions_append split: prod.splits)
  from compile_instructions_pool [OF a i(1)] have p: "interned cp1" by (simp add: extends_pool_def)
  from pool_of_prefix [OF i(3) compile_instructions_pool [OF b p]] have q: "pool_of m cp1" .
  from prefix_length_le [OF prefix_ir_names, of "ir_names is xs" js] z have
    l: "length (ir_names is xs) < 2 ^ 32" by simp
  show thesis
  proof (rule that [OF cs])
    show "compiled m k is xs ds (ir_names is xs)"
      using a i(1,2) q l z(3) by (auto simp: compiled_def)
    show "compiled m k js (ir_names is xs) es zs"
      using b p compile_instructions_names [OF a i(2)] i(3) z by (auto simp: compiled_def)
  qed
qed

lemma compiled_nil: "compiled m k [] xs cs ys \<Longrightarrow> cs = [] \<and> ys = xs"
  by (auto simp: compiled_def)

lemma compiled_less: "compiled m k js xs cs ys \<Longrightarrow> j \<le> k \<Longrightarrow> compiled m j js xs cs ys"
  by (auto simp: compiled_def)

text \<open>One instruction, after its source reference is interned.\<close>

lemma compiled_single:
  assumes "compiled m k [i] xs cs ys"
  obtains cp lt cp' lt' opc ops r where
    "compile_kind (ii_kind i) cp lt = (cp', lt', opc, ops)" "interned cp" "numbers lt xs" "pool_of m cp'"
    "cs = [\<lparr>ins_opcode = opc, ins_operands = ops, ins_type_tag = type_tag_of (ii_ty i), ins_source_ref = r\<rparr>]"
    "ys = names_of i xs" "length ys < 2 ^ 32" "k < 2 ^ 32" "unat r < length (mod_source_map m)"
proof -
  from assms obtain cp lt cp' lt' where a: "compile_instructions [i] cp lt = (cp', lt', cs)"
    and i: "interned cp" "numbers lt xs" "pool_of m cp'"
    and z: "ys = names_of i xs" "length ys < 2 ^ 32" "k < 2 ^ 32"
    by (auto simp only: compiled_def ir_names_simps)
  obtain c where c: "compile_instruction i cp lt = (cp', lt', c)" "cs = [c]"
    using a by (auto split: prod.splits)
  obtain cp1 r where a: "intern_source (source_ref_from_span (ii_source_span i)) cp = (cp1, r)" by fastforce
  note e = intern_source_pool(1) [OF a i(1)]
  then have cp1: "interned cp1" by (simp add: extends_pool_def)
  obtain opc ops where k: "compile_kind (ii_kind i) cp1 lt = (cp', lt', opc, ops)"
    using a c by (auto simp: compile_instruction_def split: prod.splits)
  with a c have "c = \<lparr>ins_opcode = opc, ins_operands = ops, ins_type_tag = type_tag_of (ii_ty i), ins_source_ref = r\<rparr>"
    by (simp add: compile_instruction_def)
  moreover have "unat r < length (mod_source_map m)"
    by (rule intern_source_found [OF a i(1) pool_of_prefix [OF i(3) compile_kind_pool [OF k cp1]]])
  ultimately show thesis using c(2) by (intro that [OF k cp1 i(2,3) _ z]) simp_all
qed

text \<open>
  What the source computes against what the bytecode computes. \<open>c\<close> says which results of the
  source end the function.
\<close>

definition outcome ::
  "string list \<Rightarrow> nat \<Rightarrow> string set \<Rightarrow> frame \<Rightarrow> ('a \<Rightarrow> runtime_value option) \<Rightarrow>
   ('a \<Rightarrow> runtime_value list \<Rightarrow> bool) \<Rightarrow> (env \<times> 'w interp) \<times> (abort + 'a) \<Rightarrow>
   'w interp \<times> (abort + frame \<times> control_flow) \<Rightarrow> bool" where
  "outcome ys k D fr c Q r t \<longleftrightarrow>
     (case r of
        ((env, s), Inl e) \<Rightarrow> t = (s, Inl e)
      | ((env, s), Inr a) \<Rightarrow>
          (case c a of
             Some v \<Rightarrow> \<exists>fr'. t = (s, Inr (fr', Return_Value v))
           | None \<Rightarrow>
               \<exists>fr'. t = (s, Inr (fr', Continue)) \<and> frame_holds ys env fr' \<and> D \<subseteq> dom env \<and>
                 prefix (fr_values fr) (fr_values fr') \<and> length (fr_values fr') = k \<and> Q a (fr_values fr')))"

definition runs_as ::
  "nat \<Rightarrow> 'w call \<Rightarrow> ir_instruction list \<Rightarrow> nat \<Rightarrow> nat \<Rightarrow> string set \<Rightarrow> (runtime_value list \<Rightarrow> bool) \<Rightarrow>
   ('w, 'a) source \<Rightarrow> ('a \<Rightarrow> runtime_value option) \<Rightarrow> string set \<Rightarrow>
   ('a \<Rightarrow> runtime_value list \<Rightarrow> bool) \<Rightarrow> bool" where
  "runs_as n call js k0 k1 D P E c D' Q \<longleftrightarrow>
     (\<forall>m xs cs ys env fr s.
        compiled m k1 js xs cs ys \<longrightarrow> frame_holds xs env fr \<longrightarrow> D \<subseteq> dom env \<longrightarrow>
        length (fr_values fr) = k0 \<longrightarrow> P (fr_values fr) \<longrightarrow>
        outcome ys k1 D' fr c Q (E (env, s)) (execute_instructions n call m cs fr s))"

definition goes_on :: "'a \<Rightarrow> runtime_value option" where
  "goes_on a = None"

definition ends :: "runtime_value option \<Rightarrow> runtime_value option" where
  "ends r = r"

lemma runs_asI:
  assumes "\<And>m xs cs ys env fr s. compiled m k1 js xs cs ys \<Longrightarrow> frame_holds xs env fr \<Longrightarrow> D \<subseteq> dom env \<Longrightarrow>
     length (fr_values fr) = k0 \<Longrightarrow> P (fr_values fr) \<Longrightarrow>
     outcome ys k1 D' fr c Q (E (env, s)) (execute_instructions n call m cs fr s)"
  shows "runs_as n call js k0 k1 D P E c D' Q"
  unfolding runs_as_def using assms by blast

lemma runs_asD:
  assumes "runs_as n call js k0 k1 D P E c D' Q" and "compiled m k1 js xs cs ys"
    and "frame_holds xs env fr" and "D \<subseteq> dom env" and "length (fr_values fr) = k0" and "P (fr_values fr)"
  shows "outcome ys k1 D' fr c Q (E (env, s)) (execute_instructions n call m cs fr s)"
  using assms unfolding runs_as_def by blast

section \<open>The rules\<close>

text \<open>Conditions on the values of a frame that later values do not disturb.\<close>

definition stable :: "(runtime_value list \<Rightarrow> bool) \<Rightarrow> bool" where
  "stable P \<longleftrightarrow> (\<forall>vs ws. P vs \<longrightarrow> prefix vs ws \<longrightarrow> P ws)"

definition has :: "value_id \<Rightarrow> runtime_value \<Rightarrow> runtime_value list \<Rightarrow> bool" where
  "has r v vs \<longleftrightarrow> r < length vs \<and> vs ! r = v"

definition has_all :: "value_id list \<Rightarrow> runtime_value list \<Rightarrow> runtime_value list \<Rightarrow> bool" where
  "has_all rs vs ws \<longleftrightarrow> list_all2 (\<lambda>r v. has r v ws) rs vs"

definition has_fields ::
  "(string \<times> value_id) list \<Rightarrow> (string \<times> runtime_value) list \<Rightarrow> runtime_value list \<Rightarrow> bool" where
  "has_fields ps fds ws \<longleftrightarrow> list_all2 (\<lambda>p f. fst p = fst f \<and> has (snd p) (snd f) ws) ps fds"

lemma has_prefix: "has r v vs \<Longrightarrow> prefix vs ws \<Longrightarrow> has r v ws"
  by (auto simp: has_def prefix_def nth_append)

lemma stable_has [simp]: "stable (has r v)" "stable (has_all rs vs)" "stable (has_fields ps fds)"
    "stable (\<lambda>ws. True)"
  by (auto simp: stable_def has_all_def has_fields_def intro: has_prefix elim!: list_all2_mono)

lemma runs_weaken:
  assumes "runs_as n call js k0 k1 D P E c D' Q" and "\<And>ws. P' ws \<Longrightarrow> P ws"
    and "\<And>a ws. c a = None \<Longrightarrow> Q a ws \<Longrightarrow> Q' a ws" and "D'' \<subseteq> D'"
  shows "runs_as n call js k0 k1 D P' E c D'' Q'"
proof (rule runs_asI)
  fix m xs cs ys env fr s
  assume "compiled m k1 js xs cs ys" "frame_holds xs env fr" "D \<subseteq> dom env"
    "length (fr_values fr) = k0" "P' (fr_values fr)"
  then have "outcome ys k1 D' fr c Q (E (env, s)) (execute_instructions n call m cs fr s)"
    by (intro runs_asD [OF assms(1)] assms(2))
  with assms(3,4) show "outcome ys k1 D'' fr c Q' (E (env, s)) (execute_instructions n call m cs fr s)"
    by (fastforce simp: outcome_def split: prod.splits sum.splits option.splits)
qed

text \<open>What stable conditions hold before still hold after.\<close>

lemma runs_keep:
  assumes "runs_as n call js k0 k1 D P E c D' Q" and "stable S"
  shows "runs_as n call js k0 k1 D (\<lambda>ws. S ws \<and> P ws) E c D' (\<lambda>a ws. S ws \<and> Q a ws)"
proof (rule runs_asI)
  fix m xs cs ys env fr s
  assume a: "compiled m k1 js xs cs ys" "frame_holds xs env fr" "D \<subseteq> dom env"
    "length (fr_values fr) = k0" "S (fr_values fr) \<and> P (fr_values fr)"
  then have "outcome ys k1 D' fr c Q (E (env, s)) (execute_instructions n call m cs fr s)"
    by (intro runs_asD [OF assms(1)]) simp_all
  with a(5) assms(2) show
    "outcome ys k1 D' fr c (\<lambda>a ws. S ws \<and> Q a ws) (E (env, s)) (execute_instructions n call m cs fr s)"
    unfolding stable_def by (fastforce simp: outcome_def split: prod.splits sum.splits option.splits)
qed

lemma outcome_bind:
  assumes "outcome ys k1 D' fr goes_on Q (E (env, s)) (execute_instructions n call m ds fr s)"
    and "\<And>a env' fr' s'. frame_holds ys env' fr' \<Longrightarrow> D' \<subseteq> dom env' \<Longrightarrow> length (fr_values fr') = k1 \<Longrightarrow>
      Q a (fr_values fr') \<Longrightarrow> outcome zs k2 D'' fr' c R (F a (env', s')) (execute_instructions n call m es fr' s')"
  shows "outcome zs k2 D'' fr c R (sbind E F (env, s)) (execute_instructions n call m (ds @ es) fr s)"
proof -
  obtain env' s' r where E: "E (env, s) = ((env', s'), r)" by (metis surj_pair)
  show ?thesis
  proof (cases r)
    case (Inl e)
    with assms(1) E show ?thesis
      by (simp add: outcome_def execute_instructions_append sbind_def)
  next
    case (Inr a)
    with assms(1) E obtain fr' where f: "execute_instructions n call m ds fr s = (s', Inr (fr', Continue))"
      "frame_holds ys env' fr'" "D' \<subseteq> dom env'" "length (fr_values fr') = k1" "Q a (fr_values fr')"
      and p: "prefix (fr_values fr) (fr_values fr')" by (auto simp: outcome_def goes_on_def)
    from assms(2) [OF f(2-5)] have
      "outcome zs k2 D'' fr' c R (F a (env', s')) (execute_instructions n call m es fr' s')" .
    with p have "outcome zs k2 D'' fr c R (F a (env', s')) (execute_instructions n call m es fr' s')"
      by (fastforce simp: outcome_def split: prod.splits sum.splits option.splits intro: prefix_order.trans)
    with E Inr f(1) show ?thesis
      by (simp add: execute_instructions_append sbind_def)
  qed
qed

lemma runs_bind:
  assumes "runs_as n call js k0 k1 D P E goes_on D' Q"
    and "\<And>a. runs_as n call ls k1 k2 D' (Q a) (F a) c D'' R" and "k1 \<le> k2"
  shows "runs_as n call (js @ ls) k0 k2 D P (sbind E F) c D'' R"
proof (rule runs_asI)
  fix m xs cs zs env fr s
  assume c: "compiled m k2 (js @ ls) xs cs zs" and h: "frame_holds xs env fr" "D \<subseteq> dom env"
    "length (fr_values fr) = k0" "P (fr_values fr)"
  from compiled_append [OF c] obtain ds es ys where cs: "cs = ds @ es"
    and d: "compiled m k2 js xs ds ys" and e: "compiled m k2 ls ys es zs" .
  show "outcome zs k2 D'' fr c R (sbind E F (env, s)) (execute_instructions n call m cs fr s)"
    unfolding cs
  proof (rule outcome_bind)
    show "outcome ys k1 D' fr goes_on Q (E (env, s)) (execute_instructions n call m ds fr s)"
      by (rule runs_asD [OF assms(1) compiled_less [OF d assms(3)] h])
  qed (rule runs_asD [OF assms(2) e])
qed

text \<open>Two statements: the second runs unless the first returns.\<close>

lemma runs_then:
  assumes "runs_as n call js k0 k1 D P E ends D' (\<lambda>a ws. True)"
    and "runs_as n call ls k1 k2 D' (\<lambda>ws. True) F ends D'' (\<lambda>a ws. True)" and "k1 \<le> k2"
  shows "runs_as n call (js @ ls) k0 k2 D P
    (sbind E (\<lambda>r. case r of None \<Rightarrow> F | Some v \<Rightarrow> sret (Some v))) ends D'' (\<lambda>a ws. True)"
proof (rule runs_asI)
  fix m xs cs zs env fr s
  assume c: "compiled m k2 (js @ ls) xs cs zs" and h: "frame_holds xs env fr" "D \<subseteq> dom env"
    "length (fr_values fr) = k0" "P (fr_values fr)"
  from compiled_append [OF c] obtain ds es ys where cs: "cs = ds @ es"
    and d: "compiled m k2 js xs ds ys" and e: "compiled m k2 ls ys es zs" .
  have o: "outcome ys k1 D' fr ends (\<lambda>a ws. True) (E (env, s)) (execute_instructions n call m ds fr s)"
    by (rule runs_asD [OF assms(1) compiled_less [OF d assms(3)] h])
  obtain env' s' r where E: "E (env, s) = ((env', s'), r)" by (metis surj_pair)
  show "outcome zs k2 D'' fr ends (\<lambda>a ws. True)
      (sbind E (\<lambda>r. case r of None \<Rightarrow> F | Some v \<Rightarrow> sret (Some v)) (env, s))
      (execute_instructions n call m cs fr s)"
  proof (cases "r = Inr None")
    case False
    with o E show ?thesis
      by (auto simp: cs outcome_def ends_def execute_instructions_append sbind_def sret_def split: sum.splits option.splits)
  next
    case True
    with o E obtain fr' where f: "execute_instructions n call m ds fr s = (s', Inr (fr', Continue))"
      "frame_holds ys env' fr'" "D' \<subseteq> dom env'" "length (fr_values fr') = k1"
      and p: "prefix (fr_values fr) (fr_values fr')" by (auto simp: outcome_def ends_def)
    from runs_asD [OF assms(2) e f(2-4)] p have
      "outcome zs k2 D'' fr ends (\<lambda>a ws. True) (F (env', s')) (execute_instructions n call m es fr' s')"
      by (fastforce simp: outcome_def split: prod.splits sum.splits option.splits intro: prefix_order.trans)
    with E True f(1) show ?thesis
      by (simp add: cs execute_instructions_append sbind_def)
  qed
qed

lemma runs_sret:
  assumes "c a = None" and "\<And>ws. P ws \<Longrightarrow> Q a ws"
  shows "runs_as n call [] k k D P (sret a) c D Q"
  by (rule runs_asI) (auto simp: outcome_def sret_def assms dest: compiled_nil)

section \<open>Reading the frame and the constant pool\<close>

lemma frame_value_has: "has r v (fr_values fr) \<Longrightarrow> length (fr_values fr) < 2 ^ 32 \<Longrightarrow>
    frame_value fr (u32_of r) = Inr v"
  by (simp add: has_def frame_value_def nth_opt_def take_bit_nat_eq_self unat_of_nat)

lemma frame_values_has:
  "has_all rs vs (fr_values fr) \<Longrightarrow> length (fr_values fr) < 2 ^ 32 \<Longrightarrow>
    rmap (frame_value fr) (map u32_of rs) = Inr vs"
  unfolding has_all_def
  by (induction rs arbitrary: vs)
    (auto simp: list_all2_Cons1 frame_value_has result_simps)

lemma compiled_operand_simps:
  "operand \<lparr>ins_opcode = opc, ins_operands = w # ws, ins_type_tag = t, ins_source_ref = r\<rparr> 0 = Inr w"
  "operand \<lparr>ins_opcode = opc, ins_operands = w # ws, ins_type_tag = t, ins_source_ref = r\<rparr> (Suc k) =
   operand \<lparr>ins_opcode = opc, ins_operands = ws, ins_type_tag = t, ins_source_ref = r\<rparr> k"
  by (simp_all add: operand_def nth_opt_def ok_or_def)

lemma operand_nth:
  "k < length (ins_operands i) \<Longrightarrow> operand i k = Inr (ins_operands i ! k)"
  by (simp add: operand_def nth_opt_def ok_or_def)

lemma object_fields_has:
  assumes "property_operands ps cp = (cp', ops)" and "interned cp" and "pool_of m cp'"
    and "has_fields ps fds (fr_values fr)" and "length (fr_values fr) < 2 ^ 32"
    and "ins_operands i = pre @ ops" and "length pre = 1 + index * 2"
  shows "object_fields m fr i index (length ps) acc = Inr (fold (\<lambda>(k, v). bt_insert k v) fds acc)"
  using assms
proof (induction ps cp arbitrary: cp' ops fds pre index acc rule: property_operands.induct)
  case (1 cp)
  then show ?case by (simp add: has_fields_def)
next
  case (2 name r ps cp)
  obtain cp1 w where a: "intern_constant (Const_Symbol name) cp = (cp1, w)" by fastforce
  obtain cp2 ops2 where b: "property_operands ps cp1 = (cp2, ops2)" by fastforce
  from a b "2.prems"(1) have ops: "ops = w # u32_of r # ops2" "cp2 = cp'" by simp_all
  from "2.prems"(4) obtain v gds where f: "fds = (name, v) # gds" "has r v (fr_values fr)"
    "has_fields ps gds (fr_values fr)" by (auto simp: has_fields_def list_all2_Cons1)
  from intern_constant_interned(1) [OF a "2.prems"(2)] have i1: "interned cp1" .
  from pool_of_prefix [OF "2.prems"(3) property_operands_pool [OF b [unfolded ops(2)] i1]] have "pool_of m cp1" .
  from intern_constant_found [OF a "2.prems"(2) this] have c: "module_constant m w = Inr (Const_Symbol name)" .
  from "2.prems"(6,7) ops(1) have o: "operand i (1 + index * 2) = Inr w"
    "operand i (2 + index * 2) = Inr (u32_of r)"
    by (simp_all add: operand_nth nth_append)
  from "2.prems"(6) ops(1) have "ins_operands i = (pre @ [w, u32_of r]) @ ops2" by simp
  from "2.IH" [OF a [symmetric] _ i1 "2.prems"(3) f(3) "2.prems"(5) this, where index = "Suc index"]
    b ops(2) "2.prems"(7)
  have "object_fields m fr i (Suc index) (length ps) (bt_insert name v acc) =
      Inr (fold (\<lambda>(k, v). bt_insert k v) gds (bt_insert name v acc))" by simp
  with c o f(1) frame_value_has [OF f(2) "2.prems"(5)] show ?case
    by (simp add: result_simps)
qed

section \<open>The instructions\<close>

lemma names_of_other:
  assumes "frame_holds xs env fr"
  shows "frame_holds (names_of i xs) env (push_value v fr)"
  using frame_holds_prefix [OF assms, of "names_of i xs"] prefix_ir_names [of xs "[i]"]
  by (simp add: frame_holds_values)

text \<open>An instruction that computes a value and leaves the variables alone.\<close>

lemma runs_push:
  assumes "\<And>m xs c ys env fr. compiled m (Suc k) [i] xs [c] ys \<Longrightarrow> frame_holds xs env fr \<Longrightarrow> D \<subseteq> dom env \<Longrightarrow>
      length (fr_values fr) = k \<Longrightarrow> length (fr_values fr) < 2 ^ 32 \<Longrightarrow> P (fr_values fr) \<Longrightarrow>
      execute_instruction n call m c fr = sbind (act env) (push_continue fr)"
    and "\<And>env s. E (env, s) = at_runtime (act env) (env, s)"
  shows "runs_as n call [i] k (Suc k) D P E goes_on D (has k)"
proof (rule runs_asI)
  fix m xs cs ys env fr s
  assume c: "compiled m (Suc k) [i] xs cs ys" and h: "frame_holds xs env fr" "D \<subseteq> dom env"
    "length (fr_values fr) = k" "P (fr_values fr)"
  from compiled_single [OF c] obtain ci where ci: "cs = [ci]" and ys: "ys = names_of i xs"
    and k: "Suc k < 2 ^ 32" by metis
  from k h(3) have l: "length (fr_values fr) < 2 ^ 32" by simp
  note ex = assms(1) [OF c [unfolded ci] h(1-3) l h(4)]
  obtain s' r where act: "act env s = (s', r)" by fastforce
  from names_of_other [OF h(1)] have "frame_holds ys env (push_value v fr)" for v by (simp add: ys)
  moreover have "has k v (fr_values (push_value v fr))" for v
    using h(3) by (simp add: has_def push_value_def nth_append)
  ultimately show "outcome ys (Suc k) D fr goes_on (has k) (E (env, s)) (execute_instructions n call m cs fr s)"
    using h(2,3)
    by (cases r) (auto simp: outcome_def assms(2) at_runtime_def act ci ex sbind_def push_continue_def
        sret_def goes_on_def push_value_def)
qed

fun scalar_entry :: "ir_const \<Rightarrow> const_entry option" where
  "scalar_entry (IC_Number s) = Some (Const_Number s)"
| "scalar_entry (IC_String s) = Some (Const_String s)"
| "scalar_entry (IC_Boolean b) = Some (Const_Boolean b)"
| "scalar_entry IC_Null = Some Const_Null"
| "scalar_entry IC_Undefined = Some Const_Undefined"
| "scalar_entry _ = None"

lemma compile_scalar:
  assumes "compile_kind (II_LoadConst c) cp lt = (cp', lt', opc, ops)" and "scalar_entry c = Some ce"
  obtains w where "intern_constant ce cp = (cp', w)" "opc = LoadConst" "ops = [w]"
  using assms
  by (cases c) (auto simp: single_operand_def const_opcode_def split: prod.splits)

lemma runs_scalar:
  assumes "ii_kind i = II_LoadConst c" and "scalar_entry c = Some ce"
  shows "runs_as n call [i] k (Suc k) D P (slift (value_from_constant ce)) goes_on D (has k)"
proof (rule runs_push)
  fix m xs ci ys env and fr :: frame
  assume "compiled m (Suc k) [i] xs [ci] ys"
  then show "execute_instruction n call m ci fr =
      sbind (slift (value_from_constant ce)) (push_continue fr)"
  proof (cases rule: compiled_single)
    case (1 cp lt cp' lt' opc ops r)
    from 1(1) have k: "compile_kind (II_LoadConst c) cp lt = (cp', lt', opc, ops)" by (simp only: assms(1))
    obtain w where w: "intern_constant ce cp = (cp', w)" "opc = LoadConst" "ops = [w]"
      by (rule compile_scalar [OF k assms(2)])
    from intern_constant_found [OF w(1) 1(2,4)] w(2,3) 1(5) show ?thesis
      by (simp add: execute_instruction_def compiled_operand_simps result_simps)
  qed
qed (simp add: at_runtime_def slift_def)

lemma runs_object:
  assumes "ii_kind i = II_LoadConst (IC_Object ps)" and "length ps \<le> k"
  shows "runs_as n call [i] k (Suc k) D (has_fields ps fds) (at_runtime (new_object fds)) goes_on D (has k)"
proof (rule runs_push)
  fix m xs ci ys env and fr :: frame
  assume c: "compiled m (Suc k) [i] xs [ci] ys" and h: "length (fr_values fr) < 2 ^ 32"
    "has_fields ps fds (fr_values fr)"
  from c show "execute_instruction n call m ci fr = sbind (new_object fds) (push_continue fr)"
  proof (cases rule: compiled_single)
    case (1 cp lt cp' lt' opc ops r)
    obtain ops' where p: "property_operands ps cp = (cp', ops')" and o: "opc = BuildObject"
      "ops = u32_of (length ps) # ops'"
      using 1(1) by (auto simp: assms(1) const_opcode_def split: prod.splits)
    have len: "unat (u32_of (length ps)) = length ps"
      using 1(8) assms(2) by (simp add: unat_of_nat take_bit_nat_eq_self)
    note fs = object_fields_has [OF p 1(2,4) h(2,1), of ci "[u32_of (length ps)]" 0 "[]"]
    from 1(5) o fs show ?thesis
      by (simp add: execute_instruction_def compiled_operand_simps len new_object_def result_simps
          sbind_def sret_def fun_eq_iff split: prod.splits sum.splits)
  qed
qed simp

lemma runs_array:
  assumes "ii_kind i = II_LoadConst (IC_Array rs)"
  shows "runs_as n call [i] k (Suc k) D (has_all rs vs) (at_runtime (new_array vs)) goes_on D (has k)"
proof (rule runs_push)
  fix m xs ci ys env and fr :: frame
  assume c: "compiled m (Suc k) [i] xs [ci] ys" and h: "length (fr_values fr) < 2 ^ 32"
    "has_all rs vs (fr_values fr)"
  from c show "execute_instruction n call m ci fr = sbind (new_array vs) (push_continue fr)"
  proof (cases rule: compiled_single)
    case (1 cp lt cp' lt' opc ops r)
    then show ?thesis
      by (auto simp: assms const_opcode_def execute_instruction_def compiled_operand_simps new_array_def
          frame_values_has [OF h(2,1)] result_simps sbind_def sret_def fun_eq_iff
          split: prod.splits sum.splits)
  qed
qed simp

lemma runs_load_local:
  assumes "ii_kind i = II_LoadLocal x" and "x \<in> D"
  shows "runs_as n call [i] k (Suc k) D P (get_var x) goes_on D (has k)"
proof (rule runs_push)
  fix m xs ci ys and fr :: frame and env :: env
  assume c: "compiled m (Suc k) [i] xs [ci] ys" and h: "frame_holds xs env fr" "D \<subseteq> dom env"
  obtain v where v: "env x = Some v" using assms(2) h(2) by auto
  from c show "execute_instruction n call m ci fr =
      sbind (slift (case env x of None \<Rightarrow> Inl Panic | Some v \<Rightarrow> Inr v)) (push_continue fr)"
  proof (cases rule: compiled_single)
    case (1 cp lt cp' lt' opc ops r)
    obtain w where l: "local_id x lt = (lt', w)" and o: "opc = LoadLocal" "ops = [w]"
      using 1(1) by (auto simp: assms(1) split: prod.splits)
    obtain j where j: "numbers lt' (add_name x xs)" "j < length (add_name x xs)" "add_name x xs ! j = x"
      "w = u32_of j" by (rule local_id_numbers [OF l 1(3)])
    have ys: "ys = add_name x xs" using 1(6) by (simp add: names_of_def assms(1))
    have "frame_holds (add_name x xs) env fr" by (rule frame_holds_prefix [OF h(1) prefix_add_name])
    from frame_holds_local [OF this v _ j(2,3)] j(1,4) 1(7) have "frame_local fr w = Inr v"
      by (simp add: ys numbers_def)
    with 1(5) o v show ?thesis
      by (simp add: execute_instruction_def compiled_operand_simps result_simps)
  qed
qed (simp add: at_runtime_def get_var_def slift_def)

lemma symbol_operand:
  assumes "intern_constant (Const_Symbol p) cp = (cp', w)" and "interned cp" and "pool_of m cp'"
    and "operand i k = Inr w"
  shows "operand_symbol m i k = Inr p"
  using intern_constant_found [OF assms(1-3)] assms(4) by (simp add: operand_symbol_def)

lemma runs_load_member:
  assumes "ii_kind i = II_LoadMember r p"
  shows "runs_as n call [i] k (Suc k) D (has r v) (at_runtime (on_heap (\<lambda>h. load_member h v p))) goes_on D (has k)"
proof (rule runs_push)
  fix m xs ci ys env and fr :: frame
  assume c: "compiled m (Suc k) [i] xs [ci] ys" and h: "length (fr_values fr) < 2 ^ 32" "has r v (fr_values fr)"
  from c show "execute_instruction n call m ci fr =
      sbind (on_heap (\<lambda>h. load_member h v p)) (push_continue fr)"
  proof (cases rule: compiled_single)
    case (1 cp lt cp' lt' opc ops sr)
    obtain w where l: "intern_constant (Const_Symbol p) cp = (cp', w)" and o: "opc = LoadMember"
      "ops = [u32_of r, w]" using 1(1) by (auto simp: assms(1) split: prod.splits)
    have "operand ci 1 = Inr w" using 1(5) o by (simp add: compiled_operand_simps)
    from symbol_operand [OF l 1(2,4) this] 1(5) o show ?thesis
      by (simp add: execute_instruction_def operand_value_def compiled_operand_simps frame_value_has [OF h(2,1)] result_simps)
  qed
qed simp

lemma runs_binary:
  assumes "ii_kind i = II_Binary op r1 r2"
  shows "runs_as n call [i] k (Suc k) D (\<lambda>ws. has r1 x ws \<and> has r2 y ws)
    (at_runtime (on_heap (\<lambda>h. binary n (binary_op_code op) h x y))) goes_on D (has k)"
proof (rule runs_push)
  fix m xs ci ys env and fr :: frame
  assume c: "compiled m (Suc k) [i] xs [ci] ys" and h: "length (fr_values fr) < 2 ^ 32"
    "has r1 x (fr_values fr) \<and> has r2 y (fr_values fr)"
  from c show "execute_instruction n call m ci fr =
      sbind (on_heap (\<lambda>h. binary n (binary_op_code op) h x y)) (push_continue fr)"
  proof (cases rule: compiled_single)
    case (1 cp lt cp' lt' opc ops sr)
    have o: "opc = Binary" "ops = [binary_op_code op, u32_of r1, u32_of r2]"
      using 1(1) by (auto simp: assms(1))
    have "frame_value fr (u32_of r1) = Inr x" "frame_value fr (u32_of r2) = Inr y"
      using h by (auto intro: frame_value_has)
    with 1(5) o show ?thesis
      by (simp add: execute_instruction_def operand_value_def compiled_operand_simps result_simps numeral_2_eq_2)
  qed
qed simp

lemma runs_call:
  assumes "ii_kind i = II_Call f rs" and "length rs \<le> k"
  shows "runs_as n call [i] k (Suc k) D (has_all rs vs) (at_runtime (call f vs)) goes_on D (has k)"
proof (rule runs_push)
  fix m xs ci ys env and fr :: frame
  assume c: "compiled m (Suc k) [i] xs [ci] ys" and h: "length (fr_values fr) < 2 ^ 32"
    "has_all rs vs (fr_values fr)"
  from c show "execute_instruction n call m ci fr = sbind (call f vs) (push_continue fr)"
  proof (cases rule: compiled_single)
    case (1 cp lt cp' lt' opc ops sr)
    obtain w where l: "intern_constant (Const_Symbol f) cp = (cp', w)" and o: "opc = Call"
      "ops = w # u32_of (length rs) # map u32_of rs"
      using 1(1) by (auto simp: assms(1) split: prod.splits)
    have len: "unat (u32_of (length rs)) = length rs"
      using 1(8) assms(2) by (simp add: unat_of_nat take_bit_nat_eq_self)
    have "operand ci 0 = Inr w" using 1(5) o by (simp add: compiled_operand_simps)
    from symbol_operand [OF l 1(2,4) this] 1(5) o show ?thesis
      by (simp add: execute_instruction_def compiled_operand_simps len frame_values_has [OF h(2,1)] result_simps numeral_2_eq_2)
  qed
qed simp

lemma runs_store_local:
  assumes "ii_kind i = II_StoreLocal x r"
  shows "runs_as n call [i] k k D (has r v) (set_var x v) goes_on (insert x D) (\<lambda>a ws. True)"
proof (rule runs_asI)
  fix m xs cs ys env s and fr :: frame
  assume c: "compiled m k [i] xs cs ys" and h: "frame_holds xs env fr" "D \<subseteq> dom env"
    "length (fr_values fr) = k" "has r v (fr_values fr)"
  from c show "outcome ys k (insert x D) fr goes_on (\<lambda>a ws. True) (set_var x v (env, s))
      (execute_instructions n call m cs fr s)"
  proof (cases rule: compiled_single)
    case (1 cp lt cp' lt' opc ops sr)
    obtain w where l: "local_id x lt = (lt', w)" and o: "opc = StoreLocal" "ops = [w, u32_of r]"
      using 1(1) by (auto simp: assms(1) split: prod.splits)
    obtain j where j: "numbers lt' (add_name x xs)" "j < length (add_name x xs)" "add_name x xs ! j = x"
      "w = u32_of j" by (rule local_id_numbers [OF l 1(3)])
    have ys: "ys = add_name x xs" using 1(6) by (simp add: names_of_def assms(1))
    with 1(7) j(1,2) have d: "distinct (add_name x xs)" "length (add_name x xs) < 2 ^ 32" "j < 2 ^ 32"
      by (simp_all add: numbers_def)
    have "frame_value fr (u32_of r) = Inr v" using frame_value_has [OF h(4)] h(3) 1(8) by simp
    with 1(5) o have "execute_instructions n call m cs fr s = (s, Inr (store_local w v fr, Continue))"
      by (simp add: execute_instruction_def operand_value_def compiled_operand_simps result_simps sbind_def sret_def)
    moreover have "frame_holds ys (env(x \<mapsto> v)) (store_local w v fr)"
      unfolding ys j(4) by (rule frame_holds_store [OF h(1) d(1) j(2,3) d(2)])
    moreover have "fr_values (store_local w v fr) = fr_values fr"
      unfolding j(4) by (rule store_local_locals(4) [OF d(3)])
    ultimately show ?thesis using h(2,3) by (auto simp: outcome_def set_var_def goes_on_def)
  qed
qed

lemma runs_store_member:
  assumes "ii_kind i = II_StoreMember r1 p r2"
  shows "runs_as n call [i] k k D (\<lambda>ws. has r1 x ws \<and> has r2 v ws)
    (at_runtime (write_heap (\<lambda>h. store_member h x p v))) goes_on D (\<lambda>a ws. True)"
proof (rule runs_asI)
  fix m xs cs ys env s and fr :: frame
  assume c: "compiled m k [i] xs cs ys" and h: "frame_holds xs env fr" "D \<subseteq> dom env"
    "length (fr_values fr) = k" "has r1 x (fr_values fr) \<and> has r2 v (fr_values fr)"
  from c show "outcome ys k D fr goes_on (\<lambda>a ws. True)
      (at_runtime (write_heap (\<lambda>h. store_member h x p v)) (env, s)) (execute_instructions n call m cs fr s)"
  proof (cases rule: compiled_single)
    case (1 cp lt cp' lt' opc ops sr)
    obtain w where l: "intern_constant (Const_Symbol p) cp = (cp', w)" and o: "opc = StoreMember"
      "ops = [u32_of r1, w, u32_of r2]" using 1(1) by (auto simp: assms(1) split: prod.splits)
    obtain ci where ci: "cs = [ci]" using 1(5) by blast
    have "operand ci 1 = Inr w" using 1(5) o ci by (simp add: compiled_operand_simps)
    note sym = symbol_operand [OF l 1(2,4) this]
    have fv: "frame_value fr (u32_of r1) = Inr x" "frame_value fr (u32_of r2) = Inr v"
      using h 1(8) by (auto intro: frame_value_has)
    have "execute_instruction n call m ci fr =
        sbind (write_heap (\<lambda>h. store_member h x p v)) (\<lambda>_. sret (fr, Continue))"
      using 1(5) o ci sym fv
      by (simp add: execute_instruction_def operand_value_def compiled_operand_simps result_simps numeral_2_eq_2)
    moreover have "ys = xs" using 1(6) by (simp add: names_of_def assms(1))
    ultimately show ?thesis using h
      by (auto simp: ci outcome_def goes_on_def at_runtime_def write_heap_def sbind_def sret_def split: sum.splits)
  qed
qed

lemma runs_return:
  assumes "ii_kind i = II_Return w" and "\<And>ws. P ws \<Longrightarrow> case w of None \<Rightarrow> v = R_Undefined | Some r \<Rightarrow> has r v ws"
  shows "runs_as n call [i] k k D P (sret (Some v)) ends D' (\<lambda>a ws. True)"
proof (rule runs_asI)
  fix m xs cs ys env s and fr :: frame
  assume c: "compiled m k [i] xs cs ys" and h: "frame_holds xs env fr" "D \<subseteq> dom env"
    "length (fr_values fr) = k" "P (fr_values fr)"
  from c show "outcome ys k D' fr ends (\<lambda>a ws. True) (sret (Some v) (env, s)) (execute_instructions n call m cs fr s)"
  proof (cases rule: compiled_single)
    case (1 cp lt cp' lt' opc ops sr)
    have "execute_instructions n call m cs fr s = (s, Inr (fr, Return_Value v))"
    proof (cases w)
      case None
      with 1(1,5) assms(2) [OF h(4)] show ?thesis
        by (auto simp: assms(1) execute_instruction_def result_simps sbind_def sret_def slift_def)
    next
      case (Some r)
      with assms(2) [OF h(4)] h(3) 1(8) have "frame_value fr (u32_of r) = Inr v"
        by (auto intro: frame_value_has)
      with Some 1(1,5) show ?thesis
        by (auto simp: assms(1) execute_instruction_def result_simps sbind_def sret_def slift_def)
    qed
    then show ?thesis by (simp add: outcome_def ends_def sret_def)
  qed
qed

end
