(* ===== verification/Compiler_Correct.thy ===== *)
theory Compiler_Correct
  imports Simulation
begin

text \<open>
  Lowering and compilation preserve the meaning of straight-line programs: running the compiled
  module gives what the reference semantics of \<open>Source_Semantics\<close> gives, errors, host effects
  and the statistics of the final collection included.
\<close>

section \<open>Lowering\<close>

text \<open>A function of one block, and the instructions in it.\<close>

definition single :: "function_lowerer \<Rightarrow> bool" where
  "single fl \<longleftrightarrow> fl_current fl = 0 \<and> (\<exists>js. fl_blocks fl = [\<lparr>ib_id = 0, ib_instructions = js\<rparr>])"

definition emitted :: "function_lowerer \<Rightarrow> ir_instruction list" where
  "emitted fl = ib_instructions (fl_blocks fl ! 0)"

text \<open>Lowering leaves the name and the parameters of the function alone.\<close>

definition sig :: "function_lowerer \<Rightarrow> string \<times> ir_param list" where
  "sig fl = (fl_name fl, fl_params fl)"

definition lowers ::
  "nat \<Rightarrow> 'w call \<Rightarrow> function_lowerer \<Rightarrow> function_lowerer \<Rightarrow> string set \<Rightarrow> (runtime_value list \<Rightarrow> bool) \<Rightarrow>
   ('w, 'a) source \<Rightarrow> ('a \<Rightarrow> runtime_value option) \<Rightarrow> string set \<Rightarrow>
   ('a \<Rightarrow> runtime_value list \<Rightarrow> bool) \<Rightarrow> bool" where
  "lowers n call fl fl' D P E c D' Q \<longleftrightarrow>
     single fl' \<and> sig fl' = sig fl \<and>
     (\<exists>js. emitted fl' = emitted fl @ js \<and> fl_next_value fl \<le> fl_next_value fl' \<and>
        fl_next_value fl' \<le> fl_next_value fl + length js \<and>
        runs_as n call js (fl_next_value fl) (fl_next_value fl') D P E c D' Q)"

lemma lowers_single: "lowers n call fl fl' D P E c D' Q \<Longrightarrow> single fl'"
  by (simp add: lowers_def)

lemma lowers_bind:
  assumes "lowers n call fl fl1 D P E goes_on D' Q"
    and "\<And>a. lowers n call fl1 fl2 D' (Q a) (F a) c D'' R"
  shows "lowers n call fl fl2 D P (sbind E F) c D'' R"
proof -
  from assms(1) obtain js where j: "sig fl1 = sig fl" "emitted fl1 = emitted fl @ js" "fl_next_value fl \<le> fl_next_value fl1"
    "fl_next_value fl1 \<le> fl_next_value fl + length js"
    "runs_as n call js (fl_next_value fl) (fl_next_value fl1) D P E goes_on D' Q"
    by (auto simp: lowers_def)
  from assms(2) obtain ls where l: "single fl2" "sig fl2 = sig fl1" "emitted fl2 = emitted fl1 @ ls"
    "fl_next_value fl1 \<le> fl_next_value fl2" "fl_next_value fl2 \<le> fl_next_value fl1 + length ls"
    by (auto simp: lowers_def)
  with assms(2) have "runs_as n call ls (fl_next_value fl1) (fl_next_value fl2) D' (Q a) (F a) c D'' R" for a
    by (auto simp: lowers_def)
  from runs_bind [OF j(5) this l(4)] j(1-4) l show ?thesis
    unfolding lowers_def by (intro conjI exI [of _ "js @ ls"]) simp_all
qed

lemma lowers_keep:
  assumes "lowers n call fl fl' D P E c D' Q" and "stable S"
  shows "lowers n call fl fl' D (\<lambda>ws. S ws \<and> P ws) E c D' (\<lambda>a ws. S ws \<and> Q a ws)"
proof -
  from assms(1) obtain js where "single fl'" "sig fl' = sig fl" "emitted fl' = emitted fl @ js"
    "fl_next_value fl \<le> fl_next_value fl'" "fl_next_value fl' \<le> fl_next_value fl + length js"
    and r: "runs_as n call js (fl_next_value fl) (fl_next_value fl') D P E c D' Q"
    by (auto simp: lowers_def)
  with runs_keep [OF r assms(2)] show ?thesis by (auto simp: lowers_def)
qed

lemma lowers_weaken:
  assumes "lowers n call fl fl' D P E c D' Q" and "\<And>ws. P' ws \<Longrightarrow> P ws"
    and "\<And>a ws. c a = None \<Longrightarrow> Q a ws \<Longrightarrow> Q' a ws" and "D'' \<subseteq> D'"
  shows "lowers n call fl fl' D P' E c D'' Q'"
proof -
  from assms(1) obtain js where "single fl'" "sig fl' = sig fl" "emitted fl' = emitted fl @ js"
    "fl_next_value fl \<le> fl_next_value fl'" "fl_next_value fl' \<le> fl_next_value fl + length js"
    and r: "runs_as n call js (fl_next_value fl) (fl_next_value fl') D P E c D' Q"
    by (auto simp: lowers_def)
  moreover have "runs_as n call js (fl_next_value fl) (fl_next_value fl') D P' E c D'' Q'"
    by (rule runs_weaken [OF r assms(2-4)])
  ultimately show ?thesis by (auto simp: lowers_def)
qed

text \<open>Two operands, then what depends on both.\<close>

lemma lowers_bind2:
  assumes "lowers n call fl fl1 D (\<lambda>ws. True) E goes_on D Q1"
    and "lowers n call fl1 fl2 D (\<lambda>ws. True) F goes_on D Q2" and "\<And>a. stable (Q1 a)"
    and "\<And>a b. lowers n call fl2 fl3 D (\<lambda>ws. Q1 a ws \<and> Q2 b ws) (G a b) c D' R"
  shows "lowers n call fl fl3 D (\<lambda>ws. True) (sbind E (\<lambda>a. sbind F (G a))) c D' R"
  by (rule lowers_bind [OF assms(1)])
    (rule lowers_bind [OF lowers_keep [OF assms(2,3), simplified] assms(4)])

lemma lowers_sret:
  "single fl \<Longrightarrow> (\<And>ws. P ws \<Longrightarrow> Q a ws) \<Longrightarrow> lowers n call fl fl D P (sret a) goes_on D Q"
  unfolding lowers_def by (auto simp: goes_on_def intro!: runs_sret)

text \<open>A value that was there before an effect is the result.\<close>

lemma lowers_effect:
  assumes "lowers n call fl fl' D P A goes_on D' (\<lambda>a ws. True)" and "\<And>ws. P ws \<Longrightarrow> has r v ws"
    and "D \<subseteq> D'"
  shows "lowers n call fl fl' D P (sbind A (\<lambda>_. sret v)) goes_on D (has r)"
proof -
  have "lowers n call fl' fl' D' (\<lambda>ws. has r v ws \<and> True) (sret v) goes_on D' (has r)"
    by (rule lowers_sret [OF lowers_single [OF assms(1)]]) simp
  from lowers_bind [OF lowers_keep [OF assms(1) stable_has(1) [of r v]] this]
  show ?thesis by (rule lowers_weaken) (use assms(2,3) in simp_all)
qed

lemma emit_single:
  "single fl \<Longrightarrow> single (emit kind r ty sp fl) \<and>
     emitted (emit kind r ty sp fl) =
       emitted fl @ [\<lparr>ii_kind = kind, ii_result = r, ii_ty = ty, ii_source_span = sp\<rparr>] \<and>
     fl_next_value (emit kind r ty sp fl) = fl_next_value fl \<and> sig (emit kind r ty sp fl) = sig fl"
  by (auto simp: single_def emitted_def emit_def sig_def Let_def)

lemma lowers_emit:
  assumes "single fl"
    and "\<And>i. ii_kind i = kind \<Longrightarrow> runs_as n call [i] (fl_next_value fl) (fl_next_value fl) D P E c D' Q"
  shows "lowers n call fl (emit kind r ty sp fl) D P E c D' Q"
  using emit_single [OF assms(1), of kind r ty sp] assms(2)
  by (auto simp: lowers_def)

lemma lowers_emit_value:
  assumes "single fl" and "emit_value kind ty sp fl = (fl', v, ty')"
    and "\<And>i. ii_kind i = kind \<Longrightarrow>
      runs_as n call [i] (fl_next_value fl) (Suc (fl_next_value fl)) D P E goes_on D (has (fl_next_value fl))"
  shows "lowers n call fl fl' D P E goes_on D (has v) \<and> fl_next_value fl < fl_next_value fl'"
proof -
  let ?fl = "fl\<lparr>fl_next_value := Suc (fl_next_value fl)\<rparr>"
  have "single ?fl" "emitted ?fl = emitted fl" "sig ?fl = sig fl"
    using assms(1) by (simp_all add: single_def emitted_def sig_def)
  with emit_single [OF this(1), of kind "Some (fl_next_value fl)" ty sp] assms(2,3) show ?thesis
    by (auto simp: lowers_def emit_value_def alloc_value_def)
qed

section \<open>Expressions\<close>

lemma operator_code_eq: "operator_code op = binary_op_code (binary_op op)"
  by (cases op) simp_all

lemma dotted_callee: "is_dotted e \<Longrightarrow> dotted e = callee_name e"
  by (induction e rule: is_dotted.induct) simp_all

lemma slift_constant:
  "slift (value_from_constant (Const_String s)) = sret (R_String s)"
  "slift (value_from_constant (Const_Boolean b)) = sret (R_Boolean b)"
  "slift (value_from_constant Const_Null) = sret R_Null"
  "slift (value_from_constant Const_Undefined) = sret R_Undefined"
  by (simp_all add: slift_def sret_def fun_eq_iff)

lemma load_scalar:
  assumes "single fl" and "load_const c ty sp fl = (fl', v, ty')" and "scalar_entry c = Some ce"
  shows "lowers n call fl fl' D P (slift (value_from_constant ce)) goes_on D (has v) \<and>
    fl_next_value fl < fl_next_value fl'"
  using lowers_emit_value [OF assms(1) assms(2)[unfolded load_const_def] runs_scalar [OF _ assms(3)]] .

abbreviation lowers_value where
  "lowers_value n call D e fl fl' v \<equiv>
     lowers n call fl fl' D (\<lambda>ws. True) (eval n call e) goes_on D (has v) \<and>
     fl_next_value fl < fl_next_value fl'"

abbreviation lowers_list where
  "lowers_list n call D es fl fl' vs \<equiv>
     lowers n call fl fl' D (\<lambda>ws. True) (eval_list n call es) goes_on D (has_all vs) \<and>
     fl_next_value fl + length vs \<le> fl_next_value fl'"

abbreviation lowers_fields where
  "lowers_fields n call D ps fl fl' vs \<equiv>
     lowers n call fl fl' D (\<lambda>ws. True) (eval_fields n call ps) goes_on D (has_fields vs) \<and>
     fl_next_value fl + length vs \<le> fl_next_value fl'"

lemma lower_expression_lowers:
  "simple D e \<Longrightarrow> single fl \<Longrightarrow>
     (case lower_expression e fl of (fl', v, ty) \<Rightarrow> lowers_value n call D e fl fl' v)"
  "list_all (simple D) es \<Longrightarrow> single fl \<Longrightarrow>
     (case lower_values es fl of (fl', vs) \<Rightarrow> lowers_list n call D es fl fl' (map fst vs))"
  "list_all (simple_property D) ps \<Longrightarrow> single fl \<Longrightarrow>
     (case lower_properties ps fl of (fl', vs) \<Rightarrow>
        lowers_fields n call D ps fl fl' (map (\<lambda>(name, v, ty). (name, v)) vs))"
proof (induction e fl and es fl and ps fl rule: lower_expression_lower_values_lower_properties.induct)
  case (1 name sp fl)
  obtain fl' v ty where a: "lower_expression (Expression (Ex_Identifier name) sp) fl = (fl', v, ty)"
    by (metis prod_cases3)
  from "1.prems"(1) have "name \<in> D" by simp
  from lowers_emit_value [OF "1.prems"(2) a [simplified] runs_load_local [OF _ this]]
  show ?case by (simp add: a [simplified])
next
  case (2 s sp fl)
  obtain fl' v ty where a: "load_const (IC_Number s) IT_Number sp fl = (fl', v, ty)"
    by (metis prod_cases3)
  from load_scalar [OF "2.prems"(2) a scalar_entry.simps(1)] show ?case by (simp add: a del: value_from_constant.simps(1))
next
  case (3 s sp fl)
  obtain fl' v ty where a: "load_const (IC_String s) IT_String sp fl = (fl', v, ty)"
    by (metis prod_cases3)
  from load_scalar [OF "3.prems"(2) a scalar_entry.simps(2), unfolded slift_constant] show ?case by (simp add: a)
next
  case (4 b sp fl)
  obtain fl' v ty where a: "load_const (IC_Boolean b) IT_Boolean sp fl = (fl', v, ty)"
    by (metis prod_cases3)
  from load_scalar [OF "4.prems"(2) a scalar_entry.simps(3), unfolded slift_constant] show ?case by (simp add: a)
next
  case (5 sp fl)
  obtain fl' v ty where a: "load_const IC_Null IT_Null sp fl = (fl', v, ty)"
    by (metis prod_cases3)
  from load_scalar [OF "5.prems"(2) a scalar_entry.simps(4), unfolded slift_constant] show ?case by (simp add: a)
next
  case (6 sp fl)
  obtain fl' v ty where a: "load_const IC_Undefined IT_Undefined sp fl = (fl', v, ty)"
    by (metis prod_cases3)
  from load_scalar [OF "6.prems"(2) a scalar_entry.simps(5), unfolded slift_constant] show ?case by (simp add: a)
next
  case (7 properties sp fl)
  obtain fl1 fds where a: "lower_properties properties fl = (fl1, fds)" by fastforce
  let ?ps = "map (\<lambda>(name, v, ty). (name, v)) fds"
  from 7 a have p: "lowers_fields n call D properties fl fl1 ?ps" by simp
  obtain fl' v ty where b: "load_const (IC_Object ?ps) (IT_Object (map (\<lambda>(n, v, ty). (n, ty)) fds)) sp fl1 =
      (fl', v, ty)" by (metis prod_cases3)
  from p have "length ?ps \<le> fl_next_value fl1" by simp
  note q = lowers_emit_value [OF lowers_single [OF conjunct1 [OF p]] b [unfolded load_const_def]
      runs_object [OF _ this]]
  from lowers_bind [OF conjunct1 [OF p] conjunct1 [OF q]] p conjunct2 [OF q] show ?case
    by (simp add: a b)
next
  case (8 elements sp fl)
  obtain fl1 vals where a: "lower_values elements fl = (fl1, vals)" by fastforce
  from 8 a have p: "lowers_list n call D elements fl fl1 (map fst vals)" by simp
  obtain fl' v ty where b: "load_const (IC_Array (map fst vals)) (IT_Array (first_known (map snd vals))) sp fl1 =
      (fl', v, ty)" by (metis prod_cases3)
  note q = lowers_emit_value [OF lowers_single [OF conjunct1 [OF p]] b [unfolded load_const_def] runs_array [where rs = "map fst vals"]]
  from lowers_bind [OF conjunct1 [OF p] conjunct1 [OF q]] p conjunct2 [OF q] show ?case
    by (simp add: a b)
next
  case (9 object property sp fl)
  obtain fl1 r ty1 where a: "lower_expression object fl = (fl1, r, ty1)" by (metis prod_cases3)
  from 9 a have p: "lowers_value n call D object fl fl1 r" by simp
  obtain fl' v ty where b: "emit_value (II_LoadMember r property) (member_type ty1 property) sp fl1 =
      (fl', v, ty)" by (metis prod_cases3)
  note q = lowers_emit_value [OF lowers_single [OF conjunct1 [OF p]] b runs_load_member [where r = r and p = property]]
  from lowers_bind [OF conjunct1 [OF p] conjunct1 [OF q]] p conjunct2 [OF q] show ?case by (simp add: a b)
next
  case (10 callee arguments sp fl)
  obtain fl1 vals where a: "lower_values arguments fl = (fl1, vals)" by fastforce
  from 10 a have p: "lowers_list n call D arguments fl fl1 (map fst vals)" by simp
  obtain fl' v ty where b: "emit_value (II_Call (callee_name callee) (map fst vals)) IT_Unknown sp fl1 =
      (fl', v, ty)" by (metis prod_cases3)
  from p have "length (map fst vals) \<le> fl_next_value fl1" by simp
  note q = lowers_emit_value [OF lowers_single [OF conjunct1 [OF p]] b runs_call [where f = "callee_name callee", OF _ this]]
  from lowers_bind [OF conjunct1 [OF p] conjunct1 [OF q]] p conjunct2 [OF q] "10.prems"(1) show ?case
    by (simp add: a b dotted_callee)
next
  case (11 left operator right sp fl)
  obtain fl1 r1 ty1 where a: "lower_expression left fl = (fl1, r1, ty1)" by (metis prod_cases3)
  from 11 a have p: "lowers_value n call D left fl fl1 r1" by simp
  obtain fl2 r2 ty2 where b: "lower_expression right fl1 = (fl2, r2, ty2)" by (metis prod_cases3)
  from 11 a b lowers_single [OF conjunct1 [OF p]] have q: "lowers_value n call D right fl1 fl2 r2" by simp
  obtain fl' v ty where c: "emit_value (II_Binary (binary_op operator) r1 r2) (binary_type operator) sp fl2 =
      (fl', v, ty)" by (metis prod_cases3)
  note w = lowers_emit_value [OF lowers_single [OF conjunct1 [OF q]] c runs_binary [where op = "binary_op operator" and ?r1.0 = r1 and ?r2.0 = r2]]
  from lowers_bind2 [OF conjunct1 [OF p] conjunct1 [OF q] stable_has(1) conjunct1 [OF w]] p q conjunct2 [OF w]
  show ?case by (simp add: a b c operator_code_eq)
next
  case (12 name left_span operator right sp fl)
  obtain fl1 r ty where a: "lower_expression right fl = (fl1, r, ty)" by (metis prod_cases3)
  from 12 a have p: "lowers_value n call D right fl fl1 r" by simp
  have s: "single fl1" by (rule lowers_single [OF conjunct1 [OF p]])
  let ?fl = "emit (II_StoreLocal name r) None ty sp fl1"
  have "lowers n call fl1 ?fl D (has r v) (set_var name v) goes_on (insert name D) (\<lambda>a ws. True)" for v
    by (rule lowers_emit [OF s runs_store_local])
  from lowers_effect [OF this, where r = r]
  have q: "lowers n call fl1 ?fl D (has r v) (sbind (set_var name v) (\<lambda>_. sret v)) goes_on D (has r)" for v
    by auto
  from lowers_bind [OF conjunct1 [OF p] q] p emit_single [OF s] "12.prems"(1) show ?case
    by (simp add: a)
next
  case (13 object property left_span operator right sp fl)
  obtain fl1 r1 ty1 where a: "lower_expression object fl = (fl1, r1, ty1)" by (metis prod_cases3)
  from 13 a have p: "lowers_value n call D object fl fl1 r1" by simp
  obtain fl2 r2 ty2 where b: "lower_expression right fl1 = (fl2, r2, ty2)" by (metis prod_cases3)
  from 13 a b lowers_single [OF conjunct1 [OF p]] have q: "lowers_value n call D right fl1 fl2 r2" by simp
  have s: "single fl2" by (rule lowers_single [OF conjunct1 [OF q]])
  let ?fl = "emit (II_StoreMember r1 property r2) None ty2 sp fl2"
  have "lowers n call fl2 ?fl D (\<lambda>ws. has r1 x ws \<and> has r2 v ws)
      (at_runtime (write_heap (\<lambda>h. store_member h x property v))) goes_on D (\<lambda>a ws. True)" for x v
    by (rule lowers_emit [OF s runs_store_member])
  from lowers_effect [OF this, where r = r2]
  have w: "lowers n call fl2 ?fl D (\<lambda>ws. has r1 x ws \<and> has r2 v ws)
      (sbind (at_runtime (write_heap (\<lambda>h. store_member h x property v))) (\<lambda>_. sret v)) goes_on D (has r2)"
    for x v by auto
  from lowers_bind2 [OF conjunct1 [OF p] conjunct1 [OF q] stable_has(1) w] p q emit_single [OF s]
    "13.prems"(1) show ?case
    by (simp add: a b store_member_value_def)
next
  case (17 fl)
  show ?case by (auto simp: has_all_def intro!: lowers_sret "17.prems"(2))
next
  case (18 e es fl)
  obtain fl1 r ty where a: "lower_expression e fl = (fl1, r, ty)" by (metis prod_cases3)
  from 18 a have p: "lowers_value n call D e fl fl1 r" by simp
  obtain fl2 vs where b: "lower_values es fl1 = (fl2, vs)" by fastforce
  from 18 a b lowers_single [OF conjunct1 [OF p]] have q: "lowers_list n call D es fl1 fl2 (map fst vs)" by simp
  have "lowers n call fl2 fl2 D (\<lambda>ws. has r x ws \<and> has_all (map fst vs) xs ws) (sret (x # xs)) goes_on D
      (has_all (r # map fst vs))" for x xs
    by (rule lowers_sret [OF lowers_single [OF conjunct1 [OF q]]]) (simp add: has_all_def)
  from lowers_bind2 [OF conjunct1 [OF p] conjunct1 [OF q] stable_has(1) this] p q show ?case
    by (simp add: a b)
next
  case (19 fl)
  show ?case by (auto simp: has_fields_def intro!: lowers_sret "19.prems"(2))
next
  case (20 name val sp ps fl)
  obtain fl1 r ty where a: "lower_expression val fl = (fl1, r, ty)" by (metis prod_cases3)
  from 20 a have p: "lowers_value n call D val fl fl1 r" by simp
  obtain fl2 vs where b: "lower_properties ps fl1 = (fl2, vs)" by fastforce
  let ?vs = "map (\<lambda>(name, v, ty). (name, v)) vs"
  from 20 a b lowers_single [OF conjunct1 [OF p]] have q: "lowers_fields n call D ps fl1 fl2 ?vs" by simp
  have "lowers n call fl2 fl2 D (\<lambda>ws. has r x ws \<and> has_fields ?vs xs ws) (sret ((name, x) # xs)) goes_on D
      (has_fields ((name, r) # ?vs))" for x xs
    by (rule lowers_sret [OF lowers_single [OF conjunct1 [OF q]]]) (simp add: has_fields_def)
  from lowers_bind2 [OF conjunct1 [OF p] conjunct1 [OF q] stable_has(1) this] p q show ?case
    by (simp add: a b)
qed (simp_all)

section \<open>Statements\<close>

lemma lower_value:
  assumes "simple D e" and "single fl" and "lower_expression e fl = (fl', v, ty)"
  shows "lowers n call fl fl' D (\<lambda>ws. True) (eval n call e) goes_on D (has v)"
  using lower_expression_lowers(1) [OF assms(1,2), where n = n and call = call] assms(3) by simp

lemma lowers_locals:
  "lowers n call (fl\<lparr>fl_locals := f\<rparr>) fl' D P E c D' Q = lowers n call fl fl' D P E c D' Q"
  "single (fl\<lparr>fl_locals := f\<rparr>) = single fl"
  by (simp_all add: lowers_def single_def emitted_def sig_def)

lemma lowers_next:
  "single fl \<Longrightarrow> lowers n call fl fl D P (sret None) ends D (\<lambda>a ws. True)"
  unfolding lowers_def by (auto simp: ends_def intro!: runs_sret)

lemma lowers_then:
  assumes "lowers n call fl fl1 D P E ends D' (\<lambda>a ws. True)"
    and "lowers n call fl1 fl2 D' (\<lambda>ws. True) F ends D'' (\<lambda>a ws. True)"
  shows "lowers n call fl fl2 D P
    (sbind E (\<lambda>r. case r of None \<Rightarrow> F | Some v \<Rightarrow> sret (Some v))) ends D'' (\<lambda>a ws. True)"
proof -
  from assms(1) obtain js where j: "sig fl1 = sig fl" "emitted fl1 = emitted fl @ js" "fl_next_value fl \<le> fl_next_value fl1"
    "fl_next_value fl1 \<le> fl_next_value fl + length js"
    "runs_as n call js (fl_next_value fl) (fl_next_value fl1) D P E ends D' (\<lambda>a ws. True)"
    by (auto simp: lowers_def)
  from assms(2) obtain ls where l: "single fl2" "sig fl2 = sig fl1" "emitted fl2 = emitted fl1 @ ls"
    "fl_next_value fl1 \<le> fl_next_value fl2" "fl_next_value fl2 \<le> fl_next_value fl1 + length ls"
    "runs_as n call ls (fl_next_value fl1) (fl_next_value fl2) D' (\<lambda>ws. True) F ends D'' (\<lambda>a ws. True)"
    by (auto simp: lowers_def)
  from runs_then [OF j(5) l(6) l(4)] j(1-4) l show ?thesis
    unfolding lowers_def by (intro conjI exI [of _ "js @ ls"]) simp_all
qed

lemma lower_variable_lowers:
  assumes "single fl" and "pred_option (simple D) (vd_initializer var)"
  shows "lowers n call fl (lower_variable var sp fl) D (\<lambda>ws. True)
    (exec n call (Statement (S_Variable var) sp)) ends (insert (vd_name var) D) (\<lambda>a ws. True)"
proof -
  let ?E = "case vd_initializer var of None \<Rightarrow> sret R_Undefined | Some e \<Rightarrow> eval n call e"
  obtain fl1 r ty where a: "(case vd_initializer var of Some e \<Rightarrow> lower_expression e fl
      | None \<Rightarrow> load_const IC_Undefined IT_Undefined sp fl) = (fl1, r, ty)" by (metis prod_cases3)
  have p: "lowers n call fl fl1 D (\<lambda>ws. True) ?E goes_on D (has r)"
  proof (cases "vd_initializer var")
    case None
    from load_scalar [OF assms(1) a [unfolded None, simplified] scalar_entry.simps(5), unfolded slift_constant]
    have "lowers n call fl fl1 D (\<lambda>ws. True) (sret R_Undefined) goes_on D (has r)" by blast
    with None show ?thesis by simp
  next
    case (Some e)
    with assms a show ?thesis by (auto intro: lower_value)
  qed
  obtain f ty' where l: "lower_variable var sp fl =
      emit (II_StoreLocal (vd_name var) r) None ty' sp (fl1\<lparr>fl_locals := f\<rparr>)"
    using a by (auto simp: lower_variable_def Let_def)
  have s: "single (fl1\<lparr>fl_locals := f\<rparr>)" using lowers_single [OF p] by (simp add: lowers_locals)
  let ?fl = "lower_variable var sp fl"
  have q: "lowers n call (fl1\<lparr>fl_locals := f\<rparr>) ?fl D (has r v) (set_var (vd_name var) v) goes_on
      (insert (vd_name var) D) (\<lambda>a ws. True)" for v
    unfolding l by (rule lowers_emit [OF s runs_store_local])
  from lowers_bind [OF q lowers_next [OF lowers_single [OF q]]]
  have "lowers n call fl1 ?fl D (has r v) (sbind (set_var (vd_name var) v) (\<lambda>_. sret None)) ends
      (insert (vd_name var) D) (\<lambda>a ws. True)" for v by (simp add: lowers_locals)
  from lowers_bind [OF p this] show ?thesis by simp
qed

lemma lower_return_lowers:
  assumes "single fl" and "pred_option (simple D) val"
  shows "lowers n call fl (lower_return val sp fl) D (\<lambda>ws. True)
    (exec n call (Statement (S_Return val) sp)) ends D (\<lambda>a ws. True)"
proof (cases val)
  case None
  have "lowers n call fl (emit (II_Return None) None IT_Undefined sp fl) D (\<lambda>ws. True)
      (sret (Some R_Undefined)) ends D (\<lambda>a ws. True)"
    by (rule lowers_emit [OF assms(1)]) (rule runs_return, assumption, simp)
  then show ?thesis by (simp add: None lower_return_def sem_simps(4))
next
  case (Some e)
  obtain fl1 r ty where a: "lower_expression e fl = (fl1, r, ty)" by (metis prod_cases3)
  from assms Some have "simple D e" by simp
  note p = lower_value [OF this assms(1) a, of n call]
  have "lowers n call fl1 (emit (II_Return (Some r)) None IT_Undefined sp fl1) D (has r v) (sret (Some v)) ends D
      (\<lambda>a ws. True)" for v
    by (rule lowers_emit [OF lowers_single [OF p]]) (rule runs_return, assumption, simp)
  from lowers_bind [OF p this] show ?thesis by (simp add: Some a lower_return_def)
qed

lemma lower_statement_lowers:
  "straight D st \<Longrightarrow> single fl \<Longrightarrow>
     lowers n call fl (lower_statement st fl) D (\<lambda>ws. True) (exec n call st) ends (D \<union> declared st) (\<lambda>a ws. True)"
proof (induction D st arbitrary: fl rule: straight.induct)
  case (1 D var sp)
  with lower_variable_lowers [of fl D var n call sp] show ?case by simp
next
  case (2 D val sp)
  with lower_return_lowers [of fl D val n call sp] show ?case by simp
next
  case (3 D e sp)
  obtain fl1 r ty where a: "lower_expression e fl = (fl1, r, ty)" by (metis prod_cases3)
  from 3 have "simple D e" by simp
  note p = lower_value [OF this "3.prems"(2) a, of n call]
  have "lowers n call fl1 fl1 D (has r v) (sret None) ends D (\<lambda>a ws. True)" for v
    by (rule lowers_next [OF lowers_single [OF p]])
  from lowers_bind [OF p this] show ?case by (simp add: a)
next
  case (4 D inner sp)
  then show ?case by simp
qed (auto intro: lowers_next)

lemma lower_statements_lowers:
  "straight_list D sts \<Longrightarrow> single fl \<Longrightarrow>
     \<exists>D'. lowers n call fl (lower_statements sts fl) D (\<lambda>ws. True) (exec_list n call sts) ends D' (\<lambda>a ws. True)"
proof (induction sts arbitrary: D fl)
  case Nil
  then show ?case by (auto intro: lowers_next)
next
  case (Cons st sts)
  then have "straight D st" by simp
  note p = lower_statement_lowers [OF this Cons.prems(2), of n call]
  from Cons.prems(1) have "straight_list (D \<union> declared st) sts" by simp
  from Cons.IH [OF this lowers_single [OF p]] obtain D' where
    "lowers n call (lower_statement st fl) (lower_statements sts (lower_statement st fl)) (D \<union> declared st)
      (\<lambda>ws. True) (exec_list n call sts) ends D' (\<lambda>a ws. True)" by blast
  from lowers_then [OF p this] show ?case by auto
qed

section \<open>Functions\<close>

text \<open>The source of a body, as the frame of a call runs it.\<close>

definition run_source :: "('w, runtime_value option) source \<Rightarrow> env \<Rightarrow> ('w interp, abort, runtime_value) sem" where
  "run_source E env s =
     (case E (env, s) of
        ((_, s'), Inl e) \<Rightarrow> (s', Inl e)
      | ((_, s'), Inr r) \<Rightarrow> (s', Inr (case r of None \<Rightarrow> R_Undefined | Some v \<Rightarrow> v)))"

lemma run_body_source: "run_body n call env body = run_source (exec_list n call body) env"
  by (simp add: run_body_def run_source_def fun_eq_iff)

lemma run_source_entry:
  "run_source (sbind E (\<lambda>r. case r of None \<Rightarrow> sret (Some R_Undefined) | Some v \<Rightarrow> sret (Some v))) = run_source E"
  by (simp add: run_source_def sbind_def sret_def fun_eq_iff split: prod.splits sum.splits option.splits)

text \<open>A lowered function of one block that computes \<open>sf\<close>.\<close>

definition lowered_as :: "nat \<Rightarrow> 'w call \<Rightarrow> source_function \<Rightarrow> ir_function \<Rightarrow> bool" where
  "lowered_as n call sf f \<longleftrightarrow>
     ir_name f = sf_name sf \<and> map ip_name (ir_params f) = sf_params sf \<and> distinct (sf_params sf) \<and>
     (\<exists>js k E D'. ir_blocks f = [\<lparr>ib_id = 0, ib_instructions = js\<rparr>] \<and> k \<le> length js \<and>
        runs_as n call js 0 k (set (sf_params sf)) (\<lambda>ws. True) E ends D' (\<lambda>a ws. True) \<and>
        run_source E = (\<lambda>env. run_body n call env (sf_body sf)))"

lemma lowerer_new_single:
  "single (lowerer_new name ps ty sp)" "emitted (lowerer_new name ps ty sp) = []"
  "fl_next_value (lowerer_new name ps ty sp) = 0"
  by (simp_all add: lowerer_new_def single_def emitted_def)

lemma sig_simps:
  "sig (lowerer_new name ps ty sp) = (name, ps)"
  "ir_name (lowerer_finish fl) = fst (sig fl)" "ir_params (lowerer_finish fl) = snd (sig fl)"
  "ir_blocks (lowerer_finish fl) = fl_blocks fl"
  by (simp_all add: sig_def lowerer_new_def lowerer_finish_def)

lemma single_blocks: "single fl \<Longrightarrow> fl_blocks fl = [\<lparr>ib_id = 0, ib_instructions = emitted fl\<rparr>]"
  by (auto simp: single_def emitted_def)

lemma lowered_as_finish:
  assumes "lowers n call (lowerer_new name ps ty sp) fl (set (map ip_name ps)) (\<lambda>ws. True) E ends D' (\<lambda>a ws. True)"
    and "distinct (map ip_name ps)" and "run_source E = (\<lambda>env. run_body n call env body)"
  shows "lowered_as n call \<lparr>sf_name = name, sf_params = map ip_name ps, sf_body = body\<rparr> (lowerer_finish fl)"
  using assms single_blocks [OF lowers_single [OF assms(1)]]
  by (fastforce simp: lowered_as_def lowers_def lowerer_new_single sig_simps)

lemma lowered_statement:
  assumes "source_function_of st = Some sf" and "straight_function sf"
  obtains f where "lowered_function st = Some f" "lowered_as n call sf f"
proof -
  from assms(1) obtain d where d: "st_kind st = S_Function d"
    and sf: "sf = \<lparr>sf_name = fd_name d, sf_params = map pa_name (fd_params d), sf_body = fd_body d\<rparr>"
    by (auto simp: source_function_of_def split: statement_kind.splits)
  let ?ps = "map lower_param (fd_params d)"
  have ps: "map ip_name ?ps = map pa_name (fd_params d)" by (simp add: lower_param_def)
  with assms(2) sf have s: "straight_list (set (map ip_name ?ps)) (fd_body d)" "distinct (map ip_name ?ps)"
    by (simp_all only: ps straight_function_def source_function.simps)
  let ?new = "lowerer_new (fd_name d) ?ps
    (case fd_return_type d of None \<Rightarrow> IT_Undefined | Some ty \<Rightarrow> type_from_node ty) (st_span st)"
  from lower_statements_lowers [OF s(1) lowerer_new_single(1)] obtain D' where
    "lowers n call ?new (lower_statements (fd_body d) ?new) (set (map ip_name ?ps)) (\<lambda>ws. True)
      (exec_list n call (fd_body d)) ends D' (\<lambda>a ws. True)" by blast
  from lowered_as_finish [OF this s(2), of "fd_body d"] have
    "lowered_as n call sf (lower_function d (st_span st))"
    unfolding ps by (simp add: lower_function_def sf run_body_source fun_eq_iff)
  with d show thesis by (intro that) (simp_all add: lowered_function_def)
qed

lemma lowered_none: "source_function_of st = None \<Longrightarrow> lowered_function st = None"
  by (simp add: source_function_of_def lowered_function_def split: statement_kind.splits)

lemma lowered_entry:
  assumes "straight_list {} body"
  shows "lowered_as n call \<lparr>sf_name = ''__entry'', sf_params = [], sf_body = body\<rparr> (lower_entry body sp)"
proof -
  let ?new = "lowerer_new ''__entry'' [] IT_Undefined sp"
  obtain D' where p: "lowers n call ?new (lower_statements body ?new) {} (\<lambda>ws. True)
      (exec_list n call body) ends D' (\<lambda>a ws. True)"
    using lower_statements_lowers [OF assms lowerer_new_single(1)] by blast
  let ?fl = "emit (II_Return None) None IT_Undefined sp (lower_statements body ?new)"
  have "lowers n call (lower_statements body ?new) ?fl D' (\<lambda>ws. True) (sret (Some R_Undefined)) ends D'
      (\<lambda>a ws. True)"
    by (rule lowers_emit [OF lowers_single [OF p]]) (rule runs_return, assumption, simp)
  from lowers_then [OF p this] have "lowers n call ?new ?fl (set (map ip_name [])) (\<lambda>ws. True)
      (sbind (exec_list n call body) (\<lambda>r. case r of None \<Rightarrow> sret (Some R_Undefined) | Some v \<Rightarrow> sret (Some v)))
      ends D' (\<lambda>a ws. True)" by simp
  from lowered_as_finish [OF this _, of body] show ?thesis
    by (simp add: lower_entry_def run_source_entry run_body_source fun_eq_iff)
qed

lemma entry_statements: "is_entry_statement = is_entry_code"
  by (simp add: fun_eq_iff is_entry_statement_def is_entry_code_def)

lemma lowered_program:
  assumes "straight_program pg"
  shows "list_all2 (lowered_as n call) (source_functions pg)
    (ir_functions (lower_program pg) @ [ir_entry (lower_program pg)])"
proof -
  have "list_all2 (lowered_as n call) (List.map_filter source_function_of sts)
      (List.map_filter lowered_function sts)"
    if "list_all straight_function (List.map_filter source_function_of sts)" for sts
    using that
  proof (induction sts)
    case (Cons st sts)
    show ?case
    proof (cases "source_function_of st")
      case None
      with Cons lowered_none [OF None] show ?thesis by simp
    next
      case (Some sf)
      with Cons.prems have "straight_function sf" by simp
      from lowered_statement [OF Some this, of n call] obtain f where
        "lowered_function st = Some f" "lowered_as n call sf f" .
      with Some Cons show ?thesis by simp
    qed
  qed simp
  moreover from assms have "straight_list {} (filter is_entry_code (pg_body pg))"
    by (simp add: straight_program_def source_functions_def straight_function_def)
  ultimately show ?thesis using assms
    by (auto simp: straight_program_def source_functions_def lower_program_def entry_statements
        intro!: list_all2_appendI lowered_entry)
qed

section \<open>Compiled functions\<close>

lemma param_table_numbers:
  assumes "distinct (map ip_name ps)"
  shows "numbers (param_table ps) (map ip_name ps)"
proof -
  have "fold (\<lambda>(i, p) m. m(ip_name p \<mapsto> u32_of i)) (enumerate k ps) m0 x =
      (case map_of (zip (map ip_name ps) [k..<k + length ps]) x of
         None \<Rightarrow> m0 x | Some i \<Rightarrow> Some (u32_of i))" for k m0 x
    using assms
  proof (induction ps arbitrary: k m0)
    case (Cons p ps)
    let ?z = "zip (map ip_name ps) [Suc k..<Suc k + length ps]"
    have fresh: "map_of ?z (ip_name p) = None"
      unfolding map_of_eq_None_iff using Cons.prems by (auto dest: set_zip_leftD)
    have zip: "zip (map ip_name (p # ps)) [k..<k + length (p # ps)] = (ip_name p, k) # ?z"
      by (subst upt_conv_Cons) simp_all
    from Cons.prems have "distinct (map ip_name ps)" by simp
    from Cons.IH [OF this, of "Suc k" "m0(ip_name p \<mapsto> u32_of k)"]
    have "fold (\<lambda>(i, p) m. m(ip_name p \<mapsto> u32_of i)) (enumerate k (p # ps)) m0 x =
        (case map_of ?z x of None \<Rightarrow> (m0(ip_name p \<mapsto> u32_of k)) x | Some i \<Rightarrow> Some (u32_of i))"
      by (simp only: enumerate_simps fold_simps case_prod_conv)
    then show ?case unfolding zip using fresh
      by (cases "x = ip_name p") (simp_all only: map_of.simps fst_conv snd_conv fun_upd_same fun_upd_other
        option.case if_True not_False_eq_True)
  qed simp
  note ids = this [of 0 Map.empty]
  have "lt_ids (param_table ps) (map ip_name ps ! k) = Some (u32_of k)" if "k < length ps" for k
  proof -
    have "map_of (zip (map ip_name ps) [0..<length ps]) (map ip_name ps ! k) = Some ([0..<length ps] ! k)"
      by (rule map_of_zip_nth) (use assms that in simp_all)
    with that show ?thesis by (simp add: param_table_def ids)
  qed
  moreover have "lt_ids (param_table ps) x = None" if "x \<notin> set (map ip_name ps)" for x
  proof -
    have "map_of (zip (map ip_name ps) [0..<length ps]) x = None"
      unfolding map_of_eq_None_iff using that by (auto dest: set_zip_leftD)
    then show ?thesis by (simp only: param_table_def ids local_table.simps option.case add_0)
  qed
  ultimately show ?thesis using assms by (simp add: numbers_def param_table_def)
qed

lemma frame_new_holds:
  assumes "distinct xs" and "length (fn_params f) = length xs"
  shows "frame_holds xs (param_env xs args) (frame_new f args)"
  unfolding frame_holds_def
proof (intro allI impI)
  fix x v assume "param_env xs args x = Some v"
  then have "(x, v) \<in> set (zip xs (resize (length xs) R_Undefined args))"
    by (auto simp: param_env_def dest: map_of_SomeD)
  then show "\<exists>k<length xs. xs ! k = x \<and> k < length (fr_locals (frame_new f args)) \<and>
      fr_locals (frame_new f args) ! k = v"
    using assms(2) by (auto simp: set_zip frame_new_def)
qed

lemma param_env_dom: "set xs \<subseteq> dom (param_env xs args)"
  by (simp add: param_env_def resize_def)

text \<open>Small enough for 32-bit operands.\<close>

definition small_function :: "bytecode_function \<Rightarrow> bool" where
  "small_function f \<longleftrightarrow>
     length (fn_params f) + sum_list (map (\<lambda>b. length (blk_instructions b)) (fn_blocks f)) < 2 ^ 32"

definition small_module :: "bytecode_module \<Rightarrow> bool" where
  "small_module m \<longleftrightarrow>
     length (mod_constants m) < 2 ^ 32 \<and> length (mod_source_map m) < 2 ^ 32 \<and> list_all small_function (mod_functions m)"

lemma compile_instructions_length:
  "compile_instructions is cp lt = (cp', lt', cs) \<Longrightarrow> length cs = length is"
  by (induction "is" arbitrary: cp lt cs) (auto split: prod.splits)

lemma ir_names_length: "length (ir_names is xs) \<le> length xs + length is"
proof (induction "is" arbitrary: xs)
  case (Cons i "is")
  have "length (names_of i xs) \<le> Suc (length xs)"
    by (simp add: names_of_def add_name_def split: ir_instruction_kind.split)
  with Cons [of "names_of i xs"] show ?case by simp
qed simp

definition implements :: "nat \<Rightarrow> 'w call \<Rightarrow> bytecode_module \<Rightarrow> source_function \<Rightarrow> bytecode_function \<Rightarrow> bool" where
  "implements n call m sf f \<longleftrightarrow>
     fn_name f = sf_name sf \<and>
     (\<forall>args. execute_frame n call m f (frame_new f args) =
        (if n = 0 then sfail Out_of_fuel else run_body n call (param_env (sf_params sf) args) (sf_body sf)))"

lemma compile_function_implements:
  fixes call :: "'w call"
  assumes "lowered_as n call sf ir" and "compile_function ir cp = (cp', f)" and "interned cp"
    and "pool_of m cp'" and "small_function f"
  shows "implements n call m sf f"
proof -
  let ?xs = "sf_params sf"
  from assms(1) obtain js k D' and E :: "('w, runtime_value option) source" where
    l: "ir_name ir = sf_name sf" "map ip_name (ir_params ir) = ?xs" "distinct ?xs"
      "ir_blocks ir = [\<lparr>ib_id = 0, ib_instructions = js\<rparr>]" "k \<le> length js"
    and r: "runs_as n call js 0 k (set ?xs) (\<lambda>ws. True) E ends D' (\<lambda>a ws. True)"
    and E: "run_source E = (\<lambda>env. run_body n call env (sf_body sf))"
    by (auto simp: lowered_as_def)
  obtain cp1 lt1 cs where c: "compile_instructions js cp (param_table (ir_params ir)) = (cp1, lt1, cs)"
    by (metis prod_cases3)
  with assms(2) l(1,4) have f: "cp' = cp1" "fn_name f = sf_name sf"
    "fn_params f = map (\<lambda>p. type_tag_of (ip_ty p)) (ir_params ir)"
    "fn_blocks f = [\<lparr>blk_id = 0, blk_instructions = cs\<rparr>]"
    by (auto simp: compile_function_def)
  have len: "length (fn_params f) = length ?xs" by (simp add: f(3) flip: l(2))
  have num: "numbers (param_table (ir_params ir)) ?xs"
    using param_table_numbers [of "ir_params ir"] l(2,3) by simp
  from assms(5) f(4) compile_instructions_length [OF c] len have s: "length ?xs + length js < 2 ^ 32"
    by (simp add: small_function_def)
  have comp: "compiled m k js ?xs cs (ir_names js ?xs)"
    using c assms(3,4) num f(1) s l(5) ir_names_length [of js ?xs] by (auto simp: compiled_def)
  have "execute_frame n call m f (frame_new f args) s =
      (if n = 0 then sfail Out_of_fuel else run_body n call (param_env ?xs args) (sf_body sf)) s" for args s
  proof (cases n)
    case (Suc n')
    have "length (fr_values (frame_new f args)) = 0" by (simp add: frame_new_def)
    from runs_asD [OF r comp frame_new_holds [OF l(3) len] param_env_dom this]
    have "outcome (ir_names js ?xs) k D' (frame_new f args) ends (\<lambda>a ws. True)
        (E (param_env ?xs args, s)) (execute_instructions n call m cs (frame_new f args) s)" by simp
    then have "(case execute_instructions n call m cs (frame_new f args) s of
        (s', Inl e) \<Rightarrow> (s', Inl e)
      | (s', Inr (fr', flow)) \<Rightarrow>
          (s', case flow of Continue \<Rightarrow> Inr R_Undefined | Return_Value v \<Rightarrow> Inr v | Jump_To t \<Rightarrow> Inl Panic)) =
        run_source E (param_env ?xs args) s \<and>
      (\<forall>s' fr' t. execute_instructions n call m cs (frame_new f args) s \<noteq> (s', Inr (fr', Jump_To t)))"
      by (auto simp: outcome_def run_source_def ends_def split: prod.splits sum.splits option.splits)
    then have "execute_blocks (Suc n') n call m f 0 (frame_new f args) s = run_source E (param_env ?xs args) s"
      by (auto simp: find_block_def f(4) result_simps sbind_def sret_def split: prod.splits sum.splits control_flow.splits)
    with Suc show ?thesis by (simp add: execute_frame_def E)
  qed (simp add: execute_frame_def)
  then show ?thesis by (simp add: implements_def f(2) fun_eq_iff)
qed

section \<open>Programs\<close>

lemma compile_function_pool:
  assumes "compile_function f cp = (cp', c)" and "interned cp"
  shows "extends_pool cp cp'"
proof -
  have "compile_blocks bs cp lt = (cp', lt', ds) \<Longrightarrow> interned cp \<Longrightarrow> extends_pool cp cp'" for bs cp lt lt' ds
  proof (induction bs arbitrary: cp lt ds)
    case (Cons b bs)
    obtain cp1 lt1 cs where a: "compile_instructions (ib_instructions b) cp lt = (cp1, lt1, cs)"
      by (metis prod_cases3)
    obtain es where c: "compile_blocks bs cp1 lt1 = (cp', lt', es)"
      using a Cons.prems(1) by (auto split: prod.splits)
    from compile_instructions_pool [OF a Cons.prems(2)] have s: "extends_pool cp cp1" .
    then have "interned cp1" by (simp add: extends_pool_def)
    from extends_pool_trans [OF s Cons.IH [OF c this]] show ?case .
  qed (simp add: extends_pool_def)
  with assms show ?thesis by (auto simp: compile_function_def split: prod.splits)
qed

lemma compile_functions_implement:
  assumes "compile_functions irs cp = (cp', fs)" and "interned cp" and "pool_of m cp'"
    and "list_all small_function fs" and "list_all2 (lowered_as n call) sfs irs"
  shows "list_all2 (implements n call m) sfs fs \<and> extends_pool cp cp'"
  using assms
proof (induction irs arbitrary: cp fs sfs)
  case (Cons ir irs)
  obtain cp1 c where a: "compile_function ir cp = (cp1, c)" by fastforce
  obtain cs where b: "compile_functions irs cp1 = (cp', cs)" and fs: "fs = c # cs"
    using a Cons.prems(1) by (auto split: prod.splits)
  from Cons.prems(5) obtain sf sgs where sf: "sfs = sf # sgs" "lowered_as n call sf ir"
    "list_all2 (lowered_as n call) sgs irs" by (auto simp: list_all2_Cons2)
  note e = compile_function_pool [OF a Cons.prems(2)]
  then have i: "interned cp1" by (simp add: extends_pool_def)
  from Cons.prems(4) fs have small: "small_function c" "list_all small_function cs" by simp_all
  from Cons.IH [OF b i Cons.prems(3) small(2) sf(3)] have
    r: "list_all2 (implements n call m) sgs cs" "extends_pool cp1 cp'" by simp_all
  from pool_of_prefix [OF Cons.prems(3) r(2)] have "pool_of m cp1" .
  from compile_function_implements [OF sf(2) a Cons.prems(2) this small(1)] r extends_pool_trans [OF e r(2)]
  show ?case by (simp add: fs sf(1))
qed (simp add: extends_pool_def)

lemma compiled_program:
  assumes "straight_program pg" and "small_module (compile (lower_program pg))"
  shows "list_all2 (implements n call (compile (lower_program pg))) (source_functions pg)
    (mod_functions (compile (lower_program pg)))"
proof -
  let ?irs = "ir_functions (lower_program pg) @ [ir_entry (lower_program pg)]"
  let ?m = "compile (lower_program pg)"
  obtain cp fs where c: "compile_functions ?irs compiler_default = (cp, fs)" by fastforce
  then have m: "mod_constants ?m = cp_constants cp" "mod_source_map ?m = cp_source_map cp"
    "mod_functions ?m = fs"
    by (simp_all add: compile_def)
  with assms(2) have "pool_of ?m cp" "list_all small_function fs"
    by (simp_all add: pool_of_def small_module_def)
  from compile_functions_implement [OF c interned_default this lowered_program [OF assms(1)]]
  show ?thesis unfolding m(3) by (rule conjunct1)
qed

lemma find_implements:
  assumes "list_all2 (implements n call m) sfs fs"
  shows "(find (\<lambda>f. sf_name f = name) sfs = None \<and> find (\<lambda>f. fn_name f = name) fs = None) \<or>
    (\<exists>sf f. find (\<lambda>f. sf_name f = name) sfs = Some sf \<and> find (\<lambda>f. fn_name f = name) fs = Some f \<and>
      implements n call m sf f)"
  using assms by (induction rule: list_all2_induct) (auto simp: implements_def)

lemma call_function_source:
  assumes "straight_program pg" and "small_module (compile (lower_program pg))"
  shows "call_function n (compile (lower_program pg)) host = source_call n (source_functions pg) host"
proof (induction n)
  case 0
  show ?case by (simp add: fun_eq_iff)
next
  case (Suc n)
  let ?m = "compile (lower_program pg)"
  have "sbind (slift (find_function ?m name)) (\<lambda>f.
        execute_frame n (call_function n ?m host) ?m f (frame_new f args)) =
      (case find (\<lambda>f. sf_name f = name) (source_functions pg) of
         None \<Rightarrow> slift (runtime_fail (Unknown_Function name))
       | Some f \<Rightarrow>
           if n = 0 then sfail Out_of_fuel
           else run_body n (source_call n (source_functions pg) host) (param_env (sf_params f) args) (sf_body f))"
    for name args
    using find_implements [OF compiled_program [OF assms, of n "call_function n ?m host"], of name]
    by (auto simp: find_function_def implements_def Suc.IH result_simps sem_simps runtime_fail_def slift_def sfail_def fun_eq_iff)
  then show ?case by (intro ext) (simp only: call_function.simps source_call.simps)
qed

lemma execute_straight:
  assumes "straight_program pg" and "small_module (compile (lower_program pg))"
  shows "execute n (compile (lower_program pg)) host w = source_run n pg host w"
  by (simp add: execute_def source_run_def call_function_source [OF assms])

end
