(* ===== verification/Compiled_Verified.thy ===== *)
theory Compiled_Verified
  imports Compiler_Correct
begin

text \<open>
  The verifier accepts what the compiler makes of straight-line programs whose functions return:
  constants and source references are in their pools, values are defined before they are used,
  locals are stored densely and before they are loaded. So such a program runs through
  \<open>execute_module_with_host\<close> as the reference semantics does.
\<close>

section \<open>Accepted code\<close>

text \<open>The code after \<open>k\<close> values, with \<open>l\<close> locals, is accepted.\<close>

primrec code_ok :: "bytecode_module \<Rightarrow> nat \<Rightarrow> u32 \<Rightarrow> instruction list \<Rightarrow> bool" where
  "code_ok m k l [] = True"
| "code_ok m k l (i # is) =
     (instruction_ok m {0} (value_ids k) l i \<and>
      code_ok m (if defines_value (ins_opcode i) then Suc k else k) (locals_after i l) is)"

lemma code_ok_at:
  "code_ok m k l (pre @ i # post) \<Longrightarrow>
     instruction_ok m {0} (value_ids (k + values_before pre)) (fold locals_after pre l) i"
proof (induction pre arbitrary: k l)
  case Nil
  then show ?case by (simp add: values_before_def)
next
  case (Cons a pre)
  from Cons.IH [of "if defines_value (ins_opcode a) then Suc k else k" "locals_after a l"] Cons.prems
  show ?case by (auto simp: values_before_def)
qed

lemma code_ok_append:
  "code_ok m k l (cs @ ds) \<longleftrightarrow>
     code_ok m k l cs \<and> code_ok m (k + values_before cs) (fold locals_after cs l) ds"
  by (induction cs arbitrary: k l) (auto simp: values_before_def)

lemma values_before_append: "values_before (cs @ ds) = values_before cs + values_before ds"
  by (simp add: values_before_def)

text \<open>IR whose bytecode is accepted, from \<open>k0\<close> to \<open>k1\<close> values and from the locals \<open>D\<close> to \<open>D'\<close>.\<close>

definition verifies :: "ir_instruction list \<Rightarrow> nat \<Rightarrow> nat \<Rightarrow> string set \<Rightarrow> string set \<Rightarrow> bool" where
  "verifies js k0 k1 D D' \<longleftrightarrow>
     (\<forall>m xs cs ys. compiled m k1 js xs cs ys \<longrightarrow> D \<subseteq> set xs \<longrightarrow>
        code_ok m k0 (u32_of (length xs)) cs \<and> k1 = k0 + values_before cs \<and>
        fold locals_after cs (u32_of (length xs)) = u32_of (length ys) \<and> D' \<subseteq> set ys)"

lemma verifies_append:
  assumes "verifies js k0 k1 D D'" and "verifies ls k1 k2 D' D''" and "k1 \<le> k2"
  shows "verifies (js @ ls) k0 k2 D D''"
  unfolding verifies_def
proof (intro allI impI)
  fix m xs cs zs
  assume c: "compiled m k2 (js @ ls) xs cs zs" and D: "D \<subseteq> set xs"
  from compiled_append [OF c] obtain ds es ys where cs: "cs = ds @ es"
    and d: "compiled m k2 js xs ds ys" and e: "compiled m k2 ls ys es zs" .
  from assms(1) compiled_less [OF d assms(3)] D have
    1: "code_ok m k0 (u32_of (length xs)) ds" "k1 = k0 + values_before ds"
      "fold locals_after ds (u32_of (length xs)) = u32_of (length ys)" "D' \<subseteq> set ys"
    unfolding verifies_def by blast+
  from assms(2) e 1(4) have
    2: "code_ok m k1 (u32_of (length ys)) es" "k2 = k1 + values_before es"
      "fold locals_after es (u32_of (length ys)) = u32_of (length zs)" "D'' \<subseteq> set zs"
    unfolding verifies_def by blast+
  from 1 2 show "code_ok m k0 (u32_of (length xs)) cs \<and> k2 = k0 + values_before cs \<and>
      fold locals_after cs (u32_of (length xs)) = u32_of (length zs) \<and> D'' \<subseteq> set zs"
    by (simp add: cs code_ok_append values_before_append)
qed

lemma verifies_nil: "verifies [] k k D D"
  unfolding verifies_def by (auto simp: values_before_def dest: compiled_nil)

lemma verifies_less: "verifies js k0 k1 D D' \<Longrightarrow> D'' \<subseteq> D' \<Longrightarrow> verifies js k0 k1 D D''"
  unfolding verifies_def by blast

section \<open>The instructions\<close>

lemma interned_ok:
  assumes "intern_constant c cp = (cp', w)" and "interned cp" and "pool_of m cp'"
  shows "constant_ok m w"
  using intern_constant_found [OF assms]
  by (auto simp: constant_ok_def module_constant_def nth_opt_def runtime_fail_def split: if_splits option.splits)

lemma value_ids_nat: "r < k \<Longrightarrow> u32_of r \<in> value_ids k"
  by (simp add: value_ids_def)

lemma property_operands_ok:
  assumes "property_operands ps cp = (cp', ops)" and "interned cp" and "pool_of m cp'"
    and "list_all (\<lambda>p. snd p < k) ps"
  shows "length ops = length ps * 2 \<and>
    (\<forall>j<length ps. constant_ok m (ops ! (2 * j)) \<and> ops ! (2 * j + 1) \<in> value_ids k)"
  using assms
proof (induction ps cp arbitrary: cp' ops rule: property_operands.induct)
  case (2 name r ps cp)
  obtain cp1 w where a: "intern_constant (Const_Symbol name) cp = (cp1, w)" by fastforce
  obtain cp2 ops2 where b: "property_operands ps cp1 = (cp2, ops2)" by fastforce
  from a b "2.prems"(1) have ops: "ops = w # u32_of r # ops2" "cp2 = cp'" by simp_all
  from intern_constant_interned(1) [OF a "2.prems"(2)] have i1: "interned cp1" .
  from pool_of_prefix [OF "2.prems"(3) property_operands_pool [OF b [unfolded ops(2)] i1]] have "pool_of m cp1" .
  note c = interned_ok [OF a "2.prems"(2) this]
  from "2.IH" [OF a [symmetric] _ i1 "2.prems"(3)] b ops(2) "2.prems"(4)
  have "length ops2 = length ps * 2 \<and>
    (\<forall>j<length ps. constant_ok m (ops2 ! (2 * j)) \<and> ops2 ! (2 * j + 1) \<in> value_ids k)" by simp
  with c "2.prems"(4) show ?case
    by (auto simp: ops(1) All_less_Suc2 value_ids_nat)
qed simp

lemma verifies_kind:
  assumes "\<And>m cp lt cp' lt' opc ops xs ys r ci. compile_kind (ii_kind i) cp lt = (cp', lt', opc, ops) \<Longrightarrow>
      interned cp \<Longrightarrow> numbers lt xs \<Longrightarrow> pool_of m cp' \<Longrightarrow> ys = names_of i xs \<Longrightarrow> length ys < 2 ^ 32 \<Longrightarrow>
      k1 < 2 ^ 32 \<Longrightarrow> D \<subseteq> set xs \<Longrightarrow>
      ci = \<lparr>ins_opcode = opc, ins_operands = ops, ins_type_tag = type_tag_of (ii_ty i), ins_source_ref = r\<rparr> \<Longrightarrow>
      operands_ok m {0} (value_ids k0) (u32_of (length xs)) ci \<and>
      k1 = (if defines_value opc then Suc k0 else k0) \<and>
      locals_after ci (u32_of (length xs)) = u32_of (length ys) \<and> D' \<subseteq> set ys"
  shows "verifies [i] k0 k1 D D'"
  unfolding verifies_def
proof (intro allI impI)
  fix m xs cs ys assume c: "compiled m k1 [i] xs cs ys" and D: "D \<subseteq> set xs"
  from c show "code_ok m k0 (u32_of (length xs)) cs \<and> k1 = k0 + values_before cs \<and>
      fold locals_after cs (u32_of (length xs)) = u32_of (length ys) \<and> D' \<subseteq> set ys"
  proof (cases rule: compiled_single)
    case (1 cp lt cp' lt' opc ops r)
    from assms [OF 1(1-4,6-8) D refl, of r] 1(5,9) show ?thesis
      by (simp add: instruction_ok_def values_before_def)
  qed
qed

lemma locals_after_other: "ins_opcode i \<noteq> StoreLocal \<Longrightarrow> locals_after i l = l"
  by (simp add: locals_after_def)

lemma verifies_scalar:
  assumes "ii_kind i = II_LoadConst c" and "scalar_entry c = Some ce"
  shows "verifies [i] k (Suc k) D D"
proof (rule verifies_kind)
  fix m cp lt cp' lt' opc ops xs ys r ci
  assume c: "compile_kind (ii_kind i) cp lt = (cp', lt', opc, ops)" and i: "interned cp" "pool_of m cp'"
    and ys: "ys = names_of i xs" "D \<subseteq> set xs"
    and ci: "ci = \<lparr>ins_opcode = opc, ins_operands = ops, ins_type_tag = type_tag_of (ii_ty i), ins_source_ref = r\<rparr>"
  from c have "compile_kind (II_LoadConst c) cp lt = (cp', lt', opc, ops)" by (simp only: assms(1))
  from compile_scalar [OF this assms(2)] obtain w where
    w: "intern_constant ce cp = (cp', w)" "opc = LoadConst" "ops = [w]" .
  from interned_ok [OF w(1) i] w(2,3) ys show "operands_ok m {0} (value_ids k) (u32_of (length xs)) ci \<and>
      Suc k = (if defines_value opc then Suc k else k) \<and>
      locals_after ci (u32_of (length xs)) = u32_of (length ys) \<and> D \<subseteq> set ys"
    by (simp add: ci operands_ok_def defines_value_def locals_after_def names_of_def assms(1))
qed

lemma verifies_object:
  assumes "ii_kind i = II_LoadConst (IC_Object ps)" and "length ps \<le> k" and "list_all (\<lambda>p. snd p < k) ps"
  shows "verifies [i] k (Suc k) D D"
proof (rule verifies_kind)
  fix m cp lt cp' lt' opc ops xs ys r ci
  assume c: "compile_kind (ii_kind i) cp lt = (cp', lt', opc, ops)" and i: "interned cp" "pool_of m cp'"
    and ys: "ys = names_of i xs" "D \<subseteq> set xs" and k: "Suc k < 2 ^ 32"
    and ci: "ci = \<lparr>ins_opcode = opc, ins_operands = ops, ins_type_tag = type_tag_of (ii_ty i), ins_source_ref = r\<rparr>"
  from c obtain ops' where p: "property_operands ps cp = (cp', ops')" and o: "opc = BuildObject"
    "ops = u32_of (length ps) # ops'"
    by (auto simp: assms(1) const_opcode_def split: prod.splits)
  have "unat (u32_of (length ps)) = length ps"
    using k assms(2) by (simp add: unat_of_nat take_bit_nat_eq_self)
  with property_operands_ok [OF p i assms(3)] o ys show "operands_ok m {0} (value_ids k) (u32_of (length xs)) ci \<and>
      Suc k = (if defines_value opc then Suc k else k) \<and>
      locals_after ci (u32_of (length xs)) = u32_of (length ys) \<and> D \<subseteq> set ys"
    by (simp add: ci operands_ok_def defines_value_def locals_after_def names_of_def assms(1))
qed

lemma values_ok: "list_all (\<lambda>r. r < k) rs \<Longrightarrow> set (map u32_of rs) \<subseteq> value_ids k"
  by (auto simp: list_all_iff value_ids_def)

lemma verifies_array:
  assumes "ii_kind i = II_LoadConst (IC_Array rs)" and "length rs \<le> k" and "list_all (\<lambda>r. r < k) rs"
  shows "verifies [i] k (Suc k) D D"
proof (rule verifies_kind)
  fix m cp lt cp' lt' opc ops xs ys r ci
  assume c: "compile_kind (ii_kind i) cp lt = (cp', lt', opc, ops)"
    and ys: "ys = names_of i xs" "D \<subseteq> set xs" and k: "Suc k < 2 ^ 32"
    and ci: "ci = \<lparr>ins_opcode = opc, ins_operands = ops, ins_type_tag = type_tag_of (ii_ty i), ins_source_ref = r\<rparr>"
  have "unat (u32_of (length rs)) = length rs"
    using k assms(2) by (simp add: unat_of_nat take_bit_nat_eq_self)
  with values_ok [OF assms(3)] c ys show "operands_ok m {0} (value_ids k) (u32_of (length xs)) ci \<and>
      Suc k = (if defines_value opc then Suc k else k) \<and>
      locals_after ci (u32_of (length xs)) = u32_of (length ys) \<and> D \<subseteq> set ys"
    by (auto simp: ci operands_ok_def defines_value_def locals_after_def names_of_def assms(1) const_opcode_def)
qed

lemma verifies_call:
  assumes "ii_kind i = II_Call f rs" and "length rs \<le> k" and "list_all (\<lambda>r. r < k) rs"
  shows "verifies [i] k (Suc k) D D"
proof (rule verifies_kind)
  fix m cp lt cp' lt' opc ops xs ys r ci
  assume c: "compile_kind (ii_kind i) cp lt = (cp', lt', opc, ops)" and i: "interned cp" "pool_of m cp'"
    and ys: "ys = names_of i xs" "D \<subseteq> set xs" and k: "Suc k < 2 ^ 32"
    and ci: "ci = \<lparr>ins_opcode = opc, ins_operands = ops, ins_type_tag = type_tag_of (ii_ty i), ins_source_ref = r\<rparr>"
  from c obtain w where w: "intern_constant (Const_Symbol f) cp = (cp', w)" and o: "opc = Call"
    "ops = w # u32_of (length rs) # map u32_of rs"
    by (auto simp: assms(1) split: prod.splits)
  have "unat (u32_of (length rs)) = length rs"
    using k assms(2) by (simp add: unat_of_nat take_bit_nat_eq_self)
  with values_ok [OF assms(3)] interned_ok [OF w i] o ys
  show "operands_ok m {0} (value_ids k) (u32_of (length xs)) ci \<and>
      Suc k = (if defines_value opc then Suc k else k) \<and>
      locals_after ci (u32_of (length xs)) = u32_of (length ys) \<and> D \<subseteq> set ys"
    by (auto simp: ci operands_ok_def defines_value_def locals_after_def names_of_def assms(1))
qed

lemma verifies_members:
  "ii_kind i = II_LoadMember r p \<Longrightarrow> r < k \<Longrightarrow> verifies [i] k (Suc k) D D"
  "ii_kind i = II_StoreMember r p r' \<Longrightarrow> r < k \<Longrightarrow> r' < k \<Longrightarrow> verifies [i] k k D D"
  by (rule verifies_kind; auto simp: operands_ok_def defines_value_def locals_after_def names_of_def
      value_ids_nat interned_ok split: prod.splits)+

lemma verifies_binary:
  "ii_kind i = II_Binary op r1 r2 \<Longrightarrow> ii_ty i \<noteq> IT_Unknown \<Longrightarrow> r1 < k \<Longrightarrow> r2 < k \<Longrightarrow> verifies [i] k (Suc k) D D"
  by (rule verifies_kind; cases "ii_ty i"; auto simp: operands_ok_def defines_value_def locals_after_def
      names_of_def value_ids_nat)

lemma verifies_return:
  "ii_kind i = II_Return w \<Longrightarrow> pred_option (\<lambda>r. r < k) w \<Longrightarrow> verifies [i] k k D D"
  by (rule verifies_kind; cases w; auto simp: operands_ok_def defines_value_def locals_after_def
      names_of_def value_ids_nat)

text \<open>Locals are dense: a name gets the next number, and only names that are stored are loaded.\<close>

lemma verifies_load_local:
  assumes "ii_kind i = II_LoadLocal x" and "x \<in> D"
  shows "verifies [i] k (Suc k) D D"
proof (rule verifies_kind)
  fix m cp lt cp' lt' opc ops xs ys r ci
  assume c: "compile_kind (ii_kind i) cp lt = (cp', lt', opc, ops)" and n: "numbers lt xs"
    and ys: "ys = names_of i xs" "length ys < 2 ^ 32" "D \<subseteq> set xs"
    and ci: "ci = \<lparr>ins_opcode = opc, ins_operands = ops, ins_type_tag = type_tag_of (ii_ty i), ins_source_ref = r\<rparr>"
  have xs: "add_name x xs = xs" using assms(2) ys(3) by (auto simp: add_name_def)
  obtain w where l: "local_id x lt = (lt', w)" and o: "opc = LoadLocal" "ops = [w]"
    using c by (auto simp: assms(1) split: prod.splits)
  obtain j where j: "j < length xs" "w = u32_of j" by (rule local_id_numbers [OF l n]) (auto simp: xs)
  have "length xs < 2 ^ 32" using ys xs by (simp add: names_of_def assms(1))
  with j have "w < u32_of (length xs)" by (simp add: word_less_nat_alt unat_of_nat take_bit_nat_eq_self)
  with o ys xs show "operands_ok m {0} (value_ids k) (u32_of (length xs)) ci \<and>
      Suc k = (if defines_value opc then Suc k else k) \<and>
      locals_after ci (u32_of (length xs)) = u32_of (length ys) \<and> D \<subseteq> set ys"
    by (simp add: ci operands_ok_def defines_value_def locals_after_def names_of_def assms(1))
qed

lemma verifies_store_local:
  assumes "ii_kind i = II_StoreLocal x w" and "w < k"
  shows "verifies [i] k k D (insert x D)"
proof (rule verifies_kind)
  fix m cp lt cp' lt' opc ops xs ys r ci
  assume c: "compile_kind (ii_kind i) cp lt = (cp', lt', opc, ops)" and n: "numbers lt xs"
    and ys: "ys = names_of i xs" "length ys < 2 ^ 32" "D \<subseteq> set xs"
    and ci: "ci = \<lparr>ins_opcode = opc, ins_operands = ops, ins_type_tag = type_tag_of (ii_ty i), ins_source_ref = r\<rparr>"
  obtain v where l: "local_id x lt = (lt', v)" and o: "opc = StoreLocal" "ops = [v, u32_of w]"
    using c by (auto simp: assms(1) split: prod.splits)
  obtain j where j: "numbers lt' (add_name x xs)" "j < length (add_name x xs)" "add_name x xs ! j = x"
    "v = u32_of j" by (rule local_id_numbers [OF l n])
  have y: "ys = add_name x xs" using ys by (simp add: names_of_def assms(1))
  have len: "length xs < 2 ^ 32" "j < 2 ^ 32" using ys(2) j(2) by (auto simp: y add_name_def split: if_splits)
  have "locals_after ci (u32_of (length xs)) = u32_of (length ys) \<and> v \<le> u32_of (length xs)"
  proof (cases "x \<in> set xs")
    case True
    then have "j < length xs" using j(2) by (simp add: add_name_def)
    with len have "u32_of j < u32_of (length xs)" by (simp add: word_less_nat_alt unat_of_nat take_bit_nat_eq_self)
    with True o show ?thesis by (auto simp: ci locals_after_def y add_name_def j(4))
  next
    case False
    then have "j = length xs" using j(2,3) by (fastforce simp: add_name_def nth_append less_Suc_eq)
    with False o show ?thesis by (simp add: ci locals_after_def y add_name_def j(4))
  qed
  with o ys(3) show "operands_ok m {0} (value_ids k) (u32_of (length xs)) ci \<and>
      k = (if defines_value opc then Suc k else k) \<and>
      locals_after ci (u32_of (length xs)) = u32_of (length ys) \<and> insert x D \<subseteq> set ys"
    using value_ids_nat [OF assms(2)]
    by (auto simp: ci operands_ok_def defines_value_def y add_name_def)
qed

section \<open>Lowering\<close>

definition lowers_ok :: "function_lowerer \<Rightarrow> function_lowerer \<Rightarrow> string set \<Rightarrow> string set \<Rightarrow> bool" where
  "lowers_ok fl fl' D D' \<longleftrightarrow>
     single fl' \<and>
     (\<exists>js. emitted fl' = emitted fl @ js \<and> fl_next_value fl \<le> fl_next_value fl' \<and>
        verifies js (fl_next_value fl) (fl_next_value fl') D D')"

lemma lowers_ok_trans:
  assumes "lowers_ok fl fl1 D D'" and "lowers_ok fl1 fl2 D' D''"
  shows "lowers_ok fl fl2 D D''"
proof -
  from assms(1) obtain js where j: "emitted fl1 = emitted fl @ js" "fl_next_value fl \<le> fl_next_value fl1"
    "verifies js (fl_next_value fl) (fl_next_value fl1) D D'" by (auto simp: lowers_ok_def)
  from assms(2) obtain ls where l: "single fl2" "emitted fl2 = emitted fl1 @ ls"
    "fl_next_value fl1 \<le> fl_next_value fl2" "verifies ls (fl_next_value fl1) (fl_next_value fl2) D' D''"
    by (auto simp: lowers_ok_def)
  from verifies_append [OF j(3) l(4,3)] j l show ?thesis by (auto simp: lowers_ok_def)
qed

lemma lowers_ok_refl: "single fl \<Longrightarrow> lowers_ok fl fl D D"
  by (auto simp: lowers_ok_def verifies_nil)

lemma lowers_ok_single: "lowers_ok fl fl' D D' \<Longrightarrow> single fl'"
  by (simp add: lowers_ok_def)

lemma lowers_ok_emit:
  assumes "single fl"
    and "\<And>i. ii_kind i = kind \<Longrightarrow> ii_ty i = ty \<Longrightarrow> verifies [i] (fl_next_value fl) (fl_next_value fl) D D'"
  shows "lowers_ok fl (emit kind r ty sp fl) D D'"
  using emit_single [OF assms(1), of kind r ty sp] assms(2) by (auto simp: lowers_ok_def)

lemma lowers_ok_emit_value:
  assumes "single fl" and "emit_value kind ty sp fl = (fl', v, ty')"
    and "\<And>i. ii_kind i = kind \<Longrightarrow> ii_ty i = ty \<Longrightarrow> verifies [i] (fl_next_value fl) (Suc (fl_next_value fl)) D D"
  shows "lowers_ok fl fl' D D \<and> v < fl_next_value fl' \<and> fl_next_value fl' = Suc (fl_next_value fl)"
proof -
  let ?fl = "fl\<lparr>fl_next_value := Suc (fl_next_value fl)\<rparr>"
  have "single ?fl" "emitted ?fl = emitted fl"
    using assms(1) by (simp_all add: single_def emitted_def)
  with emit_single [OF this(1), of kind "Some (fl_next_value fl)" ty sp] assms(2,3) show ?thesis
    by (auto simp: lowers_ok_def emit_value_def alloc_value_def)
qed

lemma load_scalar_ok:
  assumes "single fl" and "load_const c ty sp fl = (fl', v, ty')" and "scalar_entry c = Some ce"
  shows "lowers_ok fl fl' D D \<and> v < fl_next_value fl' \<and> fl_next_value fl' = Suc (fl_next_value fl)"
  using lowers_ok_emit_value [OF assms(1) assms(2)[unfolded load_const_def] verifies_scalar [OF _ assms(3)]] .

abbreviation value_ok where
  "value_ok D fl r \<equiv> (case r of (fl', v, ty) \<Rightarrow>
     lowers_ok fl fl' D D \<and> v < fl_next_value fl' \<and> fl_next_value fl < fl_next_value fl')"

abbreviation refs_ok where
  "refs_ok D fl fl' rs \<equiv> lowers_ok fl fl' D D \<and> list_all (\<lambda>r. r < fl_next_value fl') rs \<and>
     fl_next_value fl + length rs \<le> fl_next_value fl'"

lemma list_below_mono: "list_all (\<lambda>r. r < j) rs \<Longrightarrow> j \<le> k \<Longrightarrow> list_all (\<lambda>r. r < (k::nat)) rs"
  by (auto simp: list_all_iff)

lemma eager_type: "eager op \<Longrightarrow> binary_type op \<noteq> IT_Unknown"
  by (cases op) (simp_all add: eager_def binary_type_def)

lemma lower_expression_ok:
  "simple D e \<Longrightarrow> single fl \<Longrightarrow> value_ok D fl (lower_expression e fl)"
  "list_all (simple D) es \<Longrightarrow> single fl \<Longrightarrow>
     (case lower_values es fl of (fl', vs) \<Rightarrow> refs_ok D fl fl' (map fst vs))"
  "list_all (simple_property D) ps \<Longrightarrow> single fl \<Longrightarrow>
     (case lower_properties ps fl of (fl', vs) \<Rightarrow> refs_ok D fl fl' (map (\<lambda>(name, v, ty). v) vs))"
proof (induction e fl and es fl and ps fl rule: lower_expression_lower_values_lower_properties.induct)
  case (1 name sp fl)
  obtain fl' v ty where a: "lower_expression (Expression (Ex_Identifier name) sp) fl = (fl', v, ty)"
    by (metis prod_cases3)
  from "1.prems"(1) have "name \<in> D" by simp
  from lowers_ok_emit_value [OF "1.prems"(2) a [simplified] verifies_load_local [OF _ this]]
  show ?case by (simp add: a [simplified])
next
  case (2 s sp fl)
  obtain fl' v ty where a: "load_const (IC_Number s) IT_Number sp fl = (fl', v, ty)" by (metis prod_cases3)
  from load_scalar_ok [OF "2.prems"(2) a scalar_entry.simps(1), of D] show ?case by (simp add: a)
next
  case (3 s sp fl)
  obtain fl' v ty where a: "load_const (IC_String s) IT_String sp fl = (fl', v, ty)" by (metis prod_cases3)
  from load_scalar_ok [OF "3.prems"(2) a scalar_entry.simps(2), of D] show ?case by (simp add: a)
next
  case (4 b sp fl)
  obtain fl' v ty where a: "load_const (IC_Boolean b) IT_Boolean sp fl = (fl', v, ty)" by (metis prod_cases3)
  from load_scalar_ok [OF "4.prems"(2) a scalar_entry.simps(3), of D] show ?case by (simp add: a)
next
  case (5 sp fl)
  obtain fl' v ty where a: "load_const IC_Null IT_Null sp fl = (fl', v, ty)" by (metis prod_cases3)
  from load_scalar_ok [OF "5.prems"(2) a scalar_entry.simps(4), of D] show ?case by (simp add: a)
next
  case (6 sp fl)
  obtain fl' v ty where a: "load_const IC_Undefined IT_Undefined sp fl = (fl', v, ty)" by (metis prod_cases3)
  from load_scalar_ok [OF "6.prems"(2) a scalar_entry.simps(5), of D] show ?case by (simp add: a)
next
  case (7 properties sp fl)
  obtain fl1 fds where a: "lower_properties properties fl = (fl1, fds)" by fastforce
  let ?ps = "map (\<lambda>(name, v, ty). (name, v)) fds"
  from 7 a have p: "refs_ok D fl fl1 (map (\<lambda>(name, v, ty). v) fds)" by simp
  then have l: "length ?ps \<le> fl_next_value fl1" "list_all (\<lambda>p. snd p < fl_next_value fl1) ?ps"
    by (auto simp: list_all_iff)
  obtain fl' v ty where b: "load_const (IC_Object ?ps) (IT_Object (map (\<lambda>(n, v, ty). (n, ty)) fds)) sp fl1 =
      (fl', v, ty)" by (metis prod_cases3)
  from lowers_ok_emit_value [OF lowers_ok_single [OF conjunct1 [OF p]] b [unfolded load_const_def]
      verifies_object [where ps = ?ps, OF _ l]]
  have "lowers_ok fl1 fl' D D \<and> v < fl_next_value fl' \<and> fl_next_value fl' = Suc (fl_next_value fl1)" .
  with p lowers_ok_trans [OF conjunct1 [OF p]] show ?case by (simp add: a b)
next
  case (8 elements sp fl)
  obtain fl1 vals where a: "lower_values elements fl = (fl1, vals)" by fastforce
  from 8 a have p: "refs_ok D fl fl1 (map fst vals)" by simp
  then have l: "length (map fst vals) \<le> fl_next_value fl1" "list_all (\<lambda>r. r < fl_next_value fl1) (map fst vals)"
    by auto
  obtain fl' v ty where b: "load_const (IC_Array (map fst vals)) (IT_Array (first_known (map snd vals))) sp fl1 =
      (fl', v, ty)" by (metis prod_cases3)
  from lowers_ok_emit_value [OF lowers_ok_single [OF conjunct1 [OF p]] b [unfolded load_const_def]
      verifies_array [where rs = "map fst vals", OF _ l]]
  have "lowers_ok fl1 fl' D D \<and> v < fl_next_value fl' \<and> fl_next_value fl' = Suc (fl_next_value fl1)" .
  with p lowers_ok_trans [OF conjunct1 [OF p]] show ?case by (simp add: a b)
next
  case (9 object property sp fl)
  obtain fl1 r ty1 where a: "lower_expression object fl = (fl1, r, ty1)" by (metis prod_cases3)
  from 9 a have p: "lowers_ok fl fl1 D D" "r < fl_next_value fl1" "fl_next_value fl < fl_next_value fl1"
    by simp_all
  obtain fl' v ty where b: "emit_value (II_LoadMember r property) (member_type ty1 property) sp fl1 =
      (fl', v, ty)" by (metis prod_cases3)
  from lowers_ok_emit_value [OF lowers_ok_single [OF p(1)] b verifies_members(1) [where r = r and p = property, OF _ p(2)]]
  have "lowers_ok fl1 fl' D D \<and> v < fl_next_value fl' \<and> fl_next_value fl' = Suc (fl_next_value fl1)" .
  with p lowers_ok_trans [OF p(1)] show ?case by (simp add: a b)
next
  case (10 callee arguments sp fl)
  obtain fl1 vals where a: "lower_values arguments fl = (fl1, vals)" by fastforce
  from 10 a have p: "refs_ok D fl fl1 (map fst vals)" by simp
  then have l: "length (map fst vals) \<le> fl_next_value fl1" "list_all (\<lambda>r. r < fl_next_value fl1) (map fst vals)"
    by auto
  obtain fl' v ty where b: "emit_value (II_Call (callee_name callee) (map fst vals)) IT_Unknown sp fl1 =
      (fl', v, ty)" by (metis prod_cases3)
  from lowers_ok_emit_value [OF lowers_ok_single [OF conjunct1 [OF p]] b
      verifies_call [where f = "callee_name callee", OF _ l]]
  have "lowers_ok fl1 fl' D D \<and> v < fl_next_value fl' \<and> fl_next_value fl' = Suc (fl_next_value fl1)" .
  with p lowers_ok_trans [OF conjunct1 [OF p]] show ?case by (simp add: a b)
next
  case (11 left operator right sp fl)
  obtain fl1 r1 ty1 where a: "lower_expression left fl = (fl1, r1, ty1)" by (metis prod_cases3)
  from 11 a have p: "lowers_ok fl fl1 D D" "r1 < fl_next_value fl1" "fl_next_value fl < fl_next_value fl1"
    by simp_all
  obtain fl2 r2 ty2 where b: "lower_expression right fl1 = (fl2, r2, ty2)" by (metis prod_cases3)
  from 11 a b lowers_ok_single [OF p(1)] have
    q: "lowers_ok fl1 fl2 D D" "r2 < fl_next_value fl2" "fl_next_value fl1 < fl_next_value fl2" by simp_all
  obtain fl' v ty where c: "emit_value (II_Binary (binary_op operator) r1 r2) (binary_type operator) sp fl2 =
      (fl', v, ty)" by (metis prod_cases3)
  have r1: "r1 < fl_next_value fl2" using p(2) q(3) by simp
  have "binary_type operator \<noteq> IT_Unknown" using "11.prems"(1) eager_type by simp
  then have "ii_kind i = II_Binary (binary_op operator) r1 r2 \<Longrightarrow> ii_ty i = binary_type operator \<Longrightarrow>
      verifies [i] (fl_next_value fl2) (Suc (fl_next_value fl2)) D D" for i
    by (intro verifies_binary [OF _ _ r1 q(2)]) simp_all
  from lowers_ok_emit_value [OF lowers_ok_single [OF q(1)] c this]
  have "lowers_ok fl2 fl' D D \<and> v < fl_next_value fl' \<and> fl_next_value fl' = Suc (fl_next_value fl2)" .
  with p q lowers_ok_trans [OF lowers_ok_trans [OF p(1) q(1)]] show ?case by (simp add: a b c)
next
  case (12 name left_span operator right sp fl)
  obtain fl1 r ty where a: "lower_expression right fl = (fl1, r, ty)" by (metis prod_cases3)
  from 12 a have p: "lowers_ok fl fl1 D D" "r < fl_next_value fl1" "fl_next_value fl < fl_next_value fl1"
    by simp_all
  have "insert name D = D" using "12.prems"(1) by auto
  with verifies_store_local [OF _ p(2), of _ name D] have
    "lowers_ok fl1 (emit (II_StoreLocal name r) None ty sp fl1) D D"
    by (intro lowers_ok_emit [OF lowers_ok_single [OF p(1)]]) simp
  from lowers_ok_trans [OF p(1) this] p emit_single [OF lowers_ok_single [OF p(1)]] show ?case by (simp add: a)
next
  case (13 object property left_span operator right sp fl)
  obtain fl1 r1 ty1 where a: "lower_expression object fl = (fl1, r1, ty1)" by (metis prod_cases3)
  from 13 a have p: "lowers_ok fl fl1 D D" "r1 < fl_next_value fl1" "fl_next_value fl < fl_next_value fl1"
    by simp_all
  obtain fl2 r2 ty2 where b: "lower_expression right fl1 = (fl2, r2, ty2)" by (metis prod_cases3)
  from 13 a b lowers_ok_single [OF p(1)] have
    q: "lowers_ok fl1 fl2 D D" "r2 < fl_next_value fl2" "fl_next_value fl1 < fl_next_value fl2" by simp_all
  have r1: "r1 < fl_next_value fl2" using p(2) q(3) by simp
  have "lowers_ok fl2 (emit (II_StoreMember r1 property r2) None ty2 sp fl2) D D"
    by (rule lowers_ok_emit [OF lowers_ok_single [OF q(1)] verifies_members(2) [OF _ r1 q(2)]])
  from lowers_ok_trans [OF lowers_ok_trans [OF p(1) q(1)] this] p q emit_single [OF lowers_ok_single [OF q(1)]]
    "13.prems"(1) show ?case by (simp add: a b store_member_value_def)
next
  case (17 fl)
  then show ?case by (simp add: lowers_ok_refl)
next
  case (18 e es fl)
  obtain fl1 r ty where a: "lower_expression e fl = (fl1, r, ty)" by (metis prod_cases3)
  from 18 a have p: "lowers_ok fl fl1 D D" "r < fl_next_value fl1" "fl_next_value fl < fl_next_value fl1"
    by simp_all
  obtain fl2 vs where b: "lower_values es fl1 = (fl2, vs)" by fastforce
  from 18 a b lowers_ok_single [OF p(1)] have q: "refs_ok D fl1 fl2 (map fst vs)" by simp
  with p lowers_ok_trans [OF p(1) conjunct1 [OF q]] show ?case by (simp add: a b)
next
  case (19 fl)
  then show ?case by (simp add: lowers_ok_refl)
next
  case (20 name val sp ps fl)
  obtain fl1 r ty where a: "lower_expression val fl = (fl1, r, ty)" by (metis prod_cases3)
  from 20 a have p: "lowers_ok fl fl1 D D" "r < fl_next_value fl1" "fl_next_value fl < fl_next_value fl1"
    by simp_all
  obtain fl2 vs where b: "lower_properties ps fl1 = (fl2, vs)" by fastforce
  from 20 a b lowers_ok_single [OF p(1)] have q: "refs_ok D fl1 fl2 (map (\<lambda>(name, v, ty). v) vs)" by simp
  with p lowers_ok_trans [OF p(1) conjunct1 [OF q]] show ?case by (simp add: a b)
qed (simp_all)

text \<open>A body that contains a \<^verbatim>\<open>return\<close>, and the instruction it lowers to.\<close>

fun returns :: "statement \<Rightarrow> bool" where
  "returns (Statement (S_Return val) sp) = True"
| "returns (Statement (S_Export inner) sp) = returns inner"
| "returns (Statement _ sp) = False"

definition is_return :: "ir_instruction \<Rightarrow> bool" where
  "is_return i \<longleftrightarrow> (\<exists>w. ii_kind i = II_Return w)"

lemma value_parts:
  assumes "simple D e" and "single fl" and "lower_expression e fl = (fl', v, ty)"
  shows "lowers_ok fl fl' D D" and "v < fl_next_value fl'"
  using lower_expression_ok(1) [OF assms(1,2)] assms(3) by simp_all

lemma lowers_ok_locals:
  "lowers_ok (fl\<lparr>fl_locals := f\<rparr>) fl' D D' = lowers_ok fl fl' D D'"
  by (simp add: lowers_ok_def emitted_def)

lemma lower_variable_ok:
  assumes "single fl" and "pred_option (simple D) (vd_initializer var)"
  shows "lowers_ok fl (lower_variable var sp fl) D (insert (vd_name var) D)"
proof -
  obtain fl1 r ty where a: "(case vd_initializer var of Some e \<Rightarrow> lower_expression e fl
      | None \<Rightarrow> load_const IC_Undefined IT_Undefined sp fl) = (fl1, r, ty)" by (metis prod_cases3)
  have p: "lowers_ok fl fl1 D D" "r < fl_next_value fl1"
  proof (atomize (full), cases "vd_initializer var")
    case None
    from load_scalar_ok [OF assms(1) a [unfolded None, simplified] scalar_entry.simps(5), of D]
    show "lowers_ok fl fl1 D D \<and> r < fl_next_value fl1" by blast
  next
    case (Some e)
    with assms a value_parts [of D e fl fl1 r ty] show "lowers_ok fl fl1 D D \<and> r < fl_next_value fl1" by simp
  qed
  obtain f ty' where l: "lower_variable var sp fl =
      emit (II_StoreLocal (vd_name var) r) None ty' sp (fl1\<lparr>fl_locals := f\<rparr>)"
    using a by (auto simp: lower_variable_def Let_def)
  have s: "single (fl1\<lparr>fl_locals := f\<rparr>)" using lowers_ok_single [OF p(1)] by (simp add: lowers_locals)
  have v: "ii_kind i = II_StoreLocal (vd_name var) r \<Longrightarrow>
      verifies [i] (fl_next_value (fl1\<lparr>fl_locals := f\<rparr>)) (fl_next_value (fl1\<lparr>fl_locals := f\<rparr>)) D
        (insert (vd_name var) D)" for i
    by (rule verifies_store_local, assumption) (simp add: p(2))
  have "lowers_ok (fl1\<lparr>fl_locals := f\<rparr>) (lower_variable var sp fl) D (insert (vd_name var) D)"
    unfolding l by (rule lowers_ok_emit [OF s v])
  with lowers_ok_trans [OF p(1)] show ?thesis by (simp add: lowers_ok_locals)
qed

lemma emit_return:
  "single fl \<Longrightarrow> \<exists>i\<in>set (emitted (emit (II_Return w) r ty sp fl)). is_return i"
  using emit_single [of fl "II_Return w" r ty sp] by (auto simp: is_return_def)

lemma lower_return_ok:
  assumes "single fl" and "pred_option (simple D) val"
  shows "lowers_ok fl (lower_return val sp fl) D D \<and> (\<exists>i\<in>set (emitted (lower_return val sp fl)). is_return i)"
proof (cases val)
  case None
  have "lowers_ok fl (lower_return val sp fl) D D"
    unfolding lower_return_def None option.case
    by (rule lowers_ok_emit [OF assms(1)]) (rule verifies_return, assumption, simp)
  with emit_return [OF assms(1)] show ?thesis by (simp add: None lower_return_def)
next
  case (Some e)
  obtain fl1 r ty where a: "lower_expression e fl = (fl1, r, ty)" by (metis prod_cases3)
  from assms Some have "simple D e" by simp
  note p = value_parts [OF this assms(1) a]
  have "lowers_ok fl1 (emit (II_Return (Some r)) None IT_Undefined sp fl1) D D"
    by (rule lowers_ok_emit [OF lowers_ok_single [OF p(1)]]) (rule verifies_return, assumption, simp add: p(2))
  from lowers_ok_trans [OF p(1) this] emit_return [OF lowers_ok_single [OF p(1)]] show ?thesis
    by (simp add: Some a lower_return_def)
qed

lemma lower_statement_ok:
  "straight D st \<Longrightarrow> single fl \<Longrightarrow>
     lowers_ok fl (lower_statement st fl) D (D \<union> declared st) \<and>
     (returns st \<longrightarrow> (\<exists>i\<in>set (emitted (lower_statement st fl)). is_return i))"
proof (induction D st arbitrary: fl rule: straight.induct)
  case (1 D var sp)
  with lower_variable_ok [of fl D var sp] show ?case by simp
next
  case (2 D val sp)
  with lower_return_ok [of fl D val sp] show ?case by simp
next
  case (3 D e sp)
  obtain fl1 r ty where a: "lower_expression e fl = (fl1, r, ty)" by (metis prod_cases3)
  from 3 value_parts(1) [OF _ "3.prems"(2) a, of D] show ?case by (simp add: a)
next
  case (4 D inner sp)
  then show ?case by simp
qed (auto intro: lowers_ok_refl)

lemma lowers_ok_emitted: "lowers_ok fl fl' D D' \<Longrightarrow> set (emitted fl) \<subseteq> set (emitted fl')"
  by (auto simp: lowers_ok_def)

lemma lower_statements_ok:
  "straight_list D sts \<Longrightarrow> single fl \<Longrightarrow>
     \<exists>D'. lowers_ok fl (lower_statements sts fl) D D' \<and>
       (list_ex returns sts \<longrightarrow> (\<exists>i\<in>set (emitted (lower_statements sts fl)). is_return i))"
proof (induction sts arbitrary: D fl)
  case Nil
  then show ?case by (auto intro: lowers_ok_refl)
next
  case (Cons st sts)
  then have st: "straight D st" "straight_list (D \<union> declared st) sts" by simp_all
  note p = lower_statement_ok [OF st(1) Cons.prems(2)]
  from Cons.IH [OF st(2) lowers_ok_single [OF conjunct1 [OF p]]] obtain D' where
    q: "lowers_ok (lower_statement st fl) (lower_statements sts (lower_statement st fl)) (D \<union> declared st) D'"
    and r: "list_ex returns sts \<longrightarrow>
      (\<exists>i\<in>set (emitted (lower_statements sts (lower_statement st fl))). is_return i)" by blast
  from lowers_ok_trans [OF conjunct1 [OF p] q] lowers_ok_emitted [OF q] p r show ?case by auto
qed

section \<open>Functions and programs\<close>

definition accepted_function :: "ir_function \<Rightarrow> bool" where
  "accepted_function f \<longleftrightarrow>
     distinct (map ip_name (ir_params f)) \<and>
     (\<exists>js k D'. ir_blocks f = [\<lparr>ib_id = 0, ib_instructions = js\<rparr>] \<and> k \<le> length js \<and>
        verifies js 0 k (set (map ip_name (ir_params f))) D' \<and> list_ex is_return js)"

lemma compile_instructions_return:
  "compile_instructions js cp lt = (cp', lt', cs) \<Longrightarrow> list_ex is_return js \<Longrightarrow>
     \<exists>c\<in>set cs. is_terminator (ins_opcode c)"
  by (induction js arbitrary: cp lt cs)
    (fastforce simp: is_return_def compile_instruction_def is_terminator_def split: prod.splits)+

lemma accepted_function_ok:
  assumes "accepted_function ir" and "compile_function ir cp = (cp', f)" and "interned cp"
    and "pool_of m cp'" and "small_function f"
  shows "function_ok m f"
proof -
  let ?xs = "map ip_name (ir_params ir)"
  from assms(1) obtain js k D' where l: "distinct ?xs" "ir_blocks ir = [\<lparr>ib_id = 0, ib_instructions = js\<rparr>]"
    "k \<le> length js" and v: "verifies js 0 k (set ?xs) D'" and r: "list_ex is_return js"
    by (auto simp: accepted_function_def)
  obtain cp1 lt1 cs where c: "compile_instructions js cp (param_table (ir_params ir)) = (cp1, lt1, cs)"
    by (metis prod_cases3)
  with assms(2) l(2) have f: "cp' = cp1"
    "fn_params f = map (\<lambda>p. type_tag_of (ip_ty p)) (ir_params ir)"
    "fn_blocks f = [\<lparr>blk_id = 0, blk_instructions = cs\<rparr>]" "fn_exception_table f = []"
    by (auto simp: compile_function_def)
  from assms(5) f compile_instructions_length [OF c] have s: "length ?xs + length js < 2 ^ 32"
    by (simp add: small_function_def)
  have "compiled m k js ?xs cs (ir_names js ?xs)"
    using c assms(3,4) param_table_numbers [OF l(1)] f(1) s l(3) ir_names_length [of js ?xs]
    by (auto simp: compiled_def)
  with v have "code_ok m 0 (u32_of (length ?xs)) cs" unfolding verifies_def by blast
  then have "block_ok m {0} f \<lparr>blk_id = 0, blk_instructions = cs\<rparr>"
    using code_ok_at [of m 0 "u32_of (length ?xs)"] by (auto simp: block_ok_def f(2))
  with compile_instructions_return [OF c r] show ?thesis
    by (simp add: function_ok_def f(3,4) has_terminator_def)
qed

lemma compile_functions_ok:
  assumes "compile_functions irs cp = (cp', fs)" and "interned cp" and "pool_of m cp'"
    and "list_all small_function fs" and "list_all accepted_function irs"
  shows "list_all (function_ok m) fs \<and> extends_pool cp cp'"
  using assms
proof (induction irs arbitrary: cp fs)
  case (Cons ir irs)
  obtain cp1 c where a: "compile_function ir cp = (cp1, c)" by fastforce
  obtain cs where b: "compile_functions irs cp1 = (cp', cs)" and fs: "fs = c # cs"
    using a Cons.prems(1) by (auto split: prod.splits)
  note e = compile_function_pool [OF a Cons.prems(2)]
  then have i: "interned cp1" by (simp add: extends_pool_def)
  from Cons.prems(4,5) fs have small: "small_function c" "list_all small_function cs"
    "accepted_function ir" "list_all accepted_function irs" by simp_all
  from Cons.IH [OF b i Cons.prems(3) small(2,4)] have
    r: "list_all (function_ok m) cs" "extends_pool cp1 cp'" by simp_all
  from accepted_function_ok [OF small(3) a Cons.prems(2) pool_of_prefix [OF Cons.prems(3) r(2)] small(1)]
    r extends_pool_trans [OF e r(2)]
  show ?case by (simp add: fs)
qed (simp add: extends_pool_def)

text \<open>Programs of the fragment whose functions return; the entry always does.\<close>

definition returning_program :: "program \<Rightarrow> bool" where
  "returning_program pg \<longleftrightarrow>
     straight_program pg \<and>
     list_all (\<lambda>f. list_ex returns (sf_body f)) (List.map_filter source_function_of (pg_body pg))"

lemma accepted_finish:
  assumes "lowers_ok (lowerer_new name ps ty sp) fl (set (map ip_name ps)) D'" and "distinct (map ip_name ps)"
    and "\<exists>i\<in>set (emitted fl). is_return i" and "sig fl = sig (lowerer_new name ps ty sp)"
    and "fl_next_value fl \<le> length (emitted fl)"
  shows "accepted_function (lowerer_finish fl)"
  using assms single_blocks [OF lowers_ok_single [OF assms(1)]]
  by (fastforce simp: accepted_function_def lowers_ok_def lowerer_new_single sig_simps list_ex_iff)

lemma lowered_size:
  assumes "straight_list D sts" and "single fl"
  shows "sig (lower_statements sts fl) = sig fl" and "single (lower_statements sts fl)"
    and "fl_next_value (lower_statements sts fl) + length (emitted fl) \<le>
      fl_next_value fl + length (emitted (lower_statements sts fl))"
  using lower_statements_lowers [OF assms, of 0 "\<lambda>name args. (sfail Panic :: (unit interp, abort, runtime_value) sem)"]
  by (auto simp: lowers_def)

lemma accepted_statement:
  assumes "source_function_of st = Some sf" and "straight_function sf" and "list_ex returns (sf_body sf)"
  obtains f where "lowered_function st = Some f" "accepted_function f"
proof -
  from assms(1) obtain d where d: "st_kind st = S_Function d"
    and sf: "sf = \<lparr>sf_name = fd_name d, sf_params = map pa_name (fd_params d), sf_body = fd_body d\<rparr>"
    by (auto simp: source_function_of_def split: statement_kind.splits)
  let ?ps = "map lower_param (fd_params d)"
  have ps: "map ip_name ?ps = map pa_name (fd_params d)" by (simp add: lower_param_def)
  with assms(2) sf have s: "straight_list (set (map ip_name ?ps)) (fd_body d)" "distinct (map ip_name ?ps)"
    by (simp_all only: ps straight_function_def source_function.simps)
  let ?new = "lowerer_new (fd_name d) ?ps
    (case fd_return_type d of None \<Rightarrow> IT_Undefined | Some ty \<Rightarrow> type_from_node ty) (st_span st)"
  let ?fl = "lower_statements (fd_body d) ?new"
  from lower_statements_ok [OF s(1) lowerer_new_single(1)] assms(3) sf obtain D' where
    p: "lowers_ok ?new ?fl (set (map ip_name ?ps)) D'" and r: "\<exists>i\<in>set (emitted ?fl). is_return i"
    by fastforce
  have "fl_next_value ?fl \<le> length (emitted ?fl)"
    using lowered_size(3) [OF s(1) lowerer_new_single(1)] by (simp add: lowerer_new_single)
  from accepted_finish [OF p s(2) r lowered_size(1) [OF s(1) lowerer_new_single(1)] this]
  have "accepted_function (lower_function d (st_span st))" by (simp add: lower_function_def)
  with d show thesis by (intro that) (simp_all add: lowered_function_def)
qed

lemma accepted_entry:
  assumes "straight_list {} body"
  shows "accepted_function (lower_entry body sp)"
proof -
  let ?new = "lowerer_new ''__entry'' [] IT_Undefined sp"
  let ?fl = "lower_statements body ?new"
  let ?last = "emit (II_Return None) None IT_Undefined sp ?fl"
  have new: "single ?new" by (simp add: lowerer_new_single)
  note size = lowered_size [OF assms new]
  from lower_statements_ok [OF assms new] obtain D' where p: "lowers_ok ?new ?fl {} D'" by blast
  have "lowers_ok ?fl ?last D' D'"
    by (rule lowers_ok_emit [OF size(2)]) (rule verifies_return, assumption, simp)
  from lowers_ok_trans [OF p this] have q: "lowers_ok ?new ?last (set (map ip_name [])) D'" by simp
  have "sig ?last = sig ?new" "fl_next_value ?last \<le> length (emitted ?last)"
    using emit_single [OF size(2), of "II_Return None" None IT_Undefined sp] size(1,3)
    by (simp_all add: lowerer_new_single)
  from accepted_finish [OF q _ emit_return [OF size(2)] this] show ?thesis by (simp add: lower_entry_def)
qed

lemma accepted_program:
  assumes "returning_program pg"
  shows "list_all accepted_function (ir_functions (lower_program pg) @ [ir_entry (lower_program pg)])"
proof -
  have "list_all accepted_function (List.map_filter lowered_function sts)"
    if "list_all straight_function (List.map_filter source_function_of sts)"
      "list_all (\<lambda>f. list_ex returns (sf_body f)) (List.map_filter source_function_of sts)" for sts
    using that
  proof (induction sts)
    case (Cons st sts)
    show ?case
    proof (cases "source_function_of st")
      case None
      with Cons lowered_none [OF None] show ?thesis by simp
    next
      case (Some sf)
      with Cons.prems have "straight_function sf" "list_ex returns (sf_body sf)" by simp_all
      from accepted_statement [OF Some this] obtain f where
        "lowered_function st = Some f" "accepted_function f" .
      with Some Cons show ?thesis by simp
    qed
  qed simp
  moreover from assms have "straight_list {} (filter is_entry_code (pg_body pg))"
    by (simp add: returning_program_def straight_program_def source_functions_def straight_function_def)
  ultimately show ?thesis using assms
    by (auto simp: returning_program_def straight_program_def source_functions_def lower_program_def
        entry_statements intro!: accepted_entry)
qed

lemma compiled_verifies:
  assumes "returning_program pg" and "small_module (compile (lower_program pg))"
  shows "verify_module (compile (lower_program pg)) = Inr ()"
proof -
  let ?irs = "ir_functions (lower_program pg) @ [ir_entry (lower_program pg)]"
  let ?m = "compile (lower_program pg)"
  obtain cp fs where c: "compile_functions ?irs compiler_default = (cp, fs)" by fastforce
  then have m: "mod_constants ?m = cp_constants cp" "mod_source_map ?m = cp_source_map cp"
    "mod_functions ?m = fs" "mod_header ?m = \<lparr>hdr_magic = BYTECODE_MAGIC, hdr_version = BYTECODE_VERSION\<rparr>"
    by (simp_all add: compile_def)
  with assms(2) have "pool_of ?m cp" "list_all small_function fs"
    by (simp_all add: pool_of_def small_module_def)
  from compile_functions_ok [OF c interned_default this accepted_program [OF assms(1)]]
  have "list_all (function_ok ?m) fs" by blast
  moreover have "fs \<noteq> []" using c by (cases "ir_functions (lower_program pg)") (auto split: prod.splits)
  ultimately show ?thesis by (simp add: verify_module_iff module_ok_def m list_all_iff)
qed

section \<open>Small programs\<close>

text \<open>A bound on what is interned for an instruction, and so on the pools of the module.\<close>

definition ii_size :: "ir_instruction \<Rightarrow> nat" where
  "ii_size i = (case ii_kind i of II_LoadConst (IC_Object ps) \<Rightarrow> Suc (length ps) | _ \<Rightarrow> 1)"

definition ib_size :: "ir_block \<Rightarrow> nat" where
  "ib_size b = sum_list (map ii_size (ib_instructions b))"

definition ir_size :: "ir_function \<Rightarrow> nat" where
  "ir_size f = length (ir_params f) + sum_list (map ib_size (ir_blocks f))"

definition program_size :: "ir_program \<Rightarrow> nat" where
  "program_size ir = sum_list (map ir_size (ir_functions ir @ [ir_entry ir]))"

definition small_program :: "ir_program \<Rightarrow> bool" where
  "small_program ir \<longleftrightarrow> program_size ir < 2 ^ 32"

definition compiler_grows :: "compiler \<Rightarrow> compiler \<Rightarrow> nat \<Rightarrow> bool" where
  "compiler_grows cp cp' k \<longleftrightarrow>
     length (cp_constants cp') \<le> length (cp_constants cp) + k \<and>
     length (cp_source_map cp') \<le> length (cp_source_map cp) + k"

lemma ib_grows_trans: "compiler_grows a b j \<Longrightarrow> compiler_grows b c k \<Longrightarrow> compiler_grows a c (j + k)"
  by (auto simp: compiler_grows_def)

lemma intern_length:
  "intern_constant c cp = (cp', i) \<Longrightarrow>
     length (cp_constants cp') \<le> Suc (length (cp_constants cp)) \<and> cp_source_map cp' = cp_source_map cp"
  "intern_source r cp = (cp', j) \<Longrightarrow>
     length (cp_source_map cp') \<le> Suc (length (cp_source_map cp)) \<and> cp_constants cp' = cp_constants cp"
  by (auto simp: intern_constant_def intern_source_def Let_def split: option.splits)

lemma property_operands_length:
  "property_operands ps cp = (cp', ops) \<Longrightarrow>
     length (cp_constants cp') \<le> length (cp_constants cp) + length ps \<and> cp_source_map cp' = cp_source_map cp"
proof (induction ps cp arbitrary: cp' ops rule: property_operands.induct)
  case (2 name r ps cp)
  obtain cp1 w where a: "intern_constant (Const_Symbol name) cp = (cp1, w)" by fastforce
  obtain cp2 ops2 where b: "property_operands ps cp1 = (cp2, ops2)" by fastforce
  from "2.IH" [OF a [symmetric] b] intern_length(1) [OF a] "2.prems" a b show ?case by simp
qed simp

lemma compile_instruction_grows:
  assumes "compile_instruction i cp lt = (cp', lt', c)"
  shows "compiler_grows cp cp' (ii_size i)"
proof -
  obtain cp1 r where a: "intern_source (source_ref_from_span (ii_source_span i)) cp = (cp1, r)" by fastforce
  obtain lt1 opc ops where b: "compile_kind (ii_kind i) cp1 lt = (cp', lt1, opc, ops)"
    using a assms by (auto simp: compile_instruction_def split: prod.splits)
  have "length (cp_constants cp') \<le> length (cp_constants cp1) + ii_size i \<and> cp_source_map cp' = cp_source_map cp1"
  proof (cases "ii_kind i")
    case (II_LoadConst k)
    with b show ?thesis
      by (cases k) (auto simp: ii_size_def single_operand_def split: prod.splits
          dest!: intern_length(1) property_operands_length)
  qed (use b in \<open>auto simp: ii_size_def split: prod.splits dest!: intern_length(1)\<close>)
  moreover have "1 \<le> ii_size i" by (simp add: ii_size_def split: ir_instruction_kind.split ir_const.split)
  ultimately show ?thesis using intern_length(2) [OF a] by (auto simp: compiler_grows_def)
qed

lemma compile_instructions_grows:
  "compile_instructions is cp lt = (cp', lt', cs) \<Longrightarrow> compiler_grows cp cp' (sum_list (map ii_size is))"
proof (induction "is" arbitrary: cp lt cs)
  case (Cons i "is")
  obtain cp1 lt1 c where a: "compile_instruction i cp lt = (cp1, lt1, c)" by (metis prod_cases3)
  obtain ds where b: "compile_instructions is cp1 lt1 = (cp', lt', ds)"
    using a Cons.prems by (auto split: prod.splits)
  from ib_grows_trans [OF compile_instruction_grows [OF a] Cons.IH [OF b]] show ?case by simp
qed (simp add: compiler_grows_def)

lemma compile_blocks_grows:
  "compile_blocks bs cp lt = (cp', lt', ds) \<Longrightarrow>
     compiler_grows cp cp' (sum_list (map ib_size bs)) \<and>
     sum_list (map (\<lambda>b. length (blk_instructions b)) ds) \<le> sum_list (map ib_size bs)"
proof (induction bs arbitrary: cp lt ds)
  case (Cons b bs)
  obtain cp1 lt1 cs where a: "compile_instructions (ib_instructions b) cp lt = (cp1, lt1, cs)"
    by (metis prod_cases3)
  obtain es where c: "compile_blocks bs cp1 lt1 = (cp', lt', es)"
    and ds: "ds = \<lparr>blk_id = u32_of (ib_id b), blk_instructions = cs\<rparr> # es"
    using a Cons.prems(1) by (auto split: prod.splits)
  have "length is \<le> sum_list (map ii_size is)" for "is"
  proof (induction "is")
    case (Cons i "is")
    moreover have "1 \<le> ii_size i" by (simp add: ii_size_def split: ir_instruction_kind.split ir_const.split)
    ultimately show ?case by simp
  qed simp
  from this [of "ib_instructions b"] compile_instructions_length [OF a]
  have "length cs \<le> ib_size b" by (simp add: ib_size_def)
  with ib_grows_trans [OF compile_instructions_grows [OF a, folded ib_size_def]] Cons.IH [OF c] show ?case
    by (simp add: ds)
qed (simp add: compiler_grows_def)

lemma compile_functions_grows:
  "compile_functions irs cp = (cp', fs) \<Longrightarrow>
     compiler_grows cp cp' (sum_list (map ir_size irs)) \<and>
     list_all (\<lambda>f. length (fn_params f) + sum_list (map (\<lambda>b. length (blk_instructions b)) (fn_blocks f)) \<le>
       sum_list (map ir_size irs)) fs"
proof (induction irs arbitrary: cp fs)
  case (Cons ir irs)
  obtain cp1 c where a: "compile_function ir cp = (cp1, c)" by fastforce
  obtain cs where b: "compile_functions irs cp1 = (cp', cs)" and fs: "fs = c # cs"
    using a Cons.prems(1) by (auto split: prod.splits)
  obtain lt bs where c: "compile_blocks (ir_blocks ir) cp (param_table (ir_params ir)) = (cp1, lt, bs)"
    and f: "length (fn_params c) = length (ir_params ir)" "fn_blocks c = bs"
    using a by (auto simp: compile_function_def split: prod.splits)
  from compile_blocks_grows [OF c] f have
    "compiler_grows cp cp1 (ir_size ir)"
    "length (fn_params c) + sum_list (map (\<lambda>b. length (blk_instructions b)) (fn_blocks c)) \<le> ir_size ir"
    by (auto simp: compiler_grows_def ir_size_def)
  with ib_grows_trans [OF this(1)] Cons.IH [OF b] show ?case
    by (auto simp: fs list_all_iff intro: le_trans trans_le_add2)
qed (simp add: compiler_grows_def)

lemma small_compiled:
  assumes "small_program ir"
  shows "small_module (compile ir)"
proof -
  obtain cp fs where c: "compile_functions (ir_functions ir @ [ir_entry ir]) compiler_default = (cp, fs)"
    by fastforce
  from compile_functions_grows [OF c] assms c show ?thesis
    by (auto simp: compile_def small_module_def small_function_def compiler_grows_def compiler_default_def
        small_program_def program_size_def list_all_iff intro: le_less_trans)
qed

end
