(* ===== verification/Pipeline_Correct.thy ===== *)
theory Pipeline_Correct
  imports Compiled_Verified Pipeline Semantic_Programs
begin

text \<open>
  The pipeline as a whole: the entry points of \<open>Pipeline\<close> against the syntax tree, the declarative
  typing of \<open>Semantic_Programs\<close> and the reference semantics of \<open>Source_Semantics\<close>.
\<close>

section \<open>From source text to a verified module\<close>

abbreviation program_of :: "string \<Rightarrow> program" where
  "program_of source \<equiv> po_program (parse_of source)"

abbreviation module_of :: "string \<Rightarrow> bytecode_module" where
  "module_of source \<equiv> compile (lower_program (program_of source))"

lemma from_source_cases:
  assumes "enumerates order"
  shows "accepted_source source \<Longrightarrow>
      from_source order source =
        (case verify_module (module_of source) of
           Inl errors \<Rightarrow> Inl (Error (E_Verify errors)) | Inr _ \<Rightarrow> Inr \<lparr>pm_module = module_of source\<rparr>)"
    and "\<not> accepted_source source \<Longrightarrow>
      \<exists>ds. ds \<noteq> [] \<and> from_source order source = Inl (Error (E_Compile ds))"
proof -
  from compile_source_accepted [OF assms, of source] obtain out where
    "compile_source order source = Inr out"
    "bo_module out = (if accepted_source source then Some (module_of source) else None)"
    "bo_diagnostics out = [] \<longleftrightarrow> accepted_source source" by fastforce
  then show "accepted_source source \<Longrightarrow> from_source order source =
        (case verify_module (module_of source) of
           Inl errors \<Rightarrow> Inl (Error (E_Verify errors)) | Inr _ \<Rightarrow> Inr \<lparr>pm_module = module_of source\<rparr>)"
    "\<not> accepted_source source \<Longrightarrow> \<exists>ds. ds \<noteq> [] \<and> from_source order source = Inl (Error (E_Compile ds))"
    by (simp_all add: from_source_def lift_parse_def)
qed

section \<open>Straight-line programs\<close>

lemma execute_accepted_straight:
  assumes "enumerates order" and "accepted_source source"
    and "returning_program (program_of source)" and "small_program (lower_program (program_of source))"
  shows "execute_source_with_host order n source host w = source_run n (program_of source) host w"
proof -
  note small = small_compiled [OF assms(4)]
  have "from_source order source = Inr \<lparr>pm_module = module_of source\<rparr>"
    by (simp add: from_source_cases(1) [OF assms(1,2)] compiled_verifies [OF assms(3) small])
  moreover have "straight_program (program_of source)" using assms(3) by (simp add: returning_program_def)
  ultimately show ?thesis
    by (simp add: execute_source_with_host_def sem_simps prepared_execute_with_host_def
        execute_straight [OF _ small])
qed

text \<open>C2: the pipeline is correct for straight-line programs. A source that parses and type checks,
  whose functions are straight-line and return, and whose IR is small enough for 32-bit operands, is compiled, accepted by the verifier and executed with exactly the outcome of the
  reference semantics on its syntax tree: the same console, result and heap statistics or the same
  runtime error, and the same effects on the host, with any host and any fuel.\<close>

theorem source_execution_correct:
  assumes "enumerates order" and "accepted_source source"
    and "returning_program (program_of source)" and "small_program (lower_program (program_of source))"
  shows "execute_source_with_host order n source host w = source_run n (program_of source) host w"
  by (rule execute_accepted_straight [OF assms])

definition demo_source :: string where
  "demo_source = ''function f(a:string):string{return a;}console.log(f(\"hi\"));''"

definition demo_program :: "program \<Rightarrow> bool" where
  "demo_program pg \<longleftrightarrow>
     returning_program pg \<and> program_size (lower_program pg) < 100 \<and>
     (case snd (source_run 4 pg host_new ()) of
        Inl _ \<Rightarrow> False | Inr out \<Rightarrow> out_console out = [V_String ''hi''])"

lemma demo_accepted: "accepted_source demo_source"
proof -
  have "(case analyze_source key_order demo_source of Inr out \<Rightarrow> so_diagnostics out = [] | Inl _ \<Rightarrow> False)"
    by code_simp
  then show ?thesis using analysis_accepts [OF enumerates_key_order, of demo_source] by auto
qed

lemma demo_runs: "demo_program (program_of demo_source)"
  by code_simp

theorem source_execution_correct_witness:
  "\<exists>out. snd (execute_source_with_host key_order 4 demo_source host_new ()) = Inr out \<and>
     out_console out = [V_String ''hi'']"
proof -
  have "execute_source_with_host key_order 4 demo_source host_new () =
      source_run 4 (program_of demo_source) host_new ()"
    using demo_runs by (intro source_execution_correct enumerates_key_order demo_accepted)
      (simp_all add: demo_program_def small_program_def)
  with demo_runs show ?thesis by (auto simp: demo_program_def split: sum.splits)
qed

end
