(* ===== verification/Source_Termination.thy ===== *)
theory Source_Termination
  imports Pipeline_Correct Program_Runs
begin

text \<open>
  Programs that always end. The reference semantics makes it a simple argument: a program that calls
  nothing but \<^verbatim>\<open>console.log\<close> and stores no members only builds values out of older ones, so
  no value is cyclic, and the fuel has only to exceed the number of object and array literals.
\<close>

section \<open>Leaf programs\<close>

fun leaf :: "expression \<Rightarrow> bool"
and leaf_property :: "object_property \<Rightarrow> bool"
where
  "leaf (Expression (Ex_Object properties) sp) = list_all leaf_property properties"
| "leaf (Expression (Ex_Array elements) sp) = list_all leaf elements"
| "leaf (Expression (Ex_Member object property) sp) = leaf object"
| "leaf (Expression (Ex_Call callee arguments) sp) = (dotted callee = ''console.log'' \<and> list_all leaf arguments)"
| "leaf (Expression (Ex_Binary left op right) sp) = (leaf left \<and> leaf right)"
| "leaf (Expression (Ex_Assignment (Expression (Ex_Identifier name) lsp) op right) sp) = leaf right"
| "leaf (Expression (Ex_Assignment left op right) sp) = False"
| "leaf (Expression (Ex_Unary op e) sp) = False"
| "leaf (Expression Ex_Error sp) = False"
| "leaf (Expression (Ex_Identifier name) sp) = True"
| "leaf (Expression (Ex_Number s) sp) = True"
| "leaf (Expression (Ex_String s) sp) = True"
| "leaf (Expression (Ex_Boolean b) sp) = True"
| "leaf (Expression Ex_Null sp) = True"
| "leaf (Expression Ex_Undefined sp) = True"
| "leaf_property (Object_Property name e sp) = leaf e"

text \<open>The object and array literals, each of which allocates once.\<close>

fun literals :: "expression \<Rightarrow> nat"
and literals_property :: "object_property \<Rightarrow> nat"
where
  "literals (Expression (Ex_Object properties) sp) = Suc (sum_list (map literals_property properties))"
| "literals (Expression (Ex_Array elements) sp) = Suc (sum_list (map literals elements))"
| "literals (Expression (Ex_Member object property) sp) = literals object"
| "literals (Expression (Ex_Call callee arguments) sp) = sum_list (map literals arguments)"
| "literals (Expression (Ex_Binary left op right) sp) = literals left + literals right"
| "literals (Expression (Ex_Assignment left op right) sp) = literals right"
| "literals (Expression _ sp) = 0"
| "literals_property (Object_Property name e sp) = literals e"

fun leaf_statement :: "statement \<Rightarrow> bool" where
  "leaf_statement (Statement (S_Variable var) sp) =
     (case vd_initializer var of None \<Rightarrow> True | Some e \<Rightarrow> leaf e)"
| "leaf_statement (Statement (S_Return val) sp) = (case val of None \<Rightarrow> True | Some e \<Rightarrow> leaf e)"
| "leaf_statement (Statement (S_Expression e) sp) = leaf e"
| "leaf_statement (Statement (S_Export inner) sp) = leaf_statement inner"
| "leaf_statement (Statement _ sp) = True"

fun statement_literals :: "statement \<Rightarrow> nat" where
  "statement_literals (Statement (S_Variable var) sp) =
     (case vd_initializer var of None \<Rightarrow> 0 | Some e \<Rightarrow> literals e)"
| "statement_literals (Statement (S_Return val) sp) = (case val of None \<Rightarrow> 0 | Some e \<Rightarrow> literals e)"
| "statement_literals (Statement (S_Expression e) sp) = literals e"
| "statement_literals (Statement (S_Export inner) sp) = statement_literals inner"
| "statement_literals (Statement _ sp) = 0"

definition body_literals :: "statement list \<Rightarrow> nat" where
  "body_literals sts = sum_list (map statement_literals sts)"

section \<open>Acyclic runs\<close>

definition slot :: "heap_handle \<Rightarrow> nat" where
  "slot k = unat (handle_index k)"

text \<open>A value made of slots below \<open>c\<close>.\<close>

definition below :: "runtime_value \<Rightarrow> nat \<Rightarrow> bool" where
  "below v c \<longleftrightarrow> (\<forall>k\<in>set (value_refs v). slot k < c)"

definition all_below :: "runtime_value list \<Rightarrow> nat \<Rightarrow> bool" where
  "all_below vs c \<longleftrightarrow> list_all (\<lambda>v. below v c) vs"

definition fields_below :: "(string \<times> runtime_value) list \<Rightarrow> nat \<Rightarrow> bool" where
  "fields_below fds c \<longleftrightarrow> list_all (\<lambda>f. below (snd f) c) fds"

text \<open>A heap that was only added to, in order, with all the values that refer to it.\<close>

definition growing :: "heap_value gc_heap \<Rightarrow> bool" where
  "growing h \<longleftrightarrow> heap_free h = [] \<and> ranked slot h"

definition slots :: "env \<times> 'w interp \<Rightarrow> nat" where
  "slots p = capacity (in_heap (snd p))"

definition good :: "env \<times> 'w interp \<Rightarrow> bool" where
  "good p \<longleftrightarrow>
     growing (in_heap (snd p)) \<and> (\<forall>x v. fst p x = Some v \<longrightarrow> below v (slots p)) \<and>
     all_below (in_console (snd p)) (slots p)"

lemma below_mono: "below v c \<Longrightarrow> c \<le> d \<Longrightarrow> below v d"
  by (auto simp: below_def)

lemma all_below_mono: "all_below vs c \<Longrightarrow> c \<le> d \<Longrightarrow> all_below vs d"
  by (auto simp: all_below_def list_all_iff intro: below_mono)

lemma fields_below_mono: "fields_below fds c \<Longrightarrow> c \<le> d \<Longrightarrow> fields_below fds d"
  by (auto simp: fields_below_def list_all_iff intro: below_mono)

text \<open>
  \<open>act\<close> keeps good states good, allocates at most \<open>k\<close> slots, does not run out of fuel, and its
  result satisfies \<open>V\<close> at the capacity it leaves.
\<close>

definition tidy ::
  "nat \<Rightarrow> (nat \<Rightarrow> bool) \<Rightarrow> ('w, 'a) source \<Rightarrow> nat \<Rightarrow> ('a \<Rightarrow> nat \<Rightarrow> bool) \<Rightarrow> bool" where
  "tidy N P act k V \<longleftrightarrow>
     (\<forall>p q r. good p \<longrightarrow> slots p + k \<le> N \<longrightarrow> P (slots p) \<longrightarrow> act p = (q, r) \<longrightarrow>
        good q \<and> slots p \<le> slots q \<and> slots q \<le> slots p + k \<and>
        (case r of Inl e \<Rightarrow> e \<noteq> Out_of_fuel | Inr a \<Rightarrow> V a (slots q)))"

lemma tidyI:
  assumes "\<And>p q r. good p \<Longrightarrow> slots p + k \<le> N \<Longrightarrow> P (slots p) \<Longrightarrow> act p = (q, r) \<Longrightarrow>
     good q \<and> slots p \<le> slots q \<and> slots q \<le> slots p + k \<and>
     (case r of Inl e \<Rightarrow> e \<noteq> Out_of_fuel | Inr a \<Rightarrow> V a (slots q))"
  shows "tidy N P act k V"
  unfolding tidy_def using assms by blast

lemma tidyD:
  assumes "tidy N P act k V" and "good p" and "slots p + k \<le> N" and "P (slots p)" and "act p = (q, r)"
  shows "good q" and "slots p \<le> slots q" and "slots q \<le> slots p + k"
    and "case r of Inl e \<Rightarrow> e \<noteq> Out_of_fuel | Inr a \<Rightarrow> V a (slots q)"
  using assms unfolding tidy_def by blast+

definition rising :: "(nat \<Rightarrow> bool) \<Rightarrow> bool" where
  "rising P \<longleftrightarrow> (\<forall>c d. P c \<longrightarrow> c \<le> d \<longrightarrow> P d)"

lemma rising_below [simp]: "rising (below v)" "rising (all_below vs)" "rising (fields_below fds)" "rising (\<lambda>c. True)"
  unfolding rising_def using below_mono all_below_mono fields_below_mono by blast+

lemma tidy_bind:
  assumes "tidy N P act j V" and "\<And>a. tidy N (V a) (f a) k W"
  shows "tidy N P (sbind act f) (j + k) W"
proof (rule tidyI)
  fix p q r
  assume g: "good p" "slots p + (j + k) \<le> N" "P (slots p)" and b: "sbind act f p = (q, r)"
  obtain q1 r1 where a: "act p = (q1, r1)" by fastforce
  have "slots p + j \<le> N" using g(2) by simp
  note 1 = tidyD [OF assms(1) g(1) this g(3) a]
  show "good q \<and> slots p \<le> slots q \<and> slots q \<le> slots p + (j + k) \<and>
      (case r of Inl e \<Rightarrow> e \<noteq> Out_of_fuel | Inr a \<Rightarrow> W a (slots q))"
  proof (cases r1)
    case (Inl e)
    with a b 1 show ?thesis by (auto simp: sbind_def)
  next
    case (Inr x)
    with a b have f: "f x q1 = (q, r)" by (simp add: sbind_def)
    have "slots q1 + k \<le> N" "V x (slots q1)" using 1(3,4) g(2) Inr by simp_all
    from tidyD [OF assms(2) 1(1) this f] 1 show ?thesis by simp
  qed
qed

lemma tidy_keep:
  assumes "tidy N P act k V" and "rising S"
  shows "tidy N (\<lambda>c. S c \<and> P c) act k (\<lambda>a c. S c \<and> V a c)"
proof (rule tidyI)
  fix p q r
  assume g: "good p" "slots p + k \<le> N" "S (slots p) \<and> P (slots p)" and a: "act p = (q, r)"
  from g(3) have P: "P (slots p)" by simp
  note 1 = tidyD [OF assms(1) g(1,2) P a]
  moreover have "S (slots q)" using assms(2) g(3) 1(2) unfolding rising_def by blast
  ultimately show "good q \<and> slots p \<le> slots q \<and> slots q \<le> slots p + k \<and>
      (case r of Inl e \<Rightarrow> e \<noteq> Out_of_fuel | Inr a \<Rightarrow> S (slots q) \<and> V a (slots q))"
    by (simp split: sum.splits)
qed

lemma tidy_weaken:
  assumes "tidy N P act k V" and "\<And>c. P' c \<Longrightarrow> P c" and "\<And>a c. V a c \<Longrightarrow> V' a c"
  shows "tidy N P' act k V'"
proof (rule tidyI)
  fix p q r
  assume "good p" "slots p + k \<le> N" "P' (slots p)" "act p = (q, r)"
  with tidyD [OF assms(1) this(1,2) assms(2) this(4)] assms(3)
  show "good q \<and> slots p \<le> slots q \<and> slots q \<le> slots p + k \<and>
      (case r of Inl e \<Rightarrow> e \<noteq> Out_of_fuel | Inr a \<Rightarrow> V' a (slots q))"
    by (auto split: sum.splits)
qed

lemma tidy_sret: "(\<And>c. P c \<Longrightarrow> V a c) \<Longrightarrow> tidy N P (sret a) 0 V"
  by (auto simp: tidy_def sret_def)

lemma tidy_bind2:
  assumes "tidy N (\<lambda>c. True) E j V" and "tidy N (\<lambda>c. True) F k W" and "\<And>a. rising (V a)"
    and "\<And>a b. tidy N (\<lambda>c. V a c \<and> W b c) (G a b) l X"
  shows "tidy N (\<lambda>c. True) (sbind E (\<lambda>a. sbind F (G a))) (j + (k + l)) X"
  by (rule tidy_bind [OF assms(1)]) (rule tidy_bind [OF tidy_keep [OF assms(2,3), simplified] assms(4)])

section \<open>Expressions\<close>

lemma good_slots: "slots (env, s) = capacity (in_heap s)"
  by (simp add: slots_def)

text \<open>A step that only reads.\<close>

lemma tidy_read:
  assumes "\<And>env s. good (env, s) \<Longrightarrow> capacity (in_heap s) \<le> N \<Longrightarrow> P (capacity (in_heap s)) \<Longrightarrow>
    \<exists>r. act (env, s) = ((env, s), r) \<and>
      (case r of Inl e \<Rightarrow> e \<noteq> Out_of_fuel | Inr a \<Rightarrow> V a (capacity (in_heap s)))"
  shows "tidy N P act 0 V"
proof (rule tidyI)
  fix p q r
  assume g: "good p" "slots p + 0 \<le> N" "P (slots p)" and a: "act p = (q, r)"
  obtain env s where p: "p = (env, s)" by fastforce
  from assms [of env s] g a obtain r' where "act (env, s) = ((env, s), r')"
    "case r' of Inl e \<Rightarrow> e \<noteq> Out_of_fuel | Inr a \<Rightarrow> V a (capacity (in_heap s))"
    by (auto simp: p good_slots)
  with a g(1) show "good q \<and> slots p \<le> slots q \<and> slots q \<le> slots p + 0 \<and>
      (case r of Inl e \<Rightarrow> e \<noteq> Out_of_fuel | Inr a \<Rightarrow> V a (slots q))"
    by (cases r) (auto simp: p good_slots)
qed

lemma tidy_get_var: "tidy N P (get_var x) 0 below"
  by (rule tidy_read) (auto simp: get_var_def good_def good_slots split: option.splits)

lemma tidy_set_var: "tidy N (below v) (set_var x v) 0 (\<lambda>a. below v)"
  by (rule tidyI) (auto simp: set_var_def good_def slots_def split: if_splits)

lemma tidy_number: "tidy N P (slift (value_from_constant (Const_Number t))) 0 below"
  by (rule tidy_read) (auto simp: slift_def below_def runtime_fail_def split: sum.splits)

text \<open>A new object or array goes to the next slot, above all it refers to.\<close>

lemma growing_allocate:
  assumes "growing h" and "allocate c h = (k, h')" and "\<forall>j\<in>set (heap_value_refs c). slot j < capacity h"
    and "capacity h < 2 ^ 32"
  shows "growing h' \<and> slot k = capacity h \<and> capacity h' = Suc (capacity h)"
proof -
  from assms(1,2) have h': "h' = \<lparr>heap_slots = heap_slots h @ [\<lparr>slot_generation = 0, slot_value = Some c\<rparr>],
      heap_free = [], heap_live = Suc (heap_live h)\<rparr>"
    and k: "k = \<lparr>handle_index = word_of_nat (capacity h), handle_generation = 0\<rparr>"
    by (auto simp: growing_def allocate_def Let_def capacity_def)
  have sk: "slot k = capacity h"
    using assms(4) by (simp add: slot_def k unat_of_nat take_bit_nat_eq_self)
  have "\<forall>j\<in>set (heap_value_refs d). slot j < slot i" if "heap_get h' i = Some d" for i d
  proof (cases "slot i < capacity h")
    case True
    with that have "heap_get h i = Some d"
      by (auto simp: heap_get_def h' nth_opt_def nth_append slot_def capacity_def split: if_splits)
    with assms(1) show ?thesis by (simp add: growing_def ranked_def)
  next
    case False
    with that have "d = c \<and> slot i = capacity h"
      by (auto simp: heap_get_def h' nth_opt_def nth_append slot_def capacity_def less_Suc_eq split: if_splits)
    with assms(3) show ?thesis by simp
  qed
  with sk show ?thesis by (simp add: growing_def ranked_def h' capacity_def)
qed

lemma tidy_allocate:
  assumes "\<And>c. P c \<Longrightarrow> \<forall>j\<in>set (heap_value_refs d). slot j < c" and "N \<le> 2 ^ 32"
    and "\<And>hn. set (value_refs (w hn)) = {hn}"
  shows "tidy N P (at_runtime (sbind (allocate_value d) (\<lambda>hn. sret (w hn)))) 1 below"
proof (rule tidyI)
  fix p q r
  assume g: "good p" "slots p + 1 \<le> N" "P (slots p)"
    and a: "at_runtime (sbind (allocate_value d) (\<lambda>hn. sret (w hn))) p = (q, r)"
  obtain env s where p: "p = (env, s)" by fastforce
  obtain k h' where al: "allocate d (in_heap s) = (k, h')" by fastforce
  have "\<forall>j\<in>set (heap_value_refs d). slot j < capacity (in_heap s)" "capacity (in_heap s) < 2 ^ 32"
    using assms(1) [OF g(3)] g(2) assms(2) by (simp_all add: p good_slots)
  from growing_allocate [OF _ al this] g(1) have
    h: "growing h'" "slot k = capacity (in_heap s)" "capacity h' = Suc (capacity (in_heap s))"
    by (simp_all add: p good_def)
  from a al have q: "q = (env, s\<lparr>in_heap := h'\<rparr>)" "r = Inr (w k)"
    by (auto simp: p at_runtime_def sbind_def allocate_value_def sret_def)
  have "below v (capacity (in_heap s)) \<Longrightarrow> below v (capacity h')" for v
    by (erule below_mono) (simp add: h)
  moreover have "all_below vs (capacity (in_heap s)) \<Longrightarrow> all_below vs (capacity h')" for vs
    by (erule all_below_mono) (simp add: h)
  moreover have "below (w k) (capacity h')" using h assms(3) by (simp add: below_def)
  ultimately show "good q \<and> slots p \<le> slots q \<and> slots q \<le> slots p + 1 \<and>
      (case r of Inl e \<Rightarrow> e \<noteq> Out_of_fuel | Inr a \<Rightarrow> below a (slots q))"
    using g(1) h by (auto simp: p q good_def slots_def)
qed

lemma tidy_fail: "e \<noteq> Out_of_fuel \<Longrightarrow> tidy N P (sfail e) 0 V"
  by (rule tidy_read) (auto simp: sfail_def)

lemma bt_insert_subset: "set (bt_insert k v m) \<subseteq> insert (k, v) (set m)"
  by (induction k v m rule: bt_insert.induct) auto

lemma fields_refs:
  "fields_below fds c \<Longrightarrow> \<forall>j\<in>set (heap_value_refs (H_Object (fold (\<lambda>(k, v). bt_insert k v) fds []))). slot j < c"
proof -
  assume b: "fields_below fds c"
  have "set (fold (\<lambda>(k, v). bt_insert k v) fds acc) \<subseteq> set acc \<union> set fds" for acc :: "(string, runtime_value) btree_map"
  proof (induction fds arbitrary: acc)
    case (Cons f fds)
    obtain k v where f: "f = (k, v)" by fastforce
    from Cons [of "bt_insert k v acc"] bt_insert_subset [of k v acc] show ?case by (auto simp: f)
  qed simp
  from this [of "[]"] b show ?thesis by (fastforce simp: fields_below_def below_def list_all_iff)
qed

lemma load_member_below:
  assumes "ranked slot h" and "below v c" and "load_member h v name = Inr w"
  shows "below w c"
proof -
  from assms(3) obtain hn fs where v: "v = R_Object hn" and g: "heap_get h hn = Some (H_Object fs)"
    and w: "w = (case bt_get fs name of Some v \<Rightarrow> v | None \<Rightarrow> R_Undefined)"
    by (cases v) (auto simp: runtime_fail_def split: option.splits heap_value.splits)
  show ?thesis
  proof (cases "bt_get fs name")
    case None
    with w show ?thesis by (simp add: below_def)
  next
    case (Some u)
    with w have "w = u" by simp
    with heap_value_refs_field [OF bt_get_in [OF Some]] assms(1,2) g v show ?thesis
      unfolding ranked_def below_def by fastforce
  qed
qed

lemma tidy_load_member:
  "tidy N (below v) (at_runtime (on_heap (\<lambda>h. load_member h v name))) 0 below"
proof (rule tidy_read)
  fix env and s :: "'w interp"
  assume g: "good (env, s)" "below v (capacity (in_heap s))"
  have "load_member (in_heap s) v name \<noteq> Inl Out_of_fuel"
    by (cases v) (auto simp: runtime_fail_def split: option.splits heap_value.splits)
  moreover have "load_member (in_heap s) v name = Inr w \<Longrightarrow> below w (capacity (in_heap s))" for w
    using load_member_below g by (auto simp: good_def growing_def)
  ultimately show "\<exists>r. at_runtime (on_heap (\<lambda>h. load_member h v name)) (env, s) = ((env, s), r) \<and>
      (case r of Inl e \<Rightarrow> e \<noteq> Out_of_fuel | Inr a \<Rightarrow> below a (capacity (in_heap s)))"
    by (auto simp: at_runtime_def on_heap_def split: sum.splits)
qed

lemma display_ranked:
  "ranked slot h \<Longrightarrow> below v n \<Longrightarrow> display n h v \<noteq> Inl Out_of_fuel"
proof (induction n h v rule: display.induct)
  case (8 n h hn)
  have "rmap (display n h) vs \<noteq> Inl Out_of_fuel" if g: "heap_get h hn = Some (H_Array vs)" for vs
  proof
    assume "rmap (display n h) vs = Inl Out_of_fuel"
    from rmap_Inl [OF this] obtain w where w: "w \<in> set vs" "display n h w = Inl Out_of_fuel" by blast
    have "below w n"
      using heap_value_refs_element [OF w(1)] "8.prems" g unfolding ranked_def below_def by fastforce
    with "8.IH" [OF g _ w(1)] "8.prems"(1) w(2) show False by auto
  qed
  then show ?case by (auto simp: runtime_fail_def rbind_eq_Inl split: option.splits heap_value.splits)
qed (auto simp: below_def)

lemma arith_result: "arith f wrap x y \<noteq> Inl Out_of_fuel"
  by (cases x; cases y) (auto simp: arith_def runtime_fail_def)

lemma arith_value: "arith f wrap x y = Inr v \<Longrightarrow> \<exists>z. v = wrap z"
  by (cases x; cases y) (auto simp: arith_def runtime_fail_def)

lemma add_values_ranked:
  assumes "ranked slot h" and "below x n" and "below y n"
  shows "add_values n h x y \<noteq> Inl Out_of_fuel" and "add_values n h x y = Inr v \<Longrightarrow> value_refs v = []"
  using display_ranked [OF assms(1,2)] display_ranked [OF assms(1,3)]
    arith_result [of f64_add R_Number x y] arith_value [of f64_add R_Number x y v]
  by (cases x; cases y; auto simp: add_values_def rbind_eq_Inl rbind_eq_Inr)+

lemma binary_ranked:
  assumes "ranked slot h" and "below x c" and "below y c" and "c \<le> n"
  shows "binary n op h x y \<noteq> Inl Out_of_fuel" and "binary n op h x y = Inr v \<Longrightarrow> below v c"
proof -
  have n: "below x n" "below y n" using below_mono assms by blast+
  note add = add_values_ranked [OF assms(1) n]
  show "binary n op h x y \<noteq> Inl Out_of_fuel"
    using add(1) by (auto simp: binary_def runtime_fail_def arith_result)
  show "binary n op h x y = Inr v \<Longrightarrow> below v c"
    using add(2) arith_value assms(2,3)
    by (auto simp: binary_def runtime_fail_def below_def dest!: arith_value split: if_splits)
qed

lemma tidy_binary:
  assumes "N \<le> n"
  shows "tidy N (\<lambda>c. below x c \<and> below y c) (at_runtime (on_heap (\<lambda>h. binary n op h x y))) 0 below"
proof (rule tidy_read)
  fix env and s :: "'w interp"
  assume g: "good (env, s)" "capacity (in_heap s) \<le> N"
    "below x (capacity (in_heap s)) \<and> below y (capacity (in_heap s))"
  have "capacity (in_heap s) \<le> n" "ranked slot (in_heap s)"
    using g assms by (simp_all add: good_def growing_def)
  note b = binary_ranked [OF this(2) conjunct1 [OF g(3)] conjunct2 [OF g(3)] this(1), of op]
  have "case binary n op (in_heap s) x y of Inl e \<Rightarrow> e \<noteq> Out_of_fuel | Inr a \<Rightarrow> below a (capacity (in_heap s))"
    using b by (cases "binary n op (in_heap s) x y") simp_all
  moreover have "at_runtime (on_heap (\<lambda>h. binary n op h x y)) (env, s) =
      ((env, s), binary n op (in_heap s) x y)"
    by (simp add: at_runtime_def on_heap_def)
  ultimately show "\<exists>r. at_runtime (on_heap (\<lambda>h. binary n op h x y)) (env, s) = ((env, s), r) \<and>
      (case r of Inl e \<Rightarrow> e \<noteq> Out_of_fuel | Inr a \<Rightarrow> below a (capacity (in_heap s)))"
    by blast
qed

text \<open>\<^verbatim>\<open>console.log\<close> keeps its arguments.\<close>

lemma tidy_console:
  assumes "call ''console.log'' = console_log"
  shows "tidy N (all_below vs) (at_runtime (call ''console.log'' vs)) 0 below"
  by (rule tidyI) (auto simp: assms at_runtime_def console_log_def good_def slots_def all_below_def below_def)

lemma tidy_constant: "value_refs v = [] \<Longrightarrow> tidy N P (sret v) 0 below"
  by (rule tidy_sret) (simp add: below_def)

lemma tidy_new_object:
  "N \<le> 2 ^ 32 \<Longrightarrow> tidy N (fields_below fds) (at_runtime (new_object fds)) 1 below"
  unfolding new_object_def by (rule tidy_allocate [OF fields_refs]) simp_all

lemma tidy_new_array:
  "N \<le> 2 ^ 32 \<Longrightarrow> tidy N (all_below vs) (at_runtime (new_array vs)) 1 below"
  unfolding new_array_def
  by (rule tidy_allocate) (auto simp: all_below_def below_def list_all_iff)

lemma tidy_assign: "tidy N (below v) (sbind (set_var x v) (\<lambda>_. sret v)) 0 below"
  using tidy_bind [OF tidy_set_var tidy_sret, where W = below] by fastforce

lemmas tidy_bind_last = tidy_bind [where k = 0, simplified]

definition consoles :: "'w call \<Rightarrow> bool" where
  "consoles call \<longleftrightarrow> call ''console.log'' = console_log"

lemma eval_tidy:
  shows "leaf e \<Longrightarrow> consoles call \<Longrightarrow> N \<le> n \<Longrightarrow> N \<le> 2 ^ 32 \<Longrightarrow>
      tidy N (\<lambda>c. True) (eval n call e) (literals e) below"
    and "list_all leaf es \<Longrightarrow> consoles call \<Longrightarrow> N \<le> n \<Longrightarrow> N \<le> 2 ^ 32 \<Longrightarrow>
      tidy N (\<lambda>c. True) (eval_list n call es) (sum_list (map literals es)) all_below"
    and "list_all leaf_property ps \<Longrightarrow> consoles call \<Longrightarrow> N \<le> n \<Longrightarrow> N \<le> 2 ^ 32 \<Longrightarrow>
      tidy N (\<lambda>c. True) (eval_fields n call ps) (sum_list (map literals_property ps)) fields_below"
proof (induction n call e and n call es and n call ps rule: eval_eval_list_eval_fields.induct)
  case (2 n call s sp)
  show ?case by (simp only: eval.simps literals.simps tidy_number)
next
  case (7 n call properties sp)
  then show ?case using tidy_bind [OF "7.IH" tidy_new_object] by simp
next
  case (8 n call elements sp)
  then show ?case using tidy_bind [OF "8.IH" tidy_new_array] by simp
next
  case (9 n call object property sp)
  then show ?case using tidy_bind_last [OF "9.IH" tidy_load_member] by simp
next
  case (10 n call callee arguments sp)
  then have d: "dotted callee = ''console.log''" "call ''console.log'' = console_log"
    by (simp_all add: consoles_def)
  show ?case using tidy_bind_last [OF "10.IH" tidy_console [of call]] "10.prems" d by simp
next
  case (11 n call left op right sp)
  then show ?case
    using tidy_bind2 [OF "11.IH"(1) "11.IH"(2) rising_below(1) tidy_binary [of N n]] by simp
next
  case (12 n call name lsp op right sp)
  then show ?case using tidy_bind_last [OF "12.IH" tidy_assign] by simp
next
  case (16 n call e es)
  have "tidy N (\<lambda>c. below v c \<and> all_below vs c) (sret (v # vs)) 0 all_below" for v vs
    by (rule tidy_sret) (simp add: all_below_def)
  from tidy_bind2 [OF "16.IH"(1) "16.IH"(2) rising_below(1) this] "16.prems" show ?case by simp
next
  case (18 n call name e sp ps)
  have "tidy N (\<lambda>c. below v c \<and> fields_below fs c) (sret ((name, v) # fs)) 0 fields_below" for v fs
    by (rule tidy_sret) (simp add: fields_below_def)
  from tidy_bind2 [OF "18.IH"(1) "18.IH"(2) rising_below(1) this] "18.prems" show ?case by simp
qed (auto intro: tidy_get_var tidy_number tidy_constant tidy_sret simp: all_below_def fields_below_def)

section \<open>Statements and runs\<close>

definition maybe_below :: "runtime_value option \<Rightarrow> nat \<Rightarrow> bool" where
  "maybe_below r c \<longleftrightarrow> (case r of None \<Rightarrow> True | Some v \<Rightarrow> below v c)"

lemma tidy_none: "tidy N P (sret None) 0 maybe_below"
  by (rule tidy_sret) (simp add: maybe_below_def)

lemma value_tidy:
  assumes "consoles call" and "N \<le> n" and "N \<le> 2 ^ 32"
    and "case val of None \<Rightarrow> True | Some e \<Rightarrow> leaf e"
  shows "tidy N (\<lambda>c. True) (case val of None \<Rightarrow> sret R_Undefined | Some e \<Rightarrow> eval n call e)
    (case val of None \<Rightarrow> 0 | Some e \<Rightarrow> literals e) below"
  using eval_tidy(1) [OF _ assms(1-3)] assms(4) by (cases val) (auto intro: tidy_constant)

lemma exec_tidy:
  assumes "consoles call" and "N \<le> n" and "N \<le> 2 ^ 32"
  shows "leaf_statement st \<Longrightarrow> tidy N (\<lambda>c. True) (exec n call st) (statement_literals st) maybe_below"
  using assms
proof (induction n call st rule: exec.induct)
  case (1 n call var sp)
  have "tidy N (below v) (sbind (set_var (vd_name var) v) (\<lambda>_. sret None)) 0 maybe_below" for v
    by (rule tidy_bind_last [OF tidy_set_var tidy_none])
  from tidy_bind_last [OF value_tidy [OF "1.prems"(2-4)] this] "1.prems"(1) show ?case by simp
next
  case (2 n call val sp)
  have "tidy N (below v) (sret (Some v)) 0 maybe_below" for v
    by (rule tidy_sret) (simp add: maybe_below_def)
  from tidy_bind_last [OF value_tidy [OF "2.prems"(2-4)] this] "2.prems"(1) show ?case by simp
next
  case (3 n call e sp)
  from tidy_bind_last [OF eval_tidy(1) [OF _ "3.prems"(2-4)] tidy_none] "3.prems"(1) show ?case by simp
qed (auto intro: tidy_none)

lemma exec_list_tidy:
  assumes "consoles call" and "N \<le> n" and "N \<le> 2 ^ 32"
  shows "list_all leaf_statement sts \<Longrightarrow>
    tidy N (\<lambda>c. True) (exec_list n call sts) (body_literals sts) maybe_below"
proof (induction sts)
  case Nil
  then show ?case by (simp add: body_literals_def tidy_none)
next
  case (Cons st sts)
  have "tidy N (maybe_below r) (case r of None \<Rightarrow> exec_list n call sts | Some v \<Rightarrow> sret (Some v))
      (body_literals sts) maybe_below" for r
  proof (cases r)
    case None
    then show ?thesis using Cons by (auto intro: tidy_weaken)
  next
    case (Some v)
    have "tidy N (maybe_below r) (sret (Some v)) 0 maybe_below"
      by (rule tidy_sret) (simp add: Some)
    then show ?thesis unfolding tidy_def Some by (fastforce)
  qed
  from tidy_bind [OF exec_tidy [OF assms] this] Cons.prems show ?case
    by (simp add: body_literals_def)
qed

text \<open>The code the entry runs: that of the first function called \<^verbatim>\<open>__entry\<close>.\<close>

definition entry_body :: "program \<Rightarrow> statement list" where
  "entry_body pg =
     (case find (\<lambda>f. sf_name f = ''__entry'') (source_functions pg) of None \<Rightarrow> [] | Some f \<Rightarrow> sf_body f)"

definition leaf_program :: "program \<Rightarrow> bool" where
  "leaf_program pg \<longleftrightarrow> list_all leaf_statement (entry_body pg)"

definition program_literals :: "program \<Rightarrow> nat" where
  "program_literals pg = body_literals (entry_body pg)"

lemma good_start: "good (param_env params [], interp_new w)"
proof -
  have "below v c" if "param_env params [] x = Some v" for x v c
  proof -
    from map_of_SomeD [OF that [unfolded param_env_def]] have "v \<in> set (replicate (length params) R_Undefined)"
      by (auto simp: resize_def dest: set_zip_rightD)
    then show ?thesis by (simp add: below_def)
  qed
  then show ?thesis
    by (auto simp: good_def growing_def ranked_def interp_new_def heap_new_def heap_get_def
        nth_opt_def all_below_def)
qed

lemma finish_ranked:
  assumes "ranked slot h" and "all_below console n" and "below v n"
  shows "finish_run n h console v \<noteq> Inl Out_of_fuel"
proof -
  have m: "materialize n h w \<noteq> Inl Out_of_fuel" if "w \<in> set console \<or> w = v" for w
    using materialize_ranked [OF assms(1), of w n] assms(2,3) that
    by (auto simp: all_below_def below_def list_all_iff)
  then have "rmap (materialize n h) console \<noteq> Inl Out_of_fuel"
    using rmap_Inl [of "materialize n h" console Out_of_fuel] by blast
  with m [of v] show ?thesis
    using finish_run_output [of console v h n] by (auto simp: rbind_eq_Inl rbind_eq_sym)
qed

text \<open>A body run from the start of a program.\<close>

lemma run_leaf_body:
  assumes "consoles call" and "body_literals body \<le> n" and "body_literals body \<le> 2 ^ 32"
    and "list_all leaf_statement body"
    and r: "run_body n call (param_env params []) body (interp_new w) = (s, r)"
  shows "r \<noteq> Inl Out_of_fuel" and "r = Inr v \<Longrightarrow> finish_run (Suc n) (in_heap s) (in_console s) v \<noteq> Inl Out_of_fuel"
proof -
  obtain env s' r' where e: "exec_list n call body (param_env params [], interp_new w) = ((env, s'), r')"
    by (metis prod.exhaust)
  have c: "capacity (in_heap (interp_new w)) = 0"
    by (simp add: interp_new_def heap_new_def capacity_def)
  note t = tidyD [OF exec_list_tidy [OF assms(1-4)] good_start [of params w] _ _ e]
  have g: "good (env, s')" "capacity (in_heap s') \<le> n"
    "case r' of Inl e \<Rightarrow> e \<noteq> Out_of_fuel | Inr a \<Rightarrow> maybe_below a (capacity (in_heap s'))"
    using t assms(2) by (simp_all add: c good_slots split: sum.splits)
  show "r \<noteq> Inl Out_of_fuel"
    using r e g(3) by (auto simp: run_body_def split: sum.splits)
  assume "r = Inr v"
  with r e have s: "s = s'" and v: "below v (capacity (in_heap s'))"
    using g(3) by (auto simp: run_body_def maybe_below_def below_def split: sum.splits option.splits)
  have "below v (Suc n)" "all_below (in_console s') (Suc n)" "ranked slot (in_heap s')"
    using g(1,2) v by (auto simp: good_def growing_def good_slots intro: below_mono all_below_mono)
  then show "finish_run (Suc n) (in_heap s) (in_console s) v \<noteq> Inl Out_of_fuel"
    unfolding s by (intro finish_ranked)
qed

lemma leaf_run:
  assumes "leaf_program pg" and "program_literals pg + 2 \<le> n" and "program_literals pg \<le> 2 ^ 32"
    and "host_call host ''__entry'' [] = None"
  shows "snd (source_run n pg host w) \<noteq> Inl Out_of_fuel"
proof -
  obtain m where n: "n = Suc m" "m \<noteq> 0" "program_literals pg \<le> m"
    using assms(2) by (cases n) auto
  then have "consoles (source_call m (source_functions pg) host)"
    by (cases m) (auto simp: consoles_def fun_eq_iff)
  note run = run_leaf_body [OF this n(3) [unfolded program_literals_def] assms(3) [unfolded program_literals_def]
      assms(1) [unfolded leaf_program_def]]
  let ?call = "source_call m (source_functions pg) host"
  let ?found = "find (\<lambda>f. sf_name f = ''__entry'') (source_functions pg)"
  have host: "call_host m host ''__entry'' [] s = (s, Inr None)" for s :: "'a interp"
    using assms(4) by (simp add: call_host_def on_heap_def sbind_def sret_def)
  show ?thesis
  proof (cases ?found)
    case None
    then show ?thesis
      by (simp add: source_run_def n(1) sbind_def host slift_def runtime_fail_def)
  next
    case (Some f)
    then have body: "entry_body pg = sf_body f" by (simp add: entry_body_def)
    obtain s r where r: "run_body m ?call (param_env (sf_params f) []) (sf_body f) (interp_new w) = (s, r)"
      by fastforce
    with Some n(2) have "source_call n (source_functions pg) host ''__entry'' [] (interp_new w) = (s, r)"
      by (simp add: n(1) sbind_def host)
    then show ?thesis
      using run [of "sf_params f" w s r, unfolded body, OF r]
      by (cases r) (simp_all add: source_run_def n(1))
  qed
qed

text \<open>C15: leaf programs end. An accepted straight-line source that calls nothing but
  \<^verbatim>\<open>console.log\<close> and assigns no members, in a host that does not answer for \<^verbatim>\<open>__entry\<close>, returns an
  output or a genuine error once the fuel exceeds the object and array literals of its entry code by
  two; no amount of string conversion or output conversion makes it run longer.\<close>

theorem leaf_source_ends:
  assumes "enumerates order" and "accepted_source source"
    and "returning_program (program_of source)" and "small_program (lower_program (program_of source))"
    and "leaf_program (program_of source)" and "program_literals (program_of source) + 2 \<le> n"
    and "program_literals (program_of source) \<le> 2 ^ 32"
    and "host_call host ''__entry'' [] = None"
  shows "snd (execute_source_with_host order n source host w) \<noteq> Inl Out_of_fuel"
  unfolding execute_accepted_straight [OF assms(1-4)] by (rule leaf_run [OF assms(5-8)])

definition nested_source :: string where
  "nested_source = ''let o=[{}];console.log(o);''"

definition nested_program :: "program \<Rightarrow> bool" where
  "nested_program pg \<longleftrightarrow>
     returning_program pg \<and> program_size (lower_program pg) < 100 \<and>
     leaf_program pg \<and> program_literals pg = 2"

theorem leaf_source_ends_witness:
  "snd (execute_source_with_host key_order 4 nested_source host_new ()) \<noteq> Inl Out_of_fuel"
proof -
  have "(case analyze_source key_order nested_source of Inr out \<Rightarrow> so_diagnostics out = [] | Inl _ \<Rightarrow> False)"
    by code_simp
  then have "accepted_source nested_source"
    using analysis_accepts [OF enumerates_key_order, of nested_source] by auto
  moreover have "nested_program (program_of nested_source)" by code_simp
  ultimately show ?thesis
    by (intro leaf_source_ends enumerates_key_order)
      (simp_all add: nested_program_def small_program_def)
qed

end
