(* ===== verification/Pipeline_Facts.thy ===== *)
theory Pipeline_Facts
  imports Pipeline_Correct
begin

text \<open>
  Whole programs on which the pipeline does not do what JavaScript does, or is of two minds,
  run from their text: what \<open>source_execution_correct\<close> leaves out, it leaves out for a reason.
\<close>

text \<open>The console of a run that ends, or its error.\<close>

definition console_of :: "string \<Rightarrow> abort + js_value list" where
  "console_of source = rbind (snd (execute_source key_order 4 source ())) (\<lambda>out. Inr (out_console out))"

lemma shadow_run: "console_of ''let a=\"x\";{let a=\"y\";}console.log(a);'' = Inr [V_String ''y'']"
  by code_simp

lemma unary_run: "console_of ''let a=!true;console.log(a);'' = Inr [V_Boolean True]"
  by code_simp

lemma while_run: "console_of ''let a=true;while(a){a=false;}console.log(a);'' = Inr [V_Boolean True]"
  by code_simp

text \<open>Accepted programs with wrong results. The inner variable of a block overwrites the outer one of
  the same name, the operand of a unary operator is taken for its result, and a loop never runs:
  JavaScript prints "x", false and false.\<close>

theorem wrong_answers:
  "console_of ''let a=\"x\";{let a=\"y\";}console.log(a);'' = Inr [V_String ''y''] \<and>
   console_of ''let a=!true;console.log(a);'' = Inr [V_Boolean True] \<and>
   console_of ''let a=true;while(a){a=false;}console.log(a);'' = Inr [V_Boolean True]"
  using shadow_run unary_run while_run by blast

lemma unknown_argument_run:
  "(case analyze_source key_order ''console.log(x);'' of Inr out \<Rightarrow> so_diagnostics out = [] | Inl _ \<Rightarrow> False)"
  "console_of ''console.log(x);'' =
     Inl (Error (E_Verify [\<lparr>verr_code = InvalidLocalReference, verr_message = ''invalid local reference''\<rparr>]))"
  by code_simp+

text \<open>The arguments of calls to unknown functions are not analysed: a program that passes an
  undeclared variable to \<^verbatim>\<open>console.log\<close> is accepted, and only the verifier rejects its module.\<close>

theorem undeclared_argument_accepted:
  "accepted_source ''console.log(x);'' \<and>
   console_of ''console.log(x);'' =
     Inl (Error (E_Verify [\<lparr>verr_code = InvalidLocalReference, verr_message = ''invalid local reference''\<rparr>]))"
proof -
  obtain out where "analyze_source key_order ''console.log(x);'' = Inr out" "so_diagnostics out = []"
    using unknown_argument_run(1) by (auto split: sum.splits)
  then show ?thesis
    using analysis_accepts [OF enumerates_key_order, of "''console.log(x);''"] unknown_argument_run(2) by auto
qed

end
