(* ===== verification/Page_Sessions.thy ===== *)
theory Page_Sessions
  imports Script_Loader Semantic_Programs "HOL-Library.Sublist"
begin

text \<open>
  What a page session promises: its scripts run as they would without a cache, nothing runs when
  the policy forbids it, and the scripts of a page are found.
\<close>

section \<open>Pages without a cache\<close>

text \<open>A script prepared from its source and run once.\<close>

definition plain_source ::
  "hash_order \<Rightarrow> nat \<Rightarrow> string \<Rightarrow> 'w host_environment \<Rightarrow> string \<Rightarrow> ('w, loader_abort, execution_output) sem" where
  "plain_source order n source host message w =
     (case execute_source_with_host order n source host w of
        (w1, Inl e) \<Rightarrow> (w1, Inl (execution_error message e)) | (w1, Inr output) \<Rightarrow> (w1, Inr output))"

text \<open>What a script element runs: how it is reported, its source and its error message.\<close>

definition script_job :: "string \<Rightarrow> sources \<Rightarrow> script_slice \<Rightarrow> loader_abort + script_execution \<times> string \<times> string" where
  "script_job document_url resources script =
     (case script_src (ss_open_tag script) of
        None \<Rightarrow> Inr (\<lparr>se_kind = Inline, se_specifier = ''<inline>''\<rparr>, ss_body script, inline_message)
      | Some src \<Rightarrow>
          (let specifier = resolve_url document_url src in
           rbind (external_source specifier resources) (\<lambda>source.
           Inr (\<lparr>se_kind = External, se_specifier = specifier\<rparr>, source, external_message specifier))))"

text \<open>The console and the scripts of a page, in order, up to the first error.\<close>

primrec plain_scripts ::
  "hash_order \<Rightarrow> nat \<Rightarrow> string \<Rightarrow> sources \<Rightarrow> 'w host_environment \<Rightarrow> script_slice list \<Rightarrow>
   ('w, loader_abort, js_value list \<times> script_execution list) sem" where
  "plain_scripts order n document_url resources host [] = sret ([], [])"
| "plain_scripts order n document_url resources host (script # scripts) =
     sbind (slift (script_job document_url resources script)) (\<lambda>(job, source, message).
     sbind (plain_source order n source host message) (\<lambda>output.
     sbind (plain_scripts order n document_url resources host scripts) (\<lambda>(console, jobs).
     sret (out_console output @ console, job # jobs))))"

definition plain_page ::
  "hash_order \<Rightarrow> nat \<Rightarrow> string \<Rightarrow> string \<Rightarrow> sources \<Rightarrow> 'w host_environment \<Rightarrow>
   ('w, loader_abort, browser_execution) sem" where
  "plain_page order n document_url html resources host =
     sbind (plain_scripts order n document_url resources host (filter is_typescript (find_scripts html)))
       (\<lambda>(console, jobs).
         sret \<lparr>be_console = console, be_scripts = jobs, be_generated_javascript = False\<rparr>)"

section \<open>The cache is invisible\<close>

definition session_ok :: "hash_order \<Rightarrow> page_script_session \<Rightarrow> bool" where
  "session_ok order s \<longleftrightarrow> cache_ok (from_source order) (ps_cache s)"

lemma session_new_ok: "session_new cap = Inr s \<Longrightarrow> session_ok order s"
  by (cases "cache_new cap :: cache_error + prepared_module module_cache")
    (auto simp: session_new_def session_ok_def intro: cache_new_ok)

text \<open>\<open>act\<close> on a good session does what \<open>ref\<close> does on the world, and leaves a good session.\<close>

definition transparent :: "hash_order \<Rightarrow> ('w, 'a) load \<Rightarrow> ('w, loader_abort, 'a) sem \<Rightarrow> bool" where
  "transparent order act ref \<longleftrightarrow>
     (\<forall>s w s' w' r. session_ok order s \<longrightarrow> act (s, w) = ((s', w'), r) \<longrightarrow> session_ok order s' \<and> ref w = (w', r))"

lemma transparent_lift: "transparent order (slift r) (slift r)"
  by (auto simp: transparent_def slift_def)

lemma transparent_ret: "transparent order (sret x) (sret x)"
  by (auto simp: transparent_def sret_def)

lemma transparent_bind:
  assumes "transparent order act ref" and "\<And>x. transparent order (f x) (g x)"
  shows "transparent order (sbind act f) (sbind ref g)"
  unfolding transparent_def
proof (intro allI impI)
  fix s w s' w' r assume ok: "session_ok order s" and b: "sbind act f (s, w) = ((s', w'), r)"
  obtain s1 w1 q where a: "act (s, w) = ((s1, w1), q)" by (metis surj_pair)
  with assms(1) ok have 1: "session_ok order s1" "ref w = (w1, q)" unfolding transparent_def by blast+
  show "session_ok order s' \<and> sbind ref g w = (w', r)"
  proof (cases q)
    case (Inl e)
    with a b 1 show ?thesis by (simp add: sbind_def)
  next
    case (Inr x)
    with a b have "f x (s1, w1) = ((s', w'), r)" by (simp add: sbind_def)
    with assms(2) [of x] 1(1) have "session_ok order s' \<and> g x w1 = (w', r)" unfolding transparent_def by blast
    with 1(2) Inr show ?thesis by (simp add: sbind_def)
  qed
qed

lemma cached_source_transparent:
  "transparent order (execute_cached_source order n source host message) (plain_source order n source host message)"
  unfolding transparent_def
proof (intro allI impI)
  fix s w s' w' r assume ok: "session_ok order s"
    and run: "execute_cached_source order n source host message (s, w) = ((s', w'), r)"
  obtain c q where g: "get_or_prepare (from_source order) source (ps_cache s) = (c, q)" by fastforce
  note sp = get_or_prepare_spec [OF ok [unfolded session_ok_def] g]
  show "session_ok order s' \<and> plain_source order n source host message w = (w', r)"
  proof (cases "from_source order source")
    case (Inl e)
    with run g sp(1,3) show ?thesis
      by (auto simp: execute_cached_source_def lookup_prepared_def sbind_def session_ok_def plain_source_def
          execute_source_with_host_def sem_simps slift_def)
  next
    case (Inr p)
    with run g sp(1,3) show ?thesis
      by (auto simp: execute_cached_source_def lookup_prepared_def run_prepared_def sbind_def session_ok_def
          plain_source_def execute_source_with_host_def slift_def split: prod.splits sum.splits)
  qed
qed

lemma script_transparent:
  "transparent order (execute_script order n url resources host script acc)
    (sbind (slift (script_job url resources script)) (\<lambda>(job, source, message).
     sbind (plain_source order n source host message) (\<lambda>execution.
     sret (acc\<lparr>be_console := be_console acc @ out_console execution,
                  be_scripts := be_scripts acc @ [job]\<rparr>))))"
proof (cases "script_src (ss_open_tag script)")
  case None
  show ?thesis
    by (auto simp: None execute_script_def script_job_def sem_simps add_script_def append_execution_def
        intro!: transparent_bind cached_source_transparent transparent_ret)
next
  case (Some src)
  show ?thesis
  proof (cases "external_source (resolve_url url src) resources")
    case (Inl e)
    then show ?thesis
      by (simp add: Some execute_script_def script_job_def Let_def sem_simps transparent_def)
  next
    case (Inr source)
    then show ?thesis
      by (auto simp: Some execute_script_def script_job_def Let_def sem_simps add_script_def append_execution_def
          intro!: transparent_bind cached_source_transparent transparent_ret)
  qed
qed

lemma scripts_transparent:
  assumes "sp_allow_typescript policy"
  shows "transparent order (execute_scripts order n url resources host policy scripts acc)
    (sbind (plain_scripts order n url resources host (filter is_typescript scripts)) (\<lambda>(console, jobs).
     sret (acc\<lparr>be_console := be_console acc @ console, be_scripts := be_scripts acc @ jobs\<rparr>)))"
proof (induction scripts arbitrary: acc)
  case Nil
  show ?case by (simp add: sem_simps(4) transparent_ret)
next
  case (Cons script scripts)
  show ?case
  proof (cases "is_typescript script")
    case False
    with Cons show ?thesis by simp
  next
    case True
    have "transparent order
      (sbind (execute_script order n url resources host script acc)
        (execute_scripts order n url resources host policy scripts))
      (sbind (sbind (slift (script_job url resources script)) (\<lambda>(job, source, message).
         sbind (plain_source order n source host message) (\<lambda>execution.
         sret (acc\<lparr>be_console := be_console acc @ out_console execution,
                      be_scripts := be_scripts acc @ [job]\<rparr>))))
        (\<lambda>acc. sbind (plain_scripts order n url resources host (filter is_typescript scripts))
           (\<lambda>(console, jobs). sret (acc\<lparr>be_console := be_console acc @ console,
                                        be_scripts := be_scripts acc @ jobs\<rparr>))))"
      by (rule transparent_bind [OF script_transparent Cons])
    then show ?thesis using True assms
      by (simp add: sbind_assoc ensure_typescript_allowed_def sem_simps(4,7) case_prod_unfold)
  qed
qed

text \<open>C12: a page session is transparent. Whatever its cache holds, of any capacity and after any
  pages, the scripts of a page run as they would if each was prepared anew: same console, scripts,
  error and effects on the page. The session stays one of which this holds.\<close>

theorem session_transparent:
  assumes "session_ok order s" and "sp_allow_typescript policy"
    and "session_execute_scripts order n url html resources host policy (s, w) = ((s', w'), r)"
  shows "session_ok order s' \<and> plain_page order n url html resources host w = (w', r)"
  using scripts_transparent [OF assms(2), of order n url resources host "find_scripts html"
      "\<lparr>be_console = [], be_scripts = [], be_generated_javascript = False\<rparr>"] assms(1,3)
  by (simp add: transparent_def session_execute_scripts_def plain_page_def)

text \<open>A page that runs the same script twice, the second time from the cache.\<close>

definition sample_page :: string where
  "sample_page =
     ''<script type=\"text/typescript\">console.log(\"a\");</script><script type=\"text/typescript\">console.log(\"a\");</script>''"

theorem session_transparent_witness:
  "\<exists>s s' w' r. session_new 3 = Inr s \<and>
     session_execute_scripts key_order 5 ''/p'' sample_page [] host_new policy_default (s, ()) = ((s', w'), r) \<and>
     plain_page key_order 5 ''/p'' sample_page [] host_new () = (w', r)"
proof -
  obtain s where s: "session_new 3 = Inr s" by (simp add: session_new_def cache_new_def)
  obtain s' w' r where run: "session_execute_scripts key_order 5 ''/p'' sample_page [] host_new
      policy_default (s, ()) = ((s', w'), r)" by (metis surj_pair)
  from session_transparent [OF session_new_ok [OF s] _ run] s run show ?thesis
    by (auto simp: policy_default_def)
qed

section \<open>The policy\<close>

text \<open>C31: the policy is enforced before anything runs. With TypeScript forbidden a page with a
  TypeScript script is rejected and a page without one gives an empty result; in both cases the session,
  its cache and counters and the page are left as they were.\<close>

theorem blocked_policy_runs_nothing:
  "session_execute_scripts order n url html resources host \<lparr>sp_allow_typescript = False\<rparr> (s, w) =
     ((s, w),
      if list_ex is_typescript (find_scripts html)
      then Inl (Loader_Error \<lparr>sl_message = ''TypeScript execution blocked by script policy'', sl_source = None\<rparr>)
      else Inr \<lparr>be_console = [], be_scripts = [], be_generated_javascript = False\<rparr>)"
proof -
  have "execute_scripts order n url resources host \<lparr>sp_allow_typescript = False\<rparr> scripts acc (s, w) =
     ((s, w),
      if list_ex is_typescript scripts
      then Inl (Loader_Error \<lparr>sl_message = ''TypeScript execution blocked by script policy'', sl_source = None\<rparr>)
      else Inr acc)" for scripts acc
    by (induction scripts) (simp_all add: sem_simps ensure_typescript_allowed_def)
  then show ?thesis by (simp add: session_execute_scripts_def)
qed

section \<open>Finding the scripts\<close>

lemma starts_with_long: "length p \<le> length s \<Longrightarrow> starts_with (s @ t) p = starts_with s p"
  by (auto simp: starts_with_iff append_eq_append_conv2)

lemma find_str_append: "find_str s p = Some i \<Longrightarrow> find_str (s @ t) p = Some i"
proof (induction s p arbitrary: i rule: find_str.induct)
  case (1 p)
  then show ?case by (cases t) (auto split: if_splits)
next
  case (2 c s p)
  from find_str_Some [OF "2.prems"] have "length p \<le> length (c # s)" by simp
  from starts_with_long [OF this, of t] 2 show ?case by (auto split: if_splits)
qed

text \<open>The text of a page: each script after the text before it, and the rest of the page.\<close>

fun page_text :: "(string \<times> script_slice) list \<Rightarrow> string \<Rightarrow> string" where
  "page_text [] rest = rest"
| "page_text ((before, script) # scripts) rest =
     before @ ss_open_tag script @ ss_body script @ script_end @ page_text scripts rest"

text \<open>
  The tag is the first after the text before it and ends with its first \<^verbatim>\<open>>\<close>; the body ends at the
  first end tag.
\<close>

definition script_ok :: "string \<times> script_slice \<Rightarrow> bool" where
  "script_ok p \<longleftrightarrow>
     find_str (fst p @ ss_open_tag (snd p)) ''<script'' = Some (length (fst p)) \<and>
     find_str (ss_open_tag (snd p)) ''>'' = Some (length (ss_open_tag (snd p)) - 1) \<and>
     find_str (ss_body (snd p) @ script_end) script_end = Some (length (ss_body (snd p)))"

lemma find_scripts_page:
  "list_all script_ok ps \<Longrightarrow> find_str rest ''<script'' = None \<Longrightarrow> scripts_from (page_text ps rest) = map snd ps"
proof (induction ps)
  case Nil
  then show ?case by (simp add: scripts_from.simps)
next
  case (Cons p ps)
  obtain before script where p: "p = (before, script)" by fastforce
  let ?tag = "ss_open_tag script" and ?body = "ss_body script" and ?page = "page_text ps rest"
  have ok: "find_str (before @ ?tag) ''<script'' = Some (length before)"
    "find_str ?tag ''>'' = Some (length ?tag - 1)"
    "find_str (?body @ script_end) script_end = Some (length ?body)"
    using Cons.prems(1) by (simp_all add: p script_ok_def)
  obtain k where k: "length ?tag = Suc k" using find_str_Some [OF ok(2)] by (cases "length ?tag") auto
  have page: "page_text (p # ps) rest = before @ ?tag @ ?body @ script_end @ ?page" by (simp add: p)
  have 1: "find_str (page_text (p # ps) rest) ''<script'' = Some (length before)"
    using find_str_append [OF ok(1), of "?body @ script_end @ ?page"] by (simp add: page)
  have 2: "find_str (drop (length before) (page_text (p # ps) rest)) ''>'' = Some k"
    using k find_str_append [OF ok(2), of "?body @ script_end @ ?page"] by (simp add: page)
  have 3: "find_str (?body @ script_end @ ?page) script_end = Some (length ?body)"
    using find_str_append [OF ok(3), of ?page] by simp
  have "map snd (p # ps) = \<lparr>ss_open_tag = ?tag, ss_body = ?body\<rparr> # scripts_from ?page"
    using Cons by (simp add: p)
  with 1 2 3 show ?case
    by (subst scripts_from.simps) (simp add: page k)
qed

text \<open>C32: the scripts of a page are found: in a page made of texts, script elements and a rest,
  \<open>find_scripts\<close> gives the elements in order, each with its whole opening tag and body.\<close>

theorem scripts_found:
  assumes "list_all script_ok ps" and "find_str rest ''<script'' = None"
  shows "find_scripts (page_text ps rest) = map snd ps"
  by (simp add: find_scripts_def find_scripts_page [OF assms])

theorem scripts_found_witness:
  "find_scripts ''<p><script a>x<y</script> <script>z</script></p>'' =
     [\<lparr>ss_open_tag = ''<script a>'', ss_body = ''x<y''\<rparr>, \<lparr>ss_open_tag = ''<script>'', ss_body = ''z''\<rparr>]"
  using scripts_found [of "[(''<p>'', \<lparr>ss_open_tag = ''<script a>'', ss_body = ''x<y''\<rparr>),
      ('' '', \<lparr>ss_open_tag = ''<script>'', ss_body = ''z''\<rparr>)]" "''</p>''"]
  by (simp add: script_ok_def script_end_def)

end
