(* ===== verification/C_Api.thy ===== *)
theory C_Api
  imports Script_Loader
begin

text \<open>
  \<^verbatim>\<open>runtime/c-api\<close>: the C interface. Memory that crosses it is explicit: \<open>c_memory\<close> holds the
  boxed results and page sessions by address, a pointer is an address or \<open>None\<close> for null, and
  an out parameter is what the call writes. \<^verbatim>\<open>catch_unwind\<close> turns a panic into
  \<open>InternalError\<close>; a call that does not return is \<open>None\<close>. The functions assume what their
  \<^verbatim>\<open># Safety\<close> sections ask: pointers are null or live, and a source pointer has as many
  readable bytes as it says.

  The text of an \<^verbatim>\<open>ExecuteError\<close> in a result is its derived \<^verbatim>\<open>Debug\<close> form, which the compiler
  generates: it is the argument \<open>debug\<close>.
\<close>

section \<open>Statuses and JSON\<close>

datatype status =
  Ok | InvalidArgument | InvalidUtf8 | CompileError | VerifyError | RuntimeError | InternalError

record c_cache_stats =
  cs_hits :: nat
  cs_misses :: nat
  cs_evictions :: nat
  cs_entries :: nat

definition TSVM_ABI_VERSION :: nat where
  "TSVM_ABI_VERSION = 2"

primrec from_execute_error :: "execute_error \<Rightarrow> status" where
  "from_execute_error (E_Module ds) = CompileError"
| "from_execute_error (E_Compile ds) = CompileError"
| "from_execute_error (E_Verify es) = VerifyError"
| "from_execute_error (E_Interop e) = RuntimeError"
| "from_execute_error (E_Runtime e) = RuntimeError"

primrec status_name :: "status \<Rightarrow> string" where
  "status_name Ok = ''ok''"
| "status_name InvalidArgument = ''invalid_argument''"
| "status_name InvalidUtf8 = ''invalid_utf8''"
| "status_name CompileError = ''compile_error''"
| "status_name VerifyError = ''verify_error''"
| "status_name RuntimeError = ''runtime_error''"
| "status_name InternalError = ''internal_error''"

definition quote :: string where
  "quote = [char_of (34 :: nat)]"

function chars :: "string \<Rightarrow> string list" where
  "chars s =
     (case first_char s of
        None \<Rightarrow> []
      | Some ch \<Rightarrow> ch # chars (drop (length ch) s))"
  by pat_completeness auto
termination
proof (relation "measure length")
  fix s ch assume "first_char s = Some ch"
  from first_char_Some [OF this] have "0 < length ch" "length ch \<le> length s" by auto
  then have "length s - length ch < length s" by linarith
  then show "(drop (length ch) s, s) \<in> measure length" by simp
qed simp

declare chars.simps [simp del]

definition hex_digit :: "nat \<Rightarrow> char" where
  "hex_digit d = (if d < 10 then char_of (48 + d) else char_of (87 + d))"

text \<open>\<^verbatim>\<open>\u{:04x}\<close> of a code point below 256.\<close>

definition unicode_escape :: "nat \<Rightarrow> string" where
  "unicode_escape n = backslash @ ''u00'' @ [hex_digit (n div 16), hex_digit (n mod 16)]"

text \<open>\<^verbatim>\<open>char::is_control\<close> with the code point, of a character given by its UTF-8 bytes.\<close>

definition control_code :: "string \<Rightarrow> nat option" where
  "control_code ch =
     (case map byte ch of
        [b] \<Rightarrow> if b < 32 \<or> b = 127 then Some b else None
      | [b, c] \<Rightarrow> if b = 194 \<and> c < 160 then Some c else None
      | _ \<Rightarrow> None)"

definition json_char :: "string \<Rightarrow> string" where
  "json_char ch =
     (if ch = quote then backslash @ quote
      else if ch = backslash then backslash @ backslash
      else if ch = [char_of (8 :: nat)] then backslash @ ''b''
      else if ch = [char_of (12 :: nat)] then backslash @ ''f''
      else if ch = newline then backslash @ ''n''
      else if ch = carriage_return then backslash @ ''r''
      else if ch = [char_of (9 :: nat)] then backslash @ ''t''
      else (case control_code ch of Some n \<Rightarrow> unicode_escape n | None \<Rightarrow> ch))"

definition json_string :: "string \<Rightarrow> string" where
  "json_string s = quote @ concat (map json_char (chars s)) @ quote"

text \<open>A JSON key with its value, \<^verbatim>\<open>"name":value\<close>, and an object of such fields.\<close>

definition json_field :: "string \<Rightarrow> string \<Rightarrow> string" where
  "json_field name val = quote @ name @ quote @ '':'' @ val"

definition json_object :: "string list \<Rightarrow> string" where
  "json_object fs = ''{'' @ join_with '','' fs @ ''}''"

definition json_kind :: "string \<Rightarrow> string" where
  "json_kind kind = json_field ''kind'' (quote @ kind @ quote)"

fun render_value :: "js_value \<Rightarrow> string"
and render_fields :: "(string \<times> js_value) list \<Rightarrow> string list"
where
  "render_value (V_Number x) =
     (if f64_is_finite x
      then json_object [json_kind ''number'', json_field ''value'' (f64_to_string x)]
      else json_object [json_kind ''number'', json_field ''value'' ''null'',
             json_field ''non_finite'' (json_string (f64_to_string x))])"
| "render_value (V_String s) = json_object [json_kind ''string'', json_field ''value'' (json_string s)]"
| "render_value (V_Boolean b) = json_object [json_kind ''boolean'', json_field ''value'' (show_bool b)]"
| "render_value V_Null = json_object [json_kind ''null'']"
| "render_value V_Undefined = json_object [json_kind ''undefined'']"
| "render_value (V_Object fds) =
     json_object [json_kind ''object'', json_field ''value'' (json_object (render_fields fds))]"
| "render_value (V_Array vs) =
     json_object [json_kind ''array'',
       json_field ''value'' (''['' @ join_with '','' (map render_value vs) @ '']'')]"
| "render_fields [] = []"
| "render_fields ((name, v) # fds) = (json_string name @ '':'' @ render_value v) # render_fields fds"

definition generated_field :: string where
  "generated_field = json_field ''generated_javascript'' ''false''"

definition status_field :: "status \<Rightarrow> string" where
  "status_field st = json_field ''status'' (quote @ status_name st @ quote)"

definition render_success :: "execution_output \<Rightarrow> string" where
  "render_success output =
     json_object
       [generated_field, status_field Ok,
        json_field ''console'' (''['' @ join_with '','' (map render_value (out_console output)) @ '']''),
        json_field ''return_value'' (render_value (out_return_value output)),
        json_field ''heap'' (json_object
          [json_field ''live_objects'' (show_nat (live_objects (out_heap output))),
           json_field ''allocated_slots'' (show_nat (allocated_slots (out_heap output)))])]"

record capi_result =
  cr_status :: status
  cr_json :: string

definition capi_success :: "execution_output \<Rightarrow> capi_result" where
  "capi_success output = \<lparr>cr_status = Ok, cr_json = render_success output\<rparr>"

definition capi_error :: "status \<Rightarrow> string \<Rightarrow> capi_result" where
  "capi_error st message =
     \<lparr>cr_status = st,
      cr_json = json_object [generated_field, status_field st, json_field ''message'' (json_string message)]\<rparr>"

section \<open>Execution\<close>

text \<open>A call that returns, panics (\<open>Inl True\<close>), or does not return (\<open>Inl False\<close>).\<close>

type_synonym 'a unwinding = "bool + 'a"

definition unwinding_of :: "(execute_error \<Rightarrow> capi_result) \<Rightarrow> abort + execution_output \<Rightarrow> capi_result unwinding" where
  "unwinding_of on_error r =
     (case r of
        Inr output \<Rightarrow> Inr (capi_success output)
      | Inl (Error e) \<Rightarrow> Inr (on_error e)
      | Inl Panic \<Rightarrow> Inl True
      | Inl Out_of_fuel \<Rightarrow> Inl False)"

definition execute_utf8 ::
  "(execute_error \<Rightarrow> string) \<Rightarrow> hash_order \<Rightarrow> nat \<Rightarrow> string \<Rightarrow> capi_result unwinding" where
  "execute_utf8 debug order n source =
     (case utf8_check 0 (map byte source) of
        Some e \<Rightarrow> Inr (capi_error InvalidUtf8 (utf8_error_message e))
      | None \<Rightarrow>
          unwinding_of (\<lambda>e. capi_error (from_execute_error e) (debug e))
            (snd (execute_source order n source ())))"

definition execute_page_session_utf8 ::
  "hash_order \<Rightarrow> nat \<Rightarrow> page_script_session \<Rightarrow> string \<Rightarrow> script_policy \<Rightarrow>
   page_script_session \<times> capi_result unwinding" where
  "execute_page_session_utf8 order n session source policy =
     (case execute_inline_typescript order n source host_new policy (session, ()) of
        ((session1, _), Inr output) \<Rightarrow> (session1, Inr (capi_success output))
      | ((session1, _), Inl (Loader_Error e)) \<Rightarrow>
          (session1, Inr (capi_error
             (case sl_source e of None \<Rightarrow> RuntimeError | Some err \<Rightarrow> from_execute_error err) (sl_message e)))
      | ((session1, _), Inl Loader_Panic) \<Rightarrow> (session1, Inl True)
      | ((session1, _), Inl Loader_Out_of_fuel) \<Rightarrow> (session1, Inl False))"

section \<open>Memory\<close>

record c_memory =
  cm_results :: "nat \<rightharpoonup> string"
  cm_sessions :: "nat \<rightharpoonup> page_script_session"
  cm_next :: nat

type_synonym pointer = "nat option"

definition source_from_raw :: "string option \<Rightarrow> nat \<Rightarrow> status + string" where
  "source_from_raw source source_len =
     (if source_len = 0 then Inr []
      else case source of
             None \<Rightarrow> Inl InvalidArgument
           | Some bytes \<Rightarrow> Inr (take source_len bytes))"

definition script_policy_from_raw :: "int \<Rightarrow> status + script_policy" where
  "script_policy_from_raw policy =
     (if policy = 0 then Inr policy_default
      else if policy = 1 then Inr \<lparr>sp_allow_typescript = False\<rparr>
      else Inl InvalidArgument)"

text \<open>\<^verbatim>\<open>write_result\<close>: the result is boxed and its address written.\<close>

definition write_result :: "capi_result \<Rightarrow> c_memory \<Rightarrow> c_memory \<times> status \<times> pointer" where
  "write_result r mem =
     (mem\<lparr>cm_results := (cm_results mem)(cm_next mem \<mapsto> cr_json r), cm_next := cm_next mem + 1\<rparr>,
      cr_status r, Some (cm_next mem))"

text \<open>
  What a call gives: the memory, the status and what it wrote to its out parameter (\<open>None\<close>:
  nothing; \<open>Some None\<close>: null), or that it does not return.
\<close>

type_synonym 'a c_call = "(c_memory \<times> status \<times> 'a option) option"

definition finish_execution ::
  "string \<Rightarrow> status + capi_result unwinding \<Rightarrow> c_memory \<Rightarrow> pointer c_call" where
  "finish_execution panic_message r mem =
     (case r of
        Inl st \<Rightarrow> Some (mem, st, Some None)
      | Inr (Inr result) \<Rightarrow>
          (case write_result result mem of (mem1, st, p) \<Rightarrow> Some (mem1, st, Some p))
      | Inr (Inl True) \<Rightarrow>
          (case write_result (capi_error InternalError panic_message) mem of
             (mem1, st, p) \<Rightarrow> Some (mem1, st, Some p))
      | Inr (Inl False) \<Rightarrow> None)"

definition tsvm_execute_utf8 ::
  "(execute_error \<Rightarrow> string) \<Rightarrow> hash_order \<Rightarrow> nat \<Rightarrow> string option \<Rightarrow> nat \<Rightarrow> bool \<Rightarrow> c_memory \<Rightarrow> pointer c_call" where
  "tsvm_execute_utf8 debug order n source source_len out_null mem =
     (if out_null then Some (mem, InvalidArgument, None)
      else
        finish_execution ''TSVM C ABI execution panicked''
          (rbind (source_from_raw source source_len) (\<lambda>src. Inr (execute_utf8 debug order n src))) mem)"

definition tsvm_page_session_create :: "nat \<Rightarrow> bool \<Rightarrow> c_memory \<Rightarrow> pointer c_call" where
  "tsvm_page_session_create cache_capacity out_null mem =
     (if out_null then Some (mem, InvalidArgument, None)
      else
        (case session_new cache_capacity of
           Inr session \<Rightarrow>
             Some (mem\<lparr>cm_sessions := (cm_sessions mem)(cm_next mem \<mapsto> session),
                       cm_next := cm_next mem + 1\<rparr>, Ok, Some (Some (cm_next mem)))
         | Inl _ \<Rightarrow> Some (mem, InvalidArgument, Some None)))"

text \<open>The closure of \<^verbatim>\<open>tsvm_page_session_execute_utf8\<close>, on the session at its pointer.\<close>

definition session_execution ::
  "hash_order \<Rightarrow> nat \<Rightarrow> page_script_session \<Rightarrow> string option \<Rightarrow> nat \<Rightarrow> int \<Rightarrow>
   page_script_session \<times> (status + capi_result unwinding)" where
  "session_execution order n session source source_len policy =
     (case rbind (source_from_raw source source_len) (\<lambda>src.
             rbind (script_policy_from_raw policy) (\<lambda>pol. Inr (src, pol))) of
        Inl st \<Rightarrow> (session, Inl st)
      | Inr (src, pol) \<Rightarrow>
          (case utf8_check 0 (map byte src) of
             Some e \<Rightarrow> (session, Inr (Inr (capi_error InvalidUtf8 (utf8_error_message e))))
           | None \<Rightarrow>
               (case execute_page_session_utf8 order n session src pol of
                  (session1, r) \<Rightarrow> (session1, Inr r))))"

definition tsvm_page_session_execute_utf8 ::
  "hash_order \<Rightarrow> nat \<Rightarrow> pointer \<Rightarrow> string option \<Rightarrow> nat \<Rightarrow> int \<Rightarrow> bool \<Rightarrow> c_memory \<Rightarrow> pointer c_call" where
  "tsvm_page_session_execute_utf8 order n session_ptr source source_len policy out_null mem =
     (case session_ptr of
        None \<Rightarrow> Some (mem, InvalidArgument, None)
      | Some addr \<Rightarrow>
          if out_null then Some (mem, InvalidArgument, None)
          else
            (case cm_sessions mem addr of
               None \<Rightarrow> None
             | Some session \<Rightarrow>
                 (case session_execution order n session source source_len policy of
                    (session1, r) \<Rightarrow>
                      finish_execution ''TSVM page-session execution panicked'' r
                        (mem\<lparr>cm_sessions := (cm_sessions mem)(addr \<mapsto> session1)\<rparr>))))"

definition tsvm_page_session_cache_stats ::
  "pointer \<Rightarrow> bool \<Rightarrow> c_memory \<Rightarrow> c_cache_stats c_call" where
  "tsvm_page_session_cache_stats session_ptr out_null mem =
     (case session_ptr of
        None \<Rightarrow> Some (mem, InvalidArgument, None)
      | Some addr \<Rightarrow>
          if out_null then Some (mem, InvalidArgument, None)
          else
            (case cm_sessions mem addr of
               None \<Rightarrow> None
             | Some session \<Rightarrow>
                 (let stats = session_stats session in
                  Some (mem, Ok,
                    Some \<lparr>cs_hits = st_hits stats, cs_misses = st_misses stats,
                          cs_evictions = st_evictions stats, cs_entries = st_entries stats\<rparr>))))"

definition tsvm_page_session_free :: "pointer \<Rightarrow> c_memory \<Rightarrow> c_memory" where
  "tsvm_page_session_free session_ptr mem =
     (case session_ptr of
        None \<Rightarrow> mem
      | Some addr \<Rightarrow> mem\<lparr>cm_sessions := (cm_sessions mem)(addr := None)\<rparr>)"

text \<open>The length and the bytes of a result; null for null arguments.\<close>

definition tsvm_result_json :: "pointer \<Rightarrow> bool \<Rightarrow> c_memory \<Rightarrow> (nat \<times> string) option" where
  "tsvm_result_json result out_len_null mem =
     (case result of
        None \<Rightarrow> None
      | Some addr \<Rightarrow>
          if out_len_null then None
          else map_option (\<lambda>json. (length json, json)) (cm_results mem addr))"

definition tsvm_result_free :: "pointer \<Rightarrow> c_memory \<Rightarrow> c_memory" where
  "tsvm_result_free result mem =
     (case result of
        None \<Rightarrow> mem
      | Some addr \<Rightarrow> mem\<lparr>cm_results := (cm_results mem)(addr := None)\<rparr>)"

definition tsvm_abi_version :: nat where
  "tsvm_abi_version = TSVM_ABI_VERSION"

end
