(* ===== verification/C_Api_Json.thy ===== *)
theory C_Api_Json
  imports C_Api Lexer_Spec
begin

text \<open>
  The JSON strings of the C interface, read back by the string grammar of RFC 8259: whatever text
  a program prints, a JSON parser finds exactly this text, and what follows it.
\<close>

section \<open>Reading a JSON string\<close>

definition hex_value :: "char \<Rightarrow> nat option" where
  "hex_value c =
     (let b = byte c in
      if 48 \<le> b \<and> b \<le> 57 then Some (b - 48)
      else if 65 \<le> b \<and> b \<le> 70 then Some (b - 55)
      else if 97 \<le> b \<and> b \<le> 102 then Some (b - 87)
      else None)"

text \<open>The UTF-8 bytes of a code point of the basic plane; surrogates are left out.\<close>

definition utf8_encode :: "nat \<Rightarrow> string option" where
  "utf8_encode n =
     (if n < 128 then Some [char_of n]
      else if n < 2048 then Some [char_of (192 + n div 64), char_of (128 + n mod 64)]
      else if 55296 \<le> n \<and> n < 57344 then None
      else Some [char_of (224 + n div 4096), char_of (128 + n div 64 mod 64), char_of (128 + n mod 64)])"

definition simple_escape :: "nat \<Rightarrow> nat option" where
  "simple_escape b =
     map_of [(34, 34), (92, 92), (47, 47), (98, 8), (102, 12), (110, 10), (114, 13), (116, 9)] b"

text \<open>The text up to the closing quote, and what follows it.\<close>

fun read_json_body :: "string \<Rightarrow> (string \<times> string) option" where
  "read_json_body [] = None"
| "read_json_body (c # s) =
     (if byte c = 34 then Some ([], s)
      else if byte c = 92 then
        (case s of
           e # h1 # h2 # h3 # h4 # t \<Rightarrow>
             if byte e = 117 then
               (case (hex_value h1, hex_value h2, hex_value h3, hex_value h4) of
                  (Some a, Some b, Some c, Some d) \<Rightarrow>
                    (case utf8_encode (4096 * a + 256 * b + 16 * c + d) of
                       None \<Rightarrow> None
                     | Some ch \<Rightarrow> map_option (\<lambda>(x, r). (ch @ x, r)) (read_json_body t))
                | _ \<Rightarrow> None)
             else
               (case simple_escape (byte e) of
                  None \<Rightarrow> None
                | Some b \<Rightarrow> map_option (\<lambda>(x, r). (char_of b # x, r)) (read_json_body (h1 # h2 # h3 # h4 # t)))
         | e # t \<Rightarrow>
             (case simple_escape (byte e) of
                None \<Rightarrow> None
              | Some b \<Rightarrow> map_option (\<lambda>(x, r). (char_of b # x, r)) (read_json_body t))
         | [] \<Rightarrow> None)
      else if byte c < 32 then None
      else map_option (\<lambda>(x, r). (c # x, r)) (read_json_body s))"

definition read_json_string :: "string \<Rightarrow> (string \<times> string) option" where
  "read_json_string s = (case s of c # t \<Rightarrow> if byte c = 34 then read_json_body t else None | [] \<Rightarrow> None)"

section \<open>The round trip\<close>

abbreviation onto :: "string \<Rightarrow> (string \<times> string) option \<Rightarrow> (string \<times> string) option" where
  "onto ch \<equiv> map_option (\<lambda>(x, r). (ch @ x, r))"

lemma onto_append: "onto a (onto b r) = onto (a @ b) r"
  by (cases r) auto

lemma onto_Nil: "onto [] r = r"
  by (cases r) auto

lemma byte_char_of: "n < 256 \<Longrightarrow> byte (char_of n) = n"
  by (simp add: byte_def)

lemma char_eq_byte: "c = char_of n \<longleftrightarrow> byte c = n" if "n < 256"
  using that by (metis byte_char_of byte_def char_of_char)

lemma read_literal: "\<forall>c\<in>set cs. 32 \<le> byte c \<and> byte c \<noteq> 34 \<and> byte c \<noteq> 92 \<Longrightarrow>
    read_json_body (cs @ t) = onto cs (read_json_body t)"
proof (induction cs)
  case Nil
  show ?case by (cases "read_json_body t") auto
next
  case (Cons c cs)
  then show ?case by (cases "read_json_body t") auto
qed

lemma read_simple_escape:
  assumes "simple_escape (byte e) = Some b"
  shows "read_json_body (char_of (92 :: nat) # e # t) = onto [char_of b] (read_json_body t)"
proof -
  have u: "byte e \<noteq> 117" using assms by (auto simp: simple_escape_def)
  show ?thesis
  proof (cases t)
    case 1: (Cons h1 t1)
    show ?thesis
    proof (cases t1)
      case 2: (Cons h2 t2)
      show ?thesis
      proof (cases t2)
        case 3: (Cons h3 t3)
        show ?thesis
          by (cases t3) (simp_all add: 1 2 3 assms u byte_char_of)
      qed (simp add: 1 2 assms byte_char_of)
    qed (simp add: 1 assms byte_char_of)
  qed (simp add: assms byte_char_of)
qed

lemma hex_value_digit: "d < 16 \<Longrightarrow> hex_value (hex_digit d) = Some d"
  by (auto simp: hex_value_def hex_digit_def byte_char_of Let_def)

lemma read_unicode_escape:
  assumes "n < 256" and "utf8_encode n = Some ch"
  shows "read_json_body (unicode_escape n @ t) = onto ch (read_json_body t)"
proof -
  have 0: "hex_value (CHR ''0'') = Some 0" by (simp add: hex_value_def byte_def Let_def)
  have "16 * (n div 16) + n mod 16 = n" by simp
  moreover have "n div 16 < 16" using assms(1) by simp
  ultimately show ?thesis using assms(2)
    by (simp add: unicode_escape_def backslash_def byte_char_of hex_value_digit 0)
      (simp add: byte_def)
qed

text \<open>The bytes of one character of valid text.\<close>

lemma char_bytes:
  assumes "utf8_valid (c # s)"
  obtains tail rest where "first_char (c # s) = Some (c # tail)" "s = tail @ rest" "utf8_valid rest"
    "byte c < 128 \<longrightarrow> tail = []" "128 \<le> byte c \<longrightarrow> 194 \<le> byte c"
    "\<forall>d\<in>set tail. 128 \<le> byte d"
proof (cases rule: valid_char [OF assms])
  case (1 tail rest)
  have ok: "utf8_first (byte c # map byte s) \<noteq> Utf8_Error e" for e
    using assms unfolding utf8_valid_def utf8_check.simps [of 0 "map byte (c # s)"]
    by (auto simp del: utf8_first.simps)
  have "utf8_char_width (byte c) \<noteq> 0"
  proof
    assume "utf8_char_width (byte c) = 0"
    then have "utf8_first (byte c # map byte s) = Utf8_Error (Some 1)" by simp
    with ok show False by blast
  qed
  then have w: "128 \<le> byte c \<longrightarrow> 194 \<le> byte c" by (auto simp: utf8_char_width_def split: if_splits)
  have n: "byte c < 128 \<longrightarrow> tail = []"
    using 1(1) by (auto simp: first_char_def char_len_def utf8_char_width_def)
  have "\<forall>d\<in>set tail. 128 \<le> byte d" using 1(5) by (auto simp: char_start_def utf8_cont_def)
  with 1(1-3) n w show thesis by (rule that)
qed

lemma read_short_escape:
  assumes "(byte c, e) \<in> set [(8, CHR ''b''), (12, CHR ''f''), (10, CHR ''n''), (13, CHR ''r''), (9, CHR ''t'')]"
  shows "read_json_body (json_char [c] @ t) = onto [c] (read_json_body t)"
proof -
  have c: "c = char_of (byte c)" by (simp add: byte_def)
  have "json_char [char_of (byte c)] = [char_of (92 :: nat), e]"
    using assms by (auto simp: json_char_def quote_def backslash_def newline_def carriage_return_def)
  with c have "json_char [c] = [char_of (92 :: nat), e]" by simp
  moreover have "simple_escape (byte e) = Some (byte c)"
    using assms by (auto simp: simple_escape_def byte_def)
  ultimately show ?thesis using read_simple_escape [of e "byte c" t] c by simp
qed

lemma read_json_char:
  assumes "byte c < 128 \<longrightarrow> tail = []" and "128 \<le> byte c \<longrightarrow> 194 \<le> byte c"
    and "\<forall>d\<in>set tail. 128 \<le> byte d"
  shows "read_json_body (json_char (c # tail) @ t) = onto (c # tail) (read_json_body t)"
proof (cases "control_code (c # tail)")
  case None
  show ?thesis
  proof (cases "c # tail \<in> {quote, backslash}")
    case True
    then obtain n :: nat where n: "n = 34 \<or> n = 92" "c # tail = [char_of n]"
      by (auto simp only: quote_def backslash_def insert_iff empty_iff)
    then have "json_char (c # tail) = [char_of (92 :: nat), char_of n]"
      by (auto simp: json_char_def quote_def backslash_def)
    moreover have "simple_escape (byte (char_of n)) = Some n"
      using n(1) by (auto simp only: byte_char_of simple_escape_def) simp_all
    ultimately show ?thesis using read_simple_escape [of "char_of n" n t] n(2)
      by (simp only: append_Cons append_Nil)
  next
    case False
    have "32 \<le> byte d \<and> byte d \<noteq> 34 \<and> byte d \<noteq> 92" if "d \<in> set (c # tail)" for d
    proof (cases "byte c < 128")
      case True
      with assms(1) that have "tail = []" "d = c" by auto
      with None False show ?thesis
        by (auto simp: control_code_def quote_def backslash_def char_eq_byte split: if_splits)
    next
      case False
      with assms(2,3) that show ?thesis by auto
    qed
    moreover from this have "32 \<le> byte c" by simp
    then have "c \<noteq> char_of (8 :: nat)" "c \<noteq> char_of (12 :: nat)" "c \<noteq> char_of (10 :: nat)"
      "c \<noteq> char_of (13 :: nat)" "c \<noteq> char_of (9 :: nat)" by (auto simp only: byte_char_of)
    with None False have "json_char (c # tail) = c # tail"
      by (simp add: json_char_def newline_def carriage_return_def)
    ultimately show ?thesis using read_literal [of "c # tail" t] by simp
  qed
next
  case (Some n)
  then consider "tail = []" "n = byte c" "n < 32 \<or> n = 127"
    | d where "tail = [d]" "byte c = 194" "byte d = n" "n < 160"
    by (auto simp: control_code_def split: list.splits if_splits)
  then show ?thesis
  proof cases
    case 1
    show ?thesis
    proof (cases "n \<in> {8, 12, 10, 13, 9}")
      case True
      then obtain e where "(byte c, e) \<in> set [(8, CHR ''b''), (12, CHR ''f''), (10, CHR ''n''), (13, CHR ''r''), (9, CHR ''t'')]"
        using 1(2) by auto
      from read_short_escape [OF this] 1(1) show ?thesis by simp
    next
      case False
      with 1(2) have "c \<noteq> char_of (8 :: nat)" "c \<noteq> char_of (12 :: nat)" "c \<noteq> char_of (10 :: nat)"
        "c \<noteq> char_of (13 :: nat)" "c \<noteq> char_of (9 :: nat)" by (auto simp only: byte_char_of)
      moreover have "c \<noteq> char_of (34 :: nat)" "c \<noteq> char_of (92 :: nat)"
        using 1(2,3) by (auto simp only: byte_char_of)
      ultimately have "json_char (c # tail) = unicode_escape n"
        using 1(1) Some by (simp add: json_char_def quote_def backslash_def newline_def carriage_return_def)
      moreover have "utf8_encode n = Some [c]" using 1 by (auto simp: utf8_encode_def byte_def)
      ultimately show ?thesis using 1 read_unicode_escape [of n "[c]" t] by auto
    qed
  next
    case 2
    have d: "128 \<le> n" using assms(3) 2(1,3) by simp
    have "json_char (c # tail) = unicode_escape n"
      using 2 Some by (simp add: json_char_def quote_def backslash_def newline_def carriage_return_def)
    moreover have "utf8_encode n = Some [c, d]"
    proof -
      have q: "n div 64 = 2" by (rule div_nat_eqI) (use d 2(4) in simp_all)
      then have "128 + n mod 64 = n" using div_mult_mod_eq [of n 64] by simp
      with q d 2(4) have "utf8_encode n = Some [char_of (194 :: nat), char_of n]"
        by (simp add: utf8_encode_def)
      moreover have "c = char_of (194 :: nat)" unfolding 2(2) [symmetric] by (simp add: byte_def)
      moreover have "d = char_of n" unfolding 2(3) [symmetric] by (simp add: byte_def)
      ultimately show ?thesis by (simp only:)
    qed
    ultimately show ?thesis using 2 read_unicode_escape [of n "[c, d]" t] by simp
  qed
qed

lemma read_chars: "utf8_valid s \<Longrightarrow> read_json_body (concat (map json_char (chars s)) @ t) = onto s (read_json_body t)"
proof (induction s rule: length_induct)
  case (1 s)
  show ?case
  proof (cases s)
    case Nil
    then show ?thesis by (cases "read_json_body t") (auto simp: chars.simps first_char_def)
  next
    case (Cons c s')
    with 1 have "utf8_valid (c # s')" by simp
    from char_bytes [OF this] obtain tail rest where
      ch: "first_char (c # s') = Some (c # tail)" "s' = tail @ rest" "utf8_valid rest"
      and b: "byte c < 128 \<longrightarrow> tail = []" "128 \<le> byte c \<longrightarrow> 194 \<le> byte c" "\<forall>d\<in>set tail. 128 \<le> byte d" .
    have "chars s = (c # tail) # chars rest"
      by (subst chars.simps) (simp add: Cons ch(2) ch(1) [unfolded ch(2)])
    moreover have "read_json_body (concat (map json_char (chars rest)) @ t) = onto rest (read_json_body t)"
      using 1 Cons ch(2,3) by simp
    ultimately show ?thesis using read_json_char [OF b, of "concat (map json_char (chars rest)) @ t"]
      by (cases "read_json_body t") (simp_all add: Cons ch(2) split: prod.splits)
  qed
qed

text \<open>C14: JSON strings round-trip: the string that \<open>json_string\<close> writes for any UTF-8 text is read back
  by the JSON grammar as this text, and reading stops at its closing quote, so no text can
  close the string early or leave a raw control character in it.\<close>

theorem json_string_roundtrip:
  assumes "utf8_valid s"
  shows "read_json_string (json_string s @ rest) = Some (s, rest)"
  using read_chars [OF assms, of "quote @ rest"]
  by (simp add: read_json_string_def json_string_def quote_def byte_char_of)

theorem json_string_roundtrip_witness:
  "read_json_string (json_string (''a'' @ quote @ newline @ [char_of (127 :: nat)]) @ ''}'') =
     Some (''a'' @ quote @ newline @ [char_of (127 :: nat)], ''}'')"
  by (rule json_string_roundtrip, rule utf8_valid_ascii) (simp add: quote_def newline_def byte_def)

end
