(* ===== verification/C_Api_Memory.thy ===== *)
theory C_Api_Memory
  imports C_Api
begin

text \<open>
  The ownership of what crosses the C interface, as a step relation over the memory: every
  exported function that changes it is a step, and the two that free are seen as events. Results
  and sessions live from the call that returns them to the one that frees them.
\<close>

section \<open>Calls as steps\<close>

datatype c_event = Called | Freed_Result pointer | Freed_Session pointer

inductive c_step ::
  "(execute_error \<Rightarrow> string) \<Rightarrow> hash_order \<Rightarrow> c_memory \<Rightarrow> c_event \<Rightarrow> c_memory \<Rightarrow> bool"
  for debug order where
  execute: "tsvm_execute_utf8 debug order n source source_len out_null mem = Some (mem', st, out) \<Longrightarrow>
     c_step debug order mem Called mem'"
| create: "tsvm_page_session_create cap out_null mem = Some (mem', st, out) \<Longrightarrow>
     c_step debug order mem Called mem'"
| session_execute:
    "tsvm_page_session_execute_utf8 order n session source source_len policy out_null mem = Some (mem', st, out) \<Longrightarrow>
     c_step debug order mem Called mem'"
| stats: "tsvm_page_session_cache_stats session out_null mem = Some (mem', st, stats) \<Longrightarrow>
     c_step debug order mem Called mem'"
| free_result: "c_step debug order mem (Freed_Result p) (tsvm_result_free p mem)"
| free_session: "c_step debug order mem (Freed_Session p) (tsvm_page_session_free p mem)"

inductive c_run ::
  "(execute_error \<Rightarrow> string) \<Rightarrow> hash_order \<Rightarrow> c_memory \<Rightarrow> c_event list \<Rightarrow> c_memory \<Rightarrow> bool"
  for debug order where
  finished: "c_run debug order mem [] mem"
| step: "c_step debug order mem ev mem1 \<Longrightarrow> c_run debug order mem1 evs mem' \<Longrightarrow>
     c_run debug order mem (ev # evs) mem'"

text \<open>Addresses from \<open>cm_next\<close> on are unused.\<close>

definition mem_ok :: "c_memory \<Rightarrow> bool" where
  "mem_ok mem \<longleftrightarrow> (\<forall>p\<ge>cm_next mem. cm_results mem p = None \<and> cm_sessions mem p = None)"

text \<open>From \<open>mem\<close> to \<open>mem'\<close> everything live is kept, but for what the event frees.\<close>

definition keeps :: "c_memory \<Rightarrow> c_event \<Rightarrow> c_memory \<Rightarrow> bool" where
  "keeps mem ev mem' \<longleftrightarrow>
     (\<forall>p json. cm_results mem p = Some json \<longrightarrow> ev \<noteq> Freed_Result (Some p) \<longrightarrow> cm_results mem' p = Some json) \<and>
     (\<forall>p. cm_sessions mem p \<noteq> None \<longrightarrow> ev \<noteq> Freed_Session (Some p) \<longrightarrow> cm_sessions mem' p \<noteq> None) \<and>
     mem_ok mem'"

lemma keeps_refl: "mem_ok mem \<Longrightarrow> keeps mem ev mem"
  by (simp add: keeps_def)

text \<open>A result is written at a fresh address and nothing else changes.\<close>

lemma finish_execution_memory:
  assumes "mem_ok mem" and "finish_execution msg r mem = Some (mem', st, out)"
  shows "keeps mem Called mem' \<and> cm_sessions mem' = cm_sessions mem \<and>
    (case out of
       Some (Some p) \<Rightarrow> cm_results mem p = None \<and>
         (\<exists>cr. (r = Inr (Inr cr) \<or> r = Inr (Inl True) \<and> cr = capi_error InternalError msg) \<and>
            st = cr_status cr \<and>
            mem' = mem\<lparr>cm_results := (cm_results mem)(p \<mapsto> cr_json cr), cm_next := Suc p\<rparr>)
     | _ \<Rightarrow> r = Inl st \<and> mem' = mem)"
proof -
  have fresh: "cm_results mem (cm_next mem) = None" using assms(1) by (simp add: mem_ok_def)
  show ?thesis
  proof (cases r)
    case (Inl e)
    with assms keeps_refl [OF assms(1)] show ?thesis by (auto simp: finish_execution_def)
  next
    case (Inr q)
    with assms(2) obtain cr where c: "r = Inr (Inr cr) \<or> r = Inr (Inl True) \<and> cr = capi_error InternalError msg"
      and w: "write_result cr mem = (mem', st, the out)" "out \<noteq> None"
      by (auto simp: finish_execution_def split: sum.splits bool.splits prod.splits)
    from w have "out = Some (Some (cm_next mem))" "st = cr_status cr"
      "mem' = mem\<lparr>cm_results := (cm_results mem)(cm_next mem \<mapsto> cr_json cr), cm_next := Suc (cm_next mem)\<rparr>"
      by (auto simp: write_result_def)
    with assms(1) fresh c show ?thesis by (auto simp: keeps_def mem_ok_def)
  qed
qed

lemma step_keeps:
  assumes "mem_ok mem" and "c_step debug order mem ev mem'"
  shows "keeps mem ev mem'"
  using assms(2)
proof cases
  case (execute n source source_len out_null st out)
  then show ?thesis
    using finish_execution_memory [OF assms(1)] keeps_refl [OF assms(1)]
    by (fastforce simp: tsvm_execute_utf8_def split: if_splits)
next
  case (create cap out_null st out)
  with assms(1) show ?thesis
    by (auto simp: tsvm_page_session_create_def keeps_def mem_ok_def split: if_splits sum.splits)
next
  case (session_execute n session source source_len policy out_null st out)
  show ?thesis
  proof (cases "mem' = mem")
    case True
    with keeps_refl [OF assms(1)] show ?thesis by simp
  next
    case False
    with session_execute(2) obtain addr s s1 r msg where
      a: "cm_sessions mem addr = Some s"
      "finish_execution msg r (mem\<lparr>cm_sessions := (cm_sessions mem)(addr \<mapsto> s1)\<rparr>) = Some (mem', st, out)"
      by (auto simp: tsvm_page_session_execute_utf8_def split: option.splits if_splits prod.splits)
    let ?mem = "mem\<lparr>cm_sessions := (cm_sessions mem)(addr \<mapsto> s1)\<rparr>"
    have "mem_ok ?mem" using assms(1) a(1) by (auto simp: mem_ok_def)
    from finish_execution_memory [OF this a(2)] session_execute(1) show ?thesis
      by (auto simp: keeps_def)
  qed
next
  case (stats session out_null st stats)
  then have "mem' = mem"
    by (auto simp: tsvm_page_session_cache_stats_def Let_def split: option.splits if_splits)
  with keeps_refl [OF assms(1)] show ?thesis by simp
next
  case (free_result p)
  with assms(1) show ?thesis
    by (cases p) (auto simp: tsvm_result_free_def keeps_def mem_ok_def)
next
  case (free_session p)
  with assms(1) show ?thesis
    by (cases p) (auto simp: tsvm_page_session_free_def keeps_def mem_ok_def)
qed

lemma run_keeps:
  assumes "c_run debug order mem evs mem'" and "mem_ok mem"
  shows "mem_ok mem' \<and>
    (\<forall>p json. cm_results mem p = Some json \<longrightarrow> Freed_Result (Some p) \<notin> set evs \<longrightarrow> cm_results mem' p = Some json) \<and>
    (\<forall>p. cm_sessions mem p \<noteq> None \<longrightarrow> Freed_Session (Some p) \<notin> set evs \<longrightarrow> cm_sessions mem' p \<noteq> None)"
  using assms
proof (induction rule: c_run.induct)
  case (finished mem)
  then show ?case by simp
next
  case (step mem ev mem1 evs mem')
  from step_keeps [OF step.prems step.hyps(1)] have k: "keeps mem ev mem1" .
  then have "mem_ok mem1" by (simp add: keeps_def)
  from step.IH [OF this] k show ?case unfolding keeps_def by (metis list.set_intros(1,2))
qed

section \<open>The contract\<close>

text \<open>C13: what the C interface returns stays valid until it is freed. Through any sequence of calls,
  whatever they execute, a live result keeps its bytes and its address until the event that frees
  this very result, live sessions stay live until they are freed, and addresses not yet given
  out stay unused, so a new result never overwrites a live one.\<close>

theorem results_stay_valid:
  assumes "c_run debug order mem evs mem'" and "mem_ok mem"
    and "cm_results mem p = Some json" and "Freed_Result (Some p) \<notin> set evs"
  shows "tsvm_result_json (Some p) False mem' = Some (length json, json) \<and> mem_ok mem' \<and>
    (\<forall>q. cm_sessions mem q \<noteq> None \<longrightarrow> Freed_Session (Some q) \<notin> set evs \<longrightarrow> cm_sessions mem' q \<noteq> None)"
  using run_keeps [OF assms(1,2)] assms(3,4) by (simp add: tsvm_result_json_def)

definition sample_memory :: c_memory where
  "sample_memory = \<lparr>cm_results = [0 \<mapsto> ''{}'', 1 \<mapsto> ''[]''], cm_sessions = Map.empty, cm_next = 2\<rparr>"

theorem results_stay_valid_witness:
  "\<exists>mem'. c_run (\<lambda>_. ''error'') (\<lambda>_ keys. keys) sample_memory [Called, Freed_Result (Some 1)] mem' \<and>
     tsvm_result_json (Some 0) False mem' = Some (2, ''{}'') \<and> cm_results mem' 1 = None"
proof -
  let ?mem1 = "sample_memory\<lparr>cm_sessions := [2 \<mapsto> \<lparr>ps_cache = \<lparr>pc_capacity = 1, pc_modules = [], pc_order = [],
    pc_hits = 0, pc_misses = 0, pc_evictions = 0\<rparr>\<rparr>], cm_next := 3\<rparr>"
  have "tsvm_page_session_create 1 False sample_memory = Some (?mem1, Ok, Some (Some 2))"
    by (simp add: tsvm_page_session_create_def session_new_def cache_new_def sample_memory_def)
  then have "c_run (\<lambda>_. ''error'') (\<lambda>_ keys. keys) sample_memory [Called, Freed_Result (Some 1)] (tsvm_result_free (Some 1) ?mem1)"
    by (rule c_run.step [OF c_step.create c_run.step [OF c_step.free_result c_run.finished]])
  from results_stay_valid [OF this, of 0 "''{}''"] this show ?thesis
    by (auto simp: sample_memory_def mem_ok_def tsvm_result_free_def)
qed

text \<open>The status and the text of what executing \<open>src\<close> returns to C.\<close>

definition answers :: "(execute_error \<Rightarrow> string) \<Rightarrow> hash_order \<Rightarrow> nat \<Rightarrow> string \<Rightarrow> status \<Rightarrow> string \<Rightarrow> bool" where
  "answers debug order n src st json \<longleftrightarrow>
     (case utf8_check 0 (map byte src) of
        Some e \<Rightarrow> st = InvalidUtf8 \<and> json = cr_json (capi_error InvalidUtf8 (utf8_error_message e))
      | None \<Rightarrow>
          (case snd (execute_source order n src ()) of
             Inr output \<Rightarrow> st = Ok \<and> json = render_success output
           | Inl (Error e) \<Rightarrow> st = from_execute_error e \<and> json = cr_json (capi_error (from_execute_error e) (debug e))
           | Inl Panic \<Rightarrow>
               st = InternalError \<and> json = cr_json (capi_error InternalError ''TSVM C ABI execution panicked'')
           | Inl Out_of_fuel \<Rightarrow> False))"

lemma execute_utf8_answers:
  assumes "execute_utf8 debug order n src = Inr cr \<or>
    execute_utf8 debug order n src = Inl True \<and> cr = capi_error InternalError ''TSVM C ABI execution panicked''"
  shows "answers debug order n src (cr_status cr) (cr_json cr)"
  using assms
  by (auto simp: answers_def execute_utf8_def unwinding_of_def capi_error_def capi_success_def
      split: option.splits sum.splits abort.splits)

text \<open>C33: \<^verbatim>\<open>tsvm_execute_utf8\<close> hands over exactly one result, or none. When it does, the address was
  unused, the status and the text read there, with its length, are those of the source it was
  given: that of invalid UTF-8, the rendered output of the run, its error, or the panic;
  no other result or session changes, and freeing the result restores the results, so a client that
  frees what it got leaks nothing. When it hands over none, the arguments were invalid and the
  memory is as before.\<close>

theorem execute_ownership:
  assumes "mem_ok mem" and "tsvm_execute_utf8 debug order n source source_len out_null mem = Some (mem', st, out)"
  shows "(case out of
      Some (Some p) \<Rightarrow> cm_results mem p = None \<and>
        (\<exists>src json. source_from_raw source source_len = Inr src \<and> answers debug order n src st json \<and>
           tsvm_result_json (Some p) False mem' = Some (length json, json)) \<and>
        cm_results (tsvm_result_free (Some p) mem') = cm_results mem \<and>
        (\<forall>q. q \<noteq> p \<longrightarrow> cm_results mem' q = cm_results mem q)
    | _ \<Rightarrow> st = InvalidArgument \<and> mem' = mem \<and> (out_null \<or> source = None \<and> source_len \<noteq> 0)) \<and>
    cm_sessions mem' = cm_sessions mem \<and> mem_ok mem'"
proof (cases out_null)
  case True
  with assms show ?thesis by (auto simp: tsvm_execute_utf8_def)
next
  case False
  let ?r = "rbind (source_from_raw source source_len) (\<lambda>src. Inr (execute_utf8 debug order n src))"
  let ?msg = "''TSVM C ABI execution panicked''"
  from False assms(2) have f: "finish_execution ?msg ?r mem = Some (mem', st, out)"
    by (simp add: tsvm_execute_utf8_def)
  note fm = finish_execution_memory [OF assms(1) f]
  show ?thesis
  proof (cases "source_from_raw source source_len")
    case (Inl e)
    then have "e = InvalidArgument" "source = None" "source_len \<noteq> 0"
      by (auto simp: source_from_raw_def split: if_splits option.splits)
    with Inl fm show ?thesis by (auto simp: keeps_def split: option.splits)
  next
    case (Inr src)
    with fm execute_utf8_answers [of debug order n src] show ?thesis
      by (auto simp: keeps_def tsvm_result_json_def tsvm_result_free_def split: option.splits)
  qed
qed

theorem execute_ownership_witness:
  "\<exists>mem' json. tsvm_execute_utf8 (\<lambda>_. ''error'') (\<lambda>_ keys. keys) 5 (Some [CHR 0xFF]) 1 False sample_memory =
       Some (mem', InvalidUtf8, Some (Some 2)) \<and>
     tsvm_result_json (Some 2) False mem' = Some (length json, json) \<and>
     cm_results (tsvm_result_free (Some 2) mem') = cm_results sample_memory"
proof -
  have ok: "mem_ok sample_memory" by (simp add: sample_memory_def mem_ok_def)
  have "utf8_check 0 (map byte [CHR 0xFF]) = Some (0, Some 1)" by code_simp
  then obtain mem' where run: "tsvm_execute_utf8 (\<lambda>_. ''error'') (\<lambda>_ keys. keys) 5 (Some [CHR 0xFF]) 1 False sample_memory =
      Some (mem', InvalidUtf8, Some (Some 2))"
    by (simp add: tsvm_execute_utf8_def source_from_raw_def execute_utf8_def finish_execution_def
        write_result_def capi_error_def sample_memory_def)
  from execute_ownership [OF ok run] run show ?thesis by auto
qed

end
