(* ===== verification/Page_Effects.thy ===== *)
theory Page_Effects
  imports Web_Bindings
begin

text \<open>
  What a script can do to the page it runs in. The interpreter reaches the host's world through
  the registered functions only, so a relation that every host function keeps is kept by whole
  runs and page sessions; with the bindings of \<open>Web_Bindings\<close> it says that a page's scripts write
  texts and nothing else.
\<close>

named_theorems effect_intros

section \<open>Relations that steps keep\<close>

text \<open>\<open>act\<close> takes the part \<open>p\<close> of its state to a related one, whether it fails or not.\<close>

definition steps_in :: "('s \<Rightarrow> 'w) \<Rightarrow> ('w \<Rightarrow> 'w \<Rightarrow> bool) \<Rightarrow> ('s, 'e, 'a) sem \<Rightarrow> bool" where
  "steps_in p R act \<longleftrightarrow> (\<forall>s t r. act s = (t, r) \<longrightarrow> R (p s) (p t))"

lemma steps_inD: "steps_in p R act \<Longrightarrow> act s = (t, r) \<Longrightarrow> R (p s) (p t)"
  by (simp add: steps_in_def)

locale host_effects =
  fixes host :: "'w host_environment" and R :: "'w \<Rightarrow> 'w \<Rightarrow> bool"
  assumes refl: "R w w"
    and trans: "R w w1 \<Longrightarrow> R w1 w2 \<Longrightarrow> R w w2"
    and host_step: "host_call host name args = Some f \<Longrightarrow> f w = (w', r) \<Longrightarrow> R w w'"
begin

lemma steps_in_same: "(\<And>s. p (fst (act s)) = p s) \<Longrightarrow> steps_in p R act"
  unfolding steps_in_def using refl by (metis fst_conv)

lemma steps_in_basic [effect_intros]:
  "steps_in p R (sret x)" "steps_in p R (sfail e)" "steps_in p R (slift q)"
  by (rule steps_in_same, simp add: sret_def sfail_def slift_def)+

lemma steps_in_bind [effect_intros]:
  assumes "steps_in p R m" and "\<And>x. steps_in p R (f x)"
  shows "steps_in p R (sbind m f)"
  unfolding steps_in_def
proof (intro allI impI)
  fix s t r assume b: "sbind m f s = (t, r)"
  obtain u q where m: "m s = (u, q)" by fastforce
  show "R (p s) (p t)"
    using b m steps_inD [OF assms(1) m] steps_inD [OF assms(2)] trans
    by (cases q) (auto simp: sbind_def)
qed

lemma steps_in_heap [effect_intros]:
  "steps_in in_world R (on_heap g)" "steps_in in_world R (allocate_value c)" "steps_in in_world R (write_heap u)"
  "steps_in in_world R (push_continue fr v)" "steps_in in_world R (console_log vs)"
  by (rule steps_in_same, simp add: on_heap_def allocate_value_def write_heap_def push_continue_def
      console_log_def sret_def split: prod.split sum.split)+

lemma steps_in_run_host:
  assumes "host_call host name args = Some f"
  shows "steps_in in_world R (run_host f)"
  unfolding steps_in_def
proof (intro allI impI)
  fix s t r assume run: "run_host f s = (t, r)"
  obtain w' q where f: "f (in_world s) = (w', q)" by fastforce
  with run have "in_world t = w'" by (auto simp: run_host_def split: sum.splits prod.splits)
  with host_step [OF assms f] show "R (in_world s) (in_world t)" by simp
qed

lemma steps_in_call_host [effect_intros]: "steps_in in_world R (call_host n host name args)"
  unfolding call_host_def
  by (intro effect_intros) (auto split: option.split intro!: effect_intros steps_in_run_host)

section \<open>Runs\<close>

lemma steps_in_instruction:
  assumes "\<And>name args. steps_in in_world R (call name args)"
  shows "steps_in in_world R (execute_instruction n call m i fr)"
  unfolding execute_instruction_def
  by (cases "ins_opcode i") (simp_all, (intro effect_intros assms)+)

lemma steps_in_instructions:
  assumes "\<And>name args. steps_in in_world R (call name args)"
  shows "steps_in in_world R (execute_instructions n call m is fr)"
proof (induction "is" arbitrary: fr)
  case (Cons i "is")
  show ?case
    unfolding execute_instructions.simps
    by (rule steps_in_bind [OF steps_in_instruction [OF assms]])
      (auto split: prod.split control_flow.split intro!: effect_intros Cons.IH)
qed (simp add: effect_intros)

lemma steps_in_blocks:
  assumes "\<And>name args. steps_in in_world R (call name args)"
  shows "steps_in in_world R (execute_blocks k n call m f b fr)"
proof (induction k arbitrary: b fr)
  case (Suc k)
  show ?case
    unfolding execute_blocks.simps
    by (intro steps_in_bind effect_intros steps_in_instructions [OF assms])
      (auto split: prod.split control_flow.split intro!: effect_intros Suc.IH)
qed (simp add: effect_intros)

lemma steps_in_function: "steps_in in_world R (call_function n m host name args)"
proof (induction n arbitrary: name args)
  case (Suc n)
  have body: "steps_in in_world R (execute_frame n (call_function n m host) m f fr)" for f fr
    unfolding execute_frame_def by (rule steps_in_blocks [OF Suc.IH])
  show ?case
    by (auto intro!: effect_intros body split: option.split)
qed (simp add: effect_intros)

lemma execute_effect:
  assumes "execute n m host w = (w', r)"
  shows "R w w'"
proof -
  obtain s q where c: "call_function n m host ''__entry'' [] (interp_new w) = (s, q)" by fastforce
  have "in_world s = w'" using assms c by (auto simp: execute_def split: sum.splits)
  with steps_inD [OF steps_in_function c] show ?thesis by (simp add: interp_new_def)
qed

section \<open>Page sessions\<close>

lemma steps_in_cached_source: "steps_in snd R (execute_cached_source order n source host msg)"
proof -
  have "steps_in snd R (lookup_prepared order source msg)"
    by (rule steps_in_same) (auto simp: lookup_prepared_def split: prod.split sum.split)
  moreover have "steps_in snd R (run_prepared n p host msg)" for p
  proof -
    have "R w (snd (fst (run_prepared n p host msg (s, w))))" for s w
      by (cases "execute n (pm_module p) host w")
        (auto simp: run_prepared_def prepared_execute_with_host_def dest: execute_effect split: sum.split)
    then show ?thesis unfolding steps_in_def by (metis fst_conv prod.collapse)
  qed
  ultimately show ?thesis unfolding execute_cached_source_def by (intro effect_intros)
qed

lemma steps_in_script: "steps_in snd R (execute_script order n url resources host script out)"
  by (auto simp: execute_script_def Let_def intro!: effect_intros steps_in_cached_source split: option.split)

lemma steps_in_scripts: "steps_in snd R (execute_scripts order n url resources host policy scripts out)"
  by (induction scripts arbitrary: out) (auto intro!: effect_intros steps_in_script)

lemma session_effect:
  "session_execute_scripts order n url html resources host policy (s, w) = ((s', w'), r) \<Longrightarrow> R w w'"
  unfolding session_execute_scripts_def using steps_inD [OF steps_in_scripts] by (metis snd_conv)

end

section \<open>Documents\<close>

text \<open>\<open>wrote d d'\<close>: the document \<open>d'\<close> is \<open>d\<close> after some texts were set.\<close>

definition wrote :: "document \<Rightarrow> document \<Rightarrow> bool" where
  "wrote d d' \<longleftrightarrow> (\<exists>updates. d' = fold (\<lambda>(selector, text). set_text selector text) updates d)"

lemma wrote_refl: "wrote d d"
  unfolding wrote_def by (intro exI [of _ "[]"]) simp

lemma wrote_trans: "wrote d d1 \<Longrightarrow> wrote d1 d2 \<Longrightarrow> wrote d d2"
  unfolding wrote_def by (metis fold_append comp_apply)

lemma wrote_set_text: "wrote d (set_text selector s d)"
  unfolding wrote_def by (intro exI [of _ "[(selector, s)]"]) simp

lemma bindings_host_call:
  "host_call (bindings_host b) name args = Some f \<Longrightarrow>
     f = fetch_text_function (bb_fetch b) args \<or> f = dom_set_text args \<or> f = dom_text args"
  by (auto simp: bindings_host_def host_call_with wf_intro split: if_splits)

interpretation page: host_effects "bindings_host b" wrote for b
proof
  show "wrote d d" for d by (rule wrote_refl)
  show "wrote d d1 \<Longrightarrow> wrote d1 d2 \<Longrightarrow> wrote d d2" for d d1 d2 by (rule wrote_trans)
  fix name args f d d' r
  assume "host_call (bindings_host b) name args = Some f" and f: "f d = (d', r)"
  from bindings_host_call [OF this(1)] f show "wrote d d'"
    by (auto simp: fetch_text_function_def dom_set_text_def dom_text_def sbind_def slift_def
        wrote_refl wrote_set_text split: sum.splits)
qed

text \<open>A host without functions cannot change its world.\<close>

interpretation bare: host_effects host_new "(=)"
  by unfold_locales (simp_all add: host_call_new)

lemma wrote_selectors:
  assumes "wrote d d'" and "bt_wf (doc_nodes d)"
  shows "bt_wf (doc_nodes d') \<and> (document_text d sel \<noteq> None \<longrightarrow> document_text d' sel \<noteq> None)"
proof -
  from assms(1) obtain us where d': "d' = fold (\<lambda>(selector, text). set_text selector text) us d"
    unfolding wrote_def by blast
  have "bt_wf (doc_nodes (fold (\<lambda>(selector, text). set_text selector text) us d)) \<and>
      (document_text d sel \<noteq> None \<longrightarrow>
       document_text (fold (\<lambda>(selector, text). set_text selector text) us d) sel \<noteq> None)"
    using assms(2)
  proof (induction us arbitrary: d)
    case (Cons u us)
    obtain k s where u: "u = (k, s)" by fastforce
    have "bt_wf (doc_nodes (set_text k s d))" using Cons.prems by (simp add: set_text_def bt_wf_insert)
    from Cons.IH [OF this] show ?case
      using Cons.prems by (auto simp: u set_text_def document_text_def bt.lookup_insert)
  qed simp
  with d' show ?thesis by simp
qed

text \<open>C11: scripts only write texts. However the scripts of a page end, and whatever the session holds,
  the document they leave is the one they found after a sequence of text updates, so no element
  disappears; the fetch functions never touch it.\<close>

theorem page_scripts_only_write:
  assumes "session_execute_scripts order n url html resources (bindings_host b) policy (s, d) = ((s', d'), r)"
    and "bt_wf (doc_nodes d)"
  shows "(\<exists>updates. d' = fold (\<lambda>(selector, text). set_text selector text) updates d) \<and>
    (\<forall>selector. document_text d selector \<noteq> None \<longrightarrow> document_text d' selector \<noteq> None)"
  using page.session_effect [OF assms(1)] wrote_selectors [OF _ assms(2)] unfolding wrote_def by blast

definition dom_page :: string where
  "dom_page = ''<script type=\"text/typescript\">domSetText(\"#app\", \"done\");</script>''"

theorem page_scripts_only_write_witness:
  "\<exists>s s' d' r. session_new 1 = Inr s \<and>
     session_execute_scripts (\<lambda>_ keys. keys) 5 ''/p'' dom_page []
       (bindings_host (bindings_new document_new (fetch_new ''https://a'' []))) policy_default
       (s, from_text_nodes [(''#app'', [])]) = ((s', d'), r) \<and>
     document_text d' ''#app'' \<noteq> None"
proof -
  let ?host = "bindings_host (bindings_new document_new (fetch_new ''https://a'' []))"
    and ?d = "from_text_nodes [(''#app'', [])]"
  obtain s where s: "session_new 1 = Inr s" by (simp add: session_new_def cache_new_def)
  obtain s' d' r where run: "session_execute_scripts (\<lambda>_ keys. keys) 5 ''/p'' dom_page [] ?host policy_default (s, ?d) =
      ((s', d'), r)" by (metis surj_pair)
  have "document_text ?d ''#app'' = Some []" "bt_wf (doc_nodes ?d)"
    by (simp_all add: from_text_nodes_def set_text_def document_new_def document_text_def bt_wf_def)
  with page_scripts_only_write [OF run] s run show ?thesis by auto
qed

section \<open>Fetching\<close>

lemma same_origin_path_Inr:
  "same_origin_path fs url = Inr path \<longleftrightarrow>
     starts_with path ''/'' \<and> (url = path \<or> \<not> starts_with url ''/'' \<and> url = fs_origin fs @ path)"
  by (auto simp: same_origin_path_def strip_prefix_def starts_with_iff split: if_splits)


text \<open>A run without host functions leaves the host's world alone, whatever it does and however it
  ends.\<close>

lemma no_host_no_effect: "fst (execute_source order n source w) = w"
proof (cases "from_source order source")
  case (Inr p)
  obtain w' r where run: "execute n (pm_module p) host_new w = (w', r)" by fastforce
  with bare.execute_effect [OF run] Inr show ?thesis
    by (simp add: execute_source_def execute_source_with_host_def sem_simps prepared_execute_with_host_def)
qed (simp add: execute_source_def execute_source_with_host_def sem_simps)

end
