(* ===== verification/Benchmarks.thy ===== *)
theory Benchmarks
  imports Web_Bindings
begin

text \<open>
  \<^verbatim>\<open>tools/benchmarks\<close>: the scenarios and the harness that runs them. The clock is the argument
  \<open>elapsed\<close>, the duration in nanoseconds that each sample of a scenario takes, and the texts of
  derived \<^verbatim>\<open>Debug\<close> implementations in error messages are the record \<open>debug_texts\<close>.
\<close>

section \<open>Scenarios and results\<close>

datatype benchmark_mode = Cold | CachedEntry | WarmEntry | WarmHandler

primrec mode_str :: "benchmark_mode \<Rightarrow> string" where
  "mode_str Cold = ''cold''"
| "mode_str CachedEntry = ''cached-entry''"
| "mode_str WarmEntry = ''warm-entry''"
| "mode_str WarmHandler = ''warm-handler''"

record benchmark_result =
  br_name :: string
  br_mode :: benchmark_mode
  br_iterations :: nat
  br_median_elapsed :: nat
  br_console_values :: nat
  br_cache_hits :: nat
  br_cache_misses :: nat

definition csv_row :: "benchmark_result \<Rightarrow> string" where
  "csv_row r = join_with '',''
     [br_name r, mode_str (br_mode r), show_nat (br_iterations r),
      show_nat (br_median_elapsed r div 1000), show_nat (br_console_values r),
      show_nat (br_cache_hits r), show_nat (br_cache_misses r)]"

definition csv_header :: string where
  "csv_header =
     ''name,mode,iterations,median_elapsed_micros,console_values,cache_hits,cache_misses''"

datatype benchmark_error =
  InvalidIterations
| BE_Execute execute_error
| BE_ScriptLoader script_loader_error
| Expectation string string string

text \<open>A failed benchmark; an \<^verbatim>\<open>expect\<close> or \<^verbatim>\<open>unreachable!\<close> that fails is \<open>Benchmark_Panic\<close>.\<close>

datatype benchmark_abort = Benchmark_Error benchmark_error | Benchmark_Panic | Benchmark_Out_of_fuel

definition lift_execute :: "abort + 'a \<Rightarrow> benchmark_abort + 'a" where
  "lift_execute r =
     (case r of
        Inr x \<Rightarrow> Inr x
      | Inl (Error e) \<Rightarrow> Inl (Benchmark_Error (BE_Execute e))
      | Inl Panic \<Rightarrow> Inl Benchmark_Panic
      | Inl Out_of_fuel \<Rightarrow> Inl Benchmark_Out_of_fuel)"

definition lift_loader :: "loader_abort + 'a \<Rightarrow> benchmark_abort + 'a" where
  "lift_loader r =
     (case r of
        Inr x \<Rightarrow> Inr x
      | Inl (Loader_Error e) \<Rightarrow> Inl (Benchmark_Error (BE_ScriptLoader e))
      | Inl Loader_Panic \<Rightarrow> Inl Benchmark_Panic
      | Inl Loader_Out_of_fuel \<Rightarrow> Inl Benchmark_Out_of_fuel)"

datatype host_fixture = Empty_Host | Browser_Host

record scenario_expectation =
  ex_console :: "js_value option"
  ex_document_text :: "string option"

record benchmark_scenario =
  sc_name :: string
  sc_mode :: benchmark_mode
  sc_host :: host_fixture
  sc_expectation :: scenario_expectation
  sc_source :: string

record debug_texts =
  db_value :: "js_value \<Rightarrow> string"
  db_values :: "js_value list \<Rightarrow> string"
  db_interop :: "interop_value \<Rightarrow> string"
  db_str :: "string \<Rightarrow> string"
  db_text :: "string option \<Rightarrow> string"

definition expectation_error :: "benchmark_scenario \<Rightarrow> string \<Rightarrow> string \<Rightarrow> benchmark_abort" where
  "expectation_error sc wanted actual = Benchmark_Error (Expectation (sc_name sc) wanted actual)"

text \<open>The derived equality of \<^verbatim>\<open>Value\<close>, by the equality of floats.\<close>

fun js_eq :: "js_value \<Rightarrow> js_value \<Rightarrow> bool"
and js_fields_eq :: "(string \<times> js_value) list \<Rightarrow> (string \<times> js_value) list \<Rightarrow> bool"
and js_list_eq :: "js_value list \<Rightarrow> js_value list \<Rightarrow> bool"
where
  "js_eq (V_Number x) (V_Number y) = f64_eq x y"
| "js_eq (V_String s) (V_String t) = (s = t)"
| "js_eq (V_Boolean a) (V_Boolean b) = (a = b)"
| "js_eq V_Null V_Null = True"
| "js_eq V_Undefined V_Undefined = True"
| "js_eq (V_Object fs) (V_Object gs) = js_fields_eq fs gs"
| "js_eq (V_Array vs) (V_Array ws) = js_list_eq vs ws"
| "js_eq _ _ = False"
| "js_fields_eq [] [] = True"
| "js_fields_eq ((k, v) # fs) ((l, w) # gs) = (k = l \<and> js_eq v w \<and> js_fields_eq fs gs)"
| "js_fields_eq _ _ = False"
| "js_list_eq [] [] = True"
| "js_list_eq (v # vs) (w # ws) = (js_eq v w \<and> js_list_eq vs ws)"
| "js_list_eq _ _ = False"

section \<open>One iteration\<close>

definition validate_entry_output ::
  "debug_texts \<Rightarrow> benchmark_scenario \<Rightarrow> execution_output \<Rightarrow> document option \<Rightarrow> benchmark_abort + nat" where
  "validate_entry_output debug sc output page =
     (case ex_console (sc_expectation sc) of
        None \<Rightarrow> Inl Benchmark_Panic
      | Some wanted \<Rightarrow>
          if \<not> js_list_eq (out_console output) [wanted]
          then Inl (expectation_error sc (''console ['' @ db_value debug wanted @ '']'')
                 (''console '' @ db_values debug (out_console output)))
          else
            (case ex_document_text (sc_expectation sc) of
               None \<Rightarrow> Inr (length (out_console output))
             | Some expected_text \<Rightarrow>
                 (case page of
                    None \<Rightarrow> Inl Benchmark_Panic
                  | Some d \<Rightarrow>
                      if document_text d ''#app'' \<noteq> Some expected_text
                      then Inl (expectation_error sc
                             (''document #app text '' @ db_str debug expected_text)
                             (''document #app text '' @ db_text debug (document_text d ''#app'')))
                      else Inr (length (out_console output)))))"

definition browser_bindings_fixture :: browser_bindings where
  "browser_bindings_fixture =
     bindings_new (from_text_nodes [(''#app'', [])])
       (fetch_new ''https://example.test'' [(''/message.txt'', ''hello from TSVM'')])"

text \<open>The handler scenario calls into a prepared module, with an empty host.\<close>

definition run_handler ::
  "debug_texts \<Rightarrow> nat \<Rightarrow> benchmark_scenario \<Rightarrow> prepared_module option \<Rightarrow> benchmark_abort + nat" where
  "run_handler debug n sc prepared =
     rbind (ok_or Benchmark_Panic prepared) (\<lambda>p.
     rbind (lift_execute (snd (prepared_call_function n p ''handleClick''
              [IV_Number (f64_of_decimal False 41 0)] host_new ()))) (\<lambda>v.
       if (case v of IV_Number x \<Rightarrow> f64_eq x (f64_of_decimal False 42 0) | _ \<Rightarrow> False) then Inr 0
       else Inl (expectation_error sc ''handler return value 42''
              (''handler return value '' @ db_interop debug v))))"

text \<open>The run of an entry scenario: its session, the document it leaves and its output.\<close>

definition run_entry ::
  "hash_order \<Rightarrow> nat \<Rightarrow> benchmark_scenario \<Rightarrow> prepared_module option \<Rightarrow> document host_environment \<Rightarrow>
   document \<Rightarrow> page_script_session option \<Rightarrow>
   page_script_session option \<times> (benchmark_abort + document \<times> execution_output)" where
  "run_entry order n sc prepared host d session =
     (case sc_mode sc of
        Cold \<Rightarrow>
          (case (if sc_host sc = Empty_Host then execute_source order n (sc_source sc) d
                 else execute_source_with_host order n (sc_source sc) host d) of
             (d', r) \<Rightarrow> (session, rbind (lift_execute r) (\<lambda>output. Inr (d', output))))
      | CachedEntry \<Rightarrow>
          (case session of
             None \<Rightarrow> (session, Inl Benchmark_Panic)
           | Some s \<Rightarrow>
               (case execute_inline_typescript order n (sc_source sc) host policy_default (s, d) of
                  ((s', d'), r) \<Rightarrow> (Some s', rbind (lift_loader r) (\<lambda>output. Inr (d', output)))))
      | WarmEntry \<Rightarrow>
          (case prepared of
             None \<Rightarrow> (session, Inl Benchmark_Panic)
           | Some p \<Rightarrow>
               (case prepared_execute_with_host n p host d of
                  (d', r) \<Rightarrow> (session, rbind (lift_execute r) (\<lambda>output. Inr (d', output)))))
      | WarmHandler \<Rightarrow> (session, Inl Benchmark_Panic))"

definition run_iteration ::
  "debug_texts \<Rightarrow> hash_order \<Rightarrow> nat \<Rightarrow> benchmark_scenario \<Rightarrow> prepared_module option \<Rightarrow>
   (page_script_session option, benchmark_abort, nat) sem" where
  "run_iteration debug order n sc prepared =
     (if sc_mode sc = WarmHandler then slift (run_handler debug n sc prepared)
      else
        (let bindings = (case sc_host sc of
                           Empty_Host \<Rightarrow> None | Browser_Host \<Rightarrow> Some browser_bindings_fixture);
             host = (case bindings of None \<Rightarrow> host_new | Some b \<Rightarrow> bindings_host b);
             d = (case bindings of None \<Rightarrow> document_new | Some b \<Rightarrow> bb_document b)
         in sbind (run_entry order n sc prepared host d) (\<lambda>(d', output).
            slift (validate_entry_output debug sc output (map_option (\<lambda>_. d') bindings)))))"

section \<open>Samples\<close>

definition MEASURED_SAMPLES :: nat where
  "MEASURED_SAMPLES = 5"

text \<open>The inner loop: \<open>k\<close> iterations left.\<close>

primrec run_iterations ::
  "(page_script_session option, benchmark_abort, nat) sem \<Rightarrow> nat \<Rightarrow> nat \<Rightarrow>
   (page_script_session option, benchmark_abort, nat) sem" where
  "run_iterations iteration 0 acc = sret acc"
| "run_iterations iteration (Suc k) acc =
     sbind iteration (\<lambda>v. run_iterations iteration k (acc + v))"

text \<open>The outer loop: \<open>k\<close> samples left, and what was measured so far.\<close>

primrec run_samples ::
  "benchmark_scenario \<Rightarrow> (page_script_session option, benchmark_abort, nat) sem \<Rightarrow> nat \<Rightarrow> (nat \<Rightarrow> nat) \<Rightarrow>
   nat \<Rightarrow> nat list \<Rightarrow> nat option \<Rightarrow>
   (page_script_session option, benchmark_abort, nat list \<times> nat option) sem" where
  "run_samples sc iteration iterations elapsed 0 samples console_values = sret (samples, console_values)"
| "run_samples sc iteration iterations elapsed (Suc k) samples console_values =
     sbind (run_iterations iteration iterations 0) (\<lambda>sample_console_values.
       let samples' = samples @ [elapsed (length samples)] in
       case console_values of
         Some wanted \<Rightarrow>
           if wanted \<noteq> sample_console_values
           then sfail (expectation_error sc (show_nat wanted @ '' console values per sample'')
                  (show_nat sample_console_values @ '' console values per sample''))
           else run_samples sc iteration iterations elapsed k samples' console_values
       | None \<Rightarrow> run_samples sc iteration iterations elapsed k samples' (Some sample_console_values))"

text \<open>\<^verbatim>\<open>samples[samples.len() / 2]\<close> of the sorted samples.\<close>

definition median_duration :: "nat list \<Rightarrow> benchmark_abort + nat" where
  "median_duration samples = ok_or Benchmark_Panic (nth_opt (sort samples) (length samples div 2))"

text \<open>What \<^verbatim>\<open>run_benchmark\<close> sets up: a prepared module for the warm modes, a session for the cached one.\<close>

definition prepared_for :: "hash_order \<Rightarrow> benchmark_scenario \<Rightarrow> benchmark_abort + prepared_module option" where
  "prepared_for order sc =
     (if sc_mode sc \<in> {WarmEntry, WarmHandler}
      then rbind (lift_execute (from_source order (sc_source sc))) (\<lambda>p. Inr (Some p))
      else Inr None)"

definition session_for :: "benchmark_scenario \<Rightarrow> benchmark_abort + page_script_session option" where
  "session_for sc =
     (if sc_mode sc = CachedEntry
      then (case session_new 1 of Inl _ \<Rightarrow> Inl Benchmark_Panic | Inr s \<Rightarrow> Inr (Some s))
      else Inr None)"

definition stats_of :: "page_script_session option \<Rightarrow> cache_statistics" where
  "stats_of session =
     (case session of
        None \<Rightarrow> \<lparr>st_hits = 0, st_misses = 0, st_evictions = 0, st_entries = 0\<rparr>
      | Some s \<Rightarrow> session_stats s)"

definition report_benchmark ::
  "benchmark_scenario \<Rightarrow> nat \<Rightarrow> page_script_session option \<Rightarrow> nat list \<Rightarrow> nat option \<Rightarrow>
   benchmark_abort + benchmark_result" where
  "report_benchmark sc iterations session samples console_values =
     rbind (median_duration samples) (\<lambda>median.
     rbind (ok_or Benchmark_Panic console_values) (\<lambda>count.
     Inr \<lparr>br_name = sc_name sc, br_mode = sc_mode sc, br_iterations = iterations,
          br_median_elapsed = median, br_console_values = count,
          br_cache_hits = st_hits (stats_of session), br_cache_misses = st_misses (stats_of session)\<rparr>))"

definition run_benchmark ::
  "debug_texts \<Rightarrow> hash_order \<Rightarrow> nat \<Rightarrow> (nat \<Rightarrow> nat) \<Rightarrow> nat \<Rightarrow> benchmark_scenario \<Rightarrow>
   benchmark_abort + benchmark_result" where
  "run_benchmark debug order n elapsed iterations sc =
     rbind (prepared_for order sc) (\<lambda>prepared.
     rbind (session_for sc) (\<lambda>session.
       let iteration = run_iteration debug order n sc prepared in
       case sbind iteration (\<lambda>_. run_samples sc iteration iterations elapsed MEASURED_SAMPLES [] None) session of
         (_, Inl e) \<Rightarrow> Inl e
       | (session', Inr (samples, console_values)) \<Rightarrow>
           report_benchmark sc iterations session' samples console_values))"

section \<open>The default scenarios\<close>

text \<open>A raw string that starts after its opening quote with a new line.\<close>

definition source_lines :: "string list \<Rightarrow> string" where
  "source_lines lines = newline @ concat (map (\<lambda>l. l @ newline) lines)"

definition PAGE_ENTRY_SOURCE :: string where
  "PAGE_ENTRY_SOURCE = source_lines
     [''interface Account {'', ''  id: number;'', ''  balance: number;'', ''}'', [],
      ''function credit(account: Account, amount: number): number {'',
      ''  account.balance += amount;'', ''  return account.balance;'', ''}'', [],
      ''const account: Account = {'', ''  id: 1,'', ''  balance: 100'', ''};'', [],
      ''console.log(credit(account, 50));'']"

definition HANDLER_SOURCE :: string where
  "HANDLER_SOURCE = source_lines
     [''function handleClick(current: number): number {'',
      ''  const state = { clicks: current };'', ''  state.clicks += 1;'',
      ''  return state.clicks;'', ''}'']"

definition dom_text_lines :: "string list" where
  "dom_text_lines = [''function domText(selector: string): string {'', ''  return \"\";'', ''}'', []]"

definition dom_set_text_lines :: "string list" where
  "dom_set_text_lines =
     [''function domSetText(selector: string, text: string): undefined {'', ''  return undefined;'', ''}'', []]"

definition fetch_text_lines :: "string list" where
  "fetch_text_lines = [''function fetchText(url: string): string {'', ''  return \"\";'', ''}'', []]"

definition DOM_BINDING_SOURCE :: string where
  "DOM_BINDING_SOURCE = source_lines
     (dom_text_lines @ dom_set_text_lines @
      [''domSetText(\"#app\", \"updated by TSVM\");'', ''console.log(domText(\"#app\"));''])"

definition FETCH_UPDATE_SOURCE :: string where
  "FETCH_UPDATE_SOURCE = source_lines
     (dom_text_lines @ dom_set_text_lines @ fetch_text_lines @
      [''domSetText(\"#app\", fetchText(\"/message.txt\"));'', ''console.log(domText(\"#app\"));''])"

definition scenarios :: "benchmark_scenario list" where
  "scenarios =
     (let balance = Some (V_Number (f64_of_decimal False 150 0)) in
      [\<lparr>sc_name = ''page-startup'', sc_mode = Cold, sc_host = Empty_Host,
        sc_expectation = \<lparr>ex_console = balance, ex_document_text = None\<rparr>,
        sc_source = PAGE_ENTRY_SOURCE\<rparr>,
       \<lparr>sc_name = ''cached-page-startup'', sc_mode = CachedEntry, sc_host = Empty_Host,
        sc_expectation = \<lparr>ex_console = balance, ex_document_text = None\<rparr>,
        sc_source = PAGE_ENTRY_SOURCE\<rparr>,
       \<lparr>sc_name = ''prepared-page-entry'', sc_mode = WarmEntry, sc_host = Empty_Host,
        sc_expectation = \<lparr>ex_console = balance, ex_document_text = None\<rparr>,
        sc_source = PAGE_ENTRY_SOURCE\<rparr>,
       \<lparr>sc_name = ''prepared-handler-dispatch'', sc_mode = WarmHandler, sc_host = Empty_Host,
        sc_expectation = \<lparr>ex_console = None, ex_document_text = None\<rparr>,
        sc_source = HANDLER_SOURCE\<rparr>,
       \<lparr>sc_name = ''dom-binding-update'', sc_mode = WarmEntry, sc_host = Browser_Host,
        sc_expectation = \<lparr>ex_console = Some (V_String ''updated by TSVM''),
                          ex_document_text = Some ''updated by TSVM''\<rparr>,
        sc_source = DOM_BINDING_SOURCE\<rparr>,
       \<lparr>sc_name = ''same-origin-fetch-update'', sc_mode = WarmEntry, sc_host = Browser_Host,
        sc_expectation = \<lparr>ex_console = Some (V_String ''hello from TSVM''),
                          ex_document_text = Some ''hello from TSVM''\<rparr>,
        sc_source = FETCH_UPDATE_SOURCE\<rparr>])"

text \<open>\<open>elapsed j k\<close>: the duration of sample \<open>k\<close> of scenario \<open>j\<close>.\<close>

definition run_default_benchmarks ::
  "debug_texts \<Rightarrow> hash_order \<Rightarrow> nat \<Rightarrow> (nat \<Rightarrow> nat \<Rightarrow> nat) \<Rightarrow> nat \<Rightarrow>
   benchmark_abort + benchmark_result list" where
  "run_default_benchmarks debug order n elapsed iterations =
     (if iterations = 0 then Inl (Benchmark_Error InvalidIterations)
      else rmap (\<lambda>(j, sc). run_benchmark debug order n (elapsed j) iterations sc) (enumerate 0 scenarios))"

section \<open>What a benchmark counts\<close>

text \<open>A session that has missed once, on the source of the scenario, and hit \<open>h\<close> times.\<close>

definition warm :: "benchmark_scenario \<Rightarrow> nat \<Rightarrow> page_script_session option \<Rightarrow> bool" where
  "warm sc h session \<longleftrightarrow>
     (if sc_mode sc = CachedEntry
      then \<exists>s. session = Some s \<and> bt_contains (pc_modules (ps_cache s)) (sc_source sc) \<and>
             pc_hits (ps_cache s) = h \<and> pc_misses (ps_cache s) = 1
      else session = None)"

definition entry_count :: "benchmark_scenario \<Rightarrow> nat" where
  "entry_count sc = (if sc_mode sc = WarmHandler then 0 else 1)"

lemma js_list_eq_length: "js_list_eq vs ws \<Longrightarrow> length vs = length ws"
proof (induction vs arbitrary: ws)
  case Nil
  then show ?case by (cases ws) auto
next
  case (Cons v vs)
  then show ?case by (cases ws) auto
qed

lemma validate_count: "validate_entry_output debug sc output page = Inr k \<Longrightarrow> k = 1"
  by (auto simp: validate_entry_output_def dest: js_list_eq_length split: option.splits if_splits)

lemma handler_count: "run_handler debug n sc prepared = Inr k \<Longrightarrow> k = 0"
  by (auto simp: run_handler_def rbind_eq_Inr split: if_splits)

text \<open>The first request of a fresh session misses, and keeps the module.\<close>

lemma first_request:
  assumes "session_new 1 = Inr s" and "lookup_prepared order src msg (s, w) = ((s', w'), Inr p)"
  shows "bt_contains (pc_modules (ps_cache s')) src \<and> pc_hits (ps_cache s') = 0 \<and> pc_misses (ps_cache s') = 1"
proof -
  have "s = \<lparr>ps_cache = \<lparr>pc_capacity = 1, pc_modules = [], pc_order = [], pc_hits = 0, pc_misses = 0,
      pc_evictions = 0\<rparr>\<rparr>"
    using assms(1) by (simp add: session_new_def cache_new_def)
  with assms(2) show ?thesis
    by (cases "from_source order src")
      (auto simp: lookup_prepared_def get_or_prepare_def bt_contains_def sbind_def evict_oldest_def
        insert_prepared_def Let_def)
qed

text \<open>Any later one hits.\<close>

lemma later_request:
  assumes "bt_contains (pc_modules (ps_cache s)) src"
    and "lookup_prepared order src msg (s, w) = ((s', w'), Inr p)"
  shows "pc_modules (ps_cache s') = pc_modules (ps_cache s) \<and>
    pc_hits (ps_cache s') = Suc (pc_hits (ps_cache s)) \<and> pc_misses (ps_cache s') = pc_misses (ps_cache s)"
  using assms by (auto simp: lookup_prepared_def get_or_prepare_def split: sum.splits)

lemma inline_lookup:
  assumes "execute_inline_typescript order n src host policy_default (s, w) = ((s', w'), Inr output)"
  obtains p w1 where "lookup_prepared order src inline_message (s, w) = ((s', w1), Inr p)"
proof -
  obtain s1 w1 q where l: "lookup_prepared order src inline_message (s, w) = ((s1, w1), q)"
    by (metis surj_pair)
  with assms show ?thesis
    by (cases q) (auto simp: execute_inline_typescript_def execute_cached_source_def sem_simps
        ensure_typescript_allowed_def policy_default_def run_prepared_def sbind_def slift_def
        intro: that split: sum.splits prod.splits)
qed

lemma entry_session:
  assumes "run_entry order n sc prepared host d session = (session', Inr x)"
  shows "if sc_mode sc = CachedEntry
    then \<exists>s s' w1 p. session = Some s \<and> session' = Some s' \<and>
      lookup_prepared order (sc_source sc) inline_message (s, d) = ((s', w1), Inr p)
    else session' = session"
proof (cases "sc_mode sc")
  case CachedEntry
  with assms obtain s s' d' out where "session = Some s" "session' = Some s'"
    "execute_inline_typescript order n (sc_source sc) host policy_default (s, d) = ((s', d'), Inr out)"
    by (auto simp: run_entry_def rbind_eq_Inr lift_loader_def split: option.splits prod.splits sum.splits
        loader_abort.splits)
  with CachedEntry show ?thesis by (auto elim: inline_lookup)
qed (use assms in \<open>auto simp: run_entry_def split: option.splits prod.splits\<close>)

lemma iteration_session:
  assumes "run_iteration debug order n sc prepared session = (session', Inr k)"
  shows "k = entry_count sc" and
    "if sc_mode sc = CachedEntry
     then \<exists>s s' (w :: document) w1 p. session = Some s \<and> session' = Some s' \<and>
       lookup_prepared order (sc_source sc) inline_message (s, w) = ((s', w1), Inr p)
     else session' = session"
proof -
  have both: "k = entry_count sc \<and> (if sc_mode sc = CachedEntry
     then \<exists>s s' (w :: document) w1 p. session = Some s \<and> session' = Some s' \<and>
       lookup_prepared order (sc_source sc) inline_message (s, w) = ((s', w1), Inr p)
     else session' = session)"
  proof (cases "sc_mode sc = WarmHandler")
    case True
    with assms show ?thesis
      by (auto simp: run_iteration_def slift_def entry_count_def dest: handler_count)
  next
    case False
    let ?b = "case sc_host sc of Empty_Host \<Rightarrow> None | Browser_Host \<Rightarrow> Some browser_bindings_fixture"
    let ?host = "case ?b of None \<Rightarrow> host_new | Some b \<Rightarrow> bindings_host b"
      and ?d = "case ?b of None \<Rightarrow> document_new | Some b \<Rightarrow> bb_document b"
    obtain session1 q where e: "run_entry order n sc prepared ?host ?d session = (session1, q)"
      by fastforce
    with assms False obtain d' out where q: "q = Inr (d', out)"
      and v: "validate_entry_output debug sc out (map_option (\<lambda>_. d') ?b) = Inr k" and s: "session' = session1"
      by (cases q) (auto simp: run_iteration_def Let_def sbind_def slift_def)
    note entry = entry_session [OF e [unfolded q]]
    have "k = entry_count sc" using validate_count [OF v] False by (simp add: entry_count_def)
    then show ?thesis
    proof (cases "sc_mode sc = CachedEntry")
      case True
      with entry s obtain s1 s2 w1 p where c: "session = Some s1" "session' = Some s2"
        and l: "lookup_prepared order (sc_source sc) inline_message (s1, ?d) = ((s2, w1), Inr p)"
        by auto
      have "\<exists>(w :: document) w1 p. lookup_prepared order (sc_source sc) inline_message (s1, w) = ((s2, w1), Inr p)"
        by (intro exI) (rule l)
      with True c \<open>k = entry_count sc\<close> show ?thesis by simp
    qed (use entry s in simp)
  qed
  then show "k = entry_count sc" by (rule conjunct1)
  show "if sc_mode sc = CachedEntry
     then \<exists>s s' (w :: document) w1 p. session = Some s \<and> session' = Some s' \<and>
       lookup_prepared order (sc_source sc) inline_message (s, w) = ((s', w1), Inr p)
     else session' = session"
    using both by (rule conjunct2)
qed

lemma iteration_warm:
  assumes "run_iteration debug order n sc prepared session = (session', Inr k)" and "warm sc h session"
  shows "k = entry_count sc \<and> warm sc (Suc h) session'"
  using iteration_session [OF assms(1)] assms(2) later_request
  by (fastforce simp: warm_def split: if_splits)

lemma iterations_warm:
  assumes "run_iterations (run_iteration debug order n sc prepared) k acc session = (session', Inr t)"
    and "warm sc h session"
  shows "t = acc + k * entry_count sc \<and> warm sc (h + k) session'"
  using assms
proof (induction k arbitrary: acc h session)
  case (Suc k)
  obtain session1 q where i: "run_iteration debug order n sc prepared session = (session1, q)" by fastforce
  with Suc.prems(1) obtain v where q: "q = Inr v" by (cases q) (auto simp: sbind_def)
  from iteration_warm [OF i [unfolded q] Suc.prems(2)] have "v = entry_count sc" "warm sc (Suc h) session1"
    by simp_all
  with Suc.IH [of "acc + v" session1 "Suc h"] Suc.prems(1) i q show ?case by (simp add: sbind_def)
qed (simp add: sret_def)

lemma samples_warm:
  assumes "run_samples sc (run_iteration debug order n sc prepared) iterations elapsed k samples cs session =
      (session', Inr (samples', cs'))"
    and "warm sc h session" and "\<forall>c. cs = Some c \<longrightarrow> c = iterations * entry_count sc"
  shows "warm sc (h + k * iterations) session' \<and>
    samples' = samples @ map elapsed [length samples..<length samples + k] \<and>
    (\<forall>c. cs' = Some c \<longrightarrow> c = iterations * entry_count sc)"
  using assms
proof (induction k arbitrary: samples cs h session)
  case (Suc k)
  let ?act = "run_iteration debug order n sc prepared"
  obtain session1 q where i: "run_iterations ?act iterations 0 session = (session1, q)" by fastforce
  with Suc.prems(1) obtain v where q: "q = Inr v" by (cases q) (auto simp: sbind_def)
  from iterations_warm [OF i [unfolded q] Suc.prems(2)]
  have v: "v = iterations * entry_count sc" and w: "warm sc (h + iterations) session1" by simp_all
  have rest: "run_samples sc ?act iterations elapsed k (samples @ [elapsed (length samples)]) (Some v) session1 =
      (session', Inr (samples', cs'))"
    using Suc.prems(1,3) i q v
    by (cases cs) (auto simp: sbind_def Let_def sfail_def split: if_splits)
  from Suc.IH [OF rest w] v show ?case
    by (simp add: upt_rec [of "length samples"] algebra_simps)
qed (simp add: sret_def)

lemma rmap_elements: "rmap f xs = Inr ys \<Longrightarrow> y \<in> set ys \<Longrightarrow> \<exists>x\<in>set xs. f x = Inr y"
  by (auto simp: rmap_Inr list_all2_conv_all_nth in_set_conv_nth) (metis nth_mem)

lemma median_sample: "median_duration (map f [0..<MEASURED_SAMPLES]) = Inr m \<Longrightarrow> m \<in> f ` {0..<5}"
  using nth_mem [of 2 "sort (map f [0..<5])"]
  by (auto simp: median_duration_def MEASURED_SAMPLES_def nth_opt_def)

lemma session_started:
  "session_for sc = Inr session \<Longrightarrow>
     if sc_mode sc = CachedEntry then \<exists>s. session = Some s \<and> session_new 1 = Inr s else session = None"
  by (auto simp: session_for_def split: sum.splits if_splits)

text \<open>One benchmark; the counters of its session are those of six requests and five samples.\<close>

lemma benchmark_row:
  assumes "run_benchmark debug order n elapsed iterations sc = Inr r"
  shows "br_name r = sc_name sc \<and> br_mode r = sc_mode sc \<and> br_iterations r = iterations \<and>
    br_console_values r = iterations * entry_count sc \<and> br_median_elapsed r \<in> elapsed ` {0..<5} \<and>
    br_cache_hits r = (if sc_mode sc = CachedEntry then 5 * iterations else 0) \<and>
    br_cache_misses r = (if sc_mode sc = CachedEntry then 1 else 0)"
proof -
  from assms obtain prepared session where session: "session_for sc = Inr session"
    and run: "(case sbind (run_iteration debug order n sc prepared) (\<lambda>_. run_samples sc
        (run_iteration debug order n sc prepared) iterations elapsed MEASURED_SAMPLES [] None) session of
         (_, Inl e) \<Rightarrow> Inl e
       | (session', Inr (samples, console_values)) \<Rightarrow>
           report_benchmark sc iterations session' samples console_values) = Inr r"
    unfolding run_benchmark_def rbind_eq_Inr Let_def by blast
  let ?act = "run_iteration debug order n sc prepared"
  obtain session1 q1 where i: "?act session = (session1, q1)" by fastforce
  with run obtain k where q1: "q1 = Inr k" by (cases q1) (auto simp: sbind_def)
  note step = iteration_session(2) [OF i [unfolded q1]]
  have w: "warm sc 0 session1"
  proof (cases "sc_mode sc = CachedEntry")
    case True
    with step session_started [OF session] obtain s s' p and w w1 :: document where "session1 = Some s'" "session_new 1 = Inr s"
      "lookup_prepared order (sc_source sc) inline_message (s, w) = ((s', w1), Inr p)" by auto
    with first_request [OF this(2,3)] True show ?thesis by (simp add: warm_def)
  qed (use step session_started [OF session] in \<open>simp add: warm_def\<close>)
  obtain session2 q2 where
    j: "run_samples sc ?act iterations elapsed MEASURED_SAMPLES [] None session1 = (session2, q2)" by fastforce
  with run i q1 obtain samples cs where q2: "q2 = Inr (samples, cs)" by (cases q2) (auto simp: sbind_def)
  from samples_warm [OF j [unfolded q2] w] have
    s: "warm sc (5 * iterations) session2" "samples = map elapsed [0..<MEASURED_SAMPLES]"
      "\<forall>c. cs = Some c \<longrightarrow> c = iterations * entry_count sc"
    by (simp_all add: MEASURED_SAMPLES_def)
  have "median_duration samples = Inr (br_median_elapsed r)" "cs = Some (br_console_values r)"
    "br_name r = sc_name sc" "br_mode r = sc_mode sc" "br_iterations r = iterations"
    "br_cache_hits r = (case session2 of None \<Rightarrow> 0 | Some s \<Rightarrow> pc_hits (ps_cache s))"
    "br_cache_misses r = (case session2 of None \<Rightarrow> 0 | Some s \<Rightarrow> pc_misses (ps_cache s))"
    using run i q1 j q2
    by (auto simp: sbind_def report_benchmark_def rbind_eq_Inr stats_of_def session_stats_def cache_stats_def
        split: option.splits)
  with s median_sample [of elapsed "br_median_elapsed r"] show ?thesis
    by (auto simp: warm_def split: if_splits)
qed

text \<open>C36: what a benchmark reports. A result is that of its scenario, with the iterations asked for, one
  console value for each iteration of an entry and none for a handler, and a median that is one of
  the five measured durations; the cached mode has prepared its source once and found it in the
  cache in each of its measured iterations, the others have no cache.\<close>

theorem benchmark_counts:
  assumes "run_benchmark debug order n elapsed iterations sc = Inr r"
  shows "br_name r = sc_name sc \<and> br_mode r = sc_mode sc \<and> br_iterations r = iterations \<and>
    br_console_values r = iterations * entry_count sc \<and> br_median_elapsed r \<in> elapsed ` {0..<5} \<and>
    br_cache_hits r = (if sc_mode sc = CachedEntry then 5 * iterations else 0) \<and>
    br_cache_misses r = (if sc_mode sc = CachedEntry then 1 else 0)"
  by (rule benchmark_row [OF assms])

definition sample_scenario :: benchmark_scenario where
  "sample_scenario = \<lparr>sc_name = ''sample'', sc_mode = CachedEntry, sc_host = Empty_Host,
     sc_expectation = \<lparr>ex_console = Some (V_String ''a''), ex_document_text = None\<rparr>,
     sc_source = ''console.log(\"a\");''\<rparr>"

definition plain_debug :: debug_texts where
  "plain_debug = \<lparr>db_value = \<lambda>_. [], db_values = \<lambda>_. [], db_interop = \<lambda>_. [], db_str = \<lambda>_. [], db_text = \<lambda>_. []\<rparr>"

theorem benchmark_counts_witness:
  "\<exists>r. run_benchmark plain_debug (\<lambda>_ keys. keys) 4 (\<lambda>k. 10 * (5 - k)) 1 sample_scenario = Inr r \<and>
     br_console_values r = 1 \<and> br_cache_hits r = 5 \<and> br_cache_misses r = 1"
proof -
  have "(case run_benchmark plain_debug (\<lambda>_ keys. keys) 4 (\<lambda>k. 10 * (5 - k)) 1 sample_scenario of
      Inl _ \<Rightarrow> False | Inr _ \<Rightarrow> True)"
    by code_simp
  then obtain r where "run_benchmark plain_debug (\<lambda>_ keys. keys) 4 (\<lambda>k. 10 * (5 - k)) 1 sample_scenario = Inr r"
    by (auto split: sum.splits)
  from benchmark_counts [OF this] this show ?thesis
    by (auto simp: sample_scenario_def entry_count_def)
qed

text \<open>So every row of a run of the default scenarios is one of theirs.\<close>

theorem benchmark_report:
  assumes "run_default_benchmarks debug order n elapsed iterations = Inr rows" and "r \<in> set rows"
  shows "\<exists>j sc. sc \<in> set scenarios \<and> br_name r = sc_name sc \<and> br_mode r = sc_mode sc \<and>
    br_iterations r = iterations \<and> br_console_values r = iterations * entry_count sc \<and>
    br_median_elapsed r \<in> elapsed j ` {0..<5} \<and>
    br_cache_hits r = (if sc_mode sc = CachedEntry then 5 * iterations else 0) \<and>
    br_cache_misses r = (if sc_mode sc = CachedEntry then 1 else 0)"
proof -
  from assms(1) have "rmap (\<lambda>(j, sc). run_benchmark debug order n (elapsed j) iterations sc)
      (enumerate 0 scenarios) = Inr rows"
    by (simp add: run_default_benchmarks_def split: if_splits)
  from rmap_elements [OF this assms(2)] obtain x where
    x: "x \<in> set (enumerate 0 scenarios)" "(\<lambda>(j, sc). run_benchmark debug order n (elapsed j) iterations sc) x = Inr r"
    by blast
  obtain j sc where jsc: "x = (j, sc)" by fastforce
  with x have m: "(j, sc) \<in> set (enumerate 0 scenarios)"
    and r: "run_benchmark debug order n (elapsed j) iterations sc = Inr r" by (simp_all only: prod.case)
  from m have "j < length scenarios" "scenarios ! j = sc" unfolding in_set_enumerate_eq by simp_all
  then have "sc \<in> set scenarios" using nth_mem by blast
  with benchmark_row [OF r] show ?thesis by (intro exI [of _ j] exI [of _ sc]) simp
qed

end
