(* ===== verification/Demo.thy ===== *)
theory Demo
  imports Benchmarks
begin

text \<open>
  \<^verbatim>\<open>tools/demo\<close>: the demonstration that runs the whole system and prints a report. The rows of its
  benchmark section are those of \<open>run_default_benchmarks\<close>, so the report has the same
  parameters. A failed \<^verbatim>\<open>expect\<close> is \<open>None\<close>.
\<close>

section \<open>Values\<close>

fun demo_value :: "js_value \<Rightarrow> string"
and demo_elements :: "js_value list \<Rightarrow> string list"
where
  "demo_value (V_Number x) = f64_to_string x"
| "demo_value (V_String s) = s"
| "demo_value (V_Boolean b) = show_bool b"
| "demo_value V_Null = ''null''"
| "demo_value V_Undefined = ''undefined''"
| "demo_value (V_Object fs) = ''[object Object]''"
| "demo_value (V_Array vs) = join_with '','' (demo_elements vs)"
| "demo_elements [] = []"
| "demo_elements (v # vs) = demo_value v # demo_elements vs"

definition demo_values :: "js_value list \<Rightarrow> string" where
  "demo_values vs = join_with '', '' (map demo_value vs)"

section \<open>The sections of the report\<close>

definition line :: "string \<Rightarrow> string" where
  "line s = s @ newline"

definition lines_of :: "string list \<Rightarrow> string" where
  "lines_of ls = concat (map line ls)"

definition yes_no :: "bool \<Rightarrow> string" where
  "yes_no b = (if b then ''yes'' else ''no'')"

definition INITIAL_DEMO :: string where
  "INITIAL_DEMO = source_lines
     [''interface Account {'', ''  id: number;'', ''  balance: number;'', ''}'', [],
      ''function credit(account: Account, amount: number): number {'',
      ''  account.balance += amount;'', ''  return account.balance;'', ''}'', [],
      ''const account: Account = {'', ''  id: 1,'', ''  balance: 100'', ''};'', [],
      ''console.log(credit(account, 50));'']"

definition DOM_FETCH_DEMO :: string where
  "DOM_FETCH_DEMO = source_lines
     (dom_set_text_lines @ dom_text_lines @ fetch_text_lines @
      [''domSetText(\"#app\", fetchText(\"/message.txt\"));'', ''console.log(domText(\"#app\"));''])"

definition CROSS_ORIGIN_DEMO :: string where
  "CROSS_ORIGIN_DEMO = source_lines
     (fetch_text_lines @ [''console.log(fetchText(\"https://evil.test/message.txt\"));''])"

text \<open>A run that must succeed.\<close>

definition succeeds :: "'w \<times> ('e + 'a) \<Rightarrow> ('w \<times> 'a) option" where
  "succeeds r = (case r of (w, Inl _) \<Rightarrow> None | (w, Inr x) \<Rightarrow> Some (w, x))"

definition render_initial_demo :: "hash_order \<Rightarrow> nat \<Rightarrow> string option" where
  "render_initial_demo order n =
     map_option (\<lambda>(_, execution).
       line ''Initial standalone TypeScript:'' @ trim INITIAL_DEMO @ newline @
       line (''Initial demo console: '' @ demo_values (out_console execution)) @ newline)
       (succeeds (execute_source order n INITIAL_DEMO ()))"

definition LOADER_HTML :: string where
  "LOADER_HTML =
     ''<script src=\"/legacy.js\"></script>'' @ newline @
     ''<script type=\"text/typescript\" src=\"/app.ts\"></script>''"

definition LOADER_RESOURCES :: sources where
  "LOADER_RESOURCES =
     [(''/app.ts'', ''const answer: number = 42;'' @ newline @ ''console.log(answer);'')]"

definition render_script_loader_demo :: "hash_order \<Rightarrow> nat \<Rightarrow> string option" where
  "render_script_loader_demo order n =
     map_option (\<lambda>(_, execution).
       lines_of [''Browser script-loader model:'',
         ''<script type=\"text/typescript\" src=\"/app.ts\"></script>'',
         ''Script loader console: '' @ demo_values (be_console execution),
         ''Generated JavaScript: '' @ yes_no (be_generated_javascript execution), []])
       (succeeds (execute_typescript_scripts order n ''/index.html'' LOADER_HTML LOADER_RESOURCES ()))"

definition render_dom_fetch_demo :: "hash_order \<Rightarrow> nat \<Rightarrow> string option" where
  "render_dom_fetch_demo order n =
     map_option (\<lambda>(d, execution).
       lines_of [''DOM/fetch host bindings:'',
         ''DOM #app after fetch: '' @ (case document_text d ''#app'' of None \<Rightarrow> [] | Some s \<Rightarrow> s),
         ''DOM/fetch console: '' @ demo_values (out_console execution), []])
       (succeeds (execute_source_with_host order n DOM_FETCH_DEMO
          (bindings_host browser_bindings_fixture) (bb_document browser_bindings_fixture)))"

definition cross_origin_bindings :: browser_bindings where
  "cross_origin_bindings =
     bindings_new (from_text_nodes [(''#app'', [])]) (fetch_new ''https://example.test'' [])"

definition render_cross_origin_demo :: "hash_order \<Rightarrow> nat \<Rightarrow> string" where
  "render_cross_origin_demo order n =
     (let blocked = succeeds (execute_source_with_host order n CROSS_ORIGIN_DEMO
                      (bindings_host cross_origin_bindings) (bb_document cross_origin_bindings)) = None
      in lines_of [''Cross-origin fetch: '' @ (if blocked then ''blocked'' else ''allowed''), []])"

definition render_benchmarks ::
  "debug_texts \<Rightarrow> hash_order \<Rightarrow> nat \<Rightarrow> (nat \<Rightarrow> nat \<Rightarrow> nat) \<Rightarrow> string option" where
  "render_benchmarks debug order n elapsed =
     (case run_default_benchmarks debug order n elapsed 3 of
        Inl _ \<Rightarrow> None
      | Inr rows \<Rightarrow> Some (lines_of (''Benchmark snapshot:'' # csv_header # map csv_row rows)))"

definition render_demo ::
  "debug_texts \<Rightarrow> hash_order \<Rightarrow> nat \<Rightarrow> (nat \<Rightarrow> nat \<Rightarrow> nat) \<Rightarrow> string option" where
  "render_demo debug order n elapsed =
     Option.bind (render_initial_demo order n) (\<lambda>initial.
     Option.bind (render_script_loader_demo order n) (\<lambda>loader.
     Option.bind (render_dom_fetch_demo order n) (\<lambda>dom.
     Option.bind (render_benchmarks debug order n elapsed) (\<lambda>benchmarks.
     Some (lines_of [''TSVM Demo'', ''========='', [], ''Pipeline proof:'',
        ''TypeScript -> Typed AST -> Semantic Analysis -> Typed IR -> Verified Bytecode -> TSVM'',
        ''Generated JavaScript: no'', []] @
      initial @ loader @ dom @ render_cross_origin_demo order n @ benchmarks)))))"

end
