(* ===== verification/Lexer_Corpus.thy ===== *)
theory Lexer_Corpus
  imports Lexer_Spec
begin

text \<open>
  \<^verbatim>\<open>runtime/lexer/src/bin/lexer_corpus_runner.rs\<close>: the runner that lexes a corpus of valid and
  invalid sources and their mutations. The file system is the record \<open>corpus_files\<close>, with the
  texts of its errors.
\<close>

section \<open>Mutations\<close>

record fuzz =
  fz_bytes :: string
  fz_state :: "64 word"

definition fuzz_start :: "string \<Rightarrow> fuzz" where
  "fuzz_start source =
     \<lparr>fz_bytes = source, fz_state = xor 0x5EED (word_of_nat (length source))\<rparr>"

definition next_state :: "64 word \<Rightarrow> 64 word" where
  "next_state state = state * 6364136223846793005 + 1"

text \<open>The byte that is flipped into another: \<^verbatim>\<open>((state >> 24) as u8).max(1)\<close>.\<close>

definition flip :: "64 word \<Rightarrow> nat" where
  "flip state = max 1 (unat (ucast (drop_bit 24 state) :: 8 word))"

definition flip_byte :: "nat \<Rightarrow> char \<Rightarrow> char" where
  "flip_byte m c = char_of (xor (byte c) m)"

text \<open>
  One turn of \<^verbatim>\<open>mutate_and_lex\<close> on a non-empty text; \<open>None\<close> is a panic, of the index or in the lexer.
  What lexing returns is dropped.
\<close>

definition mutate_step :: "fuzz \<Rightarrow> fuzz option" where
  "mutate_step z =
     (let state = next_state (fz_state z);
          index = unat state mod length (fz_bytes z)
      in case nth_opt (fz_bytes z) index of
           None \<Rightarrow> None
         | Some c \<Rightarrow>
             (let bytes = (fz_bytes z)[index := flip_byte (flip state) c]
              in if utf8_valid bytes \<and> lex bytes = Inl Lex_Panic then None
                 else Some \<lparr>fz_bytes = bytes, fz_state = state\<rparr>))"

primrec mutate_loop :: "nat \<Rightarrow> fuzz \<Rightarrow> fuzz option" where
  "mutate_loop 0 z = Some z"
| "mutate_loop (Suc n) z =
     (if fz_bytes z = [] then Some z else Option.bind (mutate_step z) (mutate_loop n))"

definition mutate_and_lex :: "string \<Rightarrow> unit option" where
  "mutate_and_lex source = map_option (\<lambda>_. ()) (mutate_loop 64 (fuzz_start source))"

lemma mutate_step_ok:
  assumes "fz_bytes z \<noteq> []"
  shows "\<exists>z'. mutate_step z = Some z' \<and> length (fz_bytes z') = length (fz_bytes z)"
proof -
  let ?i = "unat (next_state (fz_state z)) mod length (fz_bytes z)"
  have "?i < length (fz_bytes z)" using assms by simp
  moreover have "lex bytes \<noteq> Inl Lex_Panic" for bytes
    using lex_all_no_panic [of "lexer_new bytes" "[]"] by (simp add: lex_def)
  ultimately show ?thesis by (simp add: mutate_step_def Let_def nth_opt_def)
qed

lemma mutate_loop_ok: "\<exists>z'. mutate_loop n z = Some z' \<and> length (fz_bytes z') = length (fz_bytes z)"
proof (induction n arbitrary: z)
  case (Suc n)
  show ?case
  proof (cases "fz_bytes z = []")
    case False
    from mutate_step_ok [OF this] obtain z1 where
      "mutate_step z = Some z1" "length (fz_bytes z1) = length (fz_bytes z)" by blast
    with Suc [of z1] False show ?thesis by auto
  qed simp
qed simp

lemma mutate_and_lex_returns: "mutate_and_lex source = Some ()"
  using mutate_loop_ok [of 64 "fuzz_start source"] by (auto simp: mutate_and_lex_def)

section \<open>The corpus\<close>

text \<open>
  A directory's entries, each readable or an error, with whether it is a file; what a directory that
  is not there gives is never asked for.
\<close>

record corpus_files =
  cf_exists :: "string \<Rightarrow> bool"
  cf_read_dir :: "string \<Rightarrow> string + (string + string \<times> bool) list"
  cf_read :: "string \<Rightarrow> string + string"

datatype corpus_abort = Corpus_Error string | Corpus_Panic

definition with_path :: "string \<Rightarrow> string + 'a \<Rightarrow> corpus_abort + 'a" where
  "with_path path r = (case r of Inl err \<Rightarrow> Inl (Corpus_Error (path @ '': '' @ err)) | Inr x \<Rightarrow> Inr x)"

text \<open>The files of a directory, in the order of their names.\<close>

definition list_files :: "corpus_files \<Rightarrow> string \<Rightarrow> corpus_abort + string list" where
  "list_files fs root =
     (if \<not> cf_exists fs root then Inr []
      else
        rbind (with_path root (cf_read_dir fs root)) (\<lambda>entries.
        rbind (rmap (with_path root) entries) (\<lambda>paths.
        Inr (sort (map fst (filter snd paths))))))"

definition mutate_or_panic :: "string \<Rightarrow> corpus_abort + unit" where
  "mutate_or_panic source = ok_or Corpus_Panic (mutate_and_lex source)"

definition check_valid :: "corpus_files \<Rightarrow> string \<Rightarrow> corpus_abort + unit" where
  "check_valid fs path =
     rbind (with_path path (cf_read fs path)) (\<lambda>source.
       case lex source of
         Inl (Lex_Error err) \<Rightarrow>
           Inl (Corpus_Error (path @ '' should lex but failed: '' @ lex_error_message err))
       | Inl Lex_Panic \<Rightarrow> Inl Corpus_Panic
       | Inr _ \<Rightarrow> mutate_or_panic source)"

definition check_invalid :: "corpus_files \<Rightarrow> string \<Rightarrow> corpus_abort + unit" where
  "check_invalid fs path =
     rbind (with_path path (cf_read fs path)) (\<lambda>source.
       case lex source of
         Inr _ \<Rightarrow> Inl (Corpus_Error (path @ '' should fail but lexed successfully''))
       | Inl Lex_Panic \<Rightarrow> Inl Corpus_Panic
       | Inl (Lex_Error _) \<Rightarrow> mutate_or_panic source)"

text \<open>A loop over the files, stopped by the first error.\<close>

definition check_each :: "(string \<Rightarrow> corpus_abort + unit) \<Rightarrow> string list \<Rightarrow> corpus_abort + unit" where
  "check_each check paths = rbind (rmap check paths) (\<lambda>_. Inr ())"

text \<open>\<^verbatim>\<open>Path::join\<close> on a path with \<^verbatim>\<open>/\<close> as separator: none is added after one or to the empty path.\<close>

definition join_path :: "string \<Rightarrow> string \<Rightarrow> string" where
  "join_path root name =
     (if take 1 name = ''/'' then name
      else if root = [] \<or> last root = CHR ''/'' then root @ name
      else root @ ''/'' @ name)"

definition run_corpus :: "corpus_files \<Rightarrow> string \<Rightarrow> corpus_abort + unit" where
  "run_corpus fs root =
     rbind (list_files fs (join_path root ''valid'')) (\<lambda>valid.
     rbind (check_each (check_valid fs) valid) (\<lambda>_.
     rbind (list_files fs (join_path root ''invalid'')) (\<lambda>invalid.
     check_each (check_invalid fs) invalid)))"

section \<open>What a run says\<close>

lemma check_each_Inr: "check_each check paths = Inr () \<longleftrightarrow> (\<forall>p\<in>set paths. check p = Inr ())"
proof -
  have "(\<exists>us. rmap check paths = Inr us) \<longleftrightarrow> (\<forall>p\<in>set paths. check p = Inr ())"
    by (induction paths) (auto simp: rbind_eq_Inr)
  then show ?thesis by (simp add: check_each_def rbind_eq_Inr)
qed

lemma lex_no_panic: "lex source \<noteq> Inl Lex_Panic"
  using lex_all_no_panic [of "lexer_new source" "[]"] by (simp add: lex_def)

lemma check_valid_Inr:
  "check_valid fs path = Inr () \<longleftrightarrow> (\<exists>source tokens. cf_read fs path = Inr source \<and> lex source = Inr tokens)"
  using lex_no_panic
  by (auto simp: check_valid_def with_path_def mutate_or_panic_def mutate_and_lex_returns rbind_eq_Inr
      split: sum.splits lex_failure.splits)

lemma check_invalid_Inr:
  "check_invalid fs path = Inr () \<longleftrightarrow> (\<exists>source e. cf_read fs path = Inr source \<and> lex source = Inl e)"
  using lex_no_panic
  by (auto simp: check_invalid_def with_path_def mutate_or_panic_def mutate_and_lex_returns rbind_eq_Inr
      split: sum.splits lex_failure.splits)

lemma check_no_panic: "check_valid fs path \<noteq> Inl Corpus_Panic" "check_invalid fs path \<noteq> Inl Corpus_Panic"
  using lex_no_panic
  by (auto simp: check_valid_def check_invalid_def with_path_def mutate_or_panic_def mutate_and_lex_returns
      rbind_eq_Inl split: sum.splits lex_failure.splits)

lemma with_path_no_panic: "with_path path r \<noteq> Inl Corpus_Panic"
  by (simp add: with_path_def split: sum.split)

lemma list_files_no_panic: "list_files fs root \<noteq> Inl Corpus_Panic"
  by (auto simp: list_files_def rbind_eq_Inl with_path_no_panic dest: rmap_Inl)

text \<open>C34: the corpus runner succeeds exactly when the two directories can be listed, every file of
  \<^verbatim>\<open>valid\<close> can be read and lexes, and every file of \<^verbatim>\<open>invalid\<close> can be read and does not; otherwise
  it reports an error. The mutations it makes of every file never panic, in the lexer or in
  the runner, and never fail a run.\<close>

theorem corpus_exact:
  "(run_corpus fs root = Inr () \<longleftrightarrow>
     (\<exists>valid invalid. list_files fs (join_path root ''valid'') = Inr valid \<and>
        list_files fs (join_path root ''invalid'') = Inr invalid \<and>
        list_all (\<lambda>p. \<exists>source tokens. cf_read fs p = Inr source \<and> lex source = Inr tokens) valid \<and>
        list_all (\<lambda>p. \<exists>source e. cf_read fs p = Inr source \<and> lex source = Inl e) invalid)) \<and>
   run_corpus fs root \<noteq> Inl Corpus_Panic"
proof -
  have each: "check_each check paths \<noteq> Inl Corpus_Panic"
    if "\<And>p. check p \<noteq> Inl Corpus_Panic" for check paths
    using that by (auto simp: check_each_def rbind_eq_Inl dest: rmap_Inl)
  have "run_corpus fs root \<noteq> Inl Corpus_Panic"
    using list_files_no_panic each [OF check_no_panic(1)] each [OF check_no_panic(2)]
    by (auto simp: run_corpus_def rbind_eq_Inl)
  then show ?thesis
    by (auto simp: run_corpus_def rbind_eq_Inr check_each_Inr check_valid_Inr check_invalid_Inr list_all_iff)
qed

end
