(* ===== verification/Spec2Isabelle.thy ===== *)
theory Spec2Isabelle
  imports Codec Module_Cache Runtime_Heap Program_Runs Module_Graph Semantic_Programs Web_Bindings
    Source_Termination Pipeline_Facts Page_Sessions C_Api_Json C_Api_Memory Page_Effects Demo Lexer_Corpus
begin

text \<open>
  A verification development of TSVM, a virtual machine that runs a subset of TypeScript without
  generating JavaScript: source text is lexed, parsed, type checked, lowered to a typed intermediate
  representation, compiled to bytecode, verified and interpreted.

  The program and the theories. Paths are under \<^verbatim>\<open>src/\<close>; definitions keep the names of the code,
  with a suffix or prefix where HOL uses the name.

  \<^item> Shared base. \<open>Prelude\<close>: the result monad \<open>'e + 'a\<close> (\<open>rbind\<close> is \<^verbatim>\<open>?\<close>) and the state and result
    monad \<open>sem\<close> of code behind \<^verbatim>\<open>&mut self\<close>, with their rules. \<open>Rust_Text\<close>, \<open>Btree_Map\<close>,
    \<open>Float64\<close>: what the code uses of strings, \<^verbatim>\<open>BTreeMap\<close> and \<^verbatim>\<open>f64\<close>; a string is its UTF-8 bytes.
  \<^item> Front end. \<open>Tokens\<close>, \<open>Lexer\<close> (\<^verbatim>\<open>runtime/lexer\<close>), \<open>Ast\<close> (\<^verbatim>\<open>runtime/ast\<close>), \<open>Diagnostics\<close>, \<open>Parser\<close>
    (\<^verbatim>\<open>runtime/parser\<close>), \<open>Semantic\<close> (\<^verbatim>\<open>runtime/semantic\<close>). \<open>Lexer_Spec\<close>: lexing refines the lexical
    grammar. \<open>Parser_Total\<close>: parsing is total and reaches no panic. \<open>Semantic_Typing\<close> and
    \<open>Semantic_Programs\<close>: the analyzer is silent exactly on the programs of a declarative type system,
    whatever the enumeration order of its hash maps.
  \<^item> Middle. \<open>Ir\<close> (\<^verbatim>\<open>runtime/ir\<close>), \<open>Compiler\<close> (\<^verbatim>\<open>Compiler\<close> of \<^verbatim>\<open>runtime/bytecode\<close>), \<open>Bytecode\<close> (its data),
    \<open>Codec\<close> (its binary form), \<open>Verifier\<close> (its \<^verbatim>\<open>Verifier\<close>).
  \<^item> Back end. \<open>Heap\<close> (\<^verbatim>\<open>runtime/heap\<close>) and \<open>Runtime_Heap\<close>, \<open>Interop\<close> (\<^verbatim>\<open>runtime/interop\<close>), \<open>Interpreter\<close>
    and \<open>Module_Cache\<close> (\<^verbatim>\<open>runtime/interpreter\<close>). \<open>Interpreter_Safety\<close> and \<open>Static_Errors\<close>: accepted modules
    meet errors of the host, of their values, and four static ones, each only with a defect the
    verifier does not check. \<open>Interpreter_Fuel\<close>: more fuel never changes a result, and what makes a
    run end. \<open>Program_Runs\<close>: these for whole runs, and where verifier and interpreter disagree.
  \<^item> The pipeline. \<open>Pipeline\<close>: the entry points from source text. \<open>Source_Semantics\<close>: a reference
    semantics on the syntax tree, for straight-line programs. \<open>Compiled_Code\<close>, \<open>Simulation\<close>,
    \<open>Compiler_Correct\<close>, \<open>Compiled_Verified\<close>: lowering and compilation preserve it and the verifier
    accepts the result. \<open>Pipeline_Correct\<close>: the theorem for the entry points. \<open>Source_Termination\<close>:
    a class of programs that always end. \<open>Pipeline_Facts\<close>: runs of programs outside the fragment, which
    show why they are outside.
  \<^item> Modules and pages. \<open>Modules\<close> (\<^verbatim>\<open>runtime/modules\<close>) with \<open>Module_Graph\<close>, its correctness against the import
    relation. \<open>Script_Loader\<close> (\<^verbatim>\<open>browser/script-loader\<close>) with \<open>Page_Sessions\<close>: sessions are transparent
    caches. \<open>Web_Bindings\<close> (\<^verbatim>\<open>web-bindings/dom-fetch\<close>) with \<open>Page_Effects\<close>: scripts only write texts, and
    fetch only what is theirs.
  \<^item> Boundary and tools. \<open>C_Api\<close> (\<^verbatim>\<open>runtime/c-api\<close>) with \<open>C_Api_Json\<close> and \<open>C_Api_Memory\<close>: what is
    printed reads back, and who owns what. \<open>Benchmarks\<close> and \<open>Demo\<close> (\<^verbatim>\<open>tools/\<close>), \<open>Lexer_Corpus\<close> (the
    corpus runner of the lexer).

  State. The lexer, parser, analyzer, lowerer, compiler, interpreter and graph builder are records that
  their operations pass on. The interpreter's state is its heap, its console and the world of the
  host, of any type \<open>'w\<close>: a host function is a step on it, so the document that Rust shares between
  closures is the world of the page bindings. The C interface has an explicit memory of boxed
  results and sessions.

  Interfaces. The locale \<open>map_ops\<close> is what the clients of ordered maps use, \<open>tracing\<close> what the collector
  asks of a \<^verbatim>\<open>Trace\<close> (interpreted for the runtime's values), \<open>decoder\<close> and \<open>codec\<close> what each reader and
  writer of the binary format promises its callers, \<open>host_effects\<close> what the interpreter keeps of a
  relation that the host functions keep (interpreted for documents and for the empty host).

  Errors are values. An error of the code is in a sum type; a Rust panic (an index out of range, a
  failed \<^verbatim>\<open>expect\<close>, \<^verbatim>\<open>unreachable!\<close>) is a result of its own, so that its absence can be proved.

  Bounds and fuel. Marking is a \<open>while_option\<close> proved to end for every \<^verbatim>\<open>Trace\<close>. The parser's fuel is
  computed from the tokens and the graph search's from the sources; both are proved to be always
  enough. The interpreter may run forever, so its fuel is an argument: \<open>Interpreter_Fuel\<close> proves that
  a result reached with some fuel is the result with any more, and there is no result that
  depends on it; \<open>leaf_source_ends\<close> and \<open>forward_function_terminates\<close> say how much is enough for
  two classes of programs, and \<open>cyclic_result_never_returns\<close> that no amount is for a third. Stack
  depth and the memory of the machine are not bounded. Handles, operands and generations are 32-bit
  words that wrap; theorems that need a slot table within 32 bits say so.

  Parameters. The enumeration order of hash maps, the texts of derived \<^verbatim>\<open>Debug\<close> implementations in the C
  interface and in benchmark errors, the durations that benchmarks measure, and the file system of
  the corpus runner.

  Not modelled. The \<^verbatim>\<open>main\<close> functions of the three tools, which read an argument, print and set an
  exit code; \<^verbatim>\<open>security/hardening\<close>, which holds a comment; tests and the code of other languages. The demonstration
  and the default benchmarks are modelled, but their fixed programs are too long to be run in the
  kernel, so the theorems about them are those of the components.
\<close>

end
